(* ===== verification/Js_Prelude.thy ===== *)
theory Js_Prelude
  imports Main "HOL-Library.AList" "HOL-Library.Multiset" "HOL-Library.Sublist"
begin

text \<open>
  What every component of the client uses of TypeScript and its standard library.

  \<^item> Text. A JavaScript string is a list of UTF-16 code units. Names, addresses, subjects
    and identifiers are modelled as \<open>string\<close>, one \<open>char\<close> per code unit, which covers the
    code units below 256 exactly (the lower-casing and the white space below are those of
    ECMAScript on that range). The codec theories, where wider code units matter, use lists
    of 16-bit words instead.
  \<^item> Objects used as dictionaries (\<open>Record<string, V>\<close>): association lists in insertion
    order with distinct keys. \<open>{ ...o, [k]: v }\<close> keeps the place of an old key and appends
    a new one, which is \<^verbatim>\<open>AList.update\<close>; \<open>delete\<close> is \<^verbatim>\<open>AList.delete\<close>. (JavaScript
    lists keys that spell an array index first; the keys of this program are message ids and
    addresses, which do not.)
  \<^item> \<open>Array.prototype.sort\<close>: a stable sort by a comparator.
  \<^item> Exceptions: a sum, \<open>Inl\<close> for what was thrown.
\<close>

named_theorems obj_simps "lookups in dictionaries after an update or a deletion"

subsection \<open>Results\<close>

type_synonym ('e, 'a) result = "'e + 'a"

subsection \<open>Text\<close>

definition code_unit :: "char \<Rightarrow> nat" where
  "code_unit c = of_char c"

definition js_space :: "char \<Rightarrow> bool" where
  "js_space c \<longleftrightarrow> code_unit c \<in> {9, 10, 11, 12, 13, 32, 160}"

definition js_trim :: "string \<Rightarrow> string" where
  "js_trim s = rev (dropWhile js_space (rev (dropWhile js_space s)))"

text \<open>\<open>toLowerCase\<close> on the code units below 256: A to Z, and the accented capitals (the
  multiplication sign sits among them and has no case).\<close>

definition js_lower_char :: "char \<Rightarrow> char" where
  "js_lower_char c = (let n = code_unit c in
     if (65 \<le> n \<and> n \<le> 90) \<or> (192 \<le> n \<and> n \<le> 222 \<and> n \<noteq> 215) then char_of (n + 32) else c)"

definition js_lower :: "string \<Rightarrow> string" where
  "js_lower s = map js_lower_char s"

text \<open>\<open>email.trim().toLowerCase()\<close>, written out as \<open>canonical\<close> in five modules.\<close>

definition canonical :: "string \<Rightarrow> string" where
  "canonical s = js_lower (js_trim s)"

fun js_join :: "'a list \<Rightarrow> 'a list list \<Rightarrow> 'a list" where
  "js_join sep [] = []"
| "js_join sep [x] = x"
| "js_join sep (x # y # xs) = x @ sep @ js_join sep (y # xs)"

fun js_index_of :: "'a list \<Rightarrow> 'a list \<Rightarrow> nat option" where
  "js_index_of [] needle = (if needle = [] then Some 0 else None)"
| "js_index_of (c # cs) needle =
     (if prefix needle (c # cs) then Some 0 else map_option Suc (js_index_of cs needle))"

definition js_includes :: "'a list \<Rightarrow> 'a list \<Rightarrow> bool" where
  "js_includes hay needle \<longleftrightarrow> js_index_of hay needle \<noteq> None"

text \<open>\<open>a < b\<close> on strings compares code units, first difference decides.\<close>

fun str_cmp :: "string \<Rightarrow> string \<Rightarrow> int" where
  "str_cmp [] [] = 0"
| "str_cmp [] (y # ys) = -1"
| "str_cmp (x # xs) [] = 1"
| "str_cmp (x # xs) (y # ys) =
     (if code_unit x < code_unit y then -1
      else if code_unit y < code_unit x then 1
      else str_cmp xs ys)"

definition str_le :: "string \<Rightarrow> string \<Rightarrow> bool" where
  "str_le a b \<longleftrightarrow> str_cmp a b \<le> 0"

definition str_less :: "string \<Rightarrow> string \<Rightarrow> bool" where
  "str_less a b \<longleftrightarrow> str_cmp a b < 0"

lemma code_unit_inject [simp]: "code_unit a = code_unit b \<longleftrightarrow> a = b"
  by (simp add: code_unit_def)

lemma dropWhile_rev_dropWhile:
  "dropWhile P (rev (dropWhile P (rev (dropWhile P xs)))) = rev (dropWhile P (rev (dropWhile P xs)))"
proof (cases "\<forall>x \<in> set xs. P x")
  case True
  then have nil: "dropWhile P xs = []" by (simp add: dropWhile_eq_Nil_conv)
  show ?thesis unfolding nil by simp
next
  case False
  then obtain y ys where ys: "dropWhile P xs = y # ys" and "\<not> P y"
    by (metis dropWhile_eq_Nil_conv hd_dropWhile neq_Nil_conv list.sel(1))
  have "dropWhile P (zs @ [y]) = dropWhile P zs @ [y]" for zs
    using \<open>\<not> P y\<close> by (induction zs) auto
  with ys \<open>\<not> P y\<close> show ?thesis by simp
qed

lemma js_trim_idem [simp]: "js_trim (js_trim s) = js_trim s"
  by (simp add: js_trim_def dropWhile_rev_dropWhile)

lemma js_lower_Nil [simp]: "js_lower [] = []" and js_trim_Nil [simp]: "js_trim [] = []"
  by (simp_all add: js_lower_def js_trim_def)

lemma js_lower_length [simp]: "length (js_lower s) = length s"
  by (simp add: js_lower_def)

lemma code_unit_less_256: "code_unit c < 256"
  by (simp add: code_unit_def)

lemma js_lower_char_unit:
  "code_unit (js_lower_char c) =
    (if (65 \<le> code_unit c \<and> code_unit c \<le> 90) \<or> (192 \<le> code_unit c \<and> code_unit c \<le> 222 \<and> code_unit c \<noteq> 215)
     then code_unit c + 32 else code_unit c)"
  by (auto simp: js_lower_char_def code_unit_def Let_def)

lemma js_lower_char_idem [simp]: "js_lower_char (js_lower_char c) = js_lower_char c"
  by (subst js_lower_char_def) (auto simp: Let_def js_lower_char_unit split: if_splits)

lemma js_lower_idem [simp]: "js_lower (js_lower s) = js_lower s"
  by (simp add: js_lower_def o_def)

lemma js_space_lower [simp]: "js_space (js_lower_char c) = js_space c"
  by (auto simp: js_space_def js_lower_char_unit)

lemma js_trim_lower: "js_trim (js_lower s) = js_lower (js_trim s)"
  by (simp add: js_trim_def js_lower_def dropWhile_map rev_map o_def)

lemma canonical_idem [simp]: "canonical (canonical s) = canonical s"
  by (simp add: canonical_def js_trim_lower)

lemma js_index_of_append_left: "js_index_of (needle @ rest) needle = Some 0"
  by (cases "needle @ rest") (auto, metis prefixI)

lemma js_index_of_Some:
  "js_index_of hay needle = Some i \<Longrightarrow> i \<le> length hay \<and> prefix needle (drop i hay)"
  by (induction hay needle arbitrary: i rule: js_index_of.induct)
     (auto split: if_splits)

lemma js_index_of_None_iff: "js_index_of hay needle = None \<longleftrightarrow> \<not> sublist needle hay"
  by (induction hay needle rule: js_index_of.induct) (auto simp: sublist_Cons_right)

lemma js_includes_sublist: "js_includes hay needle \<longleftrightarrow> sublist needle hay"
  using js_index_of_None_iff [of hay needle] by (auto simp: js_includes_def)

subsection \<open>String order\<close>

lemma str_cmp_refl [simp]: "str_cmp a a = 0"
  by (induction a) auto

lemma str_cmp_swap: "str_cmp b a = - str_cmp a b"
  by (induction a b rule: str_cmp.induct) auto

lemma str_cmp_eq_0 [simp]: "str_cmp a b = 0 \<longleftrightarrow> a = b"
  by (induction a b rule: str_cmp.induct) (auto simp: not_less dest: antisym)

lemma str_cmp_trans: "str_cmp a b \<le> 0 \<Longrightarrow> str_cmp b c \<le> 0 \<Longrightarrow> str_cmp a c \<le> 0"
proof (induction a b arbitrary: c rule: str_cmp.induct)
  case (1 c) then show ?case by (cases c) auto
next
  case (2 y ys) then show ?case by (cases c) auto
next
  case (3 x xs) then show ?case by simp
next
  case (4 x xs y ys)
  show ?case
  proof (cases c)
    case Nil
    with 4 show ?thesis by simp
  next
    case (Cons z zs)
    consider "code_unit x < code_unit y" | "x = y"
      using 4(2) by (force split: if_splits simp: not_less dest: antisym)
    then show ?thesis
    proof cases
      case 1
      then have "code_unit x < code_unit z" using 4(3) Cons by (auto split: if_splits)
      then show ?thesis using Cons by simp
    next
      case 2
      then show ?thesis using 4 Cons by (auto split: if_splits)
    qed
  qed
qed

lemma str_le_refl [simp]: "str_le a a"
  by (simp add: str_le_def)

lemma str_le_total: "str_le a b \<or> str_le b a"
  by (auto simp: str_le_def str_cmp_swap [of b a])

lemma str_le_antisym: "str_le a b \<Longrightarrow> str_le b a \<Longrightarrow> a = b"
  using str_cmp_swap [of b a] str_cmp_eq_0 [of a b] by (simp add: str_le_def)

lemma str_le_trans: "str_le a b \<Longrightarrow> str_le b c \<Longrightarrow> str_le a c"
  unfolding str_le_def by (rule str_cmp_trans)

lemma str_less_le_not_le: "str_less a b \<longleftrightarrow> \<not> str_le b a"
  by (auto simp: str_less_def str_le_def str_cmp_swap [of b a])

subsection \<open>Dictionaries\<close>

type_synonym 'v obj = "(string \<times> 'v) list"

abbreviation obj_get :: "'v obj \<Rightarrow> string \<Rightarrow> 'v option" where
  "obj_get o' k \<equiv> map_of o' k"

abbreviation obj_set :: "'v obj \<Rightarrow> string \<Rightarrow> 'v \<Rightarrow> 'v obj" where
  "obj_set o' k v \<equiv> AList.update k v o'"

abbreviation obj_del :: "'v obj \<Rightarrow> string \<Rightarrow> 'v obj" where
  "obj_del o' k \<equiv> AList.delete k o'"

abbreviation obj_keys :: "'v obj \<Rightarrow> string list" where
  "obj_keys o' \<equiv> map fst o'"

abbreviation obj_values :: "'v obj \<Rightarrow> 'v list" where
  "obj_values o' \<equiv> map snd o'"

definition obj_ok :: "'v obj \<Rightarrow> bool" where
  "obj_ok o' \<longleftrightarrow> distinct (obj_keys o')"

lemma obj_get_set [obj_simps]: "obj_get (obj_set o' k v) k' = (if k' = k then Some v else obj_get o' k')"
  by (simp add: update_conv')

lemma obj_get_del [obj_simps]: "obj_get (obj_del o' k) k' = (if k' = k then None else obj_get o' k')"
  by (simp add: delete_conv')

lemma obj_ok_Nil [simp]: "obj_ok []"
  by (simp add: obj_ok_def)

lemma obj_ok_set [simp]: "obj_ok o' \<Longrightarrow> obj_ok (obj_set o' k v)"
  by (simp add: obj_ok_def distinct_update)

lemma obj_ok_del [simp]: "obj_ok o' \<Longrightarrow> obj_ok (obj_del o' k)"
  by (simp add: obj_ok_def distinct_delete)

lemma obj_get_eq_Some_iff: "obj_ok o' \<Longrightarrow> obj_get o' k = Some v \<longleftrightarrow> (k, v) \<in> set o'"
  by (simp add: obj_ok_def)

lemma obj_get_in_values: "obj_get o' k = Some v \<Longrightarrow> v \<in> set (obj_values o')"
  by (force dest: map_of_SomeD)

lemma obj_values_get: "obj_ok o' \<Longrightarrow> v \<in> set (obj_values o') \<Longrightarrow> \<exists>k. obj_get o' k = Some v"
  by (force simp: obj_ok_def)

subsection \<open>Sorting\<close>

text \<open>\<open>xs.sort(cmp)\<close> is stable: of two elements that compare equal the earlier stays first.\<close>

fun js_insert :: "('a \<Rightarrow> 'a \<Rightarrow> int) \<Rightarrow> 'a \<Rightarrow> 'a list \<Rightarrow> 'a list" where
  "js_insert cmp x [] = [x]"
| "js_insert cmp x (y # ys) = (if cmp x y \<le> 0 then x # y # ys else y # js_insert cmp x ys)"

definition js_sort :: "('a \<Rightarrow> 'a \<Rightarrow> int) \<Rightarrow> 'a list \<Rightarrow> 'a list" where
  "js_sort cmp xs = foldr (js_insert cmp) xs []"

lemma js_sort_Nil [simp]: "js_sort cmp [] = []"
  and js_sort_Cons: "js_sort cmp (x # xs) = js_insert cmp x (js_sort cmp xs)"
  by (simp_all add: js_sort_def)

lemma mset_js_insert [simp]: "mset (js_insert cmp x ys) = add_mset x (mset ys)"
  by (induction ys) auto

lemma mset_js_sort [simp]: "mset (js_sort cmp xs) = mset xs"
  by (induction xs) (auto simp: js_sort_Cons)

lemma set_js_insert [simp]: "set (js_insert cmp x ys) = insert x (set ys)"
  by (induction ys) auto

lemma set_js_sort [simp]: "set (js_sort cmp xs) = set xs"
  by (metis mset_js_sort set_mset_mset)

lemma length_js_sort [simp]: "length (js_sort cmp xs) = length xs"
  by (metis mset_js_sort size_mset)

lemma distinct_js_sort [simp]: "distinct (js_sort cmp xs) = distinct xs"
  by (metis mset_js_sort mset_eq_imp_distinct_iff)

lemma distinct_map_js_sort [simp]: "distinct (map f (js_sort cmp xs)) = distinct (map f xs)"
  by (metis mset_js_sort mset_map mset_eq_imp_distinct_iff)

lemma js_sort_eq_Nil [simp]: "js_sort cmp xs = [] \<longleftrightarrow> xs = []"
  by (metis length_js_sort length_0_conv)

text \<open>The contract a comparator has to meet for the sort to mean anything: its sign flips
  when its arguments are swapped, and it is transitive. \<open>localeCompare\<close> is specified to meet
  it; the order it gives depends on the locale and is a parameter (\<open>lc\<close>) of the model.\<close>

locale comparator =
  fixes cmp :: "'a \<Rightarrow> 'a \<Rightarrow> int"
  assumes cmp_swap: "sgn (cmp b a) = - sgn (cmp a b)"
    and cmp_trans: "cmp a b \<le> 0 \<Longrightarrow> cmp b c \<le> 0 \<Longrightarrow> cmp a c \<le> 0"
begin

lemma cmp_refl: "cmp a a = 0"
  using cmp_swap [of a a] by (simp add: sgn_if split: if_splits)

lemma cmp_gt_le: "0 < cmp a b \<Longrightarrow> cmp b a \<le> 0"
  using cmp_swap [of b a] by (auto simp: sgn_if split: if_splits)

lemma cmp_eq_swap: "cmp a b = 0 \<Longrightarrow> cmp b a = 0"
  using cmp_swap [of b a] by (auto simp: sgn_if split: if_splits)

lemma insert_sorted:
  "sorted_wrt (\<lambda>a b. cmp a b \<le> 0) ys \<Longrightarrow> sorted_wrt (\<lambda>a b. cmp a b \<le> 0) (js_insert cmp x ys)"
  by (induction ys) (auto intro: cmp_trans cmp_gt_le)

lemma sort_sorted: "sorted_wrt (\<lambda>a b. cmp a b \<le> 0) (js_sort cmp xs)"
  by (induction xs) (auto simp: js_sort_Cons insert_sorted)

lemma cmp_eq_trans: "cmp k x = 0 \<Longrightarrow> cmp k y = 0 \<Longrightarrow> cmp x y \<le> 0"
  using cmp_trans [of x k y] cmp_eq_swap [of k x] by simp

lemma insert_filter_other:
  "cmp k x \<noteq> 0 \<Longrightarrow> filter (\<lambda>y. cmp k y = 0) (js_insert cmp x ys) = filter (\<lambda>y. cmp k y = 0) ys"
  by (induction ys) auto

lemma insert_filter_equal:
  "cmp k x = 0 \<Longrightarrow> filter (\<lambda>y. cmp k y = 0) (js_insert cmp x ys) = x # filter (\<lambda>y. cmp k y = 0) ys"
  by (induction ys) (auto dest: cmp_eq_trans)

lemma sort_stable: "filter (\<lambda>y. cmp k y = 0) (js_sort cmp xs) = filter (\<lambda>y. cmp k y = 0) xs"
proof (induction xs)
  case (Cons x xs)
  then show ?case
    by (cases "cmp k x = 0") (simp_all add: js_sort_Cons insert_filter_other insert_filter_equal)
qed simp

lemma sort_last_greatest: "x \<in> set xs \<Longrightarrow> cmp x (last (js_sort cmp xs)) \<le> 0"
proof -
  assume "x \<in> set xs"
  then have "x \<in> set (js_sort cmp xs)" by simp
  moreover have "sorted_wrt (\<lambda>a b. cmp a b \<le> 0) (js_sort cmp xs)" by (rule sort_sorted)
  ultimately show ?thesis
    by (cases "js_sort cmp xs" rule: rev_cases) (auto simp: sorted_wrt_append cmp_refl)
qed

end

text \<open>The comparators of the program: by a number, by text through a collation, reversed, and
  one breaking the ties of another.\<close>

definition cmp_by_number :: "('a \<Rightarrow> int) \<Rightarrow> 'a \<Rightarrow> 'a \<Rightarrow> int" where
  "cmp_by_number f a b = f a - f b"

definition cmp_by_text :: "(string \<Rightarrow> string \<Rightarrow> int) \<Rightarrow> ('a \<Rightarrow> string) \<Rightarrow> 'a \<Rightarrow> 'a \<Rightarrow> int" where
  "cmp_by_text lc f a b = lc (f a) (f b)"

definition cmp_desc :: "('a \<Rightarrow> 'a \<Rightarrow> int) \<Rightarrow> 'a \<Rightarrow> 'a \<Rightarrow> int" where
  "cmp_desc cmp a b = cmp b a"

definition cmp_then :: "('a \<Rightarrow> 'a \<Rightarrow> int) \<Rightarrow> ('a \<Rightarrow> 'a \<Rightarrow> int) \<Rightarrow> 'a \<Rightarrow> 'a \<Rightarrow> int" where
  "cmp_then c d a b = (if c a b \<noteq> 0 then c a b else d a b)"

interpretation code_units: comparator str_cmp
proof
  show "sgn (str_cmp b a) = - sgn (str_cmp a b)" for a b
    by (subst str_cmp_swap) (rule sgn_minus)
qed (rule str_cmp_trans)

interpretation by_number: comparator "cmp_by_number f" for f :: "'a \<Rightarrow> int"
  by unfold_locales (auto simp: cmp_by_number_def sgn_if)

lemma comparator_by_text [intro]: "comparator lc \<Longrightarrow> comparator (cmp_by_text lc f)"
  unfolding comparator_def cmp_by_text_def by blast

lemma comparator_desc [intro]: "comparator cmp \<Longrightarrow> comparator (cmp_desc cmp)"
  unfolding comparator_def cmp_desc_def by blast

lemma comparator_then [intro]:
  assumes c: "comparator c" and d: "comparator d"
  shows "comparator (cmp_then c d)"
proof
  fix a b
  show "sgn (cmp_then c d b a) = - sgn (cmp_then c d a b)"
    using comparator.cmp_swap [OF c, of b a] comparator.cmp_swap [OF d, of b a]
    by (auto simp: cmp_then_def sgn_if split: if_splits)
next
  fix x y z
  assume 1: "cmp_then c d x y \<le> 0" and 2: "cmp_then c d y z \<le> 0"
  then have le: "c x y \<le> 0" "c y z \<le> 0" by (auto simp: cmp_then_def split: if_splits)
  then have xz: "c x z \<le> 0" by (rule comparator.cmp_trans [OF c])
  show "cmp_then c d x z \<le> 0"
  proof (cases "c x z = 0")
    case True
    then have "c z x \<le> 0" using comparator.cmp_eq_swap [OF c] by force
    then have "c y x \<le> 0" "c z y \<le> 0"
      using le comparator.cmp_trans [OF c] by blast+
    then have "c x y = 0" "c y z = 0"
      using le comparator.cmp_swap [OF c, of x y] comparator.cmp_swap [OF c, of y z]
      by (auto simp: sgn_if split: if_splits)
    with 1 2 True show ?thesis
      using comparator.cmp_trans [OF d, of x y z] by (simp add: cmp_then_def)
  next
    case False
    with xz show ?thesis by (simp add: cmp_then_def)
  qed
qed

text \<open>\<open>[...new Set(xs)]\<close> keeps the first of each.\<close>

fun js_unique :: "'a list \<Rightarrow> 'a list" where
  "js_unique [] = []"
| "js_unique (x # xs) = x # filter (\<lambda>y. y \<noteq> x) (js_unique xs)"

lemma set_js_unique [simp]: "set (js_unique xs) = set xs"
  by (induction xs) auto

lemma distinct_js_unique [simp]: "distinct (js_unique xs)"
  by (induction xs) auto

lemma js_unique_distinct [simp]: "distinct xs \<Longrightarrow> js_unique xs = xs"
  by (induction xs) (auto simp: filter_id_conv)

end
