(* ===== verification/Mail_Types.thy ===== *)
theory Mail_Types
  imports Js_Prelude
begin

text \<open>
  The data the components exchange: \<^verbatim>\<open>core/types.ts\<close> (identities, keys, decrypted messages,
  the error of the crypto core), \<^verbatim>\<open>mail/types.ts\<close> (rows of a mailbox, flag changes) and
  \<^verbatim>\<open>mail/attachment.ts\<close> with its limits; then \<^verbatim>\<open>mail/flags.ts\<close>, the optimistic flag updates.
  An optional property \<open>p?: T\<close> is an option-typed field, \<open>None\<close> when the property is absent.
\<close>

subsection \<open>Attachments\<close>

record attachment =
  att_id :: string
  att_name :: string
  att_mimeType :: string
  att_size :: int
  att_data :: string
  att_inline :: "bool option"
  att_contentId :: "string option"

definition MAX_ATTACHMENT_BYTES :: int where
  "MAX_ATTACHMENT_BYTES = 5 * 1024 * 1024"

definition MAX_TOTAL_ATTACHMENT_BYTES :: int where
  "MAX_TOTAL_ATTACHMENT_BYTES = 5 * 1024 * 1024"

definition MAX_STORED_ATTACHMENT_BYTES :: int where
  "MAX_STORED_ATTACHMENT_BYTES = 1024 * 1024"

definition totalBytes :: "attachment list \<Rightarrow> int" where
  "totalBytes as = sum_list (map att_size as)"

text \<open>The two refusals; the source words them, with the sizes formatted.\<close>

datatype attachment_refusal = FileTooLarge string int | TotalTooLarge string

definition attachmentRefusal :: "string \<Rightarrow> int \<Rightarrow> attachment list \<Rightarrow> attachment_refusal option" where
  "attachmentRefusal name bytes existing =
     (if bytes > MAX_ATTACHMENT_BYTES then Some (FileTooLarge name bytes)
      else if totalBytes existing + bytes > MAX_TOTAL_ATTACHMENT_BYTES then Some (TotalTooLarge name)
      else None)"

fun split_loop :: "int \<Rightarrow> attachment list \<Rightarrow> attachment list \<times> string list" where
  "split_loop budget [] = ([], [])"
| "split_loop budget (a # as) =
     (if att_size a \<le> budget
      then (case split_loop (budget - att_size a) as of (stored, omitted) \<Rightarrow> (a # stored, omitted))
      else (case split_loop budget as of (stored, omitted) \<Rightarrow> (stored, att_name a # omitted)))"

definition splitForStorage :: "attachment list \<Rightarrow> attachment list \<times> string list" where
  "splitForStorage as = split_loop MAX_STORED_ATTACHMENT_BYTES as"

definition addAttachment :: "attachment list \<Rightarrow> attachment \<Rightarrow> attachment list" where
  "addAttachment as a = filter (\<lambda>x. att_id x \<noteq> att_id a) as @ [a]"

definition removeAttachment :: "attachment list \<Rightarrow> string \<Rightarrow> attachment list" where
  "removeAttachment as i = filter (\<lambda>x. att_id x \<noteq> i) as"

lemma split_loop_budget:
  "0 \<le> budget \<Longrightarrow> totalBytes (fst (split_loop budget as)) \<le> budget"
  by (induction budget as rule: split_loop.induct) (auto simp: totalBytes_def split: prod.splits)

lemma split_loop_names:
  "mset (map att_name (fst (split_loop budget as))) + mset (snd (split_loop budget as)) = mset (map att_name as)"
  by (induction budget as rule: split_loop.induct) (auto split: prod.splits)

lemma split_loop_subseq: "subseq (fst (split_loop budget as)) as"
  by (induction budget as rule: split_loop.induct) (auto split: prod.splits)

lemma split_loop_fits:
  "(\<forall>a \<in> set as. 0 \<le> att_size a) \<Longrightarrow> totalBytes as \<le> budget \<Longrightarrow> split_loop budget as = (as, [])"
proof (induction budget as rule: split_loop.induct)
  case (2 budget a as)
  have "0 \<le> totalBytes as" using 2(3) by (auto simp: totalBytes_def intro!: sum_list_nonneg)
  with 2 show ?case by (auto simp: totalBytes_def)
qed (simp add: totalBytes_def)

lemma addAttachment_distinct:
  "distinct (map att_id as) \<Longrightarrow> distinct (map att_id (addAttachment as a))"
  by (auto simp: addAttachment_def distinct_map_filter)

subsection \<open>Keys and identities\<close>

datatype trust = Seen | Verified | Changed

record identity =
  idn_email :: string
  idn_fingerprint :: string
  idn_publicKeyArmored :: string
  idn_createdAt :: string

record public_key_info =
  pk_email :: string
  pk_fingerprint :: string
  pk_armored :: string
  pk_userId :: "string option"

datatype signature_status = SigValid | SigInvalid | SigUnknown | SigNone

datatype core_code = CodeNoKey | CodeMalformed | CodeDecryptFailed | CodeUnavailable

text \<open>\<open>Security level\<close>: 1 and 2 are sent; a stored message may carry a removed one.\<close>

type_synonym security_level = nat

record decrypted_message =
  dm_subject :: string
  dm_body :: string
  dm_html :: "string option"
  dm_signature :: signature_status
  dm_signerFingerprint :: "string option"
  dm_autocryptKey :: "string option"
  dm_attachments :: "attachment list"
  dm_forwardSecret :: "bool option"
  dm_securityLevel :: "security_level option"
  dm_sealedToKey :: "bool option"

record build_request =
  br_from :: string
  br_to :: "string list"
  br_subject :: string
  br_body :: string
  br_html :: "string option"
  br_recipientKeys :: "string list"
  br_autocryptKey :: "string option"
  br_inReplyTo :: "string option"
  br_references :: "string list option"
  br_attachments :: "attachment list option"
  br_level :: "security_level option"

subsection \<open>Rows of a mailbox\<close>

record mail_summary =
  sm_id :: string
  sm_threadId :: "string option"
  sm_from_address :: string
  sm_from_name :: "string option"
  sm_to :: "string list"
  sm_date :: string
  sm_subject :: string
  sm_snippet :: string
  sm_unread :: bool
  sm_starred :: bool
  sm_messageId :: "string option"
  sm_references :: "string option"
  sm_autocrypt :: "string option"
  sm_replyTo :: "string option"
  sm_authenticationResults :: "string option"
  sm_listUnsubscribe :: "string option"
  sm_returnPath :: "string option"
  sm_labels :: "string list option"

record flag_patch =
  fp_unread :: "bool option"
  fp_starred :: "bool option"
  fp_archived :: "bool option"
  fp_trashed :: "bool option"
  fp_junk :: "bool option"

definition no_flags :: flag_patch where
  "no_flags = \<lparr>fp_unread = None, fp_starred = None, fp_archived = None, fp_trashed = None, fp_junk = None\<rparr>"

subsection \<open>Optimistic flag updates\<close>

definition FILING :: "string list" where
  "FILING = [''INBOX'', ''SPAM'', ''JUNK'']"

text \<open>\<open>toUpperCase\<close>, as far as a comparison with the three ASCII names above can tell: on ASCII
  it is exact, and no other code unit below 256 has a capital among ASCII letters except the
  sharp s, whose capital is the two letters SS; neither name contains that pair.\<close>

definition ascii_upper_char :: "char \<Rightarrow> char" where
  "ascii_upper_char c = (let n = code_unit c in if 97 \<le> n \<and> n \<le> 122 then char_of (n - 32) else c)"

definition ascii_upper :: "string \<Rightarrow> string" where
  "ascii_upper s = map ascii_upper_char s"

definition refiled :: "string list option \<Rightarrow> bool \<Rightarrow> string list" where
  "refiled labels junk =
     filter (\<lambda>l. ascii_upper l \<notin> set FILING) (case labels of None \<Rightarrow> [] | Some ls \<Rightarrow> ls)
     @ [if junk then ''SPAM'' else ''INBOX'']"

definition patch_row :: "'a mail_summary_scheme \<Rightarrow> flag_patch \<Rightarrow> 'a mail_summary_scheme" where
  "patch_row m p =
     (let m1 = (case fp_unread p of None \<Rightarrow> m | Some u \<Rightarrow> m\<lparr>sm_unread := u\<rparr>);
          m2 = (case fp_starred p of None \<Rightarrow> m1 | Some s \<Rightarrow> m1\<lparr>sm_starred := s\<rparr>)
      in case fp_junk p of None \<Rightarrow> m2 | Some j \<Rightarrow> m2\<lparr>sm_labels := Some (refiled (sm_labels m) j)\<rparr>)"

definition applyFlagPatch :: "'a mail_summary_scheme list \<Rightarrow> string \<Rightarrow> flag_patch \<Rightarrow> 'a mail_summary_scheme list" where
  "applyFlagPatch messages i p =
     (if fp_archived p \<noteq> None \<or> fp_trashed p \<noteq> None then filter (\<lambda>m. sm_id m \<noteq> i) messages
      else map (\<lambda>m. if sm_id m \<noteq> i then m else patch_row m p) messages)"

lemma patch_row_id [simp]: "sm_id (patch_row m p) = sm_id m"
  by (simp add: patch_row_def Let_def split: option.splits)

lemma applyFlagPatch_other:
  "filter (\<lambda>m. sm_id m \<noteq> i) (applyFlagPatch messages i p) = filter (\<lambda>m. sm_id m \<noteq> i) messages"
  by (induction messages) (auto simp: applyFlagPatch_def)

lemma refiled_exactly_one:
  "filter (\<lambda>l. ascii_upper l \<in> set FILING) (refiled ls junk) = [if junk then ''SPAM'' else ''INBOX'']"
  by (auto simp: refiled_def FILING_def ascii_upper_def ascii_upper_char_def code_unit_def filter_empty_conv)

lemma refiled_keeps:
  "ascii_upper l \<notin> set FILING \<Longrightarrow> l \<in> set (refiled (Some ls) junk) \<longleftrightarrow> l \<in> set ls"
  by (auto simp: refiled_def FILING_def ascii_upper_def ascii_upper_char_def code_unit_def)

end
