(* ===== verification/Keyring.thy ===== *)
theory Keyring
  imports Mail_Types
begin

text \<open>
  The local keyring (\<^verbatim>\<open>store/keyring.ts\<close>): the contacts' public keys by address, with the trust
  marks that decide whether a send is allowed. \<open>upsertKey\<close> is trust on first use, with a key
  change marked and never silently adopted; \<open>chooseKey\<close> is the user's decision after an
  out-of-band comparison. The time (\<open>new Date().toISOString()\<close>) is a parameter.
\<close>

datatype key_source = SourceManual | SourceAutocrypt | SourceDirectory

datatype rotation_evidence = NoEvidence | SelfSigned

record other_key =
  ok_fingerprint :: string
  ok_armored :: string
  ok_userId :: "string option"
  ok_source :: key_source
  ok_firstSeen :: string
  ok_lastSeen :: string
  ok_setAside :: "bool option"

record contact_key = public_key_info +
  ck_name :: "string option"
  ck_trust :: trust
  ck_source :: key_source
  ck_firstSeen :: string
  ck_lastSeen :: string
  ck_verifiedAt :: "string option"
  ck_changedAt :: "string option"
  ck_previousFingerprint :: "string option"
  ck_otherKeys :: "other_key list option"

type_synonym keyring = "contact_key obj"

definition others :: "contact_key \<Rightarrow> other_key list" where
  "others c = (case ck_otherKeys c of None \<Rightarrow> [] | Some ks \<Rightarrow> ks)"

definition set_aside :: "other_key \<Rightarrow> bool" where
  "set_aside k \<longleftrightarrow> ok_setAside k = Some True"

definition undecidedKeys :: "contact_key \<Rightarrow> other_key list" where
  "undecidedKeys c = filter (\<lambda>k. \<not> set_aside k) (others c)"

definition asOther :: "contact_key \<Rightarrow> other_key" where
  "asOther c = \<lparr>ok_fingerprint = pk_fingerprint c, ok_armored = pk_armored c, ok_userId = pk_userId c,
     ok_source = ck_source c, ok_firstSeen = ck_firstSeen c, ok_lastSeen = ck_lastSeen c, ok_setAside = None\<rparr>"

definition withOther :: "other_key list option \<Rightarrow> other_key \<Rightarrow> other_key list" where
  "withOther ks k = k # filter (\<lambda>x. ok_fingerprint x \<noteq> ok_fingerprint k) (case ks of None \<Rightarrow> [] | Some l \<Rightarrow> l)"

definition find_other :: "contact_key \<Rightarrow> string \<Rightarrow> other_key option" where
  "find_other c fp = find (\<lambda>k. ok_fingerprint k = fp) (others c)"

text \<open>\<open>a ?? b\<close>\<close>

definition or_else :: "'a option \<Rightarrow> 'a option \<Rightarrow> 'a option" where
  "or_else a b = (case a of None \<Rightarrow> b | Some x \<Rightarrow> Some x)"

text \<open>\<open>{ ...existing, ...key }\<close>: the fields of the new key win; a \<open>userId\<close> the new key does not
  carry leaves the old one standing.\<close>

definition spread_key :: "contact_key \<Rightarrow> public_key_info \<Rightarrow> contact_key" where
  "spread_key c k = c\<lparr>pk_email := pk_email k, pk_fingerprint := pk_fingerprint k, pk_armored := pk_armored k,
     pk_userId := or_else (pk_userId k) (pk_userId c)\<rparr>"

definition changed_entry ::
  "contact_key \<Rightarrow> public_key_info \<Rightarrow> key_source \<Rightarrow> string option \<Rightarrow> rotation_evidence \<Rightarrow> string \<Rightarrow> contact_key" where
  "changed_entry e k source name rotation now =
     (spread_key e k)\<lparr>
        ck_name := or_else name (ck_name e),
        ck_trust := (if rotation = SelfSigned then Seen else Changed),
        ck_source := source,
        ck_lastSeen := now,
        ck_changedAt := Some now,
        ck_previousFingerprint := Some (pk_fingerprint e),
        ck_verifiedAt := None,
        ck_firstSeen := (case find_other e (pk_fingerprint k) of None \<Rightarrow> now | Some o' \<Rightarrow> ok_firstSeen o'),
        ck_otherKeys := Some (withOther
          (map_option (filter (\<lambda>x. ok_fingerprint x \<noteq> pk_fingerprint k)) (ck_otherKeys e)) (asOther e))\<rparr>"

definition refreshed_entry ::
  "contact_key option \<Rightarrow> public_key_info \<Rightarrow> key_source \<Rightarrow> string option \<Rightarrow> string \<Rightarrow> contact_key" where
  "refreshed_entry existing k source name now =
     \<lparr>pk_email = pk_email k, pk_fingerprint = pk_fingerprint k, pk_armored = pk_armored k, pk_userId = pk_userId k,
      ck_name = or_else name (Option.bind existing ck_name),
      ck_trust = (case existing of None \<Rightarrow> Seen | Some e \<Rightarrow> ck_trust e),
      ck_source = (case existing of None \<Rightarrow> source | Some e \<Rightarrow> ck_source e),
      ck_firstSeen = (case existing of None \<Rightarrow> now | Some e \<Rightarrow> ck_firstSeen e),
      ck_lastSeen = now,
      ck_verifiedAt = Option.bind existing ck_verifiedAt,
      ck_changedAt = Option.bind existing ck_changedAt,
      ck_previousFingerprint = Option.bind existing ck_previousFingerprint,
      ck_otherKeys = Option.bind existing ck_otherKeys\<rparr>"

definition upsertKey ::
  "keyring \<Rightarrow> public_key_info \<Rightarrow> key_source \<Rightarrow> string option \<Rightarrow> rotation_evidence \<Rightarrow> string \<Rightarrow> keyring" where
  "upsertKey ring k source name rotation now =
     (case obj_get ring (pk_email k) of
        None \<Rightarrow> obj_set ring (pk_email k) (refreshed_entry None k source name now)
      | Some e \<Rightarrow>
          if pk_fingerprint e \<noteq> pk_fingerprint k then
            (case find_other e (pk_fingerprint k) of
               Some o' \<Rightarrow>
                 if set_aside o'
                 then obj_set ring (pk_email k)
                        (e\<lparr>ck_otherKeys := Some (withOther (ck_otherKeys e) (o'\<lparr>ok_lastSeen := now\<rparr>))\<rparr>)
                 else obj_set ring (pk_email k) (changed_entry e k source name rotation now)
             | None \<Rightarrow> obj_set ring (pk_email k) (changed_entry e k source name rotation now))
          else obj_set ring (pk_email k) (refreshed_entry (Some e) k source name now))"

definition findKey :: "keyring \<Rightarrow> string \<Rightarrow> contact_key option" where
  "findKey ring email = obj_get ring (canonical email)"

definition mark_aside :: "other_key list \<Rightarrow> other_key list" where
  "mark_aside ks = map (\<lambda>k. k\<lparr>ok_setAside := Some True\<rparr>) ks"

text \<open>\<open>filter((k) => k !== chosen)\<close> compares by reference: it drops the one object that
  \<open>find\<close> returned, the first with that fingerprint.\<close>

fun drop_first :: "('a \<Rightarrow> bool) \<Rightarrow> 'a list \<Rightarrow> 'a list" where
  "drop_first P [] = []"
| "drop_first P (x # xs) = (if P x then xs else x # drop_first P xs)"

definition chooseKey :: "keyring \<Rightarrow> string \<Rightarrow> string \<Rightarrow> string \<Rightarrow> keyring option" where
  "chooseKey ring email fp at =
     (case findKey ring email of
        None \<Rightarrow> None
      | Some e \<Rightarrow>
          if pk_fingerprint e = fp then
            Some (obj_set ring (pk_email e)
              (e\<lparr>ck_trust := Verified, ck_verifiedAt := Some at, ck_otherKeys := Some (mark_aside (others e))\<rparr>))
          else (case find_other e fp of
                  None \<Rightarrow> None
                | Some c \<Rightarrow>
                    Some (obj_set ring (pk_email e)
                      (e\<lparr>pk_fingerprint := ok_fingerprint c, pk_armored := ok_armored c, pk_userId := ok_userId c,
                         ck_source := ok_source c, ck_firstSeen := ok_firstSeen c, ck_lastSeen := ok_lastSeen c,
                         ck_trust := Verified, ck_verifiedAt := Some at, ck_changedAt := Some at,
                         ck_previousFingerprint := Some (pk_fingerprint e),
                         ck_otherKeys := Some (mark_aside (withOther
                            (map_option (drop_first (\<lambda>x. ok_fingerprint x = fp)) (ck_otherKeys e)) (asOther e)))\<rparr>))))"

definition removeKey :: "keyring \<Rightarrow> string \<Rightarrow> keyring" where
  "removeKey ring email = obj_del ring email"

subsection \<open>What an arriving key does to one entry\<close>

definition upserted ::
  "contact_key option \<Rightarrow> public_key_info \<Rightarrow> key_source \<Rightarrow> string option \<Rightarrow> rotation_evidence \<Rightarrow> string \<Rightarrow> contact_key" where
  "upserted existing k source name rotation now =
     (case existing of None \<Rightarrow> refreshed_entry None k source name now
      | Some e \<Rightarrow>
          if pk_fingerprint e = pk_fingerprint k then refreshed_entry (Some e) k source name now
          else (case find_other e (pk_fingerprint k) of
                  Some o' \<Rightarrow> if set_aside o'
                    then e\<lparr>ck_otherKeys := Some (withOther (ck_otherKeys e) (o'\<lparr>ok_lastSeen := now\<rparr>))\<rparr>
                    else changed_entry e k source name rotation now
                | None \<Rightarrow> changed_entry e k source name rotation now))"

lemma upsertKey_as_set:
  "upsertKey ring k source name rotation now =
     obj_set ring (pk_email k) (upserted (obj_get ring (pk_email k)) k source name rotation now)"
  by (auto simp: upsertKey_def upserted_def split: option.splits)

lemma upsertKey_get:
  "obj_get (upsertKey ring k source name rotation now) email =
     (if email = pk_email k then Some (upserted (obj_get ring email) k source name rotation now)
      else obj_get ring email)"
  by (simp add: upsertKey_as_set obj_simps)

definition all_fingerprints :: "contact_key \<Rightarrow> string list" where
  "all_fingerprints c = pk_fingerprint c # map ok_fingerprint (others c)"

text \<open>A well-formed entry holds each fingerprint once; a well-formed ring files each entry under
  its own address.\<close>

definition wf_contact :: "contact_key \<Rightarrow> bool" where
  "wf_contact c \<longleftrightarrow> distinct (all_fingerprints c)"

definition wf_ring :: "keyring \<Rightarrow> bool" where
  "wf_ring ring \<longleftrightarrow> obj_ok ring \<and> (\<forall>e c. obj_get ring e = Some c \<longrightarrow> pk_email c = e \<and> wf_contact c)"

lemma find_other_Some: "find_other c fp = Some k \<Longrightarrow> k \<in> set (others c) \<and> ok_fingerprint k = fp"
  by (auto simp: find_other_def find_Some_iff)

lemma find_other_None: "find_other c fp = None \<longleftrightarrow> fp \<notin> ok_fingerprint ` set (others c)"
  by (auto simp: find_other_def find_None_iff)

lemma upserted_email:
  "existing = None \<or> pk_email (the existing) = pk_email k \<Longrightarrow>
   pk_email (upserted existing k source name rotation now) = pk_email k"
  by (cases existing) (auto simp: upserted_def refreshed_entry_def changed_entry_def spread_key_def split: option.splits)

lemma map_fingerprint_filter:
  "map ok_fingerprint (filter (\<lambda>x. ok_fingerprint x \<noteq> fp) ks) = filter (\<lambda>f. f \<noteq> fp) (map ok_fingerprint ks)"
  by (simp add: filter_map o_def)

lemma fingerprints_withOther:
  "map ok_fingerprint (withOther ks k) =
     ok_fingerprint k # filter (\<lambda>f. f \<noteq> ok_fingerprint k) (map ok_fingerprint (case ks of None \<Rightarrow> [] | Some l \<Rightarrow> l))"
  by (simp add: withOther_def map_fingerprint_filter)

lemma fingerprints_changed_entry:
  "all_fingerprints (changed_entry e k source name rotation now) =
     pk_fingerprint k # pk_fingerprint e #
       filter (\<lambda>f. f \<noteq> pk_fingerprint e) (filter (\<lambda>f. f \<noteq> pk_fingerprint k) (map ok_fingerprint (others e)))"
  by (cases "ck_otherKeys e")
     (simp_all add: all_fingerprints_def changed_entry_def spread_key_def others_def fingerprints_withOther
        asOther_def map_fingerprint_filter)

lemma fingerprints_refreshed_entry:
  "all_fingerprints (refreshed_entry existing k source name now) =
     pk_fingerprint k # (case existing of None \<Rightarrow> [] | Some e \<Rightarrow> map ok_fingerprint (others e))"
  by (cases existing) (simp_all add: all_fingerprints_def refreshed_entry_def others_def)

lemma fingerprints_reseen_other:
  "all_fingerprints (e\<lparr>ck_otherKeys := Some (withOther (ck_otherKeys e) (k\<lparr>ok_lastSeen := now\<rparr>))\<rparr>) =
     pk_fingerprint e # ok_fingerprint k # filter (\<lambda>f. f \<noteq> ok_fingerprint k) (map ok_fingerprint (others e))"
  by (simp add: all_fingerprints_def others_def fingerprints_withOther)

lemmas fingerprints_simps = fingerprints_changed_entry fingerprints_refreshed_entry fingerprints_reseen_other

lemma wf_changed_entry: "wf_contact e \<Longrightarrow> pk_fingerprint e \<noteq> pk_fingerprint k \<Longrightarrow>
  wf_contact (changed_entry e k source name rotation now)"
  by (simp add: wf_contact_def fingerprints_simps) (simp add: all_fingerprints_def)

lemma wf_refreshed_entry: "(\<And>e. existing = Some e \<Longrightarrow> wf_contact e \<and> pk_fingerprint e = pk_fingerprint k) \<Longrightarrow>
  wf_contact (refreshed_entry existing k source name now)"
  unfolding wf_contact_def fingerprints_refreshed_entry
  by (cases existing) (auto simp: all_fingerprints_def)

lemma wf_reseen_other:
  assumes "wf_contact e" and "find_other e fp = Some k"
  shows "wf_contact (e\<lparr>ck_otherKeys := Some (withOther (ck_otherKeys e) (k\<lparr>ok_lastSeen := now\<rparr>))\<rparr>)"
  using assms find_other_Some [OF assms(2)]
  by (simp add: wf_contact_def fingerprints_simps) (auto simp: all_fingerprints_def)

lemma wf_upserted: "(\<And>e. existing = Some e \<Longrightarrow> wf_contact e) \<Longrightarrow>
  wf_contact (upserted existing k source name rotation now)"
  by (auto simp: upserted_def intro!: wf_changed_entry wf_refreshed_entry wf_reseen_other
           split: option.splits)

lemma wf_ring_upsertKey:
  assumes "wf_ring ring"
  shows "wf_ring (upsertKey ring k source name rotation now)"
  unfolding wf_ring_def
proof (intro conjI allI impI)
  show "obj_ok (upsertKey ring k source name rotation now)"
    using assms by (simp add: upsertKey_as_set wf_ring_def)
next
  fix e c
  assume get: "obj_get (upsertKey ring k source name rotation now) e = Some c"
  have old: "pk_email x = a \<and> wf_contact x" if "obj_get ring a = Some x" for a x
    using assms that by (simp add: wf_ring_def)
  show "pk_email c = e" "wf_contact c"
    using get old [of e] wf_upserted [of "obj_get ring e" k source name rotation now]
      upserted_email [of "obj_get ring e" k source name rotation now]
    by (cases "obj_get ring (pk_email k)"; auto simp: upsertKey_get split: if_splits)+
qed

lemma upserted_keeps_fingerprints:
  "set (all_fingerprints e) \<subseteq> set (all_fingerprints (upserted (Some e) k source name rotation now))"
proof -
  consider "pk_fingerprint e = pk_fingerprint k"
    | o' where "find_other e (pk_fingerprint k) = Some o'" "set_aside o'" "pk_fingerprint e \<noteq> pk_fingerprint k"
    | "upserted (Some e) k source name rotation now = changed_entry e k source name rotation now"
    by (fastforce simp: upserted_def split: option.splits)
  then show ?thesis
  proof cases
    case 1
    then show ?thesis by (simp add: upserted_def fingerprints_simps) (simp add: all_fingerprints_def)
  next
    case 2
    then show ?thesis by (simp add: upserted_def fingerprints_simps) (auto simp: all_fingerprints_def)
  next
    case 3
    then show ?thesis by (simp add: fingerprints_simps) (auto simp: all_fingerprints_def)
  qed
qed

lemma upserted_trust:
  assumes "pk_fingerprint (upserted (Some e) k source name rotation now) \<noteq> pk_fingerprint e"
  shows "upserted (Some e) k source name rotation now = changed_entry e k source name rotation now"
  using assms by (auto simp: upserted_def refreshed_entry_def split: option.splits if_splits)

lemma upserted_same_trust:
  assumes "pk_fingerprint (upserted (Some e) k source name rotation now) = pk_fingerprint e"
  shows "ck_trust (upserted (Some e) k source name rotation now) = ck_trust e"
  using assms by (auto simp: upserted_def refreshed_entry_def changed_entry_def spread_key_def
                       split: option.splits if_splits)

subsection \<open>Choosing a key\<close>

definition chosen_entry :: "contact_key \<Rightarrow> string \<Rightarrow> string \<Rightarrow> contact_key option" where
  "chosen_entry e fp at =
     (if pk_fingerprint e = fp then
        Some (e\<lparr>ck_trust := Verified, ck_verifiedAt := Some at, ck_otherKeys := Some (mark_aside (others e))\<rparr>)
      else map_option (\<lambda>c. e\<lparr>pk_fingerprint := ok_fingerprint c, pk_armored := ok_armored c, pk_userId := ok_userId c,
                         ck_source := ok_source c, ck_firstSeen := ok_firstSeen c, ck_lastSeen := ok_lastSeen c,
                         ck_trust := Verified, ck_verifiedAt := Some at, ck_changedAt := Some at,
                         ck_previousFingerprint := Some (pk_fingerprint e),
                         ck_otherKeys := Some (mark_aside (withOther
                            (map_option (drop_first (\<lambda>x. ok_fingerprint x = fp)) (ck_otherKeys e)) (asOther e)))\<rparr>)
             (find_other e fp))"

lemma chooseKey_entry:
  "chooseKey ring email fp at = Option.bind (findKey ring email)
     (\<lambda>e. map_option (obj_set ring (pk_email e)) (chosen_entry e fp at))"
  by (auto simp: chooseKey_def chosen_entry_def split: option.splits)

lemma drop_first_distinct:
  "distinct (map f xs) \<Longrightarrow> drop_first (\<lambda>x. f x = v) xs = filter (\<lambda>x. f x \<noteq> v) xs"
proof (induction xs)
  case (Cons a xs)
  moreover have "f a \<notin> f ` set xs \<Longrightarrow> filter (\<lambda>x. f x \<noteq> f a) xs = xs"
    by (rule filter_True) (metis image_eqI)
  ultimately show ?case by auto
qed simp

lemma map_fingerprint_mark_aside [simp]: "map ok_fingerprint (mark_aside ks) = map ok_fingerprint ks"
  by (simp add: mark_aside_def)

lemma set_mark_aside [simp]: "set (mark_aside ks) = (\<lambda>k. k\<lparr>ok_setAside := Some True\<rparr>) ` set ks"
  by (simp add: mark_aside_def)

lemma chosen_entry_facts:
  assumes "chosen_entry e fp at = Some c" and "wf_contact e"
  shows "pk_fingerprint c = fp" and "ck_trust c = Verified" and "undecidedKeys c = []"
    and "set (all_fingerprints c) = set (all_fingerprints e)" and "wf_contact c"
    and "pk_email c = pk_email e" and "fp \<in> set (all_fingerprints e)"
proof -
  have same: "\<forall>k \<in> set (others e). ok_fingerprint k \<noteq> pk_fingerprint e"
    and dist: "distinct (map ok_fingerprint (others e))"
    using assms(2) by (auto simp: wf_contact_def all_fingerprints_def image_iff)
  show "pk_fingerprint c = fp" "ck_trust c = Verified" "undecidedKeys c = []" "pk_email c = pk_email e"
    using assms(1) by (auto simp: chosen_entry_def undecidedKeys_def others_def mark_aside_def
                        set_aside_def filter_empty_conv dest: find_other_Some split: if_splits)
  show "fp \<in> set (all_fingerprints e)"
    using assms(1) by (auto simp: chosen_entry_def all_fingerprints_def dest!: find_other_Some split: if_splits)
  have "distinct (all_fingerprints c) \<and> set (all_fingerprints c) = set (all_fingerprints e)"
  proof (cases "pk_fingerprint e = fp")
    case True
    then have "others c = mark_aside (others e)" "pk_fingerprint c = pk_fingerprint e"
      using assms(1) by (auto simp: chosen_entry_def others_def)
    then have "all_fingerprints c = all_fingerprints e" by (simp add: all_fingerprints_def)
    then show ?thesis using assms(2) by (simp add: wf_contact_def)
  next
    case False
    with assms(1) obtain k where k: "find_other e fp = Some k"
      by (auto simp: chosen_entry_def)
    from k have fpk: "k \<in> set (others e)" "ok_fingerprint k = fp" by (auto dest: find_other_Some)
    have c: "map ok_fingerprint (others c) = map ok_fingerprint (withOther
                (map_option (drop_first (\<lambda>x. ok_fingerprint x = fp)) (ck_otherKeys e)) (asOther e))"
      and fp: "pk_fingerprint c = fp"
      using assms(1) False k fpk by (auto simp: chosen_entry_def others_def)
    from fpk obtain ks where ks: "ck_otherKeys e = Some ks" and "others e = ks"
      by (cases "ck_otherKeys e") (auto simp: others_def)
    have "map ok_fingerprint (others c) = pk_fingerprint e # map ok_fingerprint (filter (\<lambda>x. ok_fingerprint x \<noteq> fp) ks)"
      using dist same \<open>others e = ks\<close>
      by (auto simp: c ks withOther_def asOther_def drop_first_distinct
               intro!: arg_cong [where f = "map ok_fingerprint"] filter_cong)
    then show ?thesis
      using same dist False \<open>others e = ks\<close> fpk
      by (auto simp: all_fingerprints_def fp intro: distinct_map_filter)
  qed
  then show "set (all_fingerprints c) = set (all_fingerprints e)" "wf_contact c"
    by (auto simp: wf_contact_def)
qed

lemma wf_ring_chooseKey:
  assumes "wf_ring ring" and "chooseKey ring email fp at = Some ring'"
  shows "wf_ring ring'"
proof -
  from assms(2) obtain e c where e: "findKey ring email = Some e" and c: "chosen_entry e fp at = Some c"
    and ring': "ring' = obj_set ring (pk_email e) c"
    by (auto simp: chooseKey_entry bind_eq_Some_conv)
  have "pk_email e = canonical email" "wf_contact e"
    using e assms(1) by (auto simp: wf_ring_def findKey_def)
  then show ?thesis
    using assms(1) chosen_entry_facts [OF c \<open>wf_contact e\<close>]
    by (auto simp: ring' wf_ring_def obj_simps)
qed

lemma wf_ring_removeKey: "wf_ring ring \<Longrightarrow> wf_ring (removeKey ring email)"
  by (auto simp: wf_ring_def removeKey_def obj_simps)

lemma wf_ring_Nil: "wf_ring []"
  by (simp add: wf_ring_def)

subsection \<open>Histories of a keyring\<close>

text \<open>What can happen to a keyring: a key arrives (from a header, the directory or an import), the
  user settles which key is right, or removes one.\<close>

datatype key_event =
  Arrived public_key_info key_source "string option" rotation_evidence string
| ChoseKey string string string
| Forgot string

fun key_step :: "keyring \<Rightarrow> key_event \<Rightarrow> keyring" where
  "key_step ring (Arrived k source name rotation now) = upsertKey ring k source name rotation now"
| "key_step ring (ChoseKey email fp at) =
     (case chooseKey ring email fp at of None \<Rightarrow> ring | Some ring' \<Rightarrow> ring')"
| "key_step ring (Forgot email) = removeKey ring email"

definition key_run :: "keyring \<Rightarrow> key_event list \<Rightarrow> keyring" where
  "key_run ring evs = foldl key_step ring evs"

lemma wf_key_step: "wf_ring ring \<Longrightarrow> wf_ring (key_step ring ev)"
  by (cases ev) (auto simp: wf_ring_upsertKey wf_ring_removeKey split: option.splits intro: wf_ring_chooseKey)

lemma wf_key_run: "wf_ring ring \<Longrightarrow> wf_ring (key_run ring evs)"
  unfolding key_run_def by (induction evs arbitrary: ring) (auto simp: wf_key_step)

lemma key_step_verified:
  assumes wf: "wf_ring ring" and get: "obj_get (key_step ring ev) email = Some c" and v: "ck_trust c = Verified"
  shows "(\<exists>c0. obj_get ring email = Some c0 \<and> ck_trust c0 = Verified \<and> pk_fingerprint c0 = pk_fingerprint c)
       \<or> (\<exists>e at. ev = ChoseKey e (pk_fingerprint c) at \<and> canonical e = email)"
proof (cases ev)
  case (Arrived k source name rotation now)
  show ?thesis
  proof (cases "obj_get ring email = None \<or> email \<noteq> pk_email k")
    case True
    then show ?thesis using get v Arrived
      by (auto simp: upsertKey_get upserted_def refreshed_entry_def split: if_splits)
  next
    case False
    then obtain c0 where c0: "obj_get ring email = Some c0" and e: "email = pk_email k" by auto
    then have c: "c = upserted (Some c0) k source name rotation now" using get Arrived by (simp add: upsertKey_get)
    have "pk_fingerprint c = pk_fingerprint c0"
    proof (rule ccontr)
      assume "pk_fingerprint c \<noteq> pk_fingerprint c0"
      then have "c = changed_entry c0 k source name rotation now" using upserted_trust c by metis
      with v show False by (simp add: changed_entry_def split: if_splits)
    qed
    then show ?thesis using c0 c v upserted_same_trust by metis
  qed
next
  case (ChoseKey e fp at)
  show ?thesis
  proof (cases "chooseKey ring e fp at")
    case None
    then show ?thesis using get v ChoseKey by auto
  next
    case (Some ring')
    then obtain e0 c1 where e0: "findKey ring e = Some e0" and c1: "chosen_entry e0 fp at = Some c1"
      and r: "ring' = obj_set ring (pk_email e0) c1"
      by (auto simp: chooseKey_entry bind_eq_Some_conv)
    have "pk_email e0 = canonical e" "wf_contact e0" using e0 wf by (auto simp: wf_ring_def findKey_def)
    then show ?thesis
      using get v ChoseKey Some r chosen_entry_facts(1) [OF c1] by (auto simp: obj_simps split: if_splits)
  qed
next
  case (Forgot e)
  then show ?thesis using get v by (auto simp: removeKey_def obj_simps split: if_splits)
qed

lemma key_run_snoc: "key_run ring (evs @ [ev]) = key_step (key_run ring evs) ev"
  by (simp add: key_run_def)

lemma verified_has_choice:
  "obj_get (key_run [] evs) email = Some c \<Longrightarrow> ck_trust c = Verified \<Longrightarrow>
   \<exists>e at. ChoseKey e (pk_fingerprint c) at \<in> set evs \<and> canonical e = email"
proof (induction evs arbitrary: c rule: rev_induct)
  case Nil
  then show ?case by (simp add: key_run_def)
next
  case (snoc ev evs)
  from key_step_verified [OF wf_key_run [OF wf_ring_Nil, of evs] snoc.prems(1) [unfolded key_run_snoc] snoc.prems(2)]
  show ?case using snoc.IH by fastforce
qed

lemma findKey_email: "wf_ring ring \<Longrightarrow> findKey ring email = Some e \<Longrightarrow> pk_email e = canonical email \<and> wf_contact e"
  by (simp add: wf_ring_def findKey_def)

lemma key_step_keeps_fingerprints:
  assumes "wf_ring ring" and "obj_get ring email = Some c" and "ev \<noteq> Forgot email"
  shows "\<exists>c'. obj_get (key_step ring ev) email = Some c' \<and> set (all_fingerprints c) \<subseteq> set (all_fingerprints c')"
proof (cases ev)
  case (Arrived k source name rotation now)
  then show ?thesis
    using assms(2) upserted_keeps_fingerprints [of c k source name rotation now] by (auto simp: upsertKey_get)
next
  case (ChoseKey e fp at)
  show ?thesis
  proof (cases "chooseKey ring e fp at")
    case None
    then show ?thesis using ChoseKey assms(2) by auto
  next
    case (Some ring')
    then obtain e0 c1 where e0: "findKey ring e = Some e0" and c1: "chosen_entry e0 fp at = Some c1"
      and r: "ring' = obj_set ring (pk_email e0) c1"
      by (auto simp: chooseKey_entry bind_eq_Some_conv)
    have wf: "pk_email e0 = canonical e" "wf_contact e0" using findKey_email [OF assms(1) e0] by auto
    have "set (all_fingerprints c1) = set (all_fingerprints e0)" by (rule chosen_entry_facts(4) [OF c1 wf(2)])
    moreover have "key_step ring ev = obj_set ring (pk_email e0) c1" using ChoseKey Some r by simp
    moreover have "obj_get ring (pk_email e0) = Some e0" using e0 wf by (simp add: findKey_def)
    ultimately show ?thesis using assms(2) by (cases "email = pk_email e0") (simp_all add: obj_simps)
  qed
next
  case (Forgot e)
  then show ?thesis using assms(2,3) by (simp add: removeKey_def obj_simps)
qed

lemma arrived_fingerprint_known:
  "\<exists>c. obj_get (upsertKey ring k source name rotation now) (pk_email k) = Some c
     \<and> pk_fingerprint k \<in> set (all_fingerprints c)"
proof (cases "obj_get ring (pk_email k)")
  case None
  then show ?thesis by (simp add: upsertKey_get upserted_def fingerprints_simps)
next
  case (Some e)
  show ?thesis
    using Some find_other_Some [of e "pk_fingerprint k"]
    by (auto simp: upsertKey_get upserted_def fingerprints_simps split: option.splits)
qed

lemma history_keeps_fingerprint:
  assumes "Arrived k source name rotation now \<in> set evs" and "Forgot (pk_email k) \<notin> set evs"
  shows "\<exists>c. obj_get (key_run [] evs) (pk_email k) = Some c \<and> pk_fingerprint k \<in> set (all_fingerprints c)"
  using assms
proof (induction evs rule: rev_induct)
  case (snoc ev evs)
  show ?case
  proof (cases "ev = Arrived k source name rotation now")
    case True
    then show ?thesis using arrived_fingerprint_known by (simp add: key_run_snoc)
  next
    case False
    with snoc obtain c where "obj_get (key_run [] evs) (pk_email k) = Some c" "pk_fingerprint k \<in> set (all_fingerprints c)"
      by auto
    moreover have "ev \<noteq> Forgot (pk_email k)" using snoc.prems by auto
    ultimately show ?thesis
      using key_step_keeps_fingerprints [OF wf_key_run [OF wf_ring_Nil, of evs]] by (fastforce simp: key_run_snoc)
  qed
qed simp

subsection \<open>Properties\<close>

text \<open>Two keys for one address, and what the witnesses play with them.\<close>

definition key_a :: public_key_info where
  "key_a = \<lparr>pk_email = ''a@b'', pk_fingerprint = ''AA'', pk_armored = ''armored-a'', pk_userId = None\<rparr>"

definition key_b :: public_key_info where
  "key_b = \<lparr>pk_email = ''a@b'', pk_fingerprint = ''BB'', pk_armored = ''armored-b'', pk_userId = None\<rparr>"

definition two_keys :: "key_event list" where
  "two_keys = [Arrived key_a SourceManual None NoEvidence ''t1'',
               Arrived key_b SourceAutocrypt None NoEvidence ''t2'']"

lemmas two_keys_run = two_keys_def key_run_def key_a_def key_b_def upsertKey_def refreshed_entry_def
  or_else_def changed_entry_def spread_key_def find_other_def others_def asOther_def withOther_def
  findKey_def chooseKey_def canonical_def js_trim_def js_lower_def js_space_def js_lower_char_def code_unit_def
  mark_aside_def undecidedKeys_def set_aside_def all_fingerprints_def

text \<open>C32 What becomes of an entry when a key arrives under a different fingerprint. Either the user had already set that key
  aside, and the key in use and its trust do not move. Or it replaces the key in use: the entry then carries no verification
  date, whatever it said before, names the fingerprint it replaced, keeps the replaced key among those still to be
  decided, and is marked Changed, which blocks sending, unless the key came with a self-signed proof of rotation; with that
  proof, and only with it, the entry is marked Seen, and never Verified. No other address moves.\<close>

theorem key_change_never_silent:
  assumes "obj_get ring (pk_email k) = Some e" and "pk_fingerprint k \<noteq> pk_fingerprint e"
  shows "\<exists>c. obj_get (upsertKey ring k source name rotation now) (pk_email k) = Some c
    \<and> ((\<exists>o' \<in> set (others e). ok_fingerprint o' = pk_fingerprint k \<and> set_aside o')
         \<and> pk_fingerprint c = pk_fingerprint e \<and> pk_armored c = pk_armored e \<and> ck_trust c = ck_trust e
       \<or> ck_trust c = (case rotation of NoEvidence \<Rightarrow> Changed | SelfSigned \<Rightarrow> Seen)
         \<and> pk_fingerprint c = pk_fingerprint k \<and> ck_verifiedAt c = None
         \<and> ck_previousFingerprint c = Some (pk_fingerprint e) \<and> asOther e \<in> set (undecidedKeys c))
    \<and> (\<forall>email. email \<noteq> pk_email k \<longrightarrow>
         obj_get (upsertKey ring k source name rotation now) email = obj_get ring email)"
proof -
  have "asOther e \<in> set (undecidedKeys (changed_entry e k source name rotation now))"
    by (simp add: undecidedKeys_def others_def changed_entry_def withOther_def set_aside_def asOther_def)
  moreover have "ck_trust (changed_entry e k source name rotation now) = (case rotation of NoEvidence \<Rightarrow> Changed | SelfSigned \<Rightarrow> Seen)
      \<and> pk_fingerprint (changed_entry e k source name rotation now) = pk_fingerprint k
      \<and> ck_verifiedAt (changed_entry e k source name rotation now) = None
      \<and> ck_previousFingerprint (changed_entry e k source name rotation now) = Some (pk_fingerprint e)"
    by (cases rotation) (simp_all add: changed_entry_def spread_key_def)
  ultimately show ?thesis
    using assms find_other_Some [of e "pk_fingerprint k"]
    by (auto simp: upsertKey_get upserted_def split: option.splits)
qed

theorem key_change_never_silent_witness:
  "(\<exists>c. obj_get (upsertKey (key_run [] [Arrived key_a SourceManual None NoEvidence ''t1'']) key_b SourceAutocrypt None NoEvidence ''t2'')
      ''a@b'' = Some c \<and> ck_trust c = Changed) \<and>
   (\<exists>c. obj_get (upsertKey (key_run [] [Arrived key_a SourceManual None NoEvidence ''t1'']) key_b SourceAutocrypt None SelfSigned ''t2'')
      ''a@b'' = Some c \<and> ck_trust c = Seen)"
proof -
  have e: "obj_get (key_run [] [Arrived key_a SourceManual None NoEvidence ''t1'']) (pk_email key_b)
      = Some (refreshed_entry None key_a SourceManual None ''t1'')"
    by (simp add: two_keys_run)
  show ?thesis
    using key_change_never_silent [OF e, of SourceAutocrypt None NoEvidence "''t2''"]
      key_change_never_silent [OF e, of SourceAutocrypt None SelfSigned "''t2''"] by (simp add: two_keys_run)
qed

text \<open>C33 A contact is Verified only by the user: in every history of an initially empty ring, an entry
  marked Verified is under a fingerprint that the user chose for that address. No header, no directory
  answer, no import and no proof of rotation can produce the mark.\<close>

theorem verified_only_by_choice:
  assumes "obj_get (key_run [] evs) email = Some c" and "ck_trust c = Verified"
  shows "\<exists>e at. ChoseKey e (pk_fingerprint c) at \<in> set evs \<and> canonical e = email"
  using assms by (rule verified_has_choice)

theorem verified_only_by_choice_witness:
  "\<exists>e at. ChoseKey e ''AA'' at \<in> set (two_keys @ [ChoseKey ''A@b '' ''AA'' ''t3'']) \<and> canonical e = ''a@b''"
proof -
  have "case obj_get (key_run [] (two_keys @ [ChoseKey ''A@b '' ''AA'' ''t3''])) ''a@b'' of
      Some c \<Rightarrow> ck_trust c = Verified \<and> pk_fingerprint c = ''AA'' | None \<Rightarrow> False"
    by code_simp
  then obtain c where c: "obj_get (key_run [] (two_keys @ [ChoseKey ''A@b '' ''AA'' ''t3''])) ''a@b'' = Some c"
    "ck_trust c = Verified" "pk_fingerprint c = ''AA''"
    by (auto split: option.splits)
  show ?thesis using verified_only_by_choice [OF c(1,2)] c(3) by simp
qed

text \<open>No key is lost: once a key has arrived for an address, and as long as the user does not remove
  the address, every later history keeps its fingerprint, in use or among the other keys, so that the
  user can still compare and choose it.\<close>

theorem arrived_key_never_lost:
  assumes "Arrived k source name rotation now \<in> set evs" and "Forgot (pk_email k) \<notin> set evs"
  shows "\<exists>c. obj_get (key_run [] evs) (pk_email k) = Some c \<and> pk_fingerprint k \<in> set (all_fingerprints c)
           \<and> distinct (all_fingerprints c)"
  using history_keeps_fingerprint [OF assms] wf_key_run [OF wf_ring_Nil, of evs]
  by (auto simp: wf_ring_def wf_contact_def)

theorem arrived_key_never_lost_witness:
  "\<exists>c. obj_get (key_run [] two_keys) (pk_email key_a) = Some c \<and> ''AA'' \<in> set (all_fingerprints c)"
proof -
  have 1: "Arrived key_a SourceManual None NoEvidence ''t1'' \<in> set two_keys" by (simp add: two_keys_def)
  have 2: "Forgot (pk_email key_a) \<notin> set two_keys" by (simp add: two_keys_def)
  show ?thesis using arrived_key_never_lost [OF 1 2] by (auto simp: key_a_def)
qed

text \<open>The user's choice: choosing succeeds exactly for a fingerprint the address has, and then that
  key is the one in use and Verified, no other key is left undecided, no key is dropped, and the ring
  stays well formed; no other address moves.\<close>

theorem chooseKey_settles:
  assumes "wf_ring ring"
  shows "(chooseKey ring email fp at \<noteq> None \<longleftrightarrow>
            (\<exists>e. findKey ring email = Some e \<and> fp \<in> set (all_fingerprints e)))
    \<and> (\<forall>ring' e. chooseKey ring email fp at = Some ring' \<and> findKey ring email = Some e \<longrightarrow>
         wf_ring ring'
         \<and> (\<exists>c. findKey ring' email = Some c \<and> pk_fingerprint c = fp \<and> ck_trust c = Verified
               \<and> undecidedKeys c = [] \<and> set (all_fingerprints c) = set (all_fingerprints e))
         \<and> (\<forall>a. a \<noteq> canonical email \<longrightarrow> obj_get ring' a = obj_get ring a))"
proof -
  have has: "chosen_entry e fp at \<noteq> None \<longleftrightarrow> fp \<in> set (all_fingerprints e)" for e
    using find_other_None [of e fp] by (auto simp: chosen_entry_def all_fingerprints_def)
  have "wf_ring ring'
         \<and> (\<exists>c. findKey ring' email = Some c \<and> pk_fingerprint c = fp \<and> ck_trust c = Verified
               \<and> undecidedKeys c = [] \<and> set (all_fingerprints c) = set (all_fingerprints e))
         \<and> (\<forall>a. a \<noteq> canonical email \<longrightarrow> obj_get ring' a = obj_get ring a)"
    if "chooseKey ring email fp at = Some ring'" "findKey ring email = Some e" for ring' e
  proof -
    from that obtain c where c: "chosen_entry e fp at = Some c" and r: "ring' = obj_set ring (pk_email e) c"
      by (auto simp: chooseKey_entry)
    have "pk_email e = canonical email" "wf_contact e" using findKey_email [OF assms that(2)] by auto
    then show ?thesis
      using chosen_entry_facts [OF c] wf_ring_chooseKey [OF assms that(1)] r
      by (auto simp: findKey_def obj_simps)
  qed
  moreover have "chooseKey ring email fp at \<noteq> None \<longleftrightarrow>
            (\<exists>e. findKey ring email = Some e \<and> fp \<in> set (all_fingerprints e))"
    using has by (auto simp: chooseKey_entry bind_eq_None_conv)
  ultimately show ?thesis by blast
qed

theorem chooseKey_settles_witness:
  "\<exists>c. findKey (the (chooseKey (key_run [] two_keys) ''a@b'' ''AA'' ''t3'')) ''a@b'' = Some c
      \<and> ck_trust c = Verified \<and> undecidedKeys c = []"
proof -
  have wf: "wf_ring (key_run [] two_keys)" by (rule wf_key_run [OF wf_ring_Nil])
  have "findKey (key_run [] two_keys) ''a@b'' \<noteq> None \<and>
    chooseKey (key_run [] two_keys) ''a@b'' ''AA'' ''t3'' \<noteq> None"
    by code_simp
  then obtain e ring' where "findKey (key_run [] two_keys) ''a@b'' = Some e"
    "chooseKey (key_run [] two_keys) ''a@b'' ''AA'' ''t3'' = Some ring'"
    by auto
  then show ?thesis using chooseKey_settles [OF wf, of "''a@b''" "''AA''" "''t3''"] by fastforce
qed

end
