(* ===== verification/Js_Text.thy ===== *)
theory Js_Text
  imports Js_Prelude
begin

text \<open>
  String operations the text formats use: splitting, slicing, the replacements of line ends, case-blind
  search for an ASCII pattern, and the greedy cutting of a text into runs (\<open>match(/.{1,n}/g)\<close>).
\<close>

abbreviation NL :: char where "NL \<equiv> CHR 0x0A"
abbreviation CR :: char where "CR \<equiv> CHR 0x0D"
abbreviation TAB :: char where "TAB \<equiv> CHR 0x09"
abbreviation QUOTE :: char where "QUOTE \<equiv> CHR 0x22"

text \<open>\<open>s.split(c)\<close> for a one-character separator: never empty.\<close>

fun js_split :: "'a \<Rightarrow> 'a list \<Rightarrow> 'a list list" where
  "js_split c [] = [[]]"
| "js_split c (x # xs) =
     (if x = c then [] # js_split c xs
      else (case js_split c xs of [] \<Rightarrow> [[x]] | y # ys \<Rightarrow> (x # y) # ys))"

text \<open>\<open>s.slice(a, b)\<close> for indices that are not negative.\<close>

definition js_slice :: "nat \<Rightarrow> nat \<Rightarrow> 'a list \<Rightarrow> 'a list" where
  "js_slice a b s = take (b - a) (drop a s)"

text \<open>\<open>s.replace(/\r\n/g, '\n')\<close>\<close>

fun normalise_newlines :: "string \<Rightarrow> string" where
  "normalise_newlines (c # d # cs) =
     (if c = CR \<and> d = NL then NL # normalise_newlines cs else c # normalise_newlines (d # cs))"
| "normalise_newlines cs = cs"

text \<open>\<open>s.replace(/\n[ \t]+/g, ' ')\<close>\<close>

definition folding_space :: "char \<Rightarrow> bool" where
  "folding_space c \<longleftrightarrow> c = CHR '' '' \<or> c = TAB"

function (sequential) unfold_lines :: "string \<Rightarrow> string" where
  "unfold_lines [] = []"
| "unfold_lines (c # cs) =
     (if c = NL \<and> (case cs of [] \<Rightarrow> False | d # _ \<Rightarrow> folding_space d)
      then CHR '' '' # unfold_lines (dropWhile folding_space cs)
      else c # unfold_lines cs)"
  by pat_completeness auto
termination
  by (relation "measure length") (auto simp: less_Suc_eq_le length_dropWhile_le)

text \<open>\<open>/pattern/i.test(s)\<close> for a literal ASCII pattern given in lower case. Without the \<open>u\<close> flag a
  non-ASCII letter never matches an ASCII one.\<close>

definition ascii_lower_char :: "char \<Rightarrow> char" where
  "ascii_lower_char c = (let n = code_unit c in if 65 \<le> n \<and> n \<le> 90 then char_of (n + 32) else c)"

definition ascii_lower :: "string \<Rightarrow> string" where
  "ascii_lower s = map ascii_lower_char s"

definition includes_ci :: "string \<Rightarrow> string \<Rightarrow> bool" where
  "includes_ci s pat \<longleftrightarrow> js_includes (ascii_lower s) pat"

definition starts_with_ci :: "string \<Rightarrow> string \<Rightarrow> bool" where
  "starts_with_ci s pat \<longleftrightarrow> prefix pat (ascii_lower s)"

text \<open>\<open>s.match(/.{1,n}/g) ?? []\<close>: runs of at most \<open>n\<close> characters that are no line ends.\<close>

function chunks :: "nat \<Rightarrow> 'a list \<Rightarrow> 'a list list" where
  "chunks n xs = (if xs = [] \<or> n = 0 then [] else take n xs # chunks n (drop n xs))"
  by pat_completeness auto
termination
  by (relation "measure (\<lambda>(n, xs). length xs)") auto

declare chunks.simps [simp del]

definition dot_runs :: "nat \<Rightarrow> string \<Rightarrow> string list" where
  "dot_runs n s = concat (map (chunks n) (js_split NL (map (\<lambda>c. if c = CR then NL else c) s)))"

text \<open>\<open>s.replace(/\s+/g, '')\<close>\<close>

definition strip_spaces :: "string \<Rightarrow> string" where
  "strip_spaces s = filter (\<lambda>c. \<not> js_space c) s"

lemma js_trim_set: "set (js_trim s) \<subseteq> set s"
proof
  fix c assume "c \<in> set (js_trim s)"
  then have "c \<in> set (dropWhile js_space (rev (dropWhile js_space s)))" by (simp add: js_trim_def)
  then have "c \<in> set (dropWhile js_space s)" using set_dropWhileD by fastforce
  then show "c \<in> set s" by (rule set_dropWhileD)
qed

lemma js_split_not_Nil [simp]: "js_split c xs \<noteq> []"
  by (induction xs) (auto split: list.splits)

lemma js_join_Cons_Cons: "js_join sep ((x # p) # ps) = x # js_join sep (p # ps)"
  by (cases ps) auto

lemma js_join_split: "js_join [c] (js_split c xs) = xs"
proof (induction xs)
  case (Cons x xs)
  obtain p ps where "js_split c xs = p # ps" by (meson js_split_not_Nil neq_Nil_conv)
  with Cons show ?case by (simp add: js_join_Cons_Cons)
qed simp

lemma js_split_parts: "p \<in> set (js_split c xs) \<Longrightarrow> c \<notin> set p"
  by (induction xs arbitrary: p) (auto split: list.splits if_splits)

lemma js_split_no: "c \<notin> set xs \<Longrightarrow> js_split c xs = [xs]"
  by (induction xs) auto

lemma js_split_append: "c \<notin> set a \<Longrightarrow> js_split c (a @ c # b) = a # js_split c b"
  by (induction a) auto

lemma js_split_join: "ps \<noteq> [] \<Longrightarrow> (\<And>p. p \<in> set ps \<Longrightarrow> c \<notin> set p) \<Longrightarrow> js_split c (js_join [c] ps) = ps"
  by (induction "[c]" ps rule: js_join.induct) (auto simp: js_split_no js_split_append)

lemma concat_chunks: "0 < n \<Longrightarrow> concat (chunks n xs) = xs"
  by (induction n xs rule: chunks.induct) (simp add: chunks.simps)

lemma chunks_length: "p \<in> set (chunks n xs) \<Longrightarrow> 0 < length p \<and> length p \<le> n"
proof (induction n xs rule: chunks.induct)
  case (1 n xs)
  then show ?case by (subst (asm) (2) chunks.simps) (auto split: if_splits)
qed

lemma dot_runs_no_breaks:
  "0 < n \<Longrightarrow> NL \<notin> set s \<Longrightarrow> CR \<notin> set s \<Longrightarrow> dot_runs n s = chunks n s"
proof -
  assume "NL \<notin> set s" "CR \<notin> set s"
  then have "map (\<lambda>c. if c = CR then NL else c) s = s" by (intro map_idI) auto
  with \<open>NL \<notin> set s\<close> show ?thesis by (simp add: dot_runs_def js_split_no)
qed

lemma normalise_Cons: "c \<noteq> CR \<Longrightarrow> normalise_newlines (c # cs) = c # normalise_newlines cs"
  by (cases cs) auto

lemma normalise_append:
  "(case b of [] \<Rightarrow> True | x # _ \<Rightarrow> x \<noteq> NL) \<Longrightarrow> normalise_newlines (a @ b) = normalise_newlines a @ normalise_newlines b"
proof (induction "length a" arbitrary: a rule: less_induct)
  case less
  show ?case
  proof (cases a)
    case (Cons c cs)
    show ?thesis
    proof (cases cs)
      case Nil
      then show ?thesis using Cons less.prems by (cases b) auto
    next
      case (Cons d ds)
      then show ?thesis using \<open>a = c # cs\<close> less.prems less.hyps [of ds] less.hyps [of "d # ds"] by simp
    qed
  qed simp
qed

lemma normalise_id: "CR \<notin> set s \<Longrightarrow> normalise_newlines s = s"
  by (induction s rule: normalise_newlines.induct) auto

lemma js_index_of_first:
  "js_index_of hay needle = Some i \<Longrightarrow> j < i \<Longrightarrow> \<not> prefix needle (drop j hay)"
proof (induction hay needle arbitrary: i j rule: js_index_of.induct)
  case (2 c cs needle)
  then show ?case by (cases j) (auto split: if_splits)
qed (auto split: if_splits)

lemma js_index_of_le:
  "js_index_of (a @ needle @ b) needle \<noteq> None \<and> the (js_index_of (a @ needle @ b) needle) \<le> length a"
proof -
  have "sublist needle (a @ needle @ b)" by (simp add: sublist_appendI)
  then obtain i where i: "js_index_of (a @ needle @ b) needle = Some i"
    using js_index_of_None_iff by fastforce
  moreover have "i \<le> length a"
  proof (rule ccontr)
    assume "\<not> i \<le> length a"
    then have "\<not> prefix needle (drop (length a) (a @ needle @ b))"
      by (intro js_index_of_first [OF i]) simp
    then show False by simp
  qed
  ultimately show ?thesis by simp
qed

end
