(* ===== verification/Base64.thy ===== *)
theory Base64
  imports Js_Prelude "HOL-Library.Word"
begin

text \<open>
  Base64, base64url and UTF-8 (\<^verbatim>\<open>lib/base64.ts\<close>). Bytes are \<open>8 word\<close>, UTF-16 code units are
  \<open>16 word\<close>; the bit operations of JavaScript work on 32-bit integers, so the arithmetic in
  between is on \<open>32 word\<close>, with the arithmetic shift for \<open>>>\<close>. A read past the end of a byte array
  is \<open>undefined\<close>, which the bit operations read as 0.
\<close>

unbundle bit_operations_syntax

type_synonym u8 = "8 word"
type_synonym utf16 = "16 word"
type_synonym int32 = "32 word"

definition shl :: "int32 \<Rightarrow> nat \<Rightarrow> int32" where
  "shl w n = push_bit n w"

definition sar :: "int32 \<Rightarrow> nat \<Rightarrow> int32" where
  "sar w n = signed_drop_bit n w"

definition b64_alphabet :: string where
  "b64_alphabet = ''ABCDEFGHIJKLMNOPQRSTUVWXYZabcdefghijklmnopqrstuvwxyz0123456789+/''"

definition alphabet_at :: "string \<Rightarrow> int32 \<Rightarrow> char" where
  "alphabet_at alphabet w = alphabet ! unat w"

text \<open>\<open>ALPHABET.indexOf(c)\<close>; \<open>-1\<close> when it is not there, and for \<open>undefined\<close>.\<close>

definition alphabet_index :: "string \<Rightarrow> char option \<Rightarrow> int32" where
  "alphabet_index alphabet c = (case c of None \<Rightarrow> - 1
     | Some x \<Rightarrow> (case js_index_of alphabet [x] of None \<Rightarrow> - 1 | Some i \<Rightarrow> of_nat i))"

definition b64_group :: "u8 \<Rightarrow> u8 option \<Rightarrow> u8 option \<Rightarrow> string" where
  "b64_group b0 b1 b2 =
     (let x0 = ucast b0 :: int32;
          x1 = (case b1 of None \<Rightarrow> 0 | Some b \<Rightarrow> ucast b) :: int32;
          x2 = (case b2 of None \<Rightarrow> 0 | Some b \<Rightarrow> ucast b) :: int32;
          A = alphabet_at b64_alphabet
      in [A (sar x0 2),
          A (shl (x0 AND 3) 4 OR sar x1 4),
          if b1 = None then CHR ''='' else A (shl (x1 AND 15) 2 OR sar x2 6),
          if b2 = None then CHR ''='' else A (x2 AND 63)])"

fun bytesToBase64 :: "u8 list \<Rightarrow> string" where
  "bytesToBase64 [] = []"
| "bytesToBase64 [b0] = b64_group b0 None None"
| "bytesToBase64 [b0, b1] = b64_group b0 (Some b1) None"
| "bytesToBase64 (b0 # b1 # b2 # bs) = b64_group b0 (Some b1) (Some b2) @ bytesToBase64 bs"

definition b64_number :: "char option \<Rightarrow> char option \<Rightarrow> char option \<Rightarrow> char option \<Rightarrow> int32" where
  "b64_number c0 c1 c2 c3 =
     (let I = alphabet_index b64_alphabet
      in shl (I c0) 18 OR shl (I c1) 12 OR shl (if c2 = None then 0 else I c2) 6 OR (if c3 = None then 0 else I c3))"

definition b64_byte :: "int32 \<Rightarrow> nat \<Rightarrow> u8" where
  "b64_byte n k = ucast (sar n k AND 255)"

fun b64_bytes :: "string \<Rightarrow> u8 list" where
  "b64_bytes [] = []"
| "b64_bytes [c0] = [b64_byte (b64_number (Some c0) None None None) 16]"
| "b64_bytes [c0, c1] = [b64_byte (b64_number (Some c0) (Some c1) None None) 16]"
| "b64_bytes [c0, c1, c2] =
     (let n = b64_number (Some c0) (Some c1) (Some c2) None in [b64_byte n 16, b64_byte n 8])"
| "b64_bytes (c0 # c1 # c2 # c3 # cs) =
     (let n = b64_number (Some c0) (Some c1) (Some c2) (Some c3)
      in b64_byte n 16 # b64_byte n 8 # b64_byte n 0 # b64_bytes cs)"

text \<open>The output array has \<open>floor(3n/4)\<close> places; a byte stored past its end is dropped.\<close>

definition base64ToBytes :: "string \<Rightarrow> u8 list" where
  "base64ToBytes input =
     (let clean = filter (\<lambda>c. c \<in> set b64_alphabet) input
      in take (length clean * 3 div 4) (b64_bytes clean))"

definition toBase64Url :: "string \<Rightarrow> string" where
  "toBase64Url s = rev (dropWhile (\<lambda>c. c = CHR ''='')
     (rev (map (\<lambda>c. if c = CHR ''+'' then CHR ''-'' else if c = CHR ''/'' then CHR ''_'' else c) s)))"

definition fromBase64Url :: "string \<Rightarrow> string" where
  "fromBase64Url s = map (\<lambda>c. if c = CHR ''-'' then CHR ''+'' else if c = CHR ''_'' then CHR ''/'' else c) s"

subsection \<open>UTF-8\<close>

definition high_surrogate :: "utf16 \<Rightarrow> bool" where
  "high_surrogate c \<longleftrightarrow> 0xd800 \<le> c \<and> c \<le> 0xdbff"

definition low_surrogate :: "utf16 \<Rightarrow> bool" where
  "low_surrogate c \<longleftrightarrow> 0xdc00 \<le> c \<and> c \<le> 0xdfff"

definition utf8_point :: "int32 \<Rightarrow> u8 list" where
  "utf8_point c = map ucast
     (if c < 0x80 then [c]
      else if c < 0x800 then [0xc0 OR sar c 6, 0x80 OR (c AND 63)]
      else if c < 0x10000 then [0xe0 OR sar c 12, 0x80 OR (sar c 6 AND 63), 0x80 OR (c AND 63)]
      else [0xf0 OR sar c 18, 0x80 OR (sar c 12 AND 63), 0x80 OR (sar c 6 AND 63), 0x80 OR (c AND 63)])"

definition pair_point :: "utf16 \<Rightarrow> utf16 \<Rightarrow> int32" where
  "pair_point c d = 0x10000 + shl (ucast c - 0xd800) 10 + (ucast d - 0xdc00)"

fun utf8ToBytes :: "utf16 list \<Rightarrow> u8 list" where
  "utf8ToBytes [] = []"
| "utf8ToBytes [c] = utf8_point (ucast c)"
| "utf8ToBytes (c # d # cs) =
     (if high_surrogate c then utf8_point (pair_point c d) @ utf8ToBytes cs
      else utf8_point (ucast c) @ utf8ToBytes (d # cs))"

fun utf8ByteLength :: "utf16 list \<Rightarrow> nat" where
  "utf8ByteLength [] = 0"
| "utf8ByteLength (c # cs) =
     (if c < 0x80 then 1 + utf8ByteLength cs
      else if c < 0x800 then 2 + utf8ByteLength cs
      else if high_surrogate c \<and> cs \<noteq> [] then 4 + utf8ByteLength (tl cs)
      else 3 + utf8ByteLength cs)"

text \<open>\<open>bytes[i++] & 63\<close> on a list of the bytes left.\<close>

definition tail_bits :: "u8 list \<Rightarrow> int32" where
  "tail_bits bs = (case bs of [] \<Rightarrow> 0 | b # _ \<Rightarrow> ucast b AND 63)"

definition units_of :: "int32 \<Rightarrow> utf16 list" where
  "units_of c = (if c > 0xffff
     then let d = c - 0x10000 in [ucast (0xd800 + sar d 10), ucast (0xdc00 + (d AND 1023))]
     else [ucast c])"

function (sequential) bytesToUtf8 :: "u8 list \<Rightarrow> utf16 list" where
  "bytesToUtf8 [] = []"
| "bytesToUtf8 (b # bs) =
     (let x = ucast b :: int32
      in if x < 0x80 then units_of x @ bytesToUtf8 bs
         else if x < 0xe0 then units_of (shl (x AND 31) 6 OR tail_bits bs) @ bytesToUtf8 (drop 1 bs)
         else if x < 0xf0 then
           units_of (shl (x AND 15) 12 OR shl (tail_bits bs) 6 OR tail_bits (drop 1 bs)) @ bytesToUtf8 (drop 2 bs)
         else units_of (shl (x AND 7) 18 OR shl (tail_bits bs) 12 OR shl (tail_bits (drop 1 bs)) 6
                OR tail_bits (drop 2 bs)) @ bytesToUtf8 (drop 3 bs))"
  by pat_completeness auto
termination
  by (relation "measure length") auto

declare bytesToUtf8.simps(2) [simp del]

definition encodeUtf8Base64 :: "utf16 list \<Rightarrow> string" where
  "encodeUtf8Base64 text' = bytesToBase64 (utf8ToBytes text')"

definition decodeUtf8Base64 :: "string \<Rightarrow> utf16 list" where
  "decodeUtf8Base64 b64 = bytesToUtf8 (base64ToBytes b64)"

subsection \<open>The base64 alphabet\<close>

lemma b64_alphabet_facts: "length b64_alphabet = 64" "distinct b64_alphabet" "CHR ''='' \<notin> set b64_alphabet"
  "CHR ''-'' \<notin> set b64_alphabet" "CHR ''_'' \<notin> set b64_alphabet"
  by (simp_all add: b64_alphabet_def)

lemma js_index_of_nth:
  "distinct xs \<Longrightarrow> i < length xs \<Longrightarrow> js_index_of xs [xs ! i] = Some i"
proof (induction xs arbitrary: i)
  case (Cons x xs)
  show ?case
  proof (cases i)
    case (Suc j)
    then have "x \<noteq> xs ! j" using Cons.prems by auto
    then show ?thesis using Cons Suc by simp
  qed simp
qed simp

lemma alphabet_index_at:
  assumes "distinct al" and "w < of_nat (length al)" and "length al < 2 ^ 32"
  shows "alphabet_index al (Some (alphabet_at al w)) = w"
proof -
  have "unat (of_nat (length al) :: int32) = length al" using assms(3) by (simp add: unat_of_nat)
  then have "unat w < length al" using assms(2) by (simp add: word_less_nat_alt)
  then show ?thesis using js_index_of_nth [OF assms(1), of "unat w"]
    by (simp add: alphabet_index_def alphabet_at_def)
qed

lemma b64_index_at: "w < 64 \<Longrightarrow> alphabet_index b64_alphabet (Some (alphabet_at b64_alphabet w)) = w"
  by (rule alphabet_index_at) (simp_all add: b64_alphabet_facts)

lemma b64_at_in: "w < 64 \<Longrightarrow> alphabet_at b64_alphabet w \<in> set b64_alphabet"
  unfolding alphabet_at_def by (rule nth_mem) (simp add: b64_alphabet_facts word_less_nat_alt)

subsection \<open>Bits\<close>

lemma upt_8: "[0..<8] = [0, 1, 2, 3, 4, 5, 6, 7]" by code_simp

lemma upt_16: "[0..<16] = [0, 1, 2, 3, 4, 5, 6, 7, 8, 9, 10, 11, 12, 13, 14, 15]" by code_simp

lemma upt_32: "[0..<32] = [0, 1, 2, 3, 4, 5, 6, 7, 8, 9, 10, 11, 12, 13, 14, 15, 16, 17, 18, 19, 20,
    21, 22, 23, 24, 25, 26, 27, 28, 29, 30, 31]"
  by code_simp

lemma bits_eq8: "a = b \<longleftrightarrow> (\<forall>n \<in> set [0..<8]. bit a n = bit b n)" for a b :: u8
  by (auto intro: bit_word_eqI)

lemma bits_eq16: "a = b \<longleftrightarrow> (\<forall>n \<in> set [0..<16]. bit a n = bit b n)" for a b :: utf16
  by (auto intro: bit_word_eqI)

lemma bits_eq32: "a = b \<longleftrightarrow> (\<forall>n \<in> set [0..<32]. bit a n = bit b n)" for a b :: int32
  by (auto intro: bit_word_eqI)

lemma no_bit: "LENGTH('a) \<le> n \<Longrightarrow> \<not> bit (b :: 'a::len word) n"
  using bit_imp_le_length by (metis not_le)

lemma no_bit_below: "c < v \<Longrightarrow> unat v = 2 ^ k \<Longrightarrow> k \<le> n \<Longrightarrow> \<not> bit c n" for c v :: "'a::len word"
proof -
  assume 1: "c < v" and 2: "unat v = 2 ^ k" and 3: "k \<le> n"
  then have "unat c < 2 ^ k" by (simp add: word_less_nat_alt)
  also have "\<dots> \<le> 2 ^ n" using 3 by (simp add: power_increasing)
  finally have "\<not> bit (unat c) n" by (simp add: bit_iff_odd)
  then show ?thesis by (simp add: bit_simps)
qed

lemma below_if_masked: "w AND 63 = w \<Longrightarrow> w < 64" for w :: int32
proof -
  assume "w AND 63 = w"
  then have "w = take_bit 6 w" by (simp add: take_bit_eq_mask mask_eq_exp_minus_1)
  then have "unat w = take_bit 6 (unat w)" by (metis unsigned_take_bit_eq)
  moreover have "take_bit 6 (unat w) < 2 ^ 6" by (rule take_bit_nat_less_exp)
  ultimately have "unat w < 64" by simp
  then show ?thesis by (simp add: word_less_nat_alt)
qed

lemmas eval_bits = upt_8 upt_16 upt_32 bit_simps bit_numeral_simps no_bit shl_def sar_def
  numeral_2_eq_2 [symmetric] numeral_3_eq_3 [symmetric]

subsection \<open>Base64 round trip\<close>

lemma sextets_below:
  "sar (ucast b0) 2 < 64" "shl (ucast b0 AND 3) 4 OR sar (ucast b1) 4 < 64" "shl (ucast b0 AND 3) 4 < 64"
  "shl (ucast b1 AND 15) 2 OR sar (ucast b2) 6 < 64" "shl (ucast b1 AND 15) 2 < 64" "ucast b2 AND 63 < (64 :: int32)"
  for b0 b1 b2 :: u8
  by (rule below_if_masked; simp add: bits_eq32 eval_bits)+

lemma first_byte:
  "b64_byte (shl (sar (ucast b0) 2) 18 OR shl (shl (ucast b0 AND 3) 4 OR sar (ucast b1) 4) 12) 16 = b0"
  "b64_byte (shl (sar (ucast b0) 2) 18 OR shl (shl (ucast b0 AND 3) 4) 12) 16 = b0"
  "b64_byte (shl (sar (ucast b0) 2) 18 OR shl (shl (ucast b0 AND 3) 4 OR sar (ucast b1) 4) 12
     OR shl (shl (ucast b1 AND 15) 2) 6) 16 = b0"
  "b64_byte (shl (sar (ucast b0) 2) 18 OR shl (shl (ucast b0 AND 3) 4 OR sar (ucast b1) 4) 12
     OR shl (shl (ucast b1 AND 15) 2 OR sar (ucast b2) 6) 6 OR ucast b2 AND 63) 16 = b0"
  for b0 b1 b2 :: u8
  by (simp_all add: b64_byte_def bits_eq8 eval_bits)

lemma later_bytes:
  "b64_byte (shl (sar (ucast b0) 2) 18 OR shl (shl (ucast b0 AND 3) 4 OR sar (ucast b1) 4) 12
     OR shl (shl (ucast b1 AND 15) 2) 6) 8 = b1"
  "b64_byte (shl (sar (ucast b0) 2) 18 OR shl (shl (ucast b0 AND 3) 4 OR sar (ucast b1) 4) 12
     OR shl (shl (ucast b1 AND 15) 2 OR sar (ucast b2) 6) 6 OR ucast b2 AND 63) 8 = b1"
  "b64_byte (shl (sar (ucast b0) 2) 18 OR shl (shl (ucast b0 AND 3) 4 OR sar (ucast b1) 4) 12
     OR shl (shl (ucast b1 AND 15) 2 OR sar (ucast b2) 6) 6 OR ucast b2 AND 63) 0 = b2"
  for b0 b1 b2 :: u8
  by (simp_all add: b64_byte_def bits_eq8 eval_bits)

abbreviation b64_clean :: "string \<Rightarrow> string" where
  "b64_clean s \<equiv> filter (\<lambda>c. c \<in> set b64_alphabet) s"

lemma sar_0 [simp]: "sar 0 n = 0" and shl_0 [simp]: "shl 0 n = 0"
  by (simp_all add: sar_def shl_def)

lemma group_counts: "(12 + k * 3) div 4 = 3 + k * 3 div (4 :: nat)" "(5 + k) div 3 = 1 + (k + 2) div (3 :: nat)"
  by presburger+

lemmas group_simps = b64_group_def Let_def b64_at_in [OF sextets_below(1)] b64_at_in [OF sextets_below(2)]
  b64_at_in [OF sextets_below(3)] b64_at_in [OF sextets_below(4)] b64_at_in [OF sextets_below(5)]
  b64_at_in [OF sextets_below(6)] b64_index_at [OF sextets_below(1)] b64_index_at [OF sextets_below(2)]
  b64_index_at [OF sextets_below(3)] b64_index_at [OF sextets_below(4)] b64_index_at [OF sextets_below(5)]
  b64_index_at [OF sextets_below(6)] b64_alphabet_facts(3) b64_number_def first_byte later_bytes

lemma decode_encode:
  "b64_bytes (b64_clean (bytesToBase64 bs)) = bs \<and> length (b64_clean (bytesToBase64 bs)) * 3 div 4 = length bs"
  by (induction bs rule: bytesToBase64.induct) (simp_all add: group_simps group_counts)

lemma base64_inverse: "base64ToBytes (bytesToBase64 bs) = bs"
  using decode_encode [of bs] by (simp add: base64ToBytes_def Let_def)

lemma bytesToBase64_length: "length (bytesToBase64 bs) = 4 * ((length bs + 2) div 3)"
  by (induction bs rule: bytesToBase64.induct) (simp_all add: b64_group_def Let_def group_counts)

subsection \<open>The URL alphabet\<close>

lemma b64_clean_url: "b64_clean (fromBase64Url (toBase64Url s)) = b64_clean s"
  if "set s \<subseteq> insert (CHR ''='') (set b64_alphabet)"
proof -
  define u where "u = (\<lambda>c. if c = CHR ''+'' then CHR ''-'' else if c = CHR ''/'' then CHR ''_'' else c)"
  define f where "f = (\<lambda>c. if c = CHR ''-'' then CHR ''+'' else if c = CHR ''_'' then CHR ''/'' else c)"
  have fu: "f (u c) = c" if "c \<in> insert (CHR ''='') (set b64_alphabet)" for c
    using that b64_alphabet_facts by (auto simp: u_def f_def)
  define pad where "pad = rev (takeWhile (\<lambda>c. c = CHR ''='') (rev (map u s)))"
  have "set pad \<subseteq> {CHR ''=''}" by (auto simp: pad_def dest: set_takeWhileD)
  then have no_pad: "b64_clean (map f pad) = []"
    using b64_alphabet_facts(3) by (auto simp: filter_empty_conv f_def)
  have "rev (takeWhile (\<lambda>c. c = CHR ''='') (rev (map u s)) @ dropWhile (\<lambda>c. c = CHR ''='') (rev (map u s))) = map u s"
    by (simp only: takeWhile_dropWhile_id rev_rev_ident)
  then have "toBase64Url s @ pad = map u s"
    by (simp only: toBase64Url_def u_def pad_def rev_append)
  from arg_cong [OF this, of "map f"] have "map f (toBase64Url s) @ map f pad = map f (map u s)" by simp
  also have "\<dots> = map (\<lambda>c. c) s"
    unfolding map_map by (rule map_cong [OF refl]) (use that fu in \<open>auto simp: subset_eq\<close>)
  finally have "map f (toBase64Url s) @ map f pad = s" by simp
  then have "b64_clean (map f (toBase64Url s)) = b64_clean s"
    using no_pad by (metis append_Nil2 filter_append)
  then show ?thesis using b64_alphabet_facts(3) by (simp add: fromBase64Url_def f_def)
qed

lemma bytesToBase64_chars: "set (bytesToBase64 bs) \<subseteq> insert (CHR ''='') (set b64_alphabet)"
  by (induction bs rule: bytesToBase64.induct) (auto simp: group_simps)

lemma base64url_inverse: "base64ToBytes (fromBase64Url (toBase64Url (bytesToBase64 bs))) = bs"
  using decode_encode [of bs] b64_clean_url [OF bytesToBase64_chars, of bs] by (simp add: base64ToBytes_def Let_def)

subsection \<open>UTF-8 round trip\<close>

text \<open>A lead byte is a marker in the high bits plus a few bits of the code point.\<close>

lemma marker_plus:
  "y < 0x20 \<Longrightarrow> 0xc0 OR y = 0xc0 + y" "y < 0x10 \<Longrightarrow> 0xe0 OR y = 0xe0 + y" "y < 8 \<Longrightarrow> 0xf0 OR y = 0xf0 + y" for y :: int32
proof -
  show "y < 0x20 \<Longrightarrow> 0xc0 OR y = 0xc0 + y"
    by (rule disjunctive_add_eq_or [symmetric]) (simp add: bits_eq32 eval_bits no_bit_below [of y "0x20" 5])
  show "y < 0x10 \<Longrightarrow> 0xe0 OR y = 0xe0 + y"
    by (rule disjunctive_add_eq_or [symmetric]) (simp add: bits_eq32 eval_bits no_bit_below [of y "0x10" 4])
  show "y < 8 \<Longrightarrow> 0xf0 OR y = 0xf0 + y"
    by (rule disjunctive_add_eq_or [symmetric]) (simp add: bits_eq32 eval_bits no_bit_below [of y 8 3])
qed

lemma sar_below: "c < v \<Longrightarrow> unat v = 2 ^ (n + k) \<Longrightarrow> n + k < 31 \<Longrightarrow> unat w = 2 ^ k \<Longrightarrow> sar c n < w" for c v w :: int32
proof -
  assume c: "c < v" "unat v = 2 ^ (n + k)" and k: "n + k < 31" and w: "unat w = 2 ^ k"
  have "sar c n = drop_bit n c"
    using no_bit_below [OF c] k
    by (intro bit_word_eqI) (auto simp: sar_def bit_simps not_le le_diff_conv)
  moreover have "take_bit 32 (unat c) = unat c"
    using unsigned_less [of c, where ?'a = nat] by (simp add: take_bit_nat_eq_self_iff)
  then have "unat (drop_bit n c) < 2 ^ k"
    using c by (simp only: unsigned_drop_bit_eq) (simp add: drop_bit_eq_div word_less_nat_alt less_mult_imp_div_less power_add mult.commute)
  ultimately show ?thesis using w by (simp add: word_less_nat_alt)
qed

lemma ucast_byte: "c < 0x100 \<Longrightarrow> ucast (ucast c :: u8) = c" for c :: int32
  using no_bit_below [of c "0x100" 8] by (simp add: bits_eq32 eval_bits)

lemma continuation: "ucast (ucast (0x80 OR (w AND 63)) :: u8) AND 63 = w AND 63" for w :: int32
  by (simp add: bits_eq32 eval_bits)

text \<open>One step of the decoder, by the lead byte.\<close>

lemma step_1: "x < 0x80 \<Longrightarrow> bytesToUtf8 (ucast x # bs) = units_of x @ bytesToUtf8 bs"
proof -
  assume x: "x < 0x80"
  also have "(0x80 :: int32) < 0x100" by simp
  finally have "ucast (ucast x :: u8) = x" by (rule ucast_byte)
  then show ?thesis using x by (simp add: bytesToUtf8.simps(2) Let_def)
qed

lemma step_2: "0x80 \<le> x \<Longrightarrow> x < 0xe0 \<Longrightarrow>
   bytesToUtf8 (ucast x # b # bs) = units_of (shl (x AND 31) 6 OR ucast b AND 63) @ bytesToUtf8 bs"
proof -
  assume x0: "0x80 \<le> x" and x: "x < 0xe0"
  note x
  also have "(0xe0 :: int32) < 0x100" by simp
  finally have "ucast (ucast x :: u8) = x" by (rule ucast_byte)
  moreover have "\<not> x < 0x80" using x0 by simp
  ultimately show ?thesis using x by (subst bytesToUtf8.simps) (simp add: Let_def tail_bits_def)
qed

lemma step_3: "0xe0 \<le> x \<Longrightarrow> x < 0xf0 \<Longrightarrow>
   bytesToUtf8 (ucast x # b # b' # bs) =
     units_of (shl (x AND 15) 12 OR shl (ucast b AND 63) 6 OR ucast b' AND 63) @ bytesToUtf8 bs"
proof -
  assume x0: "0xe0 \<le> x" and x: "x < 0xf0"
  note x
  also have "(0xf0 :: int32) < 0x100" by simp
  finally have u: "ucast (ucast x :: u8) = x" by (rule ucast_byte)
  have "\<not> x < 0x80" "\<not> x < 0xe0" using x0 by (simp_all add: word_le_nat_alt word_less_nat_alt)
  then show ?thesis using u x
    by (subst bytesToUtf8.simps) (simp add: Let_def tail_bits_def numeral_2_eq_2)
qed

lemma step_4: "0xf0 \<le> x \<Longrightarrow> x < 0x100 \<Longrightarrow>
   bytesToUtf8 (ucast x # b # b' # b'' # bs) =
     units_of (shl (x AND 7) 18 OR shl (ucast b AND 63) 12 OR shl (ucast b' AND 63) 6 OR ucast b'' AND 63)
       @ bytesToUtf8 bs"
proof -
  assume x0: "0xf0 \<le> x" and "x < 0x100"
  then have u: "ucast (ucast x :: u8) = x" by (intro ucast_byte)
  have "\<not> x < 0x80" "\<not> x < 0xe0" "\<not> x < 0xf0"
    using x0 by (simp_all add: word_le_nat_alt word_less_nat_alt)
  then show ?thesis using u
    by (subst bytesToUtf8.simps)
       (simp add: Let_def tail_bits_def numeral_2_eq_2 numeral_3_eq_3)
qed

lemma lead_between:
  "y < 0x20 \<Longrightarrow> 0x80 \<le> 0xc0 OR y \<and> 0xc0 OR y < 0xe0" "y < 0x10 \<Longrightarrow> 0xe0 \<le> 0xe0 OR y \<and> 0xe0 OR y < 0xf0"
  "y < 8 \<Longrightarrow> 0xf0 \<le> 0xf0 OR y \<and> 0xf0 OR y < 0x100" for y :: int32
  by (simp_all only: marker_plus) (simp_all add: word_le_nat_alt word_less_nat_alt unat_plus_if')

lemma utf8_point_decoded:
  assumes c: "c < 0x200000"
  shows "bytesToUtf8 (utf8_point c @ bs) = units_of c @ bytesToUtf8 bs"
proof -
  consider "c < 0x80" | "\<not> c < 0x80" "c < 0x800" | "\<not> c < 0x80" "\<not> c < 0x800" "c < 0x10000"
    | "\<not> c < 0x80" "\<not> c < 0x800" "\<not> c < 0x10000" by blast
  then show ?thesis
  proof cases
    case 1
    then show ?thesis using step_1 by (simp add: utf8_point_def)
  next
    case 2
    have "sar c 6 < 0x20" by (rule sar_below [OF 2(2), where k = 5]) simp_all
    then have lead: "0x80 \<le> 0xc0 OR sar c 6" "0xc0 OR sar c 6 < 0xe0" using lead_between(1) by auto
    have "shl ((0xc0 OR sar c 6) AND 31) 6 OR c AND 63 = c"
      using no_bit_below [OF 2(2), of 11] by (simp add: bits_eq32 eval_bits)
    then show ?thesis using 2 by (simp add: utf8_point_def step_2 [OF lead] continuation)
  next
    case 3
    have "sar c 12 < 0x10" by (rule sar_below [OF 3(3), where k = 4]) simp_all
    then have lead: "0xe0 \<le> 0xe0 OR sar c 12" "0xe0 OR sar c 12 < 0xf0" using lead_between(2) by auto
    have "shl ((0xe0 OR sar c 12) AND 15) 12 OR shl (sar c 6 AND 63) 6 OR c AND 63 = c"
      using no_bit_below [OF 3(3), of 16] by (simp add: bits_eq32 eval_bits)
    then show ?thesis using 3 by (simp add: utf8_point_def step_3 [OF lead] continuation)
  next
    case 4
    have "sar c 18 < 8" by (rule sar_below [OF c, where k = 3]) simp_all
    then have lead: "0xf0 \<le> 0xf0 OR sar c 18" "0xf0 OR sar c 18 < 0x100" using lead_between(3) by auto
    have "shl ((0xf0 OR sar c 18) AND 7) 18 OR shl (sar c 12 AND 63) 12 OR shl (sar c 6 AND 63) 6 OR c AND 63 = c"
      using no_bit_below [OF c, of 21] by (simp add: bits_eq32 eval_bits)
    then show ?thesis using 4 by (simp add: utf8_point_def step_4 [OF lead] continuation)
  qed
qed

text \<open>Every code unit, and every proper surrogate pair, comes back.\<close>

lemma unit_point: "unat (ucast c :: int32) = unat c" "unat c < 0x10000" for c :: utf16
  using unsigned_less [of c, where ?'a = nat] by (simp_all add: unsigned_ucast_eq take_bit_nat_eq_self_iff)

lemma unit_of_point: "unat x = unat c \<Longrightarrow> ucast (x :: int32) = c" for c :: utf16
proof -
  assume "unat x = unat c"
  then have "x = ucast c" using unit_point(1) [of c] by (intro unsigned_word_eqI [where ?'a = nat]) simp
  then show ?thesis by (simp add: bits_eq16 eval_bits)
qed

lemma units_of_unit: "units_of (ucast (c :: utf16)) = [c]"
proof -
  have "\<not> (ucast c :: int32) > 0xffff" using unit_point [of c] by (simp add: word_less_nat_alt)
  moreover have "ucast (ucast c :: int32) = c" by (simp add: bits_eq16 eval_bits)
  ultimately show ?thesis by (simp add: units_of_def)
qed

lemma unit_point_below: "ucast (c :: utf16) < (0x200000 :: int32)"
  using unit_point [of c] by (simp add: word_less_nat_alt)

lemma pair_point_nat:
  assumes "high_surrogate c"
  shows "unat (pair_point c d) = 0x2400 + (unat c - 0xd800) * 1024 + unat d" and "pair_point c d < 0x200000"
proof -
  have c: "0xd800 \<le> unat c" "unat c \<le> 0xdbff"
    using assms by (auto simp: high_surrogate_def word_le_nat_alt)
  have "unat (ucast c - 0xd800 :: int32) = unat c - 0xd800"
    using c by (simp add: unat_sub_if' unit_point)
  then have s: "unat (shl (ucast c - 0xd800) 10) = (unat c - 0xd800) * 1024"
    using c by (simp only: shl_def unsigned_push_bit_eq) (simp add: take_bit_nat_eq_self_iff push_bit_eq_mult)
  obtain x y where x: "unat c - 0xd800 = x" "x \<le> 1023" and y: "unat d = y" "y < 65536"
    using c unit_point(2) [of d] by auto
  show p: "unat (pair_point c d) = 0x2400 + (unat c - 0xd800) * 1024 + unat d"
    using x y unfolding pair_point_def
    by (simp add: unat_plus_if' unat_sub_if' s unit_point)
  show "pair_point c d < 0x200000"
    using p x y by (simp add: word_less_nat_alt)
qed

lemma units_of_pair:
  assumes c: "high_surrogate c" and d: "low_surrogate d"
  shows "units_of (pair_point c d) = [c, d]"
proof -
  have cn: "0xd800 \<le> unat c" "unat c \<le> 0xdbff" and dn: "0xdc00 \<le> unat d" "unat d \<le> 0xdfff"
    using c d by (auto simp: high_surrogate_def low_surrogate_def word_le_nat_alt)
  define p where "p = pair_point c d - 0x10000"
  have pp: "unat (pair_point c d) = 0x2400 + (unat c - 0xd800) * 1024 + unat d" by (rule pair_point_nat [OF c])
  have p: "unat p = (unat c - 0xd800) * 1024 + (unat d - 0xdc00)"
    using cn dn pp by (simp add: p_def unat_sub_if')
  have big: "pair_point c d > 0xffff" using cn dn pp by (simp add: word_less_nat_alt)
  have hi: "p < 0x100000" using cn dn p by (simp add: word_less_nat_alt)
  have "sar p 10 = drop_bit 10 p"
    using no_bit_below [OF hi, of 20] by (simp add: bits_eq32 eval_bits)
  then have "unat (sar p 10) = unat p div 1024"
    by (simp only: unsigned_drop_bit_eq) (use unsigned_less [of p, where ?'a = nat] in
      \<open>simp add: drop_bit_eq_div take_bit_nat_eq_self_iff [THEN iffD2]\<close>)
  then have s: "unat (sar p 10) = unat c - 0xd800" using p dn by simp
  have "p AND 1023 = take_bit 10 p" by (simp add: take_bit_eq_mask mask_eq_exp_minus_1)
  then have "unat (p AND 1023) = take_bit 10 (unat p)" by (simp only: unsigned_take_bit_eq)
  then have "unat (p AND 1023) = unat p mod 1024" by (simp add: take_bit_eq_mod)
  then have m: "unat (p AND 1023) = unat d - 0xdc00" using p dn by (simp add: mod_mult_self3 flip: Nat.add_diff_assoc)
  have "unat (0xd800 + sar p 10 :: int32) = unat c" using s cn by (simp add: unat_plus_if')
  moreover have "unat (0xdc00 + (p AND 1023) :: int32) = unat d" using m dn by (simp add: unat_plus_if')
  ultimately have "ucast (0xd800 + sar p 10) = c" "ucast (0xdc00 + (p AND 1023)) = d"
    by (blast intro: unit_of_point)+
  then show ?thesis using big by (simp add: units_of_def Let_def p_def)
qed

text \<open>Text is well formed when every high surrogate but a last one is followed by a low one.\<close>

fun wf_utf16 :: "utf16 list \<Rightarrow> bool" where
  "wf_utf16 [] \<longleftrightarrow> True"
| "wf_utf16 [c] \<longleftrightarrow> True"
| "wf_utf16 (c # d # cs) \<longleftrightarrow>
     (if high_surrogate c then low_surrogate d \<and> wf_utf16 cs else wf_utf16 (d # cs))"

lemma utf8_inverse: "wf_utf16 t \<Longrightarrow> bytesToUtf8 (utf8ToBytes t) = t"
proof (induction t rule: utf8ToBytes.induct)
  case (2 c)
  then show ?case
    using utf8_point_decoded [OF unit_point_below, of c "[]"] by (simp add: units_of_unit)
next
  case (3 c d cs)
  then show ?case
    by (auto simp: utf8_point_decoded pair_point_nat(2) units_of_pair unit_point_below units_of_unit)
qed simp

lemma point_length:
  "length (utf8_point c) = (if c < 0x80 then 1 else if c < 0x800 then 2 else if c < 0x10000 then 3 else 4)"
  by (simp add: utf8_point_def)

lemma unit_compare: "(ucast c :: int32) < 0x80 \<longleftrightarrow> c < 0x80" "(ucast c :: int32) < 0x800 \<longleftrightarrow> c < 0x800"
  "(ucast c :: int32) < 0x10000" for c :: utf16
  using unit_point [of c] by (simp_all add: word_less_nat_alt)

lemma pair_compare:
  assumes "high_surrogate c" and "low_surrogate d"
  shows "\<not> pair_point c d < 0x80" "\<not> pair_point c d < 0x800" "\<not> pair_point c d < 0x10000"
  using pair_point_nat(1) [OF assms(1), of d] assms(2)
  by (simp_all add: word_less_nat_alt low_surrogate_def word_le_nat_alt)

lemma utf8ByteLength_agrees: "wf_utf16 t \<Longrightarrow> utf8ByteLength t = length (utf8ToBytes t)"
proof (induction t rule: utf8ToBytes.induct)
  case (2 c)
  then show ?case by (simp add: point_length unit_compare)
next
  case (3 c d cs)
  show ?case
  proof (cases "high_surrogate c")
    case True
    then have "\<not> c < 0x80" "\<not> c < 0x800"
      by (simp_all add: high_surrogate_def word_le_nat_alt word_less_nat_alt)
    then show ?thesis using 3 True by (simp add: point_length pair_compare)
  next
    case False
    then show ?thesis using 3 by (simp add: point_length unit_compare)
  qed
qed simp

text \<open>Base64 round trip: whatever bytes are encoded come back, through the standard alphabet and through
  the URL alphabet with its padding stripped (the form the Gmail API speaks), and the encoded text is
  four characters for every three bytes started.\<close>

theorem base64_round_trip:
  "base64ToBytes (bytesToBase64 bs) = bs
   \<and> base64ToBytes (fromBase64Url (toBase64Url (bytesToBase64 bs))) = bs
   \<and> length (bytesToBase64 bs) = 4 * ((length bs + 2) div 3)"
  using base64_inverse base64url_inverse bytesToBase64_length by simp

text \<open>UTF-8 round trip: well-formed UTF-16 text survives the encoder and the decoder, alone and inside
  base64, and the byte count is the length of the encoding. A lone low surrogate, or a high surrogate at
  the very end, is well formed in this sense and survives too.\<close>

theorem utf8_round_trip:
  assumes "wf_utf16 t"
  shows "bytesToUtf8 (utf8ToBytes t) = t \<and> decodeUtf8Base64 (encodeUtf8Base64 t) = t
     \<and> utf8ByteLength t = length (utf8ToBytes t)"
  using utf8_inverse [OF assms] utf8ByteLength_agrees [OF assms]
  by (simp add: decodeUtf8Base64_def encodeUtf8Base64_def base64_inverse)

theorem utf8_round_trip_witness:
  "bytesToUtf8 (utf8ToBytes [0x41, 0xe9, 0x20ac, 0xd83d, 0xde00, 0xdc00]) = [0x41, 0xe9, 0x20ac, 0xd83d, 0xde00, 0xdc00]"
proof -
  have "wf_utf16 [0x41, 0xe9, 0x20ac, 0xd83d, 0xde00, 0xdc00]"
    by (simp add: high_surrogate_def low_surrogate_def)
  from utf8_round_trip [OF this] show ?thesis by blast
qed

text \<open>The byte count is not always that of the encoder: when a high surrogate is followed by a unit that is
  no low surrogate, the count is four where the encoder writes three bytes.\<close>

theorem utf8ByteLength_disagrees:
  "utf8ByteLength [0xd800, 0x41] = 4 \<and> length (utf8ToBytes [0xd800, 0x41]) = 3
   \<and> bytesToUtf8 (utf8ToBytes [0xd800, 0x41]) \<noteq> [0xd800, 0x41]"
proof -
  have "pair_point 0xd800 0x41 = 0x2441" by (simp add: pair_point_def shl_def)
  then have enc: "utf8ToBytes [0xd800, 0x41] = utf8_point 0x2441"
    by (simp add: high_surrogate_def)
  moreover have "bytesToUtf8 (utf8_point 0x2441) = units_of 0x2441"
    using utf8_point_decoded [of "0x2441" "[]"] by simp
  moreover have "units_of 0x2441 = [0x2441]" by (simp add: units_of_def)
  ultimately show ?thesis by (simp add: high_surrogate_def point_length)
qed

end
