(* ===== verification/Mime.thy ===== *)
theory Mime
  imports Js_Text Base64 Mail_Types
begin

text \<open>
  The message formats: RFC 5322 headers and PGP/MIME (\<^verbatim>\<open>core/mime.ts\<close>), the email that carries a
  quantum-sealed message (\<^verbatim>\<open>core/qkd.ts\<close>) and the subjects of the quantum-link legs
  (\<^verbatim>\<open>core/bb84.ts\<close>). Random boundaries and message ids, and the date (\<open>toUTCString\<close>), are arguments.
\<close>

subsection \<open>Subjects\<close>

definition PLACEHOLDER_SUBJECT :: string where
  "PLACEHOLDER_SUBJECT = ''[Encrypted message]''"

datatype bb84_leg = Photons | Measurement | Verdict

fun linkSubject :: "bb84_leg \<Rightarrow> string" where
  "linkSubject Photons = ''Setting up a quantum link (1 of 3)''"
| "linkSubject Measurement = ''Setting up a quantum link (2 of 3)''"
| "linkSubject Verdict = ''Setting up a quantum link (3 of 3)''"

definition isLinkSubject :: "string \<Rightarrow> bool" where
  "isLinkSubject subject \<longleftrightarrow> js_trim subject \<in> set (map linkSubject [Photons, Measurement, Verdict])"

definition hasSealedSubject :: "string \<Rightarrow> bool" where
  "hasSealedSubject subject \<longleftrightarrow> js_trim subject = PLACEHOLDER_SUBJECT \<or> isLinkSubject subject"

subsection \<open>Headers\<close>

definition ARMOR_BEGIN :: string where
  "ARMOR_BEGIN = ''-----BEGIN PGP MESSAGE-----''"

definition ARMOR_END :: string where
  "ARMOR_END = ''-----END PGP MESSAGE-----''"

record raw_message =
  rm_headers :: "string obj"
  rm_body :: string

definition read_header :: "string obj \<Rightarrow> string \<Rightarrow> string obj" where
  "read_header hs line =
     (case js_index_of line '':'' of
        Some idx \<Rightarrow> if 0 < idx
          then obj_set hs (js_lower (js_trim (take idx line))) (js_trim (drop (idx + 1) line))
          else hs
      | None \<Rightarrow> hs)"

definition read_headers :: "string \<Rightarrow> string obj" where
  "read_headers block = foldl read_header [] (js_split NL (unfold_lines block))"

definition parseRfc822 :: "string \<Rightarrow> raw_message" where
  "parseRfc822 raw =
     (let normalized = normalise_newlines raw
      in case js_index_of normalized [NL, NL] of
           None \<Rightarrow> \<lparr>rm_headers = read_headers normalized, rm_body = []\<rparr>
         | Some i \<Rightarrow> \<lparr>rm_headers = read_headers (take i normalized), rm_body = drop (i + 2) normalized\<rparr>)"

definition header_or_empty :: "string obj \<Rightarrow> string \<Rightarrow> string" where
  "header_or_empty hs name = (case obj_get hs name of None \<Rightarrow> [] | Some v \<Rightarrow> v)"

definition isPgpMime :: "string \<Rightarrow> bool" where
  "isPgpMime raw =
     (let m = parseRfc822 raw;
          ct = header_or_empty (rm_headers m) ''content-type''
      in includes_ci ct ''multipart/encrypted'' \<and> includes_ci ct ''application/pgp-encrypted''
         \<or> js_includes (rm_body m) ARMOR_BEGIN)"

definition extractArmor :: "string \<Rightarrow> string option" where
  "extractArmor raw =
     (case (js_index_of raw ARMOR_BEGIN, js_index_of raw ARMOR_END) of
        (Some start, Some end') \<Rightarrow> Some (js_slice start (end' + length ARMOR_END) raw)
      | _ \<Rightarrow> None)"

definition armor :: "string \<Rightarrow> string" where
  "armor payload = js_join [NL] ([ARMOR_BEGIN, []] @ dot_runs 64 payload @ [''=Ab3D'', ARMOR_END])"

definition dearmor :: "string \<Rightarrow> string" where
  "dearmor block = concat (filter (\<lambda>l. \<not> prefix ''-----'' l \<and> \<not> prefix ''='' l \<and> js_trim l \<noteq> []) (js_split NL block))"

subsection \<open>Building messages\<close>

text \<open>Text as UTF-16.\<close>

definition units :: "string \<Rightarrow> utf16 list" where
  "units s = map (\<lambda>c. of_nat (code_unit c)) s"

definition autocryptKeydata :: "string \<Rightarrow> string" where
  "autocryptKeydata key = encodeUtf8Base64 (units key)"

definition autocryptHeaderLine :: "string \<Rightarrow> string \<Rightarrow> string" where
  "autocryptHeaderLine addr keydata = ''Autocrypt: addr='' @ addr @ ''; prefer-encrypt=mutual; keydata='' @ keydata"

definition truthy :: "string option \<Rightarrow> bool" where
  "truthy s \<longleftrightarrow> s \<noteq> None \<and> s \<noteq> Some []"

definition threading_headers :: "string option \<Rightarrow> string list option \<Rightarrow> string list" where
  "threading_headers inReplyTo refs =
     (if truthy inReplyTo then [''In-Reply-To: '' @ the inReplyTo] else [])
     @ (case refs of None \<Rightarrow> [] | Some rs \<Rightarrow> if rs = [] then [] else [''References: '' @ js_join '' '' rs])"

record envelope_args =
  ea_from :: string
  ea_to :: "string list"
  ea_date :: string
  ea_armored :: string
  ea_autocryptKeydata :: "string option"
  ea_messageId :: string
  ea_inReplyTo :: "string option"
  ea_references :: "string list option"
  ea_linkLeg :: "bb84_leg option"

definition envelope_headers :: "envelope_args \<Rightarrow> string \<Rightarrow> string list" where
  "envelope_headers a boundary =
     [''From: '' @ ea_from a, ''To: '' @ js_join '', '' (ea_to a), ''Date: '' @ ea_date a,
      ''Subject: '' @ (case ea_linkLeg a of None \<Rightarrow> PLACEHOLDER_SUBJECT | Some leg \<Rightarrow> linkSubject leg),
      ''Message-ID: '' @ ea_messageId a]
     @ threading_headers (ea_inReplyTo a) (ea_references a)
     @ (if truthy (ea_autocryptKeydata a)
        then [autocryptHeaderLine (ea_from a) (the (ea_autocryptKeydata a))] else [])
     @ [''MIME-Version: 1.0'', ''Content-Type: multipart/encrypted;'', '' protocol='' @ [QUOTE] @
        ''application/pgp-encrypted'' @ [QUOTE] @ '';'', '' boundary='' @ [QUOTE] @ boundary @ [QUOTE]]"

definition buildEncryptedEnvelope :: "envelope_args \<Rightarrow> string \<Rightarrow> string" where
  "buildEncryptedEnvelope a random =
     (let boundary = ''=-=-=cryptmail-'' @ random @ ''=-=-=''
      in js_join [NL]
        [js_join [NL] (envelope_headers a boundary), [], ''--'' @ boundary,
         ''Content-Type: application/pgp-encrypted'', ''Content-Description: PGP/MIME version identification'',
         [], ''Version: 1'', [], ''--'' @ boundary,
         ''Content-Type: application/octet-stream; name='' @ [QUOTE] @ ''encrypted.asc'' @ [QUOTE],
         ''Content-Description: OpenPGP encrypted message'',
         ''Content-Disposition: inline; filename='' @ [QUOTE] @ ''encrypted.asc'' @ [QUOTE],
         [], ea_armored a, [], ''--'' @ boundary @ ''--'', []])"

definition contentIdFor :: "string \<Rightarrow> string" where
  "contentIdFor i = i @ ''@cryptmail''"

definition attachmentPart :: "attachment \<Rightarrow> string" where
  "attachmentPart a =
     (let inline = att_inline a = Some True
      in js_join [NL]
        ([''Content-Type: '' @ att_mimeType a @ ''; name='' @ [QUOTE] @ att_name a @ [QUOTE],
          ''Content-Disposition: '' @ (if inline then ''inline'' else ''attachment'') @ ''; filename='' @ [QUOTE]
            @ att_name a @ [QUOTE],
          ''Content-Transfer-Encoding: base64'']
         @ (if inline then [''Content-ID: <'' @ (case att_contentId a of None \<Rightarrow> contentIdFor (att_id a) | Some c \<Rightarrow> c)
              @ ''>''] else [])
         @ [[]] @ dot_runs 76 (strip_spaces (att_data a))))"

definition bodyLines :: "string \<Rightarrow> string option \<Rightarrow> string \<Rightarrow> string list" where
  "bodyLines body html random =
     (case html of
        None \<Rightarrow> [''Content-Type: text/plain; charset=utf-8'', [], body]
      | Some h \<Rightarrow>
          (let boundary = ''alt-'' @ random
           in [''Content-Type: multipart/alternative; boundary='' @ [QUOTE] @ boundary @ [QUOTE], [],
               ''--'' @ boundary, ''Content-Type: text/plain; charset=utf-8'', [], body, [],
               ''--'' @ boundary, ''Content-Type: text/html; charset=utf-8'',
               ''Content-Transfer-Encoding: base64'', []]
              @ dot_runs 76 (encodeUtf8Base64 (units h)) @ [[], ''--'' @ boundary @ ''--'']))"

record plain_args =
  pa_from :: string
  pa_to :: "string list"
  pa_subject :: string
  pa_body :: string
  pa_html :: "string option"
  pa_autocryptKey :: "string option"
  pa_inReplyTo :: "string option"
  pa_references :: "string list option"
  pa_attachments :: "attachment list option"

definition attachment_lines :: "string \<Rightarrow> attachment list \<Rightarrow> string list" where
  "attachment_lines boundary as = concat (map (\<lambda>a. [''--'' @ boundary, attachmentPart a, []]) as)"

definition buildProtectedInner :: "build_request \<Rightarrow> string \<Rightarrow> string \<Rightarrow> string" where
  "buildProtectedInner r random alt =
     (let boundary = ''inner-'' @ random
      in js_join [NL]
        ([''Content-Type: multipart/mixed; boundary='' @ [QUOTE] @ boundary @ [QUOTE] @ ''; protected-headers='' @ [QUOTE]
            @ ''v1'' @ [QUOTE],
          ''Subject: '' @ br_subject r, ''From: '' @ br_from r, ''To: '' @ js_join '', '' (br_to r), [],
          ''--'' @ boundary]
         @ bodyLines (br_body r) (br_html r) alt @ [[]]
         @ attachment_lines boundary (case br_attachments r of None \<Rightarrow> [] | Some as \<Rightarrow> as)
         @ [''--'' @ boundary @ ''--'', []]))"

definition plain_headers :: "plain_args \<Rightarrow> string \<Rightarrow> string list" where
  "plain_headers a date =
     [''From: '' @ pa_from a, ''To: '' @ js_join '', '' (pa_to a), ''Date: '' @ date, ''Subject: '' @ pa_subject a]
     @ threading_headers (pa_inReplyTo a) (pa_references a)
     @ (if truthy (pa_autocryptKey a)
        then [autocryptHeaderLine (pa_from a) (autocryptKeydata (the (pa_autocryptKey a)))] else [])"

definition buildPlaintext :: "plain_args \<Rightarrow> string \<Rightarrow> string \<Rightarrow> string \<Rightarrow> string" where
  "buildPlaintext a date random alt =
     (let headers = plain_headers a date;
          attachments = (case pa_attachments a of None \<Rightarrow> [] | Some as \<Rightarrow> as);
          lines = bodyLines (pa_body a) (pa_html a) alt
      in if attachments = [] then js_join [NL] (headers @ [''MIME-Version: 1.0''] @ lines @ [[]])
         else (let boundary = ''plain-'' @ random
               in js_join [NL] (headers
                  @ [''MIME-Version: 1.0'', ''Content-Type: multipart/mixed; boundary='' @ [QUOTE] @ boundary @ [QUOTE],
                     [], ''--'' @ boundary]
                  @ lines @ [[]] @ attachment_lines boundary attachments @ [''--'' @ boundary @ ''--'', []])))"

end
