(* ===== verification/Recipients.thy ===== *)
theory Recipients
  imports Keyring Mime
begin

text \<open>
  Key resolution for a list of recipients (\<^verbatim>\<open>state/recipients.ts\<close>), which decides whether a send is
  allowed at all, and the trust shown for a row and for an opened message (\<^verbatim>\<open>state/derive.ts\<close>).
\<close>

datatype recipient_status = Ok | VerifiedKey | ChangedKey | Missing

record recipient_state =
  rs_email :: string
  rs_key :: "contact_key option"
  rs_status :: recipient_status

definition ownKey :: "identity \<Rightarrow> contact_key" where
  "ownKey i = \<lparr>pk_email = canonical (idn_email i), pk_fingerprint = idn_fingerprint i,
     pk_armored = idn_publicKeyArmored i, pk_userId = None, ck_name = None, ck_trust = Verified,
     ck_source = SourceManual, ck_firstSeen = idn_createdAt i, ck_lastSeen = idn_createdAt i,
     ck_verifiedAt = None, ck_changedAt = None, ck_previousFingerprint = None, ck_otherKeys = None\<rparr>"

definition recipientState :: "keyring \<Rightarrow> identity option \<Rightarrow> string \<Rightarrow> recipient_state" where
  "recipientState ring self email =
     (case self of
        Some i \<Rightarrow>
          if canonical email = canonical (idn_email i)
          then \<lparr>rs_email = email, rs_key = Some (ownKey i), rs_status = VerifiedKey\<rparr>
          else (case findKey ring email of
                  None \<Rightarrow> \<lparr>rs_email = email, rs_key = None, rs_status = Missing\<rparr>
                | Some k \<Rightarrow> \<lparr>rs_email = email, rs_key = Some k,
                    rs_status = (case ck_trust k of Changed \<Rightarrow> ChangedKey | Verified \<Rightarrow> VerifiedKey | Seen \<Rightarrow> Ok)\<rparr>)
      | None \<Rightarrow>
          (case findKey ring email of
             None \<Rightarrow> \<lparr>rs_email = email, rs_key = None, rs_status = Missing\<rparr>
           | Some k \<Rightarrow> \<lparr>rs_email = email, rs_key = Some k,
               rs_status = (case ck_trust k of Changed \<Rightarrow> ChangedKey | Verified \<Rightarrow> VerifiedKey | Seen \<Rightarrow> Ok)\<rparr>))"

definition resolveRecipientStates :: "keyring \<Rightarrow> identity option \<Rightarrow> string list \<Rightarrow> recipient_state list" where
  "resolveRecipientStates ring self emails = map (recipientState ring self) emails"

definition usable :: "recipient_status \<Rightarrow> bool" where
  "usable st \<longleftrightarrow> st = Ok \<or> st = VerifiedKey"

lemma recipientState_email [simp]: "rs_email (recipientState ring self email) = email"
  by (simp add: recipientState_def split: option.splits)

lemma map_email_resolve [simp]: "map rs_email (resolveRecipientStates ring self emails) = emails"
  by (simp add: resolveRecipientStates_def o_def)

lemma not_usable: "\<not> usable st \<longleftrightarrow> st = Missing \<or> st = ChangedKey"
  by (cases st) (auto simp: usable_def)

lemma usable_has_key: "usable (rs_status (recipientState ring self email)) \<Longrightarrow> rs_key (recipientState ring self email) \<noteq> None"
  by (auto simp: usable_def recipientState_def split: option.splits)

text \<open>The key a message to an address would be sealed to.\<close>

definition sealing_key :: "keyring \<Rightarrow> identity option \<Rightarrow> string \<Rightarrow> string option" where
  "sealing_key ring self email =
     (if (case self of None \<Rightarrow> False | Some i \<Rightarrow> canonical email = canonical (idn_email i))
      then Some (idn_publicKeyArmored (the self))
      else (case findKey ring email of
              Some k \<Rightarrow> if ck_trust k = Changed then None else Some (pk_armored k) | None \<Rightarrow> None))"

lemma usable_sealing_key:
  "usable (rs_status (recipientState ring self email)) \<longleftrightarrow> sealing_key ring self email \<noteq> None"
  by (auto simp: usable_def recipientState_def sealing_key_def split: option.splits trust.splits)

lemma sealing_key_armored:
  "usable (rs_status (recipientState ring self email)) \<Longrightarrow>
   pk_armored (the (rs_key (recipientState ring self email))) = the (sealing_key ring self email)"
  by (auto simp: usable_def recipientState_def sealing_key_def ownKey_def split: option.splits trust.splits if_splits)

subsection \<open>Trust shown\<close>

datatype shown_trust = ShownSeen | ShownVerified | ShownChanged | ShownUnknown

text \<open>\<open>{kind: 'encrypted', trust, own?}\<close> or plain.\<close>

datatype encryption_state = Encrypted shown_trust bool | Plain

fun shown :: "trust \<Rightarrow> shown_trust" where
  "shown Seen = ShownSeen"
| "shown Verified = ShownVerified"
| "shown Changed = ShownChanged"

definition encryptionFor :: "keyring \<Rightarrow> string option \<Rightarrow> mail_summary \<Rightarrow> encryption_state" where
  "encryptionFor ring selfEmail m =
     (if \<not> hasSealedSubject (sm_subject m) then Plain
      else if Some (sm_from_address m) = selfEmail then Encrypted ShownVerified True
      else (case findKey ring (sm_from_address m) of
              None \<Rightarrow> Encrypted ShownUnknown False
            | Some k \<Rightarrow> Encrypted (shown (ck_trust k)) False))"

definition trustForOpened :: "contact_key option \<Rightarrow> decrypted_message \<Rightarrow> shown_trust" where
  "trustForOpened key m =
     (case key of
        None \<Rightarrow> ShownUnknown
      | Some k \<Rightarrow>
          if ck_trust k = Changed then ShownChanged
          else if dm_signature m = SigValid
                  \<and> (\<not> truthy (dm_signerFingerprint m) \<or> dm_signerFingerprint m = Some (pk_fingerprint k))
                  \<and> ck_trust k = Verified
               then ShownVerified else ShownSeen)"

subsection \<open>Properties\<close>

text \<open>Key resolution has one meaning: the states come back in the order of the addresses; the device's own
  address is always usable with the device's key, whatever the ring says of it; any other address is usable
  exactly when the ring holds a key for it (looked up without regard to case and surrounding space) that has
  not changed, and Verified only when that entry is.\<close>

theorem recipient_resolution:
  "map rs_email (resolveRecipientStates ring self emails) = emails
   \<and> (\<forall>r \<in> set (resolveRecipientStates ring self emails).
        (if \<exists>i. self = Some i \<and> canonical (rs_email r) = canonical (idn_email i)
         then rs_status r = VerifiedKey \<and> map_option pk_armored (rs_key r) = map_option idn_publicKeyArmored self
         else rs_key r = findKey ring (rs_email r)
              \<and> (usable (rs_status r) \<longleftrightarrow> (\<exists>k. rs_key r = Some k \<and> ck_trust k \<noteq> Changed))
              \<and> (rs_status r = VerifiedKey \<longleftrightarrow> (\<exists>k. rs_key r = Some k \<and> ck_trust k = Verified))
              \<and> (rs_status r = Missing \<longleftrightarrow> rs_key r = None)))"
proof (rule conjI)
  show "map rs_email (resolveRecipientStates ring self emails) = emails" by simp
qed (auto simp: resolveRecipientStates_def usable_def recipientState_def ownKey_def
        split: option.splits trust.splits)

theorem recipient_resolution_witness:
  "rs_status (recipientState [] (Some \<lparr>idn_email = ''Me@x'', idn_fingerprint = ''F'', idn_publicKeyArmored = ''K'',
      idn_createdAt = ''t''\<rparr>) ''me@x '') = VerifiedKey"
proof -
  let ?me = "\<lparr>idn_email = ''Me@x'', idn_fingerprint = ''F'', idn_publicKeyArmored = ''K'', idn_createdAt = ''t''\<rparr>"
  have same: "canonical ''me@x '' = canonical ''Me@x''" by code_simp
  have "\<forall>r \<in> set (resolveRecipientStates [] (Some ?me) [''me@x '']).
        (\<exists>i. Some ?me = Some i \<and> canonical (rs_email r) = canonical (idn_email i)) \<longrightarrow> rs_status r = VerifiedKey"
    using recipient_resolution [of "[]" "Some ?me" "[''me@x '']"] by auto
  then show ?thesis using same by (simp add: resolveRecipientStates_def)
qed

text \<open>An opened message is shown as Verified only with a valid signature, by the very key on file where a
  signer is named, of a contact whose key the user compared; a changed key is shown as changed whatever
  the message says.\<close>

theorem trust_shown_for_opened:
  "(trustForOpened key m = ShownVerified \<longleftrightarrow>
      (\<exists>k. key = Some k \<and> ck_trust k = Verified \<and> dm_signature m = SigValid
         \<and> (truthy (dm_signerFingerprint m) \<longrightarrow> dm_signerFingerprint m = Some (pk_fingerprint k))))
   \<and> (trustForOpened key m = ShownChanged \<longleftrightarrow> (\<exists>k. key = Some k \<and> ck_trust k = Changed))
   \<and> (trustForOpened key m = ShownUnknown \<longleftrightarrow> key = None)"
  by (auto simp: trustForOpened_def split: option.splits trust.splits)

definition opened_message :: decrypted_message where
  "opened_message = \<lparr>dm_subject = [], dm_body = [], dm_html = None, dm_signature = SigValid,
     dm_signerFingerprint = Some ''F'', dm_autocryptKey = None, dm_attachments = [], dm_forwardSecret = None,
     dm_securityLevel = None, dm_sealedToKey = None\<rparr>"

theorem trust_shown_for_opened_witness:
  "trustForOpened (Some (ownKey \<lparr>idn_email = ''m@x'', idn_fingerprint = ''F'', idn_publicKeyArmored = ''K'',
      idn_createdAt = ''t''\<rparr>)) opened_message = ShownVerified"
  using trust_shown_for_opened [of "Some (ownKey \<lparr>idn_email = ''m@x'', idn_fingerprint = ''F'',
      idn_publicKeyArmored = ''K'', idn_createdAt = ''t''\<rparr>)" opened_message]
  by (simp add: ownKey_def opened_message_def)

end
