(* ===== verification/Id_Store.thy ===== *)
theory Id_Store
  imports Js_Prelude
begin

text \<open>
  The contract of the stores keyed by an item's own id (the outbox, the drafts, the snoozed messages):
  adding or replacing an item, removing one, and the invariant that an item is filed under its id.
  The services fold these operations over lists of ids; what the folds do is proved here once.
\<close>

definition filed :: "('a \<Rightarrow> string) \<Rightarrow> 'a obj \<Rightarrow> bool" where
  "filed ident st \<longleftrightarrow> obj_ok st \<and> (\<forall>k x. obj_get st k = Some x \<longrightarrow> ident x = k)"

lemma filed_Nil [simp]: "filed ident []"
  by (simp add: filed_def)

lemma filed_distinct: "filed ident st \<Longrightarrow> distinct (map ident (obj_values st))"
proof -
  assume st: "filed ident st"
  then have "map ident (obj_values st) = obj_keys st"
    unfolding map_map o_def
    by (intro map_cong [OF refl]) (auto simp: filed_def obj_get_eq_Some_iff)
  then show ?thesis using st by (simp only: filed_def obj_ok_def)
qed

lemma filed_in_values: "filed ident st \<Longrightarrow> x \<in> set (obj_values st) \<longleftrightarrow> obj_get st (ident x) = Some x"
  unfolding filed_def using obj_values_get obj_get_in_values by metis

lemma filed_get_iff: "filed ident st \<Longrightarrow> obj_get st k = Some x \<longleftrightarrow> x \<in> set (obj_values st) \<and> ident x = k"
  using filed_in_values [of ident st x] unfolding filed_def by metis

lemma filed_unique:
  "filed ident st \<Longrightarrow> x \<in> set (obj_values st) \<Longrightarrow> y \<in> set (obj_values st) \<Longrightarrow> ident x = ident y \<Longrightarrow> x = y"
  by (metis filed_in_values option.inject)

locale id_store =
  fixes ident :: "'a \<Rightarrow> string"
    and put :: "'a obj \<Rightarrow> 'a \<Rightarrow> 'a obj"
    and rem :: "'a obj \<Rightarrow> string \<Rightarrow> 'a obj"
  assumes get_put: "obj_get (put st x) k = (if k = ident x then Some x else obj_get st k)"
    and get_rem: "obj_get (rem st i) k = (if k = i then None else obj_get st k)"
    and filed_put: "filed ident st \<Longrightarrow> filed ident (put st x)"
    and filed_rem: "filed ident st \<Longrightarrow> filed ident (rem st i)"
begin

lemma get_rem_all: "obj_get (foldl rem st is) k = (if k \<in> set is then None else obj_get st k)"
  by (induction "is" arbitrary: st) (auto simp: get_rem)

lemma get_put_all:
  "distinct (map ident xs) \<Longrightarrow> obj_get (foldl put st xs) k =
     (case find (\<lambda>x. ident x = k) xs of Some x \<Rightarrow> Some x | None \<Rightarrow> obj_get st k)"
proof (induction xs arbitrary: st)
  case (Cons x xs)
  have "find (\<lambda>y. ident y = ident x) xs = None"
    using Cons.prems by (simp add: find_None_iff) (metis image_eqI)
  with Cons show ?case by (auto simp: get_put split: option.splits)
qed simp

lemma get_put_other: "k \<notin> ident ` set xs \<Longrightarrow> obj_get (foldl put st xs) k = obj_get st k"
  by (induction xs arbitrary: st) (auto simp: get_put)

lemma get_put_some:
  "(\<forall>x \<in> set xs. ident x = k \<longrightarrow> P x) \<Longrightarrow> (\<exists>x \<in> set xs. ident x = k) \<or> (\<exists>x. obj_get st k = Some x \<and> P x) \<Longrightarrow>
   \<exists>x. obj_get (foldl put st xs) k = Some x \<and> P x"
proof (induction xs arbitrary: st)
  case (Cons x xs)
  then have "(\<exists>z \<in> set xs. ident z = k) \<or> (\<exists>z. obj_get (put st x) k = Some z \<and> P z)" by (auto simp: get_put)
  with Cons show ?case by simp
qed simp

lemma filed_rem_all: "filed ident st \<Longrightarrow> filed ident (foldl rem st is)"
  by (induction "is" arbitrary: st) (auto simp: filed_rem)

lemma filed_put_all: "filed ident st \<Longrightarrow> filed ident (foldl put st xs)"
  by (induction xs arbitrary: st) (auto simp: filed_put)

lemma rem_put: "obj_get (rem (put st x) (ident x)) k = (if k = ident x then None else obj_get st k)"
  by (simp add: get_put get_rem)

lemma values_rem_all:
  "filed ident st \<Longrightarrow> set (obj_values (foldl rem st is)) = {x \<in> set (obj_values st). ident x \<notin> set is}"
  using filed_in_values [OF filed_rem_all [of st "is"]] filed_in_values [of ident st]
  by (auto simp: get_rem_all simp del: set_map split: if_splits)

lemma values_put:
  "filed ident st \<Longrightarrow> set (obj_values (put st x)) = insert x {y \<in> set (obj_values st). ident y \<noteq> ident x}"
  using filed_in_values [OF filed_put [of st x]] filed_in_values [of ident st]
  by (auto simp: get_put simp del: set_map split: if_splits)

end

lemma id_store_obj: "id_store ident (\<lambda>st x. obj_set st (ident x) x) obj_del"
  by unfold_locales (auto simp: obj_simps filed_def split: if_splits)

end
