(* ===== verification/Outbox.thy ===== *)
theory Outbox
  imports Recipients Id_Store
begin

text \<open>
  The outbox (\<^verbatim>\<open>outbox/outbox.ts\<close>): messages held until a time or until a key turns up, the two queries
  that release them, and the words for a check that released nothing (\<^verbatim>\<open>outbox/checkResult.ts\<close>). Then the
  compose drafts (\<^verbatim>\<open>drafts/drafts.ts\<close>) and the log of invites (\<^verbatim>\<open>store/inviteStore.ts\<close>).
  \<open>lc\<close> is \<open>localeCompare\<close>; times are ISO strings.
\<close>

subsection \<open>The outbox\<close>

text \<open>\<open>AwaitingSession\<close> is a reason written by a version with per-email keys, still found in storage.\<close>

datatype hold_reason = TimeHold | AwaitingKey | AwaitingSession

record held =
  h_id :: string
  h_to :: "string list"
  h_subject :: string
  h_body :: string
  h_html :: "string option"
  h_sendAt :: string
  h_inReplyTo :: "string option"
  h_references :: "string list option"
  h_attachments :: "attachment list option"
  h_level :: "security_level option"
  h_reason :: "hold_reason option"
  h_pending :: "string list option"

type_synonym outbox = "held obj"

definition upsertScheduled :: "outbox \<Rightarrow> held \<Rightarrow> outbox" where
  "upsertScheduled ob item = obj_set ob (h_id item) item"

definition removeScheduled :: "outbox \<Rightarrow> string \<Rightarrow> outbox" where
  "removeScheduled ob i = obj_del ob i"

definition listScheduled :: "(string \<Rightarrow> string \<Rightarrow> int) \<Rightarrow> outbox \<Rightarrow> held list" where
  "listScheduled lc ob = js_sort (cmp_by_text lc h_sendAt) (obj_values ob)"

definition holdReason :: "held \<Rightarrow> hold_reason" where
  "holdReason item = (case h_reason item of None \<Rightarrow> TimeHold | Some r \<Rightarrow> r)"

definition isRetiredHold :: "held \<Rightarrow> bool" where
  "isRetiredHold item \<longleftrightarrow> h_reason item = Some AwaitingSession \<or> h_level item = Some 3 \<or> h_level item = Some 4"

definition dueScheduled :: "(string \<Rightarrow> string \<Rightarrow> int) \<Rightarrow> outbox \<Rightarrow> string \<Rightarrow> held list" where
  "dueScheduled lc ob now =
     filter (\<lambda>item. holdReason item = TimeHold \<and> str_le (h_sendAt item) now) (listScheduled lc ob)"

definition stillPending :: "held \<Rightarrow> keyring \<Rightarrow> identity option \<Rightarrow> string list" where
  "stillPending item ring self =
     map rs_email (filter (\<lambda>r. rs_status r = Missing \<or> rs_status r = ChangedKey)
       (resolveRecipientStates ring self (h_to item)))"

definition resolvableHeld :: "(string \<Rightarrow> string \<Rightarrow> int) \<Rightarrow> outbox \<Rightarrow> keyring \<Rightarrow> identity option \<Rightarrow> held list" where
  "resolvableHeld lc ob ring self =
     filter (\<lambda>item. holdReason item = AwaitingKey \<and> stillPending item ring self = []) (listScheduled lc ob)"

interpretation outbox_store: id_store h_id upsertScheduled removeScheduled
  using id_store_obj [of h_id] by (simp add: upsertScheduled_def [abs_def] removeScheduled_def [abs_def])

lemma set_listScheduled [simp]: "set (listScheduled lc ob) = set (obj_values ob)"
  by (simp add: listScheduled_def)

lemma distinct_listScheduled: "filed h_id ob \<Longrightarrow> distinct (map h_id (listScheduled lc ob))"
  by (simp add: listScheduled_def filed_distinct del: map_map)

lemma sorted_listScheduled:
  "comparator lc \<Longrightarrow> sorted_wrt (\<lambda>a b. lc (h_sendAt a) (h_sendAt b) \<le> 0) (listScheduled lc ob)"
  using comparator.sort_sorted [OF comparator_by_text [of lc h_sendAt]] by (simp add: listScheduled_def cmp_by_text_def)

lemma stillPending_usable:
  "stillPending item ring self = filter (\<lambda>e. \<not> usable (rs_status (recipientState ring self e))) (h_to item)"
  by (simp add: stillPending_def resolveRecipientStates_def filter_map o_def not_usable)

lemma stillPending_Nil: "stillPending item ring self = [] \<longleftrightarrow> (\<forall>e \<in> set (h_to item). sealing_key ring self e \<noteq> None)"
  by (simp add: stillPending_usable filter_empty_conv usable_sealing_key)

subsection \<open>Reporting a check\<close>

datatype check_kind = NoKeyKind | Unreachable

text \<open>\<open>a\<close>, \<open>a and b\<close>, \<open>a, b and c\<close>\<close>

definition read_aloud :: "string list \<Rightarrow> string" where
  "read_aloud emails =
     (case emails of [] \<Rightarrow> [] | [e] \<Rightarrow> e
      | _ \<Rightarrow> js_join '', '' (butlast emails) @ '' and '' @ last emails)"

definition verb :: "string list \<Rightarrow> string" where
  "verb emails = (if 1 < length emails then ''have'' else ''has'')"

text \<open>The texts of the source, with its em dash (outside Latin-1) as two hyphens.\<close>

definition describeCheck :: "string list \<Rightarrow> string list \<Rightarrow> check_kind \<times> string" where
  "describeCheck pending undiscoverable =
     (let failed = set (map canonical undiscoverable);
          unreachable = filter (\<lambda>e. canonical e \<in> failed) pending;
          withoutKey = filter (\<lambda>e. canonical e \<notin> failed) pending
      in if unreachable = [] then
           (NoKeyKind,
            if withoutKey = [] then ''Still waiting. Nothing has changed since the message was queued.''
            else read_aloud withoutKey @ '' '' @ verb withoutKey @
              '' not published a key yet. The message stays queued and goes out by itself once they do.'')
         else
           (let failure = ''Couldn't reach the key directory for '' @ read_aloud unreachable @
              ''. That is a fault on this side, not an answer about them -- the message stays queued and CryptMail keeps trying.''
            in (Unreachable,
                if withoutKey = [] then failure
                else failure @ '' '' @ read_aloud withoutKey @ '' '' @ verb withoutKey @ '' not published a key yet either.'')))"

subsection \<open>Drafts\<close>

record draft =
  d_id :: string
  d_to :: "string list"
  d_subject :: string
  d_body :: string
  d_html :: "string option"
  d_attachments :: "attachment list option"
  d_attachmentsOmitted :: "string list option"
  d_inReplyTo :: "string option"
  d_references :: "string list option"
  d_updatedAt :: string
  d_sendError :: "string option"

type_synonym drafts = "draft obj"

definition isDraftEmpty :: "draft \<Rightarrow> bool" where
  "isDraftEmpty d \<longleftrightarrow> d_to d = [] \<and> js_trim (d_subject d) = [] \<and> js_trim (d_body d) = []
     \<and> (case d_attachments d of None \<Rightarrow> [] | Some as \<Rightarrow> as) = []"

definition upsertDraft :: "drafts \<Rightarrow> draft \<Rightarrow> drafts" where
  "upsertDraft ds d = obj_set ds (d_id d) d"

definition removeDraft :: "drafts \<Rightarrow> string \<Rightarrow> drafts" where
  "removeDraft ds i = obj_del ds i"

definition listDrafts :: "(string \<Rightarrow> string \<Rightarrow> int) \<Rightarrow> drafts \<Rightarrow> draft list" where
  "listDrafts lc ds = js_sort (cmp_desc (cmp_by_text lc d_updatedAt)) (obj_values ds)"

interpretation draft_store: id_store d_id upsertDraft removeDraft
  using id_store_obj [of d_id] by (simp add: upsertDraft_def [abs_def] removeDraft_def [abs_def])

lemma sorted_listDrafts:
  "comparator lc \<Longrightarrow> sorted_wrt (\<lambda>a b. lc (d_updatedAt b) (d_updatedAt a) \<le> 0) (listDrafts lc ds)"
  using comparator.sort_sorted [OF comparator_desc [OF comparator_by_text [of lc d_updatedAt]]]
  by (simp add: listDrafts_def cmp_by_text_def cmp_desc_def)

subsection \<open>Invites\<close>

definition INVITE_WINDOW_MS :: int where
  "INVITE_WINDOW_MS = 7 * 24 * 60 * 60 * 1000"

text \<open>\<open>parse\<close> is \<open>Date.parse\<close>, with \<open>None\<close> for \<open>NaN\<close>; the current time is a number of milliseconds and an
  ISO string.\<close>

definition shouldInvite :: "(string \<Rightarrow> int option) \<Rightarrow> string obj \<Rightarrow> string \<Rightarrow> int \<Rightarrow> bool" where
  "shouldInvite parse log email now =
     (case obj_get log (canonical email) of
        None \<Rightarrow> True
      | Some stamp \<Rightarrow> if stamp = [] then True
          else (case parse stamp of None \<Rightarrow> True | Some at \<Rightarrow> INVITE_WINDOW_MS \<le> now - at))"

definition recordInvite :: "string obj \<Rightarrow> string \<Rightarrow> string \<Rightarrow> string obj" where
  "recordInvite log email now = obj_set log (canonical email) now"

text \<open>An address just invited is not due again within the week, under any spelling; others are as before.\<close>

lemma shouldInvite_record:
  "stamp \<noteq> [] \<Longrightarrow> parse stamp = Some t \<Longrightarrow>
   shouldInvite parse (recordInvite log email stamp) e now =
     (if canonical e = canonical email then INVITE_WINDOW_MS \<le> now - t else shouldInvite parse log e now)"
  by (simp add: shouldInvite_def recordInvite_def obj_simps)

subsection \<open>Properties\<close>

text \<open>What is due: exactly the time-held messages whose time has come, each once, soonest first; a
  message that waits for a key is never released by the clock.\<close>

theorem dueScheduled_exact:
  assumes "comparator lc" and "filed h_id ob"
  shows "set (dueScheduled lc ob now) =
      {item \<in> set (obj_values ob). holdReason item = TimeHold \<and> str_le (h_sendAt item) now}
    \<and> distinct (map h_id (dueScheduled lc ob now))
    \<and> sorted_wrt (\<lambda>a b. lc (h_sendAt a) (h_sendAt b) \<le> 0) (dueScheduled lc ob now)"
  using sorted_listScheduled [OF assms(1), of ob] distinct_listScheduled [OF assms(2), of lc]
  by (auto simp: dueScheduled_def distinct_map_filter intro: sorted_wrt_filter)

definition held_sample :: "string \<Rightarrow> string \<Rightarrow> hold_reason option \<Rightarrow> held" where
  "held_sample i at reason = \<lparr>h_id = i, h_to = [''a@b''], h_subject = ''s'', h_body = ''b'', h_html = None, h_sendAt = at,
     h_inReplyTo = None, h_references = None, h_attachments = None, h_level = None, h_reason = reason, h_pending = None\<rparr>"

definition outbox_sample :: outbox where
  "outbox_sample = foldl upsertScheduled []
     [held_sample ''x'' ''2'' None, held_sample ''y'' ''1'' (Some TimeHold), held_sample ''z'' ''1'' (Some AwaitingKey)]"

lemma outbox_sample_filed: "filed h_id outbox_sample"
  unfolding outbox_sample_def by (rule outbox_store.filed_put_all) simp

theorem dueScheduled_exact_witness:
  "map h_id (dueScheduled str_cmp outbox_sample ''3'') = [''y'', ''x'']
    \<and> distinct (map h_id (dueScheduled str_cmp outbox_sample ''3''))"
proof
  show "map h_id (dueScheduled str_cmp outbox_sample ''3'') = [''y'', ''x'']" by code_simp
  show "distinct (map h_id (dueScheduled str_cmp outbox_sample ''3''))"
    using dueScheduled_exact [OF code_units.comparator_axioms outbox_sample_filed] by blast
qed

text \<open>What a new key releases: exactly the messages waiting for a key all of whose recipients can now be
  encrypted to. A changed key never releases one.\<close>

theorem resolvableHeld_exact:
  "set (resolvableHeld lc ob ring self) =
     {item \<in> set (obj_values ob). holdReason item = AwaitingKey
        \<and> (\<forall>e \<in> set (h_to item). sealing_key ring self e \<noteq> None)}
   \<and> (\<forall>item k. (\<exists>e \<in> set (h_to item). findKey ring e = Some k \<and> ck_trust k = Changed
          \<and> (\<forall>i. self = Some i \<longrightarrow> canonical e \<noteq> canonical (idn_email i)))
        \<longrightarrow> item \<notin> set (resolvableHeld lc ob ring self))"
  unfolding resolvableHeld_def stillPending_Nil
  by (auto simp: sealing_key_def split: option.splits)

definition outbox_keys :: keyring where
  "outbox_keys = key_run [] [Arrived key_a SourceManual None NoEvidence ''t1'']"

theorem resolvableHeld_exact_witness:
  "map h_id (resolvableHeld str_cmp outbox_sample outbox_keys None) = [''z'']
    \<and> resolvableHeld str_cmp outbox_sample (key_run [] two_keys) None = []"
proof
  show "map h_id (resolvableHeld str_cmp outbox_sample outbox_keys None) = [''z'']" by code_simp
  have "sealing_key (key_run [] two_keys) None ''a@b'' = None" by code_simp
  moreover have "h_to item = [''a@b'']" if "item \<in> set (obj_values outbox_sample)" for item
    using that by (auto simp: outbox_sample_def upsertScheduled_def held_sample_def)
  ultimately have none: "\<exists>e \<in> set (h_to item). sealing_key (key_run [] two_keys) None e = None"
    if "item \<in> set (obj_values outbox_sample)" for item
    using that by simp
  have "item \<notin> set (resolvableHeld str_cmp outbox_sample (key_run [] two_keys) None)" for item
    unfolding conjunct1 [OF resolvableHeld_exact] mem_Collect_eq using none [of item] by blast
  then show "resolvableHeld str_cmp outbox_sample (key_run [] two_keys) None = []"
    using hd_in_set by (rule contrapos_np)
qed

text \<open>The answer to a check never blames the recipient for our failure: it says that nobody has published a
  key exactly when no pending address is among those whose last lookup failed, compared without regard to
  case and surrounding space.\<close>

theorem describeCheck_kind:
  "fst (describeCheck pending undiscoverable) = Unreachable \<longleftrightarrow>
     (\<exists>e \<in> set pending. \<exists>u \<in> set undiscoverable. canonical e = canonical u)"
proof -
  have "filter (\<lambda>e. canonical e \<in> set (map canonical undiscoverable)) pending = [] \<longleftrightarrow>
      \<not> (\<exists>e \<in> set pending. \<exists>u \<in> set undiscoverable. canonical e = canonical u)"
    by (auto simp: filter_empty_conv)
  then show ?thesis by (simp only: describeCheck_def Let_def split: if_split) simp
qed

end
