(* ===== verification/Snooze.thy ===== *)
theory Snooze
  imports Mail_Types Id_Store
begin

text \<open>
  Snoozing (\<^verbatim>\<open>snooze/snooze.ts\<close>): messages hidden until a time, the Snoozed folder, and the quick presets.
  The presets work on the local calendar: a moment is a day number (day 0 is 1 January 1970, a Thursday)
  with hour, minute, second and millisecond of a day without a clock change; \<open>toISOString\<close> of such a moment is
  the parameter \<open>snap\<close>.
\<close>

record snoozed_message =
  sz_id :: string
  sz_until :: string
  sz_snoozedAt :: string
  sz_summary :: "mail_summary option"

type_synonym snooze_map = "snoozed_message obj"

definition upsertSnooze :: "snooze_map \<Rightarrow> snoozed_message \<Rightarrow> snooze_map" where
  "upsertSnooze st item = obj_set st (sz_id item) item"

definition removeSnooze :: "snooze_map \<Rightarrow> string \<Rightarrow> snooze_map" where
  "removeSnooze st i = obj_del st i"

definition listSnoozed :: "(string \<Rightarrow> string \<Rightarrow> int) \<Rightarrow> snooze_map \<Rightarrow> snoozed_message list" where
  "listSnoozed lc st = js_sort (cmp_by_text lc sz_until) (obj_values st)"

definition dueSnoozed :: "(string \<Rightarrow> string \<Rightarrow> int) \<Rightarrow> snooze_map \<Rightarrow> string \<Rightarrow> snoozed_message list" where
  "dueSnoozed lc st now = filter (\<lambda>item. str_le (sz_until item) now) (listSnoozed lc st)"

definition isSnoozed :: "snooze_map \<Rightarrow> string \<Rightarrow> string \<Rightarrow> bool" where
  "isSnoozed st i now = (case obj_get st i of None \<Rightarrow> False | Some e \<Rightarrow> str_less now (sz_until e))"

text \<open>\<open>new Map(messages.map(...))\<close>: a later row with the same id wins.\<close>

definition live_row :: "mail_summary list \<Rightarrow> string \<Rightarrow> mail_summary option" where
  "live_row messages i = find (\<lambda>m. sm_id m = i) (rev messages)"

definition snoozedRows ::
  "(string \<Rightarrow> string \<Rightarrow> int) \<Rightarrow> snooze_map \<Rightarrow> mail_summary list \<Rightarrow> string \<Rightarrow> (snoozed_message \<times> mail_summary option) list" where
  "snoozedRows lc st messages now =
     map (\<lambda>e. (e, case live_row messages (sz_id e) of Some m \<Rightarrow> Some m | None \<Rightarrow> sz_summary e))
       (filter (\<lambda>e. str_less now (sz_until e)) (listSnoozed lc st))"

text \<open>\<open>day_of\<close> gives the local day of an ISO time, \<open>None\<close> when it does not parse.\<close>

definition returnsBucket :: "(string \<Rightarrow> int option) \<Rightarrow> string \<Rightarrow> int \<Rightarrow> string" where
  "returnsBucket day_of until today =
     (case day_of until of
        None \<Rightarrow> ''Later''
      | Some d \<Rightarrow> let days = d - today in
          if days \<le> 0 then ''Later today'' else if days = 1 then ''Tomorrow''
          else if days < 7 then ''This week'' else ''Later'')"

subsection \<open>Presets\<close>

record moment =
  mo_day :: int
  mo_hour :: int
  mo_ms :: int

definition wf_moment :: "moment \<Rightarrow> bool" where
  "wf_moment m \<longleftrightarrow> 0 \<le> mo_hour m \<and> mo_hour m < 24 \<and> 0 \<le> mo_ms m \<and> mo_ms m < 3600000"

definition before :: "moment \<Rightarrow> moment \<Rightarrow> bool" where
  "before a b \<longleftrightarrow> (mo_day a * 24 + mo_hour a) * 3600000 + mo_ms a < (mo_day b * 24 + mo_hour b) * 3600000 + mo_ms b"

definition getDay :: "moment \<Rightarrow> int" where
  "getDay m = (mo_day m + 4) mod 7"

text \<open>\<open>setHours(h, 0, 0, 0)\<close>: hours beyond the day run into the next one.\<close>

definition setHours :: "moment \<Rightarrow> int \<Rightarrow> moment" where
  "setHours m h = \<lparr>mo_day = mo_day m + h div 24, mo_hour = h mod 24, mo_ms = 0\<rparr>"

definition addDays :: "moment \<Rightarrow> int \<Rightarrow> moment" where
  "addDays m n = m\<lparr>mo_day := mo_day m + n\<rparr>"

definition laterToday :: "moment \<Rightarrow> moment" where
  "laterToday now =
     (let l = setHours now (mo_hour now + 4)
      in if mo_day l \<noteq> mo_day now then setHours (l\<lparr>mo_day := mo_day now\<rparr>) 21 else l)"

text \<open>\<open>x || 7\<close>\<close>

definition or_seven :: "int \<Rightarrow> int" where
  "or_seven x = (if x = 0 then 7 else x)"

definition daysUntilSat :: "int \<Rightarrow> int" where
  "daysUntilSat dow = (if dow = 6 then 7 else or_seven ((6 - dow + 7) mod 7))"

definition daysUntilMon :: "int \<Rightarrow> int" where
  "daysUntilMon dow = (if dow = 1 then 7 else or_seven ((8 - dow) mod 7))"

definition presets :: "moment \<Rightarrow> (string \<times> moment) list" where
  "presets now =
     [(''later_today'', laterToday now),
      (''tomorrow'', setHours (addDays now 1) 9),
      (''weekend'', setHours (addDays now (daysUntilSat (getDay now))) 9),
      (''next_week'', setHours (addDays now (daysUntilMon (getDay now))) 9)]"

fun first_of_each :: "string list \<Rightarrow> (string \<times> string) list \<Rightarrow> (string \<times> string) list" where
  "first_of_each seen [] = []"
| "first_of_each seen (o' # os) =
     (if snd o' \<in> set seen then first_of_each seen os else o' # first_of_each (snd o' # seen) os)"

text \<open>Keys and times of the options; labels and formatted sublabels are left out.\<close>

definition quickSnoozeDates :: "(moment \<Rightarrow> string) \<Rightarrow> moment \<Rightarrow> (string \<times> string) list" where
  "quickSnoozeDates snap now = first_of_each [] (map (\<lambda>(k, m). (k, snap m)) (presets now))"

subsection \<open>Facts\<close>

interpretation snooze_store: id_store sz_id upsertSnooze removeSnooze
  using id_store_obj [of sz_id] by (simp add: upsertSnooze_def [abs_def] removeSnooze_def [abs_def])

lemma set_listSnoozed [simp]: "set (listSnoozed lc st) = set (obj_values st)"
  by (simp add: listSnoozed_def)

lemma sorted_listSnoozed:
  "comparator lc \<Longrightarrow> sorted_wrt (\<lambda>a b. lc (sz_until a) (sz_until b) \<le> 0) (listSnoozed lc st)"
  using comparator.sort_sorted [OF comparator_by_text [of lc sz_until]] by (simp add: listSnoozed_def cmp_by_text_def)

lemma set_dueSnoozed: "set (dueSnoozed lc st now) = {e \<in> set (obj_values st). str_le (sz_until e) now}"
  by (auto simp: dueSnoozed_def)

lemma isSnoozed_iff:
  "filed sz_id st \<Longrightarrow> isSnoozed st i now \<longleftrightarrow> (\<exists>e \<in> set (obj_values st). sz_id e = i \<and> \<not> str_le (sz_until e) now)"
proof (cases "obj_get st i")
  case None
  assume "filed sz_id st"
  from filed_get_iff [OF this, of i] have "obj_get st i \<noteq> None" if "e \<in> set (obj_values st)" "sz_id e = i" for e
    using that by (metis option.distinct(1))
  with None have "\<not> (\<exists>e \<in> set (obj_values st). sz_id e = i)" by blast
  with None show ?thesis unfolding isSnoozed_def by (simp only: option.simps) blast
next
  case (Some e)
  assume st: "filed sz_id st"
  then have e: "e \<in> set (obj_values st)" "sz_id e = i" using filed_get_iff [OF st, of i e] Some by blast+
  have u: "e' = e" if "e' \<in> set (obj_values st)" "sz_id e' = i" for e'
    using filed_unique [OF st that(1) e(1)] that(2) e(2) by simp
  have "isSnoozed st i now \<longleftrightarrow> \<not> str_le (sz_until e) now"
    using Some by (simp add: isSnoozed_def str_less_le_not_le)
  then show ?thesis using e u by blast
qed

lemma first_of_each_facts:
  "distinct (map snd (first_of_each seen os)) \<and> snd ` set (first_of_each seen os) = snd ` set os - set seen
   \<and> subseq (first_of_each seen os) os"
  by (induction seen os rule: first_of_each.induct) (auto simp: image_iff)

lemma div24_21: "21 div 24 = (0::int)" "21 mod 24 = (21::int)" "9 div 24 = (0::int)" "9 mod 24 = (9::int)"
  by simp_all

lemma laterToday_cases:
  assumes "wf_moment now"
  shows "laterToday now = (if mo_hour now < 20 then \<lparr>mo_day = mo_day now, mo_hour = mo_hour now + 4, mo_ms = 0\<rparr>
    else \<lparr>mo_day = mo_day now, mo_hour = 21, mo_ms = 0\<rparr>)"
proof (cases "mo_hour now < 20")
  case True
  then have "(mo_hour now + 4) div 24 = 0" "(mo_hour now + 4) mod 24 = mo_hour now + 4"
    using assms by (auto simp: wf_moment_def)
  then show ?thesis using True by (simp add: laterToday_def setHours_def Let_def)
next
  case False
  then have "(mo_hour now + 4) div 24 = 1" using assms by (simp add: wf_moment_def) presburger
  then show ?thesis using False by (simp add: laterToday_def setHours_def Let_def)
qed

lemma until_days: "0 \<le> dow \<Longrightarrow> dow < 7 \<Longrightarrow> 1 \<le> daysUntilSat dow \<and> (dow + daysUntilSat dow) mod 7 = 6
    \<and> 1 \<le> daysUntilMon dow \<and> (dow + daysUntilMon dow) mod 7 = 1"
proof -
  assume "0 \<le> dow" "dow < 7"
  then have "dow \<in> {0, 1, 2, 3, 4, 5, 6}" by auto
  then show ?thesis by (auto simp: daysUntilSat_def daysUntilMon_def or_seven_def)
qed

subsection \<open>Properties\<close>

text \<open>The inbox and the Snoozed folder never both claim a message, and never both drop one: at any time a
  snoozed message is hidden from the inbox exactly when the folder lists it, and otherwise the next tick wakes
  it; the folder is in the order the messages come back, each once.\<close>

theorem snooze_partition:
  assumes "comparator lc" and "filed sz_id st"
  shows "(isSnoozed st i now \<longleftrightarrow> i \<in> (\<lambda>r. sz_id (fst r)) ` set (snoozedRows lc st messages now))
    \<and> (i \<in> sz_id ` set (obj_values st) \<longrightarrow> isSnoozed st i now \<noteq> (i \<in> sz_id ` set (dueSnoozed lc st now)))
    \<and> distinct (map (\<lambda>r. sz_id (fst r)) (snoozedRows lc st messages now))
    \<and> sorted_wrt (\<lambda>a b. lc (sz_until (fst a)) (sz_until (fst b)) \<le> 0) (snoozedRows lc st messages now)"
proof (intro conjI impI)
  show "isSnoozed st i now \<longleftrightarrow> i \<in> (\<lambda>r. sz_id (fst r)) ` set (snoozedRows lc st messages now)"
    by (auto simp: isSnoozed_iff [OF assms(2)] snoozedRows_def str_less_le_not_le image_iff)
  show "isSnoozed st i now \<noteq> (i \<in> sz_id ` set (dueSnoozed lc st now))" if "i \<in> sz_id ` set (obj_values st)"
    using that filed_unique [OF assms(2)] unfolding isSnoozed_iff [OF assms(2)] set_dueSnoozed by blast
  have "distinct (map sz_id (listSnoozed lc st))"
    using filed_distinct [OF assms(2)] by (simp add: listSnoozed_def del: map_map)
  then show "distinct (map (\<lambda>r. sz_id (fst r)) (snoozedRows lc st messages now))"
    by (simp add: snoozedRows_def o_def distinct_map_filter)
  show "sorted_wrt (\<lambda>a b. lc (sz_until (fst a)) (sz_until (fst b)) \<le> 0) (snoozedRows lc st messages now)"
    using sorted_wrt_filter [OF sorted_listSnoozed [OF assms(1)]]
    by (simp add: snoozedRows_def sorted_wrt_map)
qed

definition snooze_sample :: snooze_map where
  "snooze_sample = foldl upsertSnooze []
     [\<lparr>sz_id = ''a'', sz_until = ''5'', sz_snoozedAt = ''0'', sz_summary = None\<rparr>,
      \<lparr>sz_id = ''b'', sz_until = ''2'', sz_snoozedAt = ''0'', sz_summary = None\<rparr>]"

theorem snooze_partition_witness:
  "isSnoozed snooze_sample ''a'' ''3'' \<and> ''a'' \<in> (\<lambda>r. sz_id (fst r)) ` set (snoozedRows str_cmp snooze_sample [] ''3'')"
proof -
  have f: "filed sz_id snooze_sample"
    unfolding snooze_sample_def by (rule snooze_store.filed_put_all) simp
  have "isSnoozed snooze_sample ''a'' ''3''" by code_simp
  then show ?thesis using snooze_partition [OF code_units.comparator_axioms f, of "''a''" "''3''" "[]"] by blast
qed

text \<open>The presets: no two options mean the same moment and no moment of the four presets is missing; weekend
  is a Saturday and next week a Monday; every moment but ``later today'' lies in the future, and ``later today'' does
  so exactly until nine in the evening, when the cap at nine puts it in the past. Before eight it is four
  hours on, so it can be as late as eleven: the cap applies only past midnight.\<close>

theorem quick_snooze_laws:
  assumes "wf_moment now"
  shows "distinct (map snd (quickSnoozeDates snap now))
    \<and> snd ` set (quickSnoozeDates snap now) = (\<lambda>p. snap (snd p)) ` set (presets now)
    \<and> (\<forall>(k, m) \<in> set (presets now). k \<noteq> ''later_today'' \<longrightarrow> before now m)
    \<and> (before now (laterToday now) \<longleftrightarrow> mo_hour now < 21)
    \<and> (mo_hour now < 20 \<longrightarrow> mo_hour (laterToday now) = mo_hour now + 4)
    \<and> (\<forall>m. (''weekend'', m) \<in> set (presets now) \<longrightarrow> getDay m = 6)
    \<and> (\<forall>m. (''next_week'', m) \<in> set (presets now) \<longrightarrow> getDay m = 1)"
proof -
  have dow: "0 \<le> getDay now" "getDay now < 7" by (simp_all add: getDay_def)
  note until = until_days [OF dow]
  have sat: "(mo_day now + daysUntilSat (getDay now) + 4) mod 7 = 6"
    using until mod_add_left_eq [of "mo_day now + 4" 7 "daysUntilSat (getDay now)"] by (simp add: getDay_def ac_simps)
  have mon: "(mo_day now + daysUntilMon (getDay now) + 4) mod 7 = 1"
    using until mod_add_left_eq [of "mo_day now + 4" 7 "daysUntilMon (getDay now)"] by (simp add: getDay_def ac_simps)
  have b: "before now (laterToday now) \<longleftrightarrow> mo_hour now < 21"
    using assms unfolding laterToday_cases [OF assms] before_def wf_moment_def by (cases "mo_hour now < 20") auto
  have later: "\<forall>(k, m) \<in> set (presets now). k \<noteq> ''later_today'' \<longrightarrow> before now m"
    using assms until by (simp add: presets_def before_def setHours_def addDays_def div24_21 wf_moment_def)
  have opts: "distinct (map snd (quickSnoozeDates snap now))
    \<and> snd ` set (quickSnoozeDates snap now) = (\<lambda>p. snap (snd p)) ` set (presets now)"
    using first_of_each_facts [of "[]" "map (\<lambda>(k, m). (k, snap m)) (presets now)"]
    by (simp add: quickSnoozeDates_def image_image case_prod_beta)
  have days: "(\<forall>m. (''weekend'', m) \<in> set (presets now) \<longrightarrow> getDay m = 6)"
    "(\<forall>m. (''next_week'', m) \<in> set (presets now) \<longrightarrow> getDay m = 1)"
    using sat mon by (simp_all add: presets_def setHours_def addDays_def div24_21 getDay_def)
  have four: "mo_hour now < 20 \<longrightarrow> mo_hour (laterToday now) = mo_hour now + 4"
    by (simp add: laterToday_cases [OF assms])
  show ?thesis using opts later b four days by blast
qed

theorem quick_snooze_laws_witness:
  "\<not> before \<lparr>mo_day = 20000, mo_hour = 22, mo_ms = 0\<rparr> (laterToday \<lparr>mo_day = 20000, mo_hour = 22, mo_ms = 0\<rparr>)"
  using quick_snooze_laws [of "\<lparr>mo_day = 20000, mo_hour = 22, mo_ms = 0\<rparr>"] by (simp add: wf_moment_def)

end
