(* ===== verification/App_State.thy ===== *)
theory App_State
  imports Outbox Snooze
begin

text \<open>
  The state the service modules share (\<^verbatim>\<open>state/store.ts\<close>, \<^verbatim>\<open>state/types.ts\<close>), what is on disk beside it,
  and the outside world they call: the provider, the key directory, the crypto core, the clock. A service
  function is an action on the state that may throw. \<open>store.patch\<close> is a record update; the asynchronous
  gaps inside an action are the subject of the theory of scheduler races, and an action here runs alone.
\<close>

datatype store_name = KeyringStore | OutboxStore | DraftsStore | InviteStore | SnoozeStore

datatype app_error =
  NotConnected | NoAccount | AddRecipient | RetiredLevel | KeyChanged "string list" | NotSealed
| NotEncrypted | SendingDisabled | NoKeyStored string | NoIdentity | StaleKey string
| BuildFailed core_code | BadKey | TransportFailed | AuthLost | StorageFailed | ArchiveFailed

text \<open>What the error line of the screens says.\<close>

datatype notice = CouldntSend nat "app_error option" | SignInAgain app_error

text \<open>Another listed mailbox that holds a session, with the stores \<open>load\<close> reads when it is brought to the front.\<close>

record other_mailbox =
  om_account :: string
  om_paused :: bool
  om_session :: string
  om_identity :: "identity option"
  om_keyring :: keyring
  om_invites :: "string obj"
  om_scheduled :: outbox
  om_drafts :: drafts
  om_snoozed :: snooze_map
  om_messages :: "mail_summary list"

text \<open>\<open>app_others\<close> are these mailboxes in the order of the list, \<open>app_arriving\<close> the one a switch under way will bring to the
  front, \<open>app_left\<close> the outbox and the drafts on disk of the mailboxes that were left.\<close>

record app_state =
  app_account :: "string option"
  app_connected :: bool
  app_session :: "string option"
  app_identity :: "identity option"
  app_keyring :: keyring
  app_invites :: "string obj"
  app_scheduled :: outbox
  app_drafts :: drafts
  app_snoozed :: snooze_map
  app_messages :: "mail_summary list"
  app_discovering :: "string list"
  app_undiscoverable :: "string list"
  app_error_text :: "notice option"
  disk_keyring :: keyring
  disk_invites :: "string obj"
  disk_scheduled :: outbox
  disk_drafts :: drafts
  disk_snoozed :: snooze_map
  app_archive :: "(string \<times> decrypted_message) list"
  app_tries :: nat
  app_wire :: "string list"
  app_others :: "other_mailbox list"
  app_arriving :: "other_mailbox option"
  app_left :: "(string \<times> outbox \<times> drafts) list"

text \<open>What the world answers during one service call. \<open>env_list\<close> is \<open>client.list\<close> with the sender filter,
  \<open>None\<close> when it throws; \<open>env_lookup\<close> is \<open>directory.lookup\<close>; \<open>env_import\<close> is \<open>core.importPublicKey\<close>;
  \<open>env_addresses\<close> is \<open>addressesInKey\<close> of the packet reader; \<open>env_build\<close> is \<open>core.buildEncrypted\<close>;
  \<open>env_message\<close> is the text of an error; \<open>env_send_ok n m\<close> tells whether the provider takes message \<open>m\<close> at the n-th attempt, and \<open>env_reauth n\<close>
  whether a refusal at that attempt means that the user has to sign in again; \<open>env_arrives\<close> tells whether a switch of
  mailbox that was under way is over when the call is.\<close>

record env =
  env_now :: string
  env_now_ms :: int
  env_parse :: "string \<Rightarrow> int option"
  env_date :: string
  env_message :: "app_error \<Rightarrow> string"
  env_random :: string
  env_outbox_id :: string
  env_real_core :: bool
  env_list :: "string \<Rightarrow> string \<Rightarrow> mail_summary list option"
  env_lookup :: "string \<Rightarrow> string option option"
  env_import :: "string \<Rightarrow> public_key_info option"
  env_addresses :: "string \<Rightarrow> string list option"
  env_build :: "build_request \<Rightarrow> (core_code, string) result"
  env_send_ok :: "nat \<Rightarrow> string \<Rightarrow> bool"
  env_reauth :: "nat \<Rightarrow> bool"
  env_arrives :: bool
  env_archive_ok :: bool
  env_store_ok :: "store_name \<Rightarrow> bool"

type_synonym 'a outcome = "(app_error, 'a) result \<times> app_state"

text \<open>\<open>await\<close>: go on with what was returned, or throw on.\<close>

definition await :: "'a outcome \<Rightarrow> ('a \<Rightarrow> app_state \<Rightarrow> 'b outcome) \<Rightarrow> 'b outcome" where
  "await r k = (case r of (Inl e, s) \<Rightarrow> (Inl e, s) | (Inr x, s) \<Rightarrow> k x s)"

lemma await_simps [simp]: "await (Inl e, s) k = (Inl e, s)" "await (Inr x, s) k = k x s"
  by (simp_all add: await_def)

lemma await_cases:
  "(\<And>e s. r = (Inl e, s) \<Longrightarrow> P (Inl e, s)) \<Longrightarrow> (\<And>x s. r = (Inr x, s) \<Longrightarrow> P (k x s)) \<Longrightarrow> P (await r k)"
  by (cases r; cases "fst r") auto

definition writes :: "env \<Rightarrow> store_name \<Rightarrow> app_state \<Rightarrow> app_error option" where
  "writes env st s = (if app_account s = None then Some NoAccount
     else if env_store_ok env st then None else Some StorageFailed)"

definition saveKeyring :: "env \<Rightarrow> keyring \<Rightarrow> app_state \<Rightarrow> unit outcome" where
  "saveKeyring env ring s = (case writes env KeyringStore s of Some e \<Rightarrow> (Inl e, s)
     | None \<Rightarrow> (Inr (), s\<lparr>disk_keyring := ring\<rparr>))"

definition saveInvites :: "env \<Rightarrow> string obj \<Rightarrow> app_state \<Rightarrow> unit outcome" where
  "saveInvites env log s = (case writes env InviteStore s of Some e \<Rightarrow> (Inl e, s)
     | None \<Rightarrow> (Inr (), s\<lparr>disk_invites := log\<rparr>))"

definition saveOutbox :: "env \<Rightarrow> outbox \<Rightarrow> app_state \<Rightarrow> unit outcome" where
  "saveOutbox env ob s = (case writes env OutboxStore s of Some e \<Rightarrow> (Inl e, s)
     | None \<Rightarrow> (Inr (), s\<lparr>disk_scheduled := ob\<rparr>))"

definition saveDrafts :: "env \<Rightarrow> drafts \<Rightarrow> app_state \<Rightarrow> unit outcome" where
  "saveDrafts env ds s = (case writes env DraftsStore s of Some e \<Rightarrow> (Inl e, s)
     | None \<Rightarrow> (Inr (), s\<lparr>disk_drafts := ds\<rparr>))"

definition saveSnoozes :: "env \<Rightarrow> snooze_map \<Rightarrow> app_state \<Rightarrow> unit outcome" where
  "saveSnoozes env st s = (case writes env SnoozeStore s of Some e \<Rightarrow> (Inl e, s)
     | None \<Rightarrow> (Inr (), s\<lparr>disk_snoozed := st\<rparr>))"

lemmas save_defs = saveSnoozes_def saveKeyring_def saveInvites_def saveOutbox_def saveDrafts_def

text \<open>\<open>mail.current.send\<close>\<close>

definition transmit :: "env \<Rightarrow> string \<Rightarrow> app_state \<Rightarrow> bool \<times> app_state" where
  "transmit env m s =
     (if env_send_ok env (app_tries s) m
      then (True, s\<lparr>app_tries := app_tries s + 1, app_wire := app_wire s @ [m]\<rparr>)
      else (False, s\<lparr>app_tries := app_tries s + 1\<rparr>))"

definition transport_error :: "env \<Rightarrow> app_state \<Rightarrow> app_error" where
  "transport_error env s = (if env_reauth env (app_tries s) then AuthLost else TransportFailed)"

text \<open>The drafts service (\<^verbatim>\<open>state/drafts.ts\<close>).\<close>

definition saveDraft :: "env \<Rightarrow> draft \<Rightarrow> app_state \<Rightarrow> unit outcome" where
  "saveDraft env d s =
     (let ds = upsertDraft (app_drafts s) d
      in await (saveDrafts env ds s) (\<lambda>_ s. (Inr (), s\<lparr>app_drafts := ds\<rparr>)))"

definition deleteDraft :: "env \<Rightarrow> string \<Rightarrow> app_state \<Rightarrow> unit outcome" where
  "deleteDraft env i s =
     (let ds = removeDraft (app_drafts s) i
      in await (saveDrafts env ds s) (\<lambda>_ s. (Inr (), s\<lparr>app_drafts := ds\<rparr>)))"

end
