(* ===== verification/Transfer_Encoding.thy ===== *)
theory Transfer_Encoding
  imports Js_Text Base64
begin

text \<open>
  Content-Transfer-Encoding (\<^verbatim>\<open>mail/transferEncoding.ts\<close>): quoted-printable and base64 bodies back to
  bytes, and bytes to UTF-16 in the declared character set, where ISO-8859-1 is read as Windows-1252.
  Encoded text is a \<open>string\<close>; decoded text is a list of UTF-16 code units.
\<close>

definition CP1252_HIGH :: "utf16 list" where
  "CP1252_HIGH =
    [0x20ac, 0x0081, 0x201a, 0x0192, 0x201e, 0x2026, 0x2020, 0x2021,
     0x02c6, 0x2030, 0x0160, 0x2039, 0x0152, 0x008d, 0x017d, 0x008f,
     0x0090, 0x2018, 0x2019, 0x201c, 0x201d, 0x2022, 0x2013, 0x2014,
     0x02dc, 0x2122, 0x0161, 0x203a, 0x0153, 0x009d, 0x017e, 0x0178]"

definition opt_sep :: "string list \<Rightarrow> string list \<Rightarrow> string list" where
  "opt_sep heads tails = concat (map (\<lambda>h. concat (map (\<lambda>t. [h @ t, h @ ''-'' @ t, h @ ''_'' @ t]) tails)) heads)"

text \<open>The spellings the regular expression \<open>SINGLE_BYTE\<close> accepts.\<close>

definition SINGLE_BYTE :: "string list" where
  "SINGLE_BYTE = opt_sep (opt_sep [''iso''] [''8859'']) [''1''] @ opt_sep [''latin''] [''1''] @ [''l1'']
     @ opt_sep [''cp''] [''1252''] @ opt_sep [''windows''] [''1252'']"

definition strip_quotes :: "string \<Rightarrow> string" where
  "strip_quotes s =
     (let q = (\<lambda>c. c = QUOTE \<or> c = CHR 0x27);
          a = (case s of [] \<Rightarrow> [] | c # cs \<Rightarrow> if q c then cs else s)
      in if a \<noteq> [] \<and> q (last a) then butlast a else a)"

definition decodeBytes :: "u8 list \<Rightarrow> string option \<Rightarrow> utf16 list" where
  "decodeBytes bytes charset =
     (let name = strip_quotes (js_lower (js_trim (case charset of None \<Rightarrow> [] | Some c \<Rightarrow> c)))
      in if name \<notin> set SINGLE_BYTE then bytesToUtf8 bytes
         else map (\<lambda>b. if 0x80 \<le> b \<and> b \<le> 0x9f then CP1252_HIGH ! unat (b - 0x80) else ucast b) bytes)"

text \<open>\<open>/=\r?\n/g\<close>: soft line breaks.\<close>

fun drop_soft_breaks :: "string \<Rightarrow> string" where
  "drop_soft_breaks (c # d # e # cs) =
     (if c = CHR ''='' \<and> d = CR \<and> e = NL then drop_soft_breaks cs
      else if c = CHR ''='' \<and> d = NL then drop_soft_breaks (e # cs)
      else c # drop_soft_breaks (d # e # cs))"
| "drop_soft_breaks [c, d] = (if c = CHR ''='' \<and> d = NL then [] else [c, d])"
| "drop_soft_breaks cs = cs"

definition hex_digit :: "char \<Rightarrow> nat option" where
  "hex_digit c = (let n = code_unit c in
     if 48 \<le> n \<and> n \<le> 57 then Some (n - 48)
     else if 65 \<le> n \<and> n \<le> 70 then Some (n - 55)
     else if 97 \<le> n \<and> n \<le> 102 then Some (n - 87) else None)"

definition unit_of_char :: "char \<Rightarrow> utf16" where
  "unit_of_char c = of_nat (code_unit c)"

fun qp_bytes :: "string \<Rightarrow> u8 list" where
  "qp_bytes (c # d # e # cs) =
     (case (hex_digit d, hex_digit e) of
        (Some h, Some l) \<Rightarrow>
          if c = CHR ''='' then of_nat (16 * h + l) # qp_bytes cs
          else utf8ToBytes [unit_of_char c] @ qp_bytes (d # e # cs)
      | _ \<Rightarrow> utf8ToBytes [unit_of_char c] @ qp_bytes (d # e # cs))"
| "qp_bytes (c # cs) = utf8ToBytes [unit_of_char c] @ qp_bytes cs"
| "qp_bytes [] = []"

definition decodeQuotedPrintable :: "string \<Rightarrow> string option \<Rightarrow> utf16 list" where
  "decodeQuotedPrintable input charset = decodeBytes (qp_bytes (drop_soft_breaks input)) charset"

definition decodeTransfer :: "string option \<Rightarrow> string \<Rightarrow> string option \<Rightarrow> utf16 list" where
  "decodeTransfer encoding body charset =
     (let scheme = js_trim (js_lower (case encoding of None \<Rightarrow> [] | Some e \<Rightarrow> e))
      in if scheme = ''quoted-printable'' then decodeQuotedPrintable body charset
         else if scheme = ''base64'' then decodeBytes (base64ToBytes (strip_spaces body)) charset
         else map unit_of_char body)"

subsection \<open>Base64 parts\<close>

text \<open>Line breaks inside a base64 body change nothing: the decoder skips everything outside its alphabet.\<close>

lemma base64_ignores_spaces: "base64ToBytes (strip_spaces s) = base64ToBytes s"
proof -
  have "c \<in> set b64_alphabet \<Longrightarrow> \<not> js_space c" for c
    by (auto simp: b64_alphabet_def js_space_def code_unit_def)
  then have "b64_clean (strip_spaces s) = b64_clean s"
    unfolding strip_spaces_def filter_filter by (intro filter_cong) auto
  then show ?thesis by (simp add: base64ToBytes_def)
qed

lemma base64_lines: "concat ls = s \<Longrightarrow> base64ToBytes (js_join [NL] ls) = base64ToBytes s"
proof -
  assume s: "concat ls = s"
  have "b64_clean (js_join [NL] ls) = b64_clean (concat ls)"
    by (induction "[NL]" ls rule: js_join.induct) (auto simp: b64_alphabet_def)
  then show ?thesis by (simp add: base64ToBytes_def s)
qed

lemma base64_text_no_breaks: "NL \<notin> set (bytesToBase64 bs)" "CR \<notin> set (bytesToBase64 bs)"
  using bytesToBase64_chars [of bs] by (auto simp: b64_alphabet_def)

lemma decode_no_charset: "decodeBytes bs None = bytesToUtf8 bs"
  by (simp add: decodeBytes_def strip_quotes_def SINGLE_BYTE_def opt_sep_def)

lemma decode_utf8_charset: "decodeBytes bs (Some ''utf-8'') = bytesToUtf8 bs"
proof -
  have "strip_quotes (js_lower (js_trim ''utf-8'')) \<notin> set SINGLE_BYTE" by code_simp
  then show ?thesis by (simp add: decodeBytes_def)
qed

text \<open>A base64 part reads back as it was written: text cut into lines of any width and joined by line
  breaks decodes to the same text, so the HTML alternative that compose writes in 76-column base64 is what
  the reader shows.\<close>

theorem base64_part_round_trip:
  assumes "wf_utf16 t" and "0 < n"
  shows "decodeTransfer (Some ''base64'') (js_join [NL] (dot_runs n (encodeUtf8Base64 t))) (Some ''utf-8'') = t"
proof -
  have scheme: "js_trim (js_lower ''base64'') = ''base64''" by code_simp
  have "concat (dot_runs n (encodeUtf8Base64 t)) = encodeUtf8Base64 t"
    using assms(2) by (simp add: encodeUtf8Base64_def dot_runs_no_breaks base64_text_no_breaks concat_chunks)
  then have "base64ToBytes (strip_spaces (js_join [NL] (dot_runs n (encodeUtf8Base64 t)))) = utf8ToBytes t"
    by (simp add: base64_ignores_spaces base64_lines encodeUtf8Base64_def base64_inverse)
  then show ?thesis
    using utf8_inverse [OF assms(1)] by (simp add: decodeTransfer_def Let_def scheme decode_utf8_charset)
qed

theorem base64_part_round_trip_witness:
  "decodeTransfer (Some ''base64'') (js_join [NL] (dot_runs 4 (encodeUtf8Base64 [0x3c, 0x62, 0x20ac]))) (Some ''utf-8'')
    = [0x3c, 0x62, 0x20ac]"
proof -
  have "wf_utf16 [0x3c, 0x62, 0x20ac]" by (simp add: high_surrogate_def)
  from base64_part_round_trip [OF this, of 4] show ?thesis by simp
qed

end
