(* ===== verification/Safety_Number.thy ===== *)
theory Safety_Number
  imports Mime Transfer_Encoding
begin

text \<open>
  Safety numbers (\<^verbatim>\<open>pgp/safetyNumber.ts\<close>): the digits two people compare. SHA-256 comes from a
  third-party package and is the parameter \<open>sha256\<close>, which returns 32 bytes.
\<close>

definition DOMAIN :: string where
  "DOMAIN = ''cryptmail-safety-number-v1''"

definition MIN_FINGERPRINT_HEX :: nat where
  "MIN_FINGERPRINT_HEX = 32"

definition normaliseFingerprint :: "string \<Rightarrow> string" where
  "normaliseFingerprint fp =
     map ascii_upper_char (filter (\<lambda>c. hex_digit c \<noteq> None) (if starts_with_ci fp ''0x'' then drop 2 fp else fp))"

definition formatFingerprint :: "string \<Rightarrow> string" where
  "formatFingerprint fp = js_join '' '' (dot_runs 4 (normaliseFingerprint fp))"

definition hex_of :: "nat \<Rightarrow> char" where
  "hex_of n = ''0123456789abcdef'' ! n"

definition toHex :: "u8 list \<Rightarrow> string" where
  "toHex bytes = concat (map (\<lambda>b. [hex_of (unat b div 16), hex_of (unat b mod 16)]) bytes)"

fun parse_hex :: "string \<Rightarrow> nat" where
  "parse_hex [] = 0"
| "parse_hex (c # cs) = (case hex_digit c of None \<Rightarrow> 0 | Some d \<Rightarrow> d) * 16 ^ length cs + parse_hex cs"

definition dec_of :: "nat \<Rightarrow> char" where
  "dec_of n = ''0123456789'' ! (n mod 10)"

text \<open>\<open>String(n).padStart(5, '0')\<close> for \<open>n < 100000\<close>\<close>

definition five_digits :: "nat \<Rightarrow> string" where
  "five_digits n = map dec_of [n div 10000, n div 1000, n div 100, n div 10, n]"

function digits_loop :: "string \<Rightarrow> nat \<Rightarrow> string \<Rightarrow> string" where
  "digits_loop hex wanted out =
     (if wanted \<le> length out \<or> length hex < 5 then out
      else digits_loop (drop 5 hex) wanted (out @ five_digits (parse_hex (take 5 hex) mod 100000)))"
  by pat_completeness auto
termination
  by (relation "measure (\<lambda>(hex, wanted, out). length hex)") auto

declare digits_loop.simps [simp del]

definition digitsFrom :: "string \<Rightarrow> nat \<Rightarrow> string" where
  "digitsFrom hex wanted = take wanted (digits_loop hex wanted [])"

definition groupDigits :: "string \<Rightarrow> string" where
  "groupDigits digits = js_join '' '' (dot_runs 5 digits)"

text \<open>\<open>None\<close> for the error it throws on anything that is no complete fingerprint.\<close>

definition safetyNumber :: "(u8 list \<Rightarrow> u8 list) \<Rightarrow> string \<Rightarrow> string \<Rightarrow> string option" where
  "safetyNumber sha256 ours theirs =
     (let a = normaliseFingerprint ours; b = normaliseFingerprint theirs
      in if length a < MIN_FINGERPRINT_HEX \<or> length b < MIN_FINGERPRINT_HEX then None
         else (let s = js_sort str_cmp [a, b];
                   digest = toHex (sha256 (utf8ToBytes (units (DOMAIN @ '':'' @ s ! 0 @ '':'' @ s ! 1))))
               in Some (groupDigits (digitsFrom digest 30))))"

definition safetyNumberMatches :: "string \<Rightarrow> string \<Rightarrow> bool" where
  "safetyNumberMatches expected entered \<longleftrightarrow>
     strip_spaces expected \<noteq> [] \<and> strip_spaces expected = strip_spaces entered"

lemma five_digits_length [simp]: "length (five_digits n) = 5"
  by (simp add: five_digits_def)

definition digit_char :: "char \<Rightarrow> bool" where
  "digit_char c \<longleftrightarrow> 48 \<le> code_unit c \<and> code_unit c \<le> 57"

lemma dec_of_digit: "digit_char (dec_of n)"
proof -
  have "list_all digit_char ''0123456789''" by (simp add: digit_char_def code_unit_def)
  then have "\<forall>i < length ''0123456789''. digit_char (''0123456789'' ! i)" unfolding list_all_length .
  then show ?thesis unfolding dec_of_def by (rule allE) (erule mp, simp)
qed

lemma five_digits_chars: "list_all digit_char (five_digits n)"
  by (simp add: five_digits_def dec_of_digit)

lemma digit_char_plain: "digit_char c \<Longrightarrow> \<not> js_space c \<and> c \<noteq> NL \<and> c \<noteq> CR"
  by (auto simp: digit_char_def js_space_def code_unit_def)

lemma toHex_length: "length (toHex bs) = 2 * length bs"
  by (induction bs) (simp_all add: toHex_def)

lemma digits_loop_length:
  "5 * k \<le> length hex \<Longrightarrow> wanted = length out + 5 * k \<Longrightarrow> length (digits_loop hex wanted out) = wanted"
proof (induction k arbitrary: hex out)
  case 0
  then show ?case by (simp add: digits_loop.simps)
next
  case (Suc k)
  then show ?case by (subst digits_loop.simps) simp
qed

lemma digits_loop_chars:
  "list_all digit_char out \<Longrightarrow> list_all digit_char (digits_loop hex wanted out)"
proof (induction hex wanted out rule: digits_loop.induct)
  case (1 hex wanted out)
  show ?case
  proof (cases "wanted \<le> length out \<or> length hex < 5")
    case True
    then show ?thesis using 1 by (subst digits_loop.simps) simp
  next
    case False
    with 1 have "list_all digit_char (digits_loop (drop 5 hex) wanted (out @ five_digits (parse_hex (take 5 hex) mod 100000)))"
      using five_digits_chars by (intro 1(1)) auto
    then show ?thesis using False by (subst digits_loop.simps) simp
  qed
qed

lemma sort_two_swap: "js_sort str_cmp [a, b] = js_sort str_cmp [b, a]"
proof -
  have "str_cmp b a = - str_cmp a b" by (rule str_cmp_swap)
  then show ?thesis using str_cmp_eq_0 [of a b] by (auto simp: js_sort_Cons)
qed

lemma strip_join_spaces: "strip_spaces (js_join '' '' ls) = strip_spaces (concat ls)"
  by (induction "'' ''" ls rule: js_join.induct) (auto simp: strip_spaces_def js_space_def code_unit_def)

text \<open>Safety numbers: both sides see the same digits whoever computes them; a text that is no complete
  fingerprint gives none; otherwise the number is thirty digits however grouped, and typing it back with
  any spacing matches it.\<close>

theorem safety_number_laws:
  assumes "\<And>bs. length (sha256 bs) = 32"
  shows "safetyNumber sha256 ours theirs = safetyNumber sha256 theirs ours
    \<and> (safetyNumber sha256 ours theirs = None \<longleftrightarrow>
         length (normaliseFingerprint ours) < 32 \<or> length (normaliseFingerprint theirs) < 32)
    \<and> (\<forall>n entered. safetyNumber sha256 ours theirs = Some n \<longrightarrow>
         length (strip_spaces n) = 30 \<and> list_all digit_char (strip_spaces n)
         \<and> (safetyNumberMatches n entered \<longleftrightarrow> strip_spaces entered = strip_spaces n))"
proof -
  have digits: "strip_spaces (groupDigits (digitsFrom (toHex (sha256 bs)) 30)) = digitsFrom (toHex (sha256 bs)) 30
      \<and> length (digitsFrom (toHex (sha256 bs)) 30) = 30 \<and> list_all digit_char (digitsFrom (toHex (sha256 bs)) 30)"
    for bs
  proof -
    let ?d = "digitsFrom (toHex (sha256 bs)) 30"
    have len: "length ?d = 30"
    proof -
      have "5 * 6 \<le> length (toHex (sha256 bs))" unfolding toHex_length assms by simp
      from digits_loop_length [OF this, of 30 "[]"] have "length (digits_loop (toHex (sha256 bs)) 30 []) = 30" by simp
      then show ?thesis unfolding digitsFrom_def by simp
    qed
    have ch: "list_all digit_char ?d"
      unfolding digitsFrom_def using digits_loop_chars [of "[]" "toHex (sha256 bs)" 30]
      by (metis append_take_drop_id list_all_append list.pred_inject(1))
    then have no: "\<forall>c \<in> set ?d. \<not> js_space c \<and> c \<noteq> NL \<and> c \<noteq> CR"
      using digit_char_plain by (simp add: list_all_iff)
    then have "NL \<notin> set ?d" "CR \<notin> set ?d" by blast+
    then have "concat (dot_runs 5 ?d) = ?d"
      by (simp add: dot_runs_no_breaks concat_chunks)
    moreover have "strip_spaces ?d = ?d" using no by (simp add: strip_spaces_def filter_id_conv)
    ultimately show ?thesis using len ch by (simp add: groupDigits_def strip_join_spaces)
  qed
  show ?thesis
  proof (intro conjI allI impI)
    show "safetyNumber sha256 ours theirs = safetyNumber sha256 theirs ours"
      unfolding safetyNumber_def Let_def
      using sort_two_swap [of "normaliseFingerprint ours" "normaliseFingerprint theirs"] by auto
    show "safetyNumber sha256 ours theirs = None \<longleftrightarrow>
         length (normaliseFingerprint ours) < 32 \<or> length (normaliseFingerprint theirs) < 32"
      by (simp add: safetyNumber_def Let_def MIN_FINGERPRINT_HEX_def)
  next
    fix n entered
    assume "safetyNumber sha256 ours theirs = Some n"
    then obtain bs where n: "n = groupDigits (digitsFrom (toHex (sha256 bs)) 30)"
      by (auto simp: safetyNumber_def Let_def split: if_splits)
    show "length (strip_spaces n) = 30" "list_all digit_char (strip_spaces n)"
      using digits [of bs] by (simp_all add: n)
    then have "strip_spaces n \<noteq> []" by auto
    then show "safetyNumberMatches n entered \<longleftrightarrow> strip_spaces entered = strip_spaces n"
      by (auto simp: safetyNumberMatches_def)
  qed
qed

text \<open>A stand-in for the hash.\<close>

definition toy_hash :: "u8 list \<Rightarrow> u8 list" where
  "toy_hash bs = replicate 32 (of_nat (length bs))"

theorem safety_number_laws_witness:
  "safetyNumber toy_hash (replicate 40 (CHR ''a'')) (replicate 40 (CHR ''B''))
     = safetyNumber toy_hash (replicate 40 (CHR ''B'')) (replicate 40 (CHR ''a''))
   \<and> safetyNumber toy_hash (replicate 40 (CHR ''a'')) (replicate 40 (CHR ''B'')) \<noteq> None"
proof -
  have h: "\<And>bs. length (toy_hash bs) = 32" by (simp add: toy_hash_def)
  have "\<not> length (normaliseFingerprint (replicate 40 (CHR ''a''))) < 32"
    "\<not> length (normaliseFingerprint (replicate 40 (CHR ''B''))) < 32"
    by code_simp+
  then show ?thesis using safety_number_laws [of toy_hash, OF h] by blast
qed

end
