(* ===== verification/Contacts_Service.thy ===== *)
theory Contacts_Service
  imports App_State Safety_Number
begin

text \<open>
  Learning keys: the \<open>Autocrypt\<close> header (\<^verbatim>\<open>keys/autocrypt.ts\<close>), the search of the mailbox and of the key
  directory for addresses without a key, and the user's actions on the ring (\<^verbatim>\<open>state/contacts.ts\<close>).
\<close>

subsection \<open>The Autocrypt header\<close>

definition KEY_BEGIN :: string where
  "KEY_BEGIN = ''-----BEGIN PGP PUBLIC KEY BLOCK-----''"

definition KEY_END :: string where
  "KEY_END = ''-----END PGP PUBLIC KEY BLOCK-----''"

text \<open>\<open>/(?:^|;)\s*addr=([^;]+)/\<close>: the attribute at the start or after a semicolon.\<close>

definition addr_here :: "string \<Rightarrow> string option" where
  "addr_here s = (let t = dropWhile js_space s; v = takeWhile (\<lambda>c. c \<noteq> CHR '';'') (drop 5 t)
     in if prefix ''addr='' t \<and> v \<noteq> [] then Some v else None)"

fun addr_after :: "string \<Rightarrow> string option" where
  "addr_after [] = None"
| "addr_after (c # cs) =
     (if c = CHR '';'' \<and> addr_here cs \<noteq> None then addr_here cs else addr_after cs)"

definition header_addr :: "string \<Rightarrow> string option" where
  "header_addr s = or_else (addr_here s) (addr_after s)"

text \<open>\<open>/keydata=([\s\S]+?)(?:;|$)/\<close>: at least one character, then up to a semicolon.\<close>

fun header_keydata :: "string \<Rightarrow> string option" where
  "header_keydata [] = None"
| "header_keydata (c # cs) =
     (if prefix ''keydata='' (c # cs)
      then (case drop 8 (c # cs) of [] \<Rightarrow> header_keydata cs
            | d # ds \<Rightarrow> Some (d # takeWhile (\<lambda>x. x \<noteq> CHR '';'') ds))
      else header_keydata cs)"

text \<open>Text from code units, which the model's strings hold up to 255.\<close>

definition chars :: "utf16 list \<Rightarrow> string" where
  "chars us = map (\<lambda>u. char_of (unat u)) us"

definition autocryptKeyFrom :: "string \<Rightarrow> string option \<Rightarrow> string option" where
  "autocryptKeyFrom header from' =
     (let value = js_trim header
      in if value = [] then None
         else if js_includes value KEY_BEGIN then Some value
         else (let addr = map_option canonical (header_addr value);
                   keydata = map_option strip_spaces (header_keydata value)
               in if truthy addr \<and> truthy from' \<and> the addr \<noteq> canonical (the from') then None
                  else if \<not> truthy keydata then None
                  else (let decoded = decodeUtf8Base64 (the keydata)
                        in if js_includes decoded (units KEY_BEGIN) then Some (chars decoded)
                           else if \<exists>c \<in> set (the keydata). c \<notin> set b64_alphabet \<and> c \<noteq> CHR ''='' then None
                           else Some (js_join [NL] ([KEY_BEGIN, []] @ dot_runs 64 (the keydata) @ [KEY_END])))))"

definition harvestAutocrypt ::
  "env \<Rightarrow> keyring \<Rightarrow> string \<Rightarrow> string option \<Rightarrow> string option \<Rightarrow> keyring" where
  "harvestAutocrypt env ring from' header name =
     (if \<not> truthy header then ring
      else (case autocryptKeyFrom (the header) (Some from') of
              None \<Rightarrow> ring
            | Some armored \<Rightarrow>
                if armored = [] then ring
                else (case env_import env armored of
                        None \<Rightarrow> ring
                      | Some info \<Rightarrow> upsertKey ring info SourceAutocrypt name NoEvidence (env_now env))))"

subsection \<open>Discovery\<close>

fun harvest_messages :: "env \<Rightarrow> string \<Rightarrow> mail_summary list \<Rightarrow> keyring \<Rightarrow> keyring \<times> bool" where
  "harvest_messages env email [] ring = (ring, False)"
| "harvest_messages env email (m # ms) ring =
     (if \<not> truthy (sm_autocrypt m) \<or> canonical (sm_from_address m) \<noteq> email
      then harvest_messages env email ms ring
      else (let ring' = harvestAutocrypt env ring (sm_from_address m) (sm_autocrypt m) (sm_from_name m)
            in if findKey ring' email \<noteq> None then (ring', True) else harvest_messages env email ms ring'))"

fun harvest_boxes :: "env \<Rightarrow> string \<Rightarrow> string list \<Rightarrow> keyring \<Rightarrow> bool \<Rightarrow> keyring \<times> bool" where
  "harvest_boxes env email [] ring failed = (ring, failed)"
| "harvest_boxes env email (box # boxes) ring failed =
     (case env_list env box email of
        None \<Rightarrow> harvest_boxes env email boxes ring True
      | Some ms \<Rightarrow> (case harvest_messages env email ms ring of
            (ring', True) \<Rightarrow> (ring', False)
          | (ring', False) \<Rightarrow> harvest_boxes env email boxes ring' failed))"

definition harvestFromSender :: "env \<Rightarrow> bool \<Rightarrow> keyring \<Rightarrow> string \<Rightarrow> keyring \<times> bool" where
  "harvestFromSender env connected ring email =
     (if connected then harvest_boxes env email [''inbox'', ''archive''] ring False else (ring, False))"

definition claims :: "env \<Rightarrow> public_key_info \<Rightarrow> string \<Rightarrow> string \<Rightarrow> bool option" where
  "claims env info armored email =
     (if canonical (pk_email info) = email then Some True
      else map_option (\<lambda>as. email \<in> set as) (env_addresses env armored))"

definition discover_one ::
  "env \<Rightarrow> bool \<Rightarrow> keyring \<times> string list \<Rightarrow> string \<Rightarrow> keyring \<times> string list" where
  "discover_one env connected acc email =
     (case acc of (ring, unresolved) \<Rightarrow>
       (case harvestFromSender env connected ring email of (ring1, failed) \<Rightarrow>
         if findKey ring1 email \<noteq> None then (ring1, unresolved)
         else (case env_lookup env email of
                 None \<Rightarrow> (ring1, unresolved @ [email])
               | Some None \<Rightarrow> (ring1, if failed then unresolved @ [email] else unresolved)
               | Some (Some armored) \<Rightarrow>
                   (case env_import env armored of
                      None \<Rightarrow> (ring1, unresolved @ [email])
                    | Some info \<Rightarrow>
                        (case claims env info armored email of
                           None \<Rightarrow> (ring1, unresolved @ [email])
                         | Some False \<Rightarrow> (ring1, unresolved)
                         | Some True \<Rightarrow>
                             (upsertKey ring1 (info\<lparr>pk_email := email\<rparr>) SourceDirectory None NoEvidence (env_now env),
                              unresolved))))))"

definition unknown_addresses :: "app_state \<Rightarrow> string list \<Rightarrow> string list" where
  "unknown_addresses s emails =
     filter (\<lambda>e. Some e \<noteq> map_option (\<lambda>i. canonical (idn_email i)) (app_identity s)
                 \<and> findKey (app_keyring s) e = None)
       (js_unique (filter (\<lambda>e. e \<noteq> []) (map canonical emails)))"

text \<open>\<open>next === store.get().keyring\<close> is a comparison of references; a ring equal to the one in place
  holds nothing to save.\<close>

definition commitKeyring :: "env \<Rightarrow> keyring \<Rightarrow> app_state \<Rightarrow> keyring outcome" where
  "commitKeyring env ring s =
     (if ring = app_keyring s then (Inr ring, s)
      else await (saveKeyring env ring s) (\<lambda>_ s. (Inr ring, s\<lparr>app_keyring := ring\<rparr>)))"

definition discover :: "env \<Rightarrow> string list \<Rightarrow> app_state \<Rightarrow> keyring outcome" where
  "discover env emails s =
     (let unknown = unknown_addresses s emails
      in if unknown = [] then (Inr (app_keyring s), s)
         else (case foldl (discover_one env (app_connected s)) (app_keyring s, []) unknown of
                 (ring, unresolved) \<Rightarrow>
                   (case commitKeyring env ring (s\<lparr>app_discovering := unknown\<rparr>) of
                      (r, s') \<Rightarrow> (r, s'\<lparr>app_discovering := [], app_undiscoverable := unresolved\<rparr>))))"

definition discoverRecipients :: "env \<Rightarrow> string list \<Rightarrow> app_state \<Rightarrow> recipient_state list outcome" where
  "discoverRecipients env emails s =
     await (discover env emails s) (\<lambda>ring s. (Inr (resolveRecipientStates ring (app_identity s) emails), s))"

subsection \<open>The user's actions\<close>

text \<open>The display name a User ID carries is read by the packet reader, a parameter here.\<close>

definition importKey :: "(string \<Rightarrow> string) \<Rightarrow> env \<Rightarrow> string \<Rightarrow> string option \<Rightarrow> app_state \<Rightarrow> contact_key option outcome" where
  "importKey userIdDisplayName env armored name s =
     (case env_import env armored of
        None \<Rightarrow> (Inl BadKey, s)
      | Some info \<Rightarrow>
          (let displayName = or_else name
                 (if truthy (pk_userId info) then Some (userIdDisplayName (the (pk_userId info))) else None)
           in await (commitKeyring env
                (upsertKey (app_keyring s) info SourceManual displayName NoEvidence (env_now env)) s)
                (\<lambda>ring s. (Inr (obj_get ring (pk_email info)), s))))"

definition forgetKey :: "env \<Rightarrow> string \<Rightarrow> app_state \<Rightarrow> unit outcome" where
  "forgetKey env email s = await (commitKeyring env (removeKey (app_keyring s) email) s) (\<lambda>_ s. (Inr (), s))"

definition knownFingerprint :: "contact_key \<Rightarrow> string \<Rightarrow> string option" where
  "knownFingerprint c fp = find (\<lambda>f. normaliseFingerprint f = normaliseFingerprint fp) (all_fingerprints c)"

definition markVerified :: "env \<Rightarrow> string \<Rightarrow> string \<Rightarrow> app_state \<Rightarrow> unit outcome" where
  "markVerified env email confirmed s =
     (case findKey (app_keyring s) email of
        None \<Rightarrow> (Inl (NoKeyStored email), s)
      | Some c \<Rightarrow>
          (case chooseKey (app_keyring s) email
                  (case knownFingerprint c confirmed of None \<Rightarrow> [] | Some f \<Rightarrow> f) (env_now env) of
             None \<Rightarrow> (Inl (StaleKey email), s)
           | Some ring \<Rightarrow> await (commitKeyring env ring s) (\<lambda>_ s. (Inr (), s))))"

definition safetyNumberFor ::
  "(u8 list \<Rightarrow> u8 list) \<Rightarrow> string \<Rightarrow> string option \<Rightarrow> app_state \<Rightarrow> (app_error, string) result" where
  "safetyNumberFor sha256 email fingerprint s =
     (case findKey (app_keyring s) email of
        None \<Rightarrow> Inl (NoKeyStored email)
      | Some c \<Rightarrow>
          (case app_identity s of
             None \<Rightarrow> Inl NoIdentity
           | Some i \<Rightarrow>
               (let which = (case fingerprint of None \<Rightarrow> Some (pk_fingerprint c) | Some f \<Rightarrow> knownFingerprint c f)
                in if \<not> truthy which then Inl (NoKeyStored email)
                   else (case safetyNumber sha256 (idn_fingerprint i) (the which) of
                           None \<Rightarrow> Inl BadKey | Some n \<Rightarrow> Inr n))))"

subsection \<open>A discovery is a history of arrivals\<close>

definition is_arrival :: "key_event \<Rightarrow> bool" where
  "is_arrival ev \<longleftrightarrow> (\<exists>k source name now. ev = Arrived k source name NoEvidence now \<and> source \<noteq> SourceManual)"

definition arrivals :: "keyring \<Rightarrow> keyring \<Rightarrow> bool" where
  "arrivals ring ring' \<longleftrightarrow> (\<exists>evs. (\<forall>ev \<in> set evs. is_arrival ev) \<and> ring' = key_run ring evs)"

lemma arrivals_refl [simp, intro]: "arrivals ring ring"
  unfolding arrivals_def by (rule exI [of _ "[]"]) (simp add: key_run_def)

lemma arrivals_trans [trans]: "arrivals a b \<Longrightarrow> arrivals b c \<Longrightarrow> arrivals a c"
proof -
  assume "arrivals a b" "arrivals b c"
  then obtain e1 e2 where "\<forall>ev \<in> set e1. is_arrival ev" "b = key_run a e1" "\<forall>ev \<in> set e2. is_arrival ev" "c = key_run b e2"
    by (auto simp: arrivals_def)
  then show ?thesis unfolding arrivals_def by (intro exI [of _ "e1 @ e2"]) (auto simp: key_run_def)
qed

lemma arrivals_upsert: "source \<noteq> SourceManual \<Longrightarrow> arrivals ring (upsertKey ring k source name NoEvidence now)"
  unfolding arrivals_def
  by (rule exI [of _ "[Arrived k source name NoEvidence now]"]) (simp add: key_run_def is_arrival_def)

lemma harvest_arrivals: "arrivals ring (harvestAutocrypt env ring from' header name)"
  by (auto simp: harvestAutocrypt_def arrivals_upsert split: option.splits)

lemma harvest_messages_arrivals: "arrivals ring (fst (harvest_messages env email ms ring))"
proof (induction env email ms ring rule: harvest_messages.induct)
  case (2 env email m ms ring)
  let ?r = "harvestAutocrypt env ring (sm_from_address m) (sm_autocrypt m) (sm_from_name m)"
  show ?case
  proof (cases "\<not> truthy (sm_autocrypt m) \<or> canonical (sm_from_address m) \<noteq> email")
    case True
    then show ?thesis using 2(1) by auto
  next
    case False
    then show ?thesis
      using 2(2) [OF False refl] harvest_arrivals [of ring env] by (auto simp: Let_def intro: arrivals_trans)
  qed
qed simp

lemma harvest_boxes_arrivals: "arrivals ring (fst (harvest_boxes env email boxes ring failed))"
proof (induction env email boxes ring failed rule: harvest_boxes.induct)
  case (2 env email box boxes ring failed)
  show ?case
  proof (cases "env_list env box email")
    case None
    then show ?thesis using 2 by simp
  next
    case (Some ms)
    obtain ring' found where hm: "harvest_messages env email ms ring = (ring', found)" by fastforce
    then have "arrivals ring ring'" using harvest_messages_arrivals [of ring env email ms] by simp
    then show ?thesis using 2(2) [OF Some hm [symmetric]] Some hm by (cases found) (auto intro: arrivals_trans)
  qed
qed simp

lemma harvestFromSender_arrivals: "arrivals ring (fst (harvestFromSender env connected ring email))"
  by (simp add: harvestFromSender_def harvest_boxes_arrivals del: harvest_boxes.simps)

lemma discover_one_arrivals: "arrivals (fst acc) (fst (discover_one env connected acc email))"
proof -
  obtain ring unres where acc: "acc = (ring, unres)" by fastforce
  obtain ring1 failed where h: "harvestFromSender env connected ring email = (ring1, failed)" by fastforce
  then have "arrivals ring ring1" using harvestFromSender_arrivals [of ring env connected email] by simp
  then show ?thesis
    by (auto simp: discover_one_def acc h split: option.splits bool.splits
             intro: arrivals_trans arrivals_upsert)
qed

lemma discover_fold_arrivals: "arrivals (fst acc) (fst (foldl (discover_one env connected) acc emails))"
proof (induction emails arbitrary: acc)
  case (Cons e es)
  show ?case using discover_one_arrivals [of acc env connected e] Cons [of "discover_one env connected acc e"]
    by (auto intro: arrivals_trans)
qed simp

text \<open>What an action may touch: the fields of the message pipeline are left alone by a discovery.\<close>

definition same_mail :: "app_state \<Rightarrow> app_state \<Rightarrow> bool" where
  "same_mail s s' \<longleftrightarrow> app_account s' = app_account s \<and> app_connected s' = app_connected s
     \<and> app_session s' = app_session s \<and> app_identity s' = app_identity s \<and> app_invites s' = app_invites s
     \<and> app_scheduled s' = app_scheduled s \<and> app_drafts s' = app_drafts s \<and> app_wire s' = app_wire s
     \<and> app_snoozed s' = app_snoozed s \<and> app_messages s' = app_messages s \<and> disk_snoozed s' = disk_snoozed s
     \<and> app_error_text s' = app_error_text s \<and> app_tries s' = app_tries s \<and> app_archive s' = app_archive s \<and> disk_scheduled s' = disk_scheduled s
     \<and> disk_drafts s' = disk_drafts s \<and> disk_invites s' = disk_invites s"

lemma commitKeyring_facts:
  assumes "commitKeyring env ring s = (r, s')"
  shows "same_mail s s'" and "\<And>x. r = Inr x \<Longrightarrow> x = ring \<and> app_keyring s' = ring"
    and "\<And>e. r = Inl e \<Longrightarrow> app_keyring s' = app_keyring s"
  using assms
  by (auto simp: commitKeyring_def saveKeyring_def same_mail_def writes_def split: if_splits option.splits)

lemma discover_facts:
  assumes "discover env emails s = (r, s')"
  shows "same_mail s s'" and "arrivals (app_keyring s) (app_keyring s')"
    and "\<And>x. r = Inr x \<Longrightarrow> x = app_keyring s'"
proof -
  let ?unknown = "unknown_addresses s emails"
  have "same_mail s s' \<and> arrivals (app_keyring s) (app_keyring s') \<and> (\<forall>x. r = Inr x \<longrightarrow> x = app_keyring s')"
  proof (cases "?unknown = []")
    case True
    then show ?thesis using assms by (auto simp: discover_def same_mail_def)
  next
    case False
    obtain ring unres where f: "foldl (discover_one env (app_connected s)) (app_keyring s, []) ?unknown = (ring, unres)"
      by fastforce
    obtain r1 s1 where c: "commitKeyring env ring (s\<lparr>app_discovering := ?unknown\<rparr>) = (r1, s1)" by fastforce
    have s': "r = r1" "s' = s1\<lparr>app_discovering := [], app_undiscoverable := unres\<rparr>"
      using assms False f c by (auto simp: discover_def Let_def)
    have "arrivals (app_keyring s) ring"
      using discover_fold_arrivals [of "(app_keyring s, [])" env "app_connected s" ?unknown] f by simp
    then show ?thesis
      using commitKeyring_facts [OF c] s' by (cases r1) (auto simp: same_mail_def)
  qed
  then show "same_mail s s'" "arrivals (app_keyring s) (app_keyring s')" "\<And>x. r = Inr x \<Longrightarrow> x = app_keyring s'"
    by auto
qed

lemma discoverRecipients_facts:
  assumes "discoverRecipients env emails s = (r, s')"
  shows "same_mail s s'" and "arrivals (app_keyring s) (app_keyring s')"
    and "\<And>rs. r = Inr rs \<Longrightarrow> rs = resolveRecipientStates (app_keyring s') (app_identity s') emails"
proof -
  obtain r0 s0 where d: "discover env emails s = (r0, s0)" by fastforce
  show "same_mail s s'" "arrivals (app_keyring s) (app_keyring s')"
    "\<And>rs. r = Inr rs \<Longrightarrow> rs = resolveRecipientStates (app_keyring s') (app_identity s') emails"
    using assms discover_facts [OF d] by (cases r0; auto simp: discoverRecipients_def d)+
qed

subsection \<open>What arrivals do to trust\<close>

definition trust_kept :: "contact_key \<Rightarrow> contact_key \<Rightarrow> bool" where
  "trust_kept c c' \<longleftrightarrow> pk_fingerprint c' = pk_fingerprint c \<and> ck_trust c' = ck_trust c \<or> ck_trust c' = Changed"

lemma upserted_trust_kept: "trust_kept c (upserted (Some c) k source name NoEvidence now)"
proof (cases "pk_fingerprint (upserted (Some c) k source name NoEvidence now) = pk_fingerprint c")
  case True
  then show ?thesis using upserted_same_trust [OF True] by (simp add: trust_kept_def)
next
  case False
  then show ?thesis using upserted_trust [OF False] by (simp add: trust_kept_def changed_entry_def)
qed

lemma upserted_keeps_changed:
  "ck_trust c = Changed \<Longrightarrow> ck_trust (upserted (Some c) k source name NoEvidence now) = Changed"
  using upserted_trust_kept [of c k source name now] by (auto simp: trust_kept_def)

lemma trust_kept_trans: "trust_kept c (c' :: contact_key) \<Longrightarrow> trust_kept c' c'' \<Longrightarrow> trust_kept c c''"
  by (auto simp: trust_kept_def)

lemma trust_kept_refl [simp]: "trust_kept c c"
  by (simp add: trust_kept_def)

lemma arrivals_keep:
  assumes "arrivals ring ring'" and "obj_get ring e = Some c"
  shows "\<exists>c'. obj_get ring' e = Some c' \<and> trust_kept c c'"
proof -
  obtain evs where evs: "\<forall>ev \<in> set evs. is_arrival ev" and r: "ring' = key_run ring evs"
    using assms(1) by (auto simp: arrivals_def)
  show ?thesis
    using evs unfolding r
  proof (induction evs rule: rev_induct)
    case Nil
    then show ?case using assms(2) by (simp add: key_run_def)
  next
    case (snoc ev evs)
    then obtain c1 k source name now where c1: "obj_get (key_run ring evs) e = Some c1" "trust_kept c c1"
      and ev: "ev = Arrived k source name NoEvidence now" by (auto simp: is_arrival_def)
    then show ?case using upserted_trust_kept [of c1 k source name now]
      by (auto simp: key_run_snoc upsertKey_get intro: trust_kept_trans)
  qed
qed

lemma arrivals_new:
  assumes "arrivals ring ring'" and "obj_get ring e = None" and "obj_get ring' e = Some c'"
  shows "ck_trust c' \<noteq> Verified"
proof -
  obtain evs where evs: "\<forall>ev \<in> set evs. is_arrival ev" and r: "ring' = key_run ring evs"
    using assms(1) by (auto simp: arrivals_def)
  show ?thesis
    using evs assms(3) unfolding r
  proof (induction evs arbitrary: c' rule: rev_induct)
    case Nil
    then show ?case using assms(2) by (simp add: key_run_def)
  next
    case (snoc ev evs)
    then obtain k source name now where ev: "ev = Arrived k source name NoEvidence now" by (auto simp: is_arrival_def)
    show ?case
    proof (cases "obj_get (key_run ring evs) e")
      case None
      then show ?thesis using snoc.prems ev
        by (auto simp: key_run_snoc upsertKey_get upserted_def refreshed_entry_def split: if_splits)
    next
      case (Some c1)
      then have "ck_trust c1 \<noteq> Verified" using snoc by auto
      then show ?thesis using snoc.prems ev Some upserted_trust_kept [of c1 k source name now]
        by (auto simp: key_run_snoc upsertKey_get trust_kept_def split: if_splits)
    qed
  qed
qed

lemma arrivals_wf: "arrivals ring ring' \<Longrightarrow> wf_ring ring \<Longrightarrow> wf_ring ring'"
  by (auto simp: arrivals_def intro: wf_key_run)

text \<open>An address that ends without a key and is not reported as unresolved was answered about.\<close>

definition answered :: "env \<Rightarrow> bool \<Rightarrow> string \<Rightarrow> bool" where
  "answered env connected email \<longleftrightarrow>
     env_lookup env email = Some None \<and> (connected \<longrightarrow> env_list env ''inbox'' email \<noteq> None \<and> env_list env ''archive'' email \<noteq> None)
     \<or> (\<exists>armored info. env_lookup env email = Some (Some armored) \<and> env_import env armored = Some info
          \<and> claims env info armored email = Some False)"

lemma harvest_boxes_failed:
  "snd (harvest_boxes env email boxes ring failed) = False \<Longrightarrow> findKey (fst (harvest_boxes env email boxes ring failed)) email = None \<Longrightarrow>
   failed = False \<and> (\<forall>box \<in> set boxes. env_list env box email \<noteq> None)"
proof (induction env email boxes ring failed rule: harvest_boxes.induct)
  case (2 env email box boxes ring failed)
  show ?case
  proof (cases "env_list env box email")
    case None
    then show ?thesis using 2 by simp
  next
    case (Some ms)
    obtain ring' found where hm: "harvest_messages env email ms ring = (ring', found)" by fastforce
    have "found \<Longrightarrow> findKey ring' email \<noteq> None"
      using hm by (induction env email ms ring rule: harvest_messages.induct) (auto simp: Let_def split: if_splits)
    then show ?thesis using 2(2) [OF Some hm [symmetric]] 2(3,4) Some hm by (cases found) auto
  qed
qed simp

lemma discover_one_answered:
  assumes "discover_one env connected (ring, unres) email = (ring', unres')"
    and "findKey ring' email = None" and "canonical email = email"
  shows "email \<in> set unres' \<or> answered env connected email"
proof -
  obtain ring1 failed where h: "harvestFromSender env connected ring email = (ring1, failed)" by fastforce
  have search: "failed = False \<Longrightarrow> findKey ring1 email = None \<Longrightarrow> connected \<Longrightarrow>
      env_list env ''inbox'' email \<noteq> None \<and> env_list env ''archive'' email \<noteq> None"
    using harvest_boxes_failed [of env email "[''inbox'', ''archive'']" ring False] h
    by (simp add: harvestFromSender_def del: harvest_boxes.simps)
  show ?thesis
    using assms h search
    by (auto simp: discover_one_def answered_def findKey_def upsertKey_get split: option.splits bool.splits if_splits)
qed

lemma discover_one_unres: "set (snd acc) \<subseteq> set (snd (discover_one env connected acc email))"
  by (auto simp: discover_one_def split: prod.splits option.splits bool.splits)

lemma discover_fold_unres: "set (snd acc) \<subseteq> set (snd (foldl (discover_one env connected) acc emails))"
proof (induction emails arbitrary: acc)
  case (Cons e es)
  show ?case using Cons [of "discover_one env connected acc e"] discover_one_unres [of acc env connected e] by auto
qed simp

lemma discover_fold_answered:
  assumes "foldl (discover_one env connected) acc emails = (ring', unres')"
    and "e \<in> set emails" and "findKey ring' e = None" and "canonical e = e"
  shows "e \<in> set unres' \<or> answered env connected e"
  using assms(1,2)
proof (induction emails arbitrary: acc)
  case (Cons a es)
  obtain ring1 unres1 where one: "discover_one env connected acc a = (ring1, unres1)" by fastforce
  have rest: "foldl (discover_one env connected) (ring1, unres1) es = (ring', unres')" using Cons.prems(1) one by simp
  show ?case
  proof (cases "e \<in> set es")
    case True
    then show ?thesis using Cons.IH [OF rest] by simp
  next
    case False
    then have a: "a = e" using Cons.prems(2) by simp
    have "arrivals ring1 ring'" using discover_fold_arrivals [of "(ring1, unres1)" env connected es] rest by simp
    then have "findKey ring1 e = None"
      using arrivals_keep [of ring1 ring' "canonical e"] assms(3)
      by (cases "obj_get ring1 (canonical e)") (auto simp: findKey_def)
    moreover have "set unres1 \<subseteq> set unres'"
      using discover_fold_unres [of "(ring1, unres1)" env connected es] rest by simp
    ultimately show ?thesis
      using discover_one_answered [of env connected "fst acc" "snd acc" e ring1 unres1] one a assms(4) by auto
  qed
qed simp

subsection \<open>Properties\<close>

text \<open>Looking for keys never grants trust and never drops a contact: whatever the mailbox, the directory and
  the core answer, every contact is still there afterwards, under the same key with the same trust or marked
  Changed; no new contact is Verified; the ring stays well formed; and nothing of the outbox, the drafts, the
  wire or the invites moves, even when the lookup throws.\<close>

theorem discovery_grants_no_trust:
  assumes "wf_ring (app_keyring s)" and "discover env emails s = (r, s')"
  shows "wf_ring (app_keyring s') \<and> same_mail s s'
    \<and> (\<forall>e c. obj_get (app_keyring s) e = Some c \<longrightarrow>
         (\<exists>c'. obj_get (app_keyring s') e = Some c'
            \<and> (pk_fingerprint c' = pk_fingerprint c \<and> ck_trust c' = ck_trust c \<or> ck_trust c' = Changed)))
    \<and> (\<forall>e c'. obj_get (app_keyring s) e = None \<and> obj_get (app_keyring s') e = Some c' \<longrightarrow> ck_trust c' \<noteq> Verified)"
  using discover_facts [OF assms(2)] assms(1) arrivals_keep [of "app_keyring s" "app_keyring s'"]
    arrivals_new [of "app_keyring s" "app_keyring s'"] arrivals_wf
  by (auto simp: trust_kept_def)

text \<open>A state and a world for the witnesses: the directory knows one key, for Bob.\<close>

definition state0 :: app_state where
  "state0 = \<lparr>app_account = Some ''me@x'', app_connected = True, app_session = Some ''me@x'',
     app_identity = Some \<lparr>idn_email = ''me@x'', idn_fingerprint = ''MF'', idn_publicKeyArmored = ''MK'', idn_createdAt = ''t0''\<rparr>,
     app_keyring = [], app_invites = [], app_scheduled = [], app_drafts = [], app_snoozed = [], app_messages = [], app_discovering = [],
     app_undiscoverable = [], app_error_text = None, disk_keyring = [], disk_invites = [], disk_scheduled = [],
     disk_drafts = [], disk_snoozed = [], app_archive = [], app_tries = 0, app_wire = [],
     app_others = [], app_arriving = None, app_left = []\<rparr>"

definition bob_key :: public_key_info where
  "bob_key = \<lparr>pk_email = ''bob@y'', pk_fingerprint = ''BF'', pk_armored = ''BK'', pk_userId = None\<rparr>"

definition world0 :: env where
  "world0 = \<lparr>env_now = ''t1'', env_now_ms = 0, env_parse = (\<lambda>_. None), env_date = ''d'', env_message = (\<lambda>_. ''failed''), env_random = ''r'',
     env_outbox_id = ''sch-1'', env_real_core = True, env_list = (\<lambda>_ _. Some []),
     env_lookup = (\<lambda>e. if e = ''bob@y'' then Some (Some ''BK'') else if e = ''down@y'' then None else Some None),
     env_import = (\<lambda>a. if a = ''BK'' then Some bob_key else None), env_addresses = (\<lambda>_. Some []),
     env_build = (\<lambda>r. Inr ARMOR_BEGIN), env_send_ok = (\<lambda>_ _. True), env_reauth = (\<lambda>_. False), env_arrives = False,
     env_archive_ok = True, env_store_ok = (\<lambda>_. True)\<rparr>"

theorem discovery_grants_no_trust_witness:
  "wf_ring (app_keyring (snd (discover world0 [''Bob@y'', ''eve@z''] state0)))
   \<and> map_option ck_trust (findKey (app_keyring (snd (discover world0 [''Bob@y'', ''eve@z''] state0))) ''bob@y'') = Some Seen"
proof
  have wf: "wf_ring (app_keyring state0)" by (simp add: state0_def wf_ring_def)
  obtain r s' where d: "discover world0 [''Bob@y'', ''eve@z''] state0 = (r, s')" by fastforce
  then show "wf_ring (app_keyring (snd (discover world0 [''Bob@y'', ''eve@z''] state0)))"
    using discovery_grants_no_trust [OF wf d] by simp
  show "map_option ck_trust (findKey (app_keyring (snd (discover world0 [''Bob@y'', ''eve@z''] state0))) ''bob@y'') = Some Seen"
    by code_simp
qed

text \<open>``No key'' is an answer, never a failure: an address that was looked up, ends without a key and is not
  reported among the unresolved ones was answered about: the directory said it has nothing and their mail could
  be searched, or the key it returned does not claim the address.\<close>

theorem no_key_is_an_answer:
  assumes "discover env emails s = (Inr ring, s')" and "e \<in> set (unknown_addresses s emails)"
    and "findKey ring e = None" and "e \<notin> set (app_undiscoverable s')"
  shows "answered env (app_connected s) e"
proof -
  let ?unknown = "unknown_addresses s emails"
  obtain ring1 unres where f: "foldl (discover_one env (app_connected s)) (app_keyring s, []) ?unknown = (ring1, unres)"
    by fastforce
  obtain r1 s1 where c: "commitKeyring env ring1 (s\<lparr>app_discovering := ?unknown\<rparr>) = (r1, s1)" by fastforce
  have "?unknown \<noteq> []" using assms(2) by auto
  then have "r1 = Inr ring" and s': "s' = s1\<lparr>app_discovering := [], app_undiscoverable := unres\<rparr>"
    using assms(1) f c by (auto simp: discover_def Let_def)
  then have "ring = ring1" using commitKeyring_facts(2) [OF c] by simp
  moreover have "canonical e = e" using assms(2) by (auto simp: unknown_addresses_def)
  ultimately show ?thesis
    using discover_fold_answered [OF f assms(2)] assms(3,4) s' by auto
qed

theorem no_key_is_an_answer_witness:
  "answered world0 True ''eve@z'' \<and> ''down@y'' \<in> set (app_undiscoverable (snd (discover world0 [''Eve@z'', ''down@y''] state0)))"
proof
  have "case discover world0 [''Eve@z'', ''down@y''] state0 of
      (Inr ring, s') \<Rightarrow> findKey ring ''eve@z'' = None \<and> ''eve@z'' \<notin> set (app_undiscoverable s') | _ \<Rightarrow> False"
    by code_simp
  then obtain ring s' where d: "discover world0 [''Eve@z'', ''down@y''] state0 = (Inr ring, s')"
    "findKey ring ''eve@z'' = None" "''eve@z'' \<notin> set (app_undiscoverable s')"
    by (auto split: prod.splits sum.splits)
  have u: "''eve@z'' \<in> set (unknown_addresses state0 [''Eve@z'', ''down@y''])" by code_simp
  have "app_connected state0" by (simp add: state0_def)
  then show "answered world0 True ''eve@z''" using no_key_is_an_answer [OF d(1) u d(2,3)] by simp
  show "''down@y'' \<in> set (app_undiscoverable (snd (discover world0 [''Eve@z'', ''down@y''] state0)))" by code_simp
qed

subsubsection \<open>The header the app writes\<close>

text \<open>The value of the header line \<open>autocryptHeaderLine\<close> writes, without its name.\<close>

definition written_value :: "string \<Rightarrow> string \<Rightarrow> string" where
  "written_value addr key = drop 11 (autocryptHeaderLine addr (autocryptKeydata key))"

lemma keydata_chars: "c \<in> set (autocryptKeydata key) \<Longrightarrow> c \<in> set b64_alphabet \<or> c = CHR ''=''"
  using bytesToBase64_chars by (auto simp: autocryptKeydata_def encodeUtf8Base64_def)

lemma keydata_plain:
  "c \<in> set (autocryptKeydata key) \<Longrightarrow> c \<noteq> CHR '';'' \<and> c \<noteq> CHR ''-'' \<and> \<not> js_space c"
proof -
  have "list_all (\<lambda>c. c \<noteq> CHR '';'' \<and> c \<noteq> CHR ''-'' \<and> \<not> js_space c) (CHR ''='' # b64_alphabet)" by code_simp
  then show "c \<in> set (autocryptKeydata key) \<Longrightarrow> ?thesis"
    using keydata_chars [of c key] unfolding list_all_iff by (metis list.set_intros)
qed

lemma keydata_nonempty: "key \<noteq> [] \<Longrightarrow> autocryptKeydata key \<noteq> []"
proof -
  assume "key \<noteq> []"
  then obtain u us where "units key = u # us" by (cases key) (auto simp: units_def)
  then have "utf8ToBytes (units key) \<noteq> []"
    by (cases us) (auto simp: utf8_point_def)
  then show ?thesis
    using bytesToBase64_length [of "utf8ToBytes (units key)"]
    by (cases "utf8ToBytes (units key)") (auto simp: autocryptKeydata_def encodeUtf8Base64_def)
qed

lemma written_value_eq:
  "written_value addr key = ''addr='' @ addr @ ''; prefer-encrypt=mutual; keydata='' @ autocryptKeydata key"
  by (simp add: written_value_def autocryptHeaderLine_def)

lemma units_wf: "wf_utf16 (units s)"
proof -
  have "\<not> high_surrogate (of_nat (code_unit c))" for c
    using code_unit_less_256 [of c]
    by (auto simp: high_surrogate_def word_le_nat_alt unat_of_nat take_bit_nat_eq_self_iff)
  moreover have "\<forall>c \<in> set t. \<not> high_surrogate c \<Longrightarrow> wf_utf16 t" for t
    by (induction t rule: wf_utf16.induct) auto
  ultimately show ?thesis by (simp add: units_def)
qed

lemma chars_units: "chars (units s) = s"
proof -
  have "char_of (unat (of_nat (code_unit c) :: utf16)) = c" for c
    using code_unit_less_256 [of c] by (simp add: unat_of_nat take_bit_nat_eq_self_iff) (simp add: code_unit_def)
  then show ?thesis by (simp add: chars_def units_def o_def)
qed

lemma prefix_before: "prefix p (x @ c # s) \<Longrightarrow> c \<notin> set p \<Longrightarrow> prefix p x"
  by (auto simp: prefix_append prefix_Cons)

lemma header_keydata_skip:
  "CHR ''='' \<notin> set a \<Longrightarrow> CHR '';'' \<notin> set a \<Longrightarrow> header_keydata (a @ CHR '';'' # s) = header_keydata s"
proof (induction a)
  case (Cons c a)
  have "\<not> prefix ''keydata='' (c # a)"
  proof
    assume "prefix ''keydata='' (c # a)"
    then have "set ''keydata='' \<subseteq> set (c # a)" by (rule set_mono_prefix)
    then show False using Cons.prems(1) by (auto simp: subset_iff)
  qed
  then have "\<not> prefix ''keydata='' (c # a @ CHR '';'' # s)"
    using prefix_before [of "''keydata=''" "c # a" "CHR '';''" s] by auto
  then show ?case using Cons by auto
qed simp

lemma written_attributes:
  assumes "addr \<noteq> []" and "CHR '';'' \<notin> set addr" and "CHR ''='' \<notin> set addr" and "key \<noteq> []"
  shows "header_addr (written_value addr key) = Some addr"
    and "header_keydata (written_value addr key) = Some (autocryptKeydata key)"
proof -
  have "takeWhile (\<lambda>c. c \<noteq> CHR '';'') (addr @ ''; prefer-encrypt=mutual; keydata='' @ autocryptKeydata key) = addr"
    using assms(2) by (subst takeWhile_append2) auto
  then show "header_addr (written_value addr key) = Some addr"
    using assms(1) by (simp add: header_addr_def addr_here_def written_value_eq or_else_def Let_def js_space_def code_unit_def)
  obtain d ds where k: "autocryptKeydata key = d # ds" using keydata_nonempty [OF assms(4)] by (cases "autocryptKeydata key") auto
  have ds: "takeWhile (\<lambda>x. x \<noteq> CHR '';'') ds = ds"
    using keydata_plain [of _ key] k by (auto simp: takeWhile_eq_all_conv)
  have "header_keydata (written_value addr key) = header_keydata (addr @ CHR '';'' # '' prefer-encrypt=mutual; keydata='' @ d # ds)"
    by (simp add: written_value_eq k)
  also have "\<dots> = header_keydata ('' prefer-encrypt=mutual; keydata='' @ d # ds)"
    by (rule header_keydata_skip [OF assms(3,2)])
  also have "\<dots> = Some (d # ds)" using ds by simp
  finally show "header_keydata (written_value addr key) = Some (autocryptKeydata key)" using k by simp
qed

lemma written_trim:
  assumes "key \<noteq> []" shows "js_trim (written_value addr key) = written_value addr key"
proof -
  have "autocryptKeydata key \<noteq> []" by (rule keydata_nonempty [OF assms])
  then obtain k l where k: "autocryptKeydata key = k @ [l]" by (meson rev_exhaust)
  then have "\<not> js_space l" using keydata_plain [of l key] by simp
  then show ?thesis by (simp add: js_trim_def written_value_eq k) (simp add: js_space_def code_unit_def)
qed

lemma written_read:
  assumes "addr \<noteq> []" and "CHR '';'' \<notin> set addr" and "CHR ''='' \<notin> set addr" and "canonical addr \<noteq> []"
    and "js_includes key KEY_BEGIN" and "\<not> js_includes (written_value addr key) KEY_BEGIN" and "canonical from' \<noteq> []"
  shows "autocryptKeyFrom (written_value addr key) (Some from') =
     (if canonical addr = canonical from' then Some key else None)"
proof -
  have key: "key \<noteq> []" using assms(5) by (auto simp: js_includes_def KEY_BEGIN_def)
  have ne: "written_value addr key \<noteq> []" by (simp add: written_value_eq)
  have strip: "strip_spaces (autocryptKeydata key) = autocryptKeydata key"
    using keydata_plain [of _ key] by (simp add: strip_spaces_def filter_id_conv)
  have "decodeUtf8Base64 (autocryptKeydata key) = units key"
    by (simp add: autocryptKeydata_def decodeUtf8Base64_def encodeUtf8Base64_def base64_inverse utf8_inverse units_wf)
  moreover have "js_includes (units key) (units KEY_BEGIN)"
    using assms(5) by (auto simp: js_includes_sublist units_def intro: map_mono_sublist)
  moreover have "from' \<noteq> []" using assms(7) by (auto simp: canonical_def)
  ultimately show ?thesis
    using assms key ne
    by (simp add: autocryptKeyFrom_def Let_def written_trim written_attributes strip truthy_def keydata_nonempty chars_units)
qed

text \<open>The Autocrypt header the app writes is read back as the key it carries, when the sender of the message
  is the address it names, and as nothing when the sender is anyone else: one cannot pass on a header in
  someone else's name.\<close>

theorem autocrypt_header_round_trip:
  assumes "addr \<noteq> []" and "CHR '';'' \<notin> set addr" and "CHR ''='' \<notin> set addr" and "canonical addr \<noteq> []"
    and "js_includes key KEY_BEGIN" and "\<not> js_includes (written_value addr key) KEY_BEGIN" and "canonical from' \<noteq> []"
  shows "autocryptKeyFrom (written_value addr key) (Some from') =
     (if canonical addr = canonical from' then Some key else None)"
  using assms by (rule written_read)

lemma short_key_written:
  assumes "key = KEY_BEGIN @ ''forged''"
  shows "\<not> js_includes (written_value ''mallory@z'' key) KEY_BEGIN"
proof -
  have none: "js_index_of k KEY_BEGIN = None" if "CHR ''-'' \<notin> set k" for k
    using that by (induction k) (auto simp: KEY_BEGIN_def)
  have "CHR ''-'' \<notin> set (autocryptKeydata key)" using keydata_plain [of "CHR ''-''" key] by auto
  from none [OF this] show ?thesis by (simp add: js_includes_def written_value_eq KEY_BEGIN_def)
qed

theorem autocrypt_header_round_trip_witness:
  "autocryptKeyFrom (written_value ''mallory@z'' (KEY_BEGIN @ ''forged'')) (Some ''Mallory@z'') = Some (KEY_BEGIN @ ''forged'')
   \<and> autocryptKeyFrom (written_value ''mallory@z'' (KEY_BEGIN @ ''forged'')) (Some ''carol@z'') = None"
proof -
  have c: "canonical ''mallory@z'' = ''mallory@z''" "canonical ''Mallory@z'' = ''mallory@z''" "canonical ''carol@z'' = ''carol@z''"
    by code_simp+
  have k: "js_includes (KEY_BEGIN @ ''forged'') KEY_BEGIN"
    by (simp add: js_includes_def js_index_of_append_left)
  note rt = autocrypt_header_round_trip [of "''mallory@z''" "KEY_BEGIN @ ''forged''", OF _ _ _ _ k short_key_written [OF refl]]
  show ?thesis using rt [of "''Mallory@z''"] rt [of "''carol@z''"] by (simp add: c)
qed

text \<open>What the header check does not do: it compares the \<open>addr\<close> attribute with the sender, but the key is filed
  under the address in its own User ID. Mail from Mallory, whose header names Mallory, can therefore put a
  key of Mallory's into the ring under the address of anyone who has none yet, and mark the key of anyone
  who has one as changed, which stops mail to them.\<close>

theorem harvest_files_under_key_address:
  assumes "js_includes key KEY_BEGIN" and "\<not> js_includes (written_value ''mallory@z'' key) KEY_BEGIN"
    and "env_import env key = Some \<lparr>pk_email = ''bob@y'', pk_fingerprint = ''MF'', pk_armored = key, pk_userId = None\<rparr>"
  shows "map_option (\<lambda>c. (pk_fingerprint c, ck_trust c))
      (obj_get (harvestAutocrypt env [] ''mallory@z'' (Some (written_value ''mallory@z'' key)) None) ''bob@y'') = Some (''MF'', Seen)
   \<and> map_option (\<lambda>c. (pk_fingerprint c, ck_trust c))
      (obj_get (harvestAutocrypt env (upsertKey [] bob_key SourceManual None NoEvidence ''t0'') ''mallory@z''
         (Some (written_value ''mallory@z'' key)) None) ''bob@y'') = Some (''MF'', Changed)"
proof -
  have c: "canonical ''mallory@z'' = ''mallory@z''" by code_simp
  have "autocryptKeyFrom (written_value ''mallory@z'' key) (Some ''mallory@z'') = Some key"
    using written_read [of "''mallory@z''" key "''mallory@z''"] assms(1,2) by (simp add: c)
  moreover have "key \<noteq> []" using assms(1) by (auto simp: js_includes_def KEY_BEGIN_def)
  moreover have "written_value ''mallory@z'' key \<noteq> []" by (simp add: written_value_eq)
  ultimately show ?thesis
    using assms(3)
    by (simp add: harvestAutocrypt_def upsertKey_get upserted_def refreshed_entry_def truthy_def
        changed_entry_def spread_key_def bob_key_def find_other_def others_def obj_simps)
qed

definition mallory_world :: env where
  "mallory_world = world0\<lparr>env_import := (\<lambda>a.
     Some \<lparr>pk_email = ''bob@y'', pk_fingerprint = ''MF'', pk_armored = a, pk_userId = None\<rparr>)\<rparr>"

theorem harvest_files_under_key_address_witness:
  "map_option (\<lambda>c. (pk_fingerprint c, ck_trust c))
      (obj_get (harvestAutocrypt mallory_world [] ''mallory@z''
        (Some (written_value ''mallory@z'' (KEY_BEGIN @ ''forged''))) None) ''bob@y'') = Some (''MF'', Seen)"
proof -
  have k: "js_includes (KEY_BEGIN @ ''forged'') KEY_BEGIN"
    by (simp add: js_includes_def js_index_of_append_left)
  have i: "env_import mallory_world (KEY_BEGIN @ ''forged'') =
      Some \<lparr>pk_email = ''bob@y'', pk_fingerprint = ''MF'', pk_armored = KEY_BEGIN @ ''forged'', pk_userId = None\<rparr>"
    by (simp add: mallory_world_def)
  show ?thesis using harvest_files_under_key_address [OF k short_key_written [OF refl] i] by blast
qed

end
