(* ===== verification/Qkd.thy ===== *)
theory Qkd
  imports Mime Transfer_Encoding
begin

text \<open>
  The security levels and the email that carries a Level 2 message (\<^verbatim>\<open>core/qkd.ts\<close>), and the body of a
  quantum-link leg (\<^verbatim>\<open>core/bb84.ts\<close>). The armored block comes from the crypto core.
\<close>

definition DEFAULT_LEVEL :: security_level where
  "DEFAULT_LEVEL = 1"

definition LEVEL_GROUPS :: "(string \<times> security_level list) list" where
  "LEVEL_GROUPS = [(''Everyday'', [1]), (''Quantum keys'', [2])]"

definition groupOf :: "security_level \<Rightarrow> string \<times> security_level list" where
  "groupOf level = (case find (\<lambda>g. level \<in> set (snd g)) LEVEL_GROUPS of Some g \<Rightarrow> g | None \<Rightarrow> hd LEVEL_GROUPS)"

text \<open>The names, with the em dash (outside Latin-1) written as two hyphens.\<close>

definition levelName :: "security_level \<Rightarrow> string" where
  "levelName level =
     (if level = 3 then ''Level 3 -- one-time pad (removed)''
      else if level = 1 then ''Level 1 -- No quantum security'' else ''Level 2 -- Quantum'')"

definition QKD_BEGIN :: string where
  "QKD_BEGIN = ''-----BEGIN CRYPTMAIL QKD MESSAGE-----''"

definition QKD_END :: string where
  "QKD_END = ''-----END CRYPTMAIL QKD MESSAGE-----''"

definition slice_between :: "'a list \<Rightarrow> 'a list \<Rightarrow> 'a list \<Rightarrow> 'a list option" where
  "slice_between b e s =
     (case (js_index_of s b, js_index_of s e) of
        (Some start, Some end') \<Rightarrow> if end' < start then None else Some (js_slice start (end' + length e) s)
      | _ \<Rightarrow> None)"

definition sliceArmor :: "utf16 list \<Rightarrow> utf16 list option" where
  "sliceArmor t = slice_between (units QKD_BEGIN) (units QKD_END) t"

text \<open>Line ends of \<open>/\r?\n/\<close>: how many characters one takes at the front of a text.\<close>

fun newline_at :: "string \<Rightarrow> nat" where
  "newline_at (c # d # cs) = (if c = NL then 1 else if c = CR \<and> d = NL then 2 else 0)"
| "newline_at [c] = (if c = NL then 1 else 0)"
| "newline_at [] = 0"

definition blank_at :: "string \<Rightarrow> nat" where
  "blank_at s = (let n = newline_at s; m = newline_at (drop n s) in if n = 0 \<or> m = 0 then 0 else n + m)"

text \<open>Header block and body around the first blank line: \<open>search(/\r?\n\r?\n/)\<close>.\<close>

fun cut_at_blank :: "string \<Rightarrow> string \<Rightarrow> (string \<times> string) option" where
  "cut_at_blank seen [] = None"
| "cut_at_blank seen (c # cs) =
     (if 0 < blank_at (c # cs) then Some (rev seen, drop (blank_at (c # cs)) (c # cs))
      else cut_at_blank (c # seen) cs)"

text \<open>A header's value, with its continuation lines unfolded: the first line that starts with the name
  and a colon.\<close>

definition line_end :: "char \<Rightarrow> bool" where
  "line_end c \<longleftrightarrow> c = NL \<or> c = CR"

function header_value :: "string \<Rightarrow> string" where
  "header_value s =
     (let l = takeWhile (\<lambda>c. \<not> line_end c) s; rest = dropWhile (\<lambda>c. \<not> line_end c) s; n = newline_at rest
      in if 0 < n \<and> (case drop n rest of [] \<Rightarrow> False | c # _ \<Rightarrow> folding_space c)
         then l @ CHR '' '' # header_value (dropWhile folding_space (drop n rest))
         else l)"
  by pat_completeness auto
termination
proof (relation "measure length")
  fix s l rest n
  assume rest: "rest = dropWhile (\<lambda>c. \<not> line_end c) s"
    and n: "0 < n \<and> (case drop n rest of [] \<Rightarrow> False | c # _ \<Rightarrow> folding_space c)"
  have "length (dropWhile folding_space (drop n rest)) \<le> length (drop n rest)" by (rule length_dropWhile_le)
  also have "\<dots> < length rest" using n by (cases rest) auto
  also have "\<dots> \<le> length s" by (simp add: rest length_dropWhile_le)
  finally show "(dropWhile folding_space (drop n rest), s) \<in> measure length" by simp
qed simp

declare header_value.simps [simp del]

fun find_header :: "string \<Rightarrow> bool \<Rightarrow> string \<Rightarrow> string option" where
  "find_header name at_start [] = None"
| "find_header name at_start (c # cs) =
     (if at_start \<and> starts_with_ci (c # cs) (name @ '':'')
      then Some (js_trim (header_value (dropWhile folding_space (drop (length name + 1) (c # cs)))))
      else find_header name (line_end c) cs)"

text \<open>\<open>/charset="?([^";]+)"?/i\<close>\<close>

fun charset_in :: "string \<Rightarrow> string option" where
  "charset_in [] = None"
| "charset_in (c # cs) =
     (let s = c # cs; v = drop 8 s; w = (case v of [] \<Rightarrow> [] | q # r \<Rightarrow> if q = QUOTE then r else v);
          u = takeWhile (\<lambda>x. x \<noteq> QUOTE \<and> x \<noteq> CHR '';'') w
      in if starts_with_ci s ''charset='' \<and> u \<noteq> [] then Some u else charset_in cs)"

record top_part =
  tp_encoding :: "string option"
  tp_charset :: "string option"
  tp_body :: string

definition topLevelPart :: "string \<Rightarrow> top_part option" where
  "topLevelPart raw = map_option (\<lambda>(headers, body).
     \<lparr>tp_encoding = find_header ''content-transfer-encoding'' True headers,
      tp_charset = Option.bind (find_header ''content-type'' True headers) charset_in,
      tp_body = body\<rparr>) (cut_at_blank [] raw)"

definition transferDecodedBody :: "string \<Rightarrow> utf16 list option" where
  "transferDecodedBody raw =
     (case topLevelPart raw of None \<Rightarrow> None
      | Some part \<Rightarrow>
          (let scheme = js_trim (js_lower (case tp_encoding part of None \<Rightarrow> [] | Some e \<Rightarrow> e))
           in if scheme \<noteq> ''quoted-printable'' \<and> scheme \<noteq> ''base64'' then None
              else Some (decodeTransfer (tp_encoding part) (tp_body part) (tp_charset part))))"

definition extractQkdArmor :: "string \<Rightarrow> utf16 list option" where
  "extractQkdArmor raw =
     (case Option.bind (transferDecodedBody raw) sliceArmor of
        Some block \<Rightarrow> Some block
      | None \<Rightarrow> sliceArmor (units raw))"

definition isQkdMessage :: "string \<Rightarrow> bool" where
  "isQkdMessage raw \<longleftrightarrow> extractQkdArmor raw \<noteq> None"

record qkd_args =
  qa_from :: string
  qa_to :: "string list"
  qa_armored :: string
  qa_autocryptKeydata :: "string option"
  qa_inReplyTo :: "string option"
  qa_references :: "string list option"

definition buildQkdEnvelope :: "qkd_args \<Rightarrow> string \<Rightarrow> string \<Rightarrow> string" where
  "buildQkdEnvelope a date random =
     (let headers =
        [''From: '' @ qa_from a, ''To: '' @ js_join '', '' (qa_to a), ''Date: '' @ date,
         ''Subject: '' @ PLACEHOLDER_SUBJECT, ''Message-ID: <'' @ random @ ''@cryptmail>'']
        @ threading_headers (qa_inReplyTo a) (qa_references a)
        @ (if truthy (qa_autocryptKeydata a)
           then [autocryptHeaderLine (qa_from a) (the (qa_autocryptKeydata a))] else [])
        @ [''X-CryptMail-Security: '' @ levelName 2, ''MIME-Version: 1.0'',
           ''Content-Type: text/plain; charset=utf-8'', ''Content-Transfer-Encoding: 7bit'']
      in js_join [NL]
           [js_join [NL] headers, [],
            ''This message is encrypted with quantum keys ('' @ levelName 2 @ '').'',
            ''Open it in CryptMail on a device whose Key Manager holds the matching keys.'', [],
            js_trim (qa_armored a), []])"

end
