(* ===== verification/Send.thy ===== *)
theory Send
  imports Contacts_Service Qkd
begin

text \<open>
  The send path (\<^verbatim>\<open>state/send.ts\<close>): \<open>deliver\<close> encrypts and sends, or holds the message and invites, or
  refuses; \<open>sendPlain\<close> is the separate plaintext action. Holding is the scheduler's \<open>hold\<close>
  (\<^verbatim>\<open>state/scheduler.ts\<close>). The refresh of the inbox after a send is left out.
\<close>

record send_input =
  si_id :: "string option"
  si_to :: "string list"
  si_subject :: string
  si_body :: string
  si_html :: "string option"
  si_inReplyTo :: "string option"
  si_references :: "string list option"
  si_attachments :: "attachment list option"
  si_level :: "security_level option"

datatype send_outcome = Sent | Queued "string list"

definition hold :: "env \<Rightarrow> held \<Rightarrow> app_state \<Rightarrow> unit outcome" where
  "hold env item s =
     (let scheduled = upsertScheduled (app_scheduled s) item
      in await (saveOutbox env scheduled s) (\<lambda>_ s. (Inr (), s\<lparr>app_scheduled := scheduled\<rparr>)))"

subsection \<open>Invites\<close>

text \<open>An em dash, as the UTF-8 bytes the mail carries it in.\<close>

definition EM_DASH :: string where
  "EM_DASH = [CHR 0xE2, CHR 0x80, CHR 0x94]"

definition invite_body :: "string \<Rightarrow> string" where
  "invite_body session =
     session @ '' sent you a message with CryptMail, which encrypts mail so that only the two of you can read it.'' @ [NL, NL] @
     ''It has not been delivered: encryption cannot be added after the fact, so the message is waiting until there is a key to encrypt it to. Install CryptMail and sign in with this address and it arrives on its own.'' @ [NL, NL] @
     ''This email contains none of that message '' @ EM_DASH @ '' not its subject, not a word of its contents. It carries the sender's public key, so your first reply can be encrypted too.'' @ [NL, NL] @
     ''https://github.com/neo999in/cryptmail''"

definition invite_mail :: "env \<Rightarrow> string \<Rightarrow> identity \<Rightarrow> string \<Rightarrow> string" where
  "invite_mail env session i email =
     buildPlaintext \<lparr>pa_from = session, pa_to = [email], pa_subject = ''An encrypted message is waiting for you'',
        pa_body = invite_body session, pa_html = None, pa_autocryptKey = Some (idn_publicKeyArmored i),
        pa_inReplyTo = None, pa_references = None, pa_attachments = None\<rparr> (env_date env) (env_random env) (env_random env)"

text \<open>One address: the log so far, whether it changed, and the state.\<close>

definition invite_one :: "env \<Rightarrow> string \<Rightarrow> identity \<Rightarrow> (string obj \<times> bool) \<times> app_state \<Rightarrow> string \<Rightarrow> (string obj \<times> bool) \<times> app_state" where
  "invite_one env session i acc email =
     (case acc of ((log, changed), s) \<Rightarrow>
        if \<not> shouldInvite (env_parse env) log email (env_now_ms env) then acc
        else (case transmit env (invite_mail env session i email) s of
                (True, s') \<Rightarrow> ((recordInvite log email (env_now env), True), s')
              | (False, s') \<Rightarrow> ((log, changed), s')))"

definition sendInvites :: "env \<Rightarrow> string list \<Rightarrow> app_state \<Rightarrow> unit outcome" where
  "sendInvites env emails s =
     (case (app_connected s, app_session s, app_identity s) of
        (True, Some session, Some i) \<Rightarrow>
          (case foldl (invite_one env session i) ((app_invites s, False), s) emails of
             ((log, changed), s') \<Rightarrow>
               if changed then await (saveInvites env log s') (\<lambda>_ s. (Inr (), s\<lparr>app_invites := log\<rparr>))
               else (Inr (), s'))
      | _ \<Rightarrow> (Inr (), s))"

subsection \<open>Delivering\<close>

definition canSendEncrypted :: "bool \<Rightarrow> bool \<times> bool" where
  "canSendEncrypted real_core = (if real_core then (True, False) else (True, True))"

definition request ::
  "string \<Rightarrow> identity \<Rightarrow> send_input \<Rightarrow> string list \<Rightarrow> security_level \<Rightarrow> build_request" where
  "request session i inp keys level =
     \<lparr>br_from = session, br_to = si_to inp, br_subject = si_subject inp, br_body = si_body inp, br_html = si_html inp,
      br_recipientKeys = keys, br_autocryptKey = Some (idn_publicKeyArmored i), br_inReplyTo = si_inReplyTo inp,
      br_references = si_references inp, br_attachments = si_attachments inp, br_level = Some level\<rparr>"

definition seal_keys :: "recipient_state list \<Rightarrow> identity \<Rightarrow> string list" where
  "seal_keys rs i = js_unique (map (\<lambda>r. pk_armored (the (rs_key r))) rs @ [idn_publicKeyArmored i])"

definition archived_copy :: "send_input \<Rightarrow> bool \<Rightarrow> decrypted_message" where
  "archived_copy inp wrap =
     \<lparr>dm_subject = si_subject inp, dm_body = si_body inp, dm_html = si_html inp, dm_signature = SigNone,
      dm_signerFingerprint = None, dm_autocryptKey = None,
      dm_attachments = (case si_attachments inp of None \<Rightarrow> [] | Some as \<Rightarrow> as),
      dm_forwardSecret = Some True, dm_securityLevel = Some 2, dm_sealedToKey = (if wrap then Some True else None)\<rparr>"

definition archiveMail :: "env \<Rightarrow> string \<Rightarrow> decrypted_message \<Rightarrow> app_state \<Rightarrow> unit outcome" where
  "archiveMail env rfc822 d s =
     (if app_account s = None then (Inl NoAccount, s)
      else if env_archive_ok env then (Inr (), s\<lparr>app_archive := app_archive s @ [(rfc822, d)]\<rparr>)
      else (Inl ArchiveFailed, s))"

definition transmit_or_throw :: "env \<Rightarrow> string \<Rightarrow> app_state \<Rightarrow> send_outcome outcome" where
  "transmit_or_throw env m s =
     (case transmit env m s of (True, s') \<Rightarrow> (Inr Sent, s') | (False, s') \<Rightarrow> (Inl (transport_error env s), s'))"

definition deliver_quantum :: "env \<Rightarrow> string \<Rightarrow> identity \<Rightarrow> send_input \<Rightarrow> app_state \<Rightarrow> send_outcome outcome" where
  "deliver_quantum env session i inp s =
     (if si_to inp = [] then (Inl AddRecipient, s)
      else await (discoverRecipients env (si_to inp) s) (\<lambda>rs s.
        let wrap = list_all (\<lambda>r. usable (rs_status r) \<and> rs_key r \<noteq> None) rs
        in case env_build env (request session i inp (if wrap then seal_keys rs i else []) 2) of
             Inl c \<Rightarrow> (Inl (BuildFailed c), s)
           | Inr rfc822 \<Rightarrow>
               if (if wrap then \<not> isPgpMime rfc822 else \<not> isQkdMessage rfc822) then (Inl NotSealed, s)
               else await (archiveMail env rfc822 (archived_copy inp wrap) s)
                      (\<lambda>_ s. transmit_or_throw env rfc822 s)))"

definition held_for_key :: "env \<Rightarrow> send_input \<Rightarrow> string list \<Rightarrow> held" where
  "held_for_key env inp missing =
     \<lparr>h_id = (case si_id inp of None \<Rightarrow> env_outbox_id env | Some x \<Rightarrow> x), h_to = si_to inp, h_subject = si_subject inp,
      h_body = si_body inp, h_html = si_html inp, h_sendAt = env_now env, h_inReplyTo = si_inReplyTo inp,
      h_references = si_references inp, h_attachments = si_attachments inp, h_level = si_level inp,
      h_reason = Some AwaitingKey, h_pending = Some missing\<rparr>"

definition emails_with :: "recipient_status \<Rightarrow> recipient_state list \<Rightarrow> string list" where
  "emails_with st rs = map rs_email (filter (\<lambda>r. rs_status r = st) rs)"

definition deliver_pgp :: "env \<Rightarrow> string \<Rightarrow> identity \<Rightarrow> send_input \<Rightarrow> app_state \<Rightarrow> send_outcome outcome" where
  "deliver_pgp env session i inp s =
     await (discoverRecipients env (si_to inp) s) (\<lambda>rs s.
       let changed = emails_with ChangedKey rs; missing = emails_with Missing rs
       in if changed \<noteq> [] then (Inl (KeyChanged changed), s)
          else if missing \<noteq> [] then
            await (hold env (held_for_key env inp missing) s) (\<lambda>_ s.
              await (sendInvites env missing s) (\<lambda>_ s. (Inr (Queued missing), s)))
          else if \<not> fst (canSendEncrypted (env_real_core env)) then (Inl SendingDisabled, s)
          else (case env_build env (request session i inp (seal_keys rs i) 1) of
                  Inl c \<Rightarrow> (Inl (BuildFailed c), s)
                | Inr rfc822 \<Rightarrow>
                    if \<not> isPgpMime rfc822 then (Inl NotEncrypted, s) else transmit_or_throw env rfc822 s))"

definition deliver :: "env \<Rightarrow> send_input \<Rightarrow> app_state \<Rightarrow> send_outcome outcome" where
  "deliver env inp s =
     (case (app_connected s, app_session s, app_identity s) of
        (True, Some session, Some i) \<Rightarrow>
          if si_level inp = Some 3 \<or> si_level inp = Some 4 then (Inl RetiredLevel, s)
          else if (case si_level inp of None \<Rightarrow> DEFAULT_LEVEL | Some l \<Rightarrow> l) = 2 then deliver_quantum env session i inp s
          else deliver_pgp env session i inp s
      | _ \<Rightarrow> (Inl NotConnected, s))"

definition sendEncrypted :: "env \<Rightarrow> send_input \<Rightarrow> app_state \<Rightarrow> send_outcome outcome" where
  "sendEncrypted env inp s = deliver env inp s"

definition sendPlain :: "env \<Rightarrow> send_input \<Rightarrow> app_state \<Rightarrow> unit outcome" where
  "sendPlain env inp s =
     (case (app_connected s, app_session s) of
        (True, Some session) \<Rightarrow>
          if si_to inp = [] then (Inl AddRecipient, s)
          else (case transmit env
                  (buildPlaintext \<lparr>pa_from = session, pa_to = si_to inp, pa_subject = si_subject inp, pa_body = si_body inp,
                     pa_html = si_html inp, pa_autocryptKey = map_option idn_publicKeyArmored (app_identity s),
                     pa_inReplyTo = si_inReplyTo inp, pa_references = si_references inp, pa_attachments = si_attachments inp\<rparr>
                     (env_date env) (env_random env) (env_random env)) s of
                  (True, s') \<Rightarrow> (Inr (), s') | (False, s') \<Rightarrow> (Inl (transport_error env s), s'))
      | _ \<Rightarrow> (Inl NotConnected, s))"

subsection \<open>What an action adds to the wire\<close>

definition new_on_wire :: "app_state \<Rightarrow> app_state \<Rightarrow> string list" where
  "new_on_wire s s' = drop (length (app_wire s)) (app_wire s')"

definition extends_wire :: "(string \<Rightarrow> bool) \<Rightarrow> app_state \<Rightarrow> app_state \<Rightarrow> bool" where
  "extends_wire P s s' \<longleftrightarrow> (\<exists>ms. app_wire s' = app_wire s @ ms \<and> (\<forall>m \<in> set ms. P m))"

lemma extends_wire_refl: "app_wire s' = app_wire s \<Longrightarrow> extends_wire P s s'"
  unfolding extends_wire_def by (rule exI [of _ "[]"]) simp

lemma extends_wire_trans: "extends_wire P s s' \<Longrightarrow> extends_wire P s' s'' \<Longrightarrow> extends_wire P s s''"
  unfolding extends_wire_def by (metis append_assoc Un_iff set_append)

lemma extends_wire_new: "extends_wire P s s' \<Longrightarrow> \<forall>m \<in> set (new_on_wire s s'). P m"
  by (auto simp: extends_wire_def new_on_wire_def)

lemma transmit_facts:
  assumes "transmit env m s = (ok, s')"
  shows "app_wire s' = app_wire s @ (if ok then [m] else [])" and "app_scheduled s' = app_scheduled s"
    and "app_keyring s' = app_keyring s" and "app_drafts s' = app_drafts s" and "app_invites s' = app_invites s"
    and "app_account s' = app_account s" and "app_connected s' = app_connected s" and "app_session s' = app_session s"
    and "app_identity s' = app_identity s" and "app_archive s' = app_archive s"
  using assms by (auto simp: transmit_def split: if_splits)

lemma hold_facts:
  assumes "hold env item s = (r, s')"
  shows "app_wire s' = app_wire s" and "app_keyring s' = app_keyring s" and "app_invites s' = app_invites s"
    and "app_drafts s' = app_drafts s" and "app_account s' = app_account s" and "app_connected s' = app_connected s"
    and "app_session s' = app_session s" and "app_identity s' = app_identity s" and "app_archive s' = app_archive s"
    and "r = Inr () \<Longrightarrow> app_scheduled s' = upsertScheduled (app_scheduled s) item"
    and "r \<noteq> Inr () \<Longrightarrow> app_scheduled s' = app_scheduled s"
  using assms by (auto simp: hold_def saveOutbox_def Let_def split: option.splits)

lemma invite_fold_facts:
  assumes "foldl (invite_one env session i) acc emails = ((log, changed), s')"
  shows "extends_wire (\<lambda>m. \<exists>e \<in> set emails. m = invite_mail env session i e) (snd acc) s'
    \<and> app_scheduled s' = app_scheduled (snd acc) \<and> app_keyring s' = app_keyring (snd acc)
    \<and> app_drafts s' = app_drafts (snd acc) \<and> app_account s' = app_account (snd acc) \<and> app_connected s' = app_connected (snd acc)
    \<and> app_session s' = app_session (snd acc) \<and> app_identity s' = app_identity (snd acc)
    \<and> app_archive s' = app_archive (snd acc) \<and> app_invites s' = app_invites (snd acc)"
  using assms
proof (induction emails arbitrary: acc)
  case Nil
  then show ?case by (simp add: extends_wire_refl)
next
  case (Cons e es)
  obtain log1 changed1 s1 where acc1: "invite_one env session i acc e = ((log1, changed1), s1)" by (metis prod.exhaust)
  have "extends_wire (\<lambda>m. m = invite_mail env session i e) (snd acc) s1
      \<and> app_scheduled s1 = app_scheduled (snd acc) \<and> app_keyring s1 = app_keyring (snd acc)
      \<and> app_drafts s1 = app_drafts (snd acc) \<and> app_account s1 = app_account (snd acc) \<and> app_connected s1 = app_connected (snd acc)
      \<and> app_session s1 = app_session (snd acc) \<and> app_identity s1 = app_identity (snd acc)
      \<and> app_archive s1 = app_archive (snd acc) \<and> app_invites s1 = app_invites (snd acc)"
    using acc1 by (auto simp: invite_one_def extends_wire_def transmit_def split: prod.splits if_splits)
  moreover from Cons.IH [of "((log1, changed1), s1)"] Cons.prems acc1
  have "extends_wire (\<lambda>m. \<exists>e \<in> set es. m = invite_mail env session i e) s1 s'
      \<and> app_scheduled s' = app_scheduled s1 \<and> app_keyring s' = app_keyring s1
      \<and> app_drafts s' = app_drafts s1 \<and> app_account s' = app_account s1 \<and> app_connected s' = app_connected s1
      \<and> app_session s' = app_session s1 \<and> app_identity s' = app_identity s1
      \<and> app_archive s' = app_archive s1 \<and> app_invites s' = app_invites s1" by simp
  ultimately show ?case
    by (auto simp: extends_wire_def)
qed

lemma sendInvites_facts:
  assumes "sendInvites env emails s = (r, s')" and "app_session s = Some session" and "app_identity s = Some i"
  shows "extends_wire (\<lambda>m. \<exists>e \<in> set emails. m = invite_mail env session i e) s s'"
    and "app_scheduled s' = app_scheduled s" and "app_keyring s' = app_keyring s" and "app_drafts s' = app_drafts s"
    and "app_identity s' = app_identity s" and "app_session s' = app_session s" and "app_connected s' = app_connected s"
    and "app_account s' = app_account s" and "app_archive s' = app_archive s"
proof -
  obtain log changed s1 where f: "foldl (invite_one env session i) ((app_invites s, False), s) emails = ((log, changed), s1)"
    by (metis prod.exhaust)
  note facts = invite_fold_facts [OF f]
  have rel: "s' = s \<or> app_wire s' = app_wire s1 \<and> app_scheduled s' = app_scheduled s1 \<and> app_keyring s' = app_keyring s1
      \<and> app_drafts s' = app_drafts s1 \<and> app_identity s' = app_identity s1 \<and> app_session s' = app_session s1
      \<and> app_connected s' = app_connected s1 \<and> app_account s' = app_account s1 \<and> app_archive s' = app_archive s1"
    using assms f
    by (auto simp: sendInvites_def saveInvites_def await_def split: option.splits if_splits bool.splits)
  then show "extends_wire (\<lambda>m. \<exists>e \<in> set emails. m = invite_mail env session i e) s s'"
    "app_scheduled s' = app_scheduled s" "app_keyring s' = app_keyring s" "app_drafts s' = app_drafts s"
    "app_identity s' = app_identity s" "app_session s' = app_session s" "app_connected s' = app_connected s"
    "app_account s' = app_account s" "app_archive s' = app_archive s"
    using facts by (auto simp: extends_wire_def)
qed

subsection \<open>The outcomes of a delivery\<close>

definition own_address :: "identity \<Rightarrow> string \<Rightarrow> bool" where
  "own_address i e \<longleftrightarrow> canonical e = canonical (idn_email i)"

text \<open>The keys a message to these addresses is sealed to: each recipient's and the sender's, once each.\<close>

definition sealed_to :: "keyring \<Rightarrow> identity \<Rightarrow> string list \<Rightarrow> string list \<Rightarrow> bool" where
  "sealed_to ring i addresses keys \<longleftrightarrow> distinct keys
     \<and> (\<forall>e \<in> set addresses. sealing_key ring (Some i) e \<noteq> None)
     \<and> set keys = insert (idn_publicKeyArmored i) ((\<lambda>e. the (sealing_key ring (Some i) e)) ` set addresses)"

lemma seal_keys_sealed_to:
  assumes "\<forall>e \<in> set addresses. usable (rs_status (recipientState ring (Some i) e))"
  shows "sealed_to ring i addresses (seal_keys (resolveRecipientStates ring (Some i) addresses) i)"
  using assms sealing_key_armored [of ring "Some i"] usable_sealing_key [of ring "Some i"]
  by (auto simp: sealed_to_def seal_keys_def resolveRecipientStates_def)

definition refused :: "app_state \<Rightarrow> send_outcome outcome \<Rightarrow> bool" where
  "refused s out \<longleftrightarrow> (\<exists>e. fst out = Inl e) \<and> same_mail s (snd out)"

definition went_out :: "env \<Rightarrow> send_input \<Rightarrow> app_state \<Rightarrow> send_outcome outcome \<Rightarrow> bool" where
  "went_out env inp s out \<longleftrightarrow> (\<exists>session i keys level m.
     app_session s = Some session \<and> app_identity s = Some i
     \<and> env_build env (request session i inp keys level) = Inr m
     \<and> (level = 1 \<and> si_level inp \<noteq> Some 2 \<and> isPgpMime m \<and> sealed_to (app_keyring (snd out)) i (si_to inp) keys
          \<and> app_archive (snd out) = app_archive s
        \<or> level = 2 \<and> si_level inp = Some 2 \<and> si_to inp \<noteq> []
          \<and> (isPgpMime m \<and> sealed_to (app_keyring (snd out)) i (si_to inp) keys
             \<or> isQkdMessage m \<and> keys = [] \<and> (\<exists>e \<in> set (si_to inp). sealing_key (app_keyring (snd out)) (Some i) e = None))
          \<and> app_archive (snd out) = app_archive s @ [(m, archived_copy inp (keys \<noteq> []))])
     \<and> app_scheduled (snd out) = app_scheduled s \<and> app_drafts (snd out) = app_drafts s
     \<and> (fst out = Inr Sent \<and> app_wire (snd out) = app_wire s @ [m]
        \<or> (\<exists>e. fst out = Inl e) \<and> app_wire (snd out) = app_wire s))"

definition was_held :: "env \<Rightarrow> send_input \<Rightarrow> app_state \<Rightarrow> send_outcome outcome \<Rightarrow> bool" where
  "was_held env inp s out \<longleftrightarrow> (\<exists>session i missing.
     app_session s = Some session \<and> app_identity s = Some i \<and> si_level inp \<noteq> Some 2
     \<and> missing = filter (\<lambda>e. \<not> own_address i e \<and> findKey (app_keyring (snd out)) e = None) (si_to inp) \<and> missing \<noteq> []
     \<and> (\<forall>e \<in> set (si_to inp). \<not> own_address i e \<longrightarrow> map_option ck_trust (findKey (app_keyring (snd out)) e) \<noteq> Some Changed)
     \<and> app_scheduled (snd out) = upsertScheduled (app_scheduled s) (held_for_key env inp missing)
     \<and> app_drafts (snd out) = app_drafts s \<and> app_archive (snd out) = app_archive s
     \<and> extends_wire (\<lambda>m. \<exists>e \<in> set missing. m = invite_mail env session i e) s (snd out)
     \<and> (fst out = Inr (Queued missing) \<or> (\<exists>e. fst out = Inl e)))"

lemma emails_with_missing:
  "emails_with Missing (resolveRecipientStates ring (Some i) addresses) =
     filter (\<lambda>e. \<not> own_address i e \<and> findKey ring e = None) addresses"
proof -
  have "rs_status (recipientState ring (Some i) e) = Missing \<longleftrightarrow> \<not> own_address i e \<and> findKey ring e = None" for e
    by (auto simp: recipientState_def own_address_def split: option.splits trust.splits)
  then show ?thesis by (simp add: emails_with_def resolveRecipientStates_def filter_map o_def)
qed

lemma no_changed:
  assumes "emails_with ChangedKey (resolveRecipientStates ring (Some i) addresses) = []"
  shows "\<forall>e \<in> set addresses. \<not> own_address i e \<longrightarrow> map_option ck_trust (findKey ring e) \<noteq> Some Changed"
proof (intro ballI impI notI)
  fix e assume e: "e \<in> set addresses" "\<not> own_address i e" "map_option ck_trust (findKey ring e) = Some Changed"
  then have "rs_status (recipientState ring (Some i) e) = ChangedKey"
    by (auto simp: recipientState_def own_address_def)
  then show False using assms e(1) by (auto simp: emails_with_def resolveRecipientStates_def filter_empty_conv)
qed

lemma no_missing_no_changed:
  "emails_with Missing rs = [] \<Longrightarrow> emails_with ChangedKey rs = [] \<Longrightarrow> r \<in> set rs \<Longrightarrow> usable (rs_status r)"
  by (auto simp: emails_with_def filter_empty_conv usable_def intro: recipient_status.exhaust [of "rs_status r"])

lemma refused_after_discovery: "same_mail s s1 \<Longrightarrow> refused s (Inl e, s1)"
  by (simp add: refused_def)

lemma transmit_or_throw_facts:
  assumes "transmit_or_throw env m s = (r, s')"
  shows "(r = Inr Sent \<and> app_wire s' = app_wire s @ [m] \<or> (\<exists>e. r = Inl e) \<and> app_wire s' = app_wire s)
    \<and> app_scheduled s' = app_scheduled s \<and> app_drafts s' = app_drafts s \<and> app_keyring s' = app_keyring s
    \<and> app_archive s' = app_archive s"
proof -
  obtain ok s1 where t: "transmit env m s = (ok, s1)" by fastforce
  show ?thesis using assms transmit_facts [OF t] by (auto simp: transmit_or_throw_def t split: bool.splits)
qed

lemma deliver_pgp_outcome:
  assumes out: "deliver_pgp env session i inp s = out" and se: "app_session s = Some session"
    and id: "app_identity s = Some i" and lv: "si_level inp \<noteq> Some 2"
  shows "refused s out \<or> went_out env inp s out \<or> was_held env inp s out"
proof -
  obtain d s1 where d: "discoverRecipients env (si_to inp) s = (d, s1)" by fastforce
  note facts = discoverRecipients_facts [OF d]
  have id1: "app_identity s1 = Some i" and se1: "app_session s1 = Some session"
    using facts(1) id se by (auto simp: same_mail_def)
  show ?thesis
  proof (cases d)
    case (Inl e)
    then show ?thesis using out d facts(1) by (auto simp: deliver_pgp_def intro: refused_after_discovery)
  next
    case (Inr rs)
    then have rs: "rs = resolveRecipientStates (app_keyring s1) (Some i) (si_to inp)" using facts(3) id1 by simp
    let ?changed = "emails_with ChangedKey rs" and ?missing = "emails_with Missing rs"
    consider "?changed \<noteq> []" | "?changed = []" "?missing \<noteq> []" | "?changed = []" "?missing = []" by blast
    then show ?thesis
    proof cases
      case 1
      then have "out = (Inl (KeyChanged ?changed), s1)" using out d Inr by (auto simp: deliver_pgp_def Let_def)
      then show ?thesis using facts(1) refused_after_discovery by blast
    next
      case 2
      obtain h s2 where h: "hold env (held_for_key env inp ?missing) s1 = (h, s2)" by fastforce
      note hf = hold_facts [OF h]
      show ?thesis
      proof (cases h)
        case (Inl e)
        have "s2 = s1" using h Inl by (auto simp: hold_def saveOutbox_def Let_def split: option.splits)
        then have "out = (Inl e, s1)" using out d Inr 2 h Inl by (auto simp: deliver_pgp_def Let_def)
        then show ?thesis using facts(1) refused_after_discovery by blast
      next
        case (Inr u)
        obtain v s3 where v: "sendInvites env ?missing s2 = (v, s3)" by fastforce
        note vf = sendInvites_facts [OF v, of session i]
        have pre: "app_session s2 = Some session" "app_identity s2 = Some i" using hf id1 se1 by auto
        note vf = vf [OF pre]
        have out': "out = (case v of Inl e \<Rightarrow> Inl e | Inr x \<Rightarrow> Inr (Queued ?missing), s3)"
          using out d \<open>d = Inr rs\<close> 2 h Inr v by (cases v) (auto simp: deliver_pgp_def Let_def)
        have "app_scheduled s3 = upsertScheduled (app_scheduled s) (held_for_key env inp ?missing)"
          using vf hf(10) Inr facts(1) by (simp add: same_mail_def)
        moreover have "extends_wire (\<lambda>m. \<exists>e \<in> set ?missing. m = invite_mail env session i e) s s3"
          using vf(1) hf(1) facts(1) by (auto simp: same_mail_def extends_wire_def)
        moreover have "?missing = filter (\<lambda>e. \<not> own_address i e \<and> findKey (app_keyring s3) e = None) (si_to inp)"
          using emails_with_missing rs vf(3) hf(2) by simp
        moreover have "\<forall>e \<in> set (si_to inp). \<not> own_address i e \<longrightarrow> map_option ck_trust (findKey (app_keyring s3) e) \<noteq> Some Changed"
          using no_changed [of "app_keyring s1" i "si_to inp"] 2(1) rs vf(3) hf(2) by simp
        ultimately have "was_held env inp s out"
          unfolding was_held_def out' using se id lv 2(2) vf hf facts(1)
          by (intro exI [of _ session] exI [of _ i] exI [of _ ?missing]) (auto simp: same_mail_def split: sum.splits)
        then show ?thesis by blast
      qed
    next
      case 3
      have all: "\<forall>e \<in> set (si_to inp). usable (rs_status (recipientState (app_keyring s1) (Some i) e))"
        using no_missing_no_changed [OF 3(2,1)] by (auto simp: rs resolveRecipientStates_def)
      show ?thesis
      proof (cases "env_build env (request session i inp (seal_keys rs i) 1)")
        case (Inl c)
        then have "out = (Inl (BuildFailed c), s1)"
          using out d Inr 3 \<open>d = Inr rs\<close> by (auto simp: deliver_pgp_def Let_def canSendEncrypted_def)
        then show ?thesis using facts(1) refused_after_discovery by blast
      next
        case (Inr m)
        show ?thesis
        proof (cases "isPgpMime m")
          case False
          then have "out = (Inl NotEncrypted, s1)"
            using out d Inr 3 \<open>d = Inr rs\<close> by (auto simp: deliver_pgp_def Let_def canSendEncrypted_def)
          then show ?thesis using facts(1) refused_after_discovery by blast
        next
          case True
          obtain r s2 where tt: "transmit_or_throw env m s1 = (r, s2)" by fastforce
          have out': "out = (r, s2)"
            using out d Inr 3 True tt \<open>d = Inr rs\<close> by (auto simp: deliver_pgp_def Let_def canSendEncrypted_def)
          have "went_out env inp s out"
            unfolding went_out_def out'
            using transmit_or_throw_facts [OF tt] facts(1) se id lv Inr True seal_keys_sealed_to [OF all] rs
            by (intro exI [of _ session] exI [of _ i] exI [of _ "seal_keys rs i"] exI [of _ 1] exI [of _ m])
               (auto simp: same_mail_def)
          then show ?thesis by blast
        qed
      qed
    qed
  qed
qed

lemma archiveMail_facts:
  assumes "archiveMail env m d s = (r, s')"
  shows "app_wire s' = app_wire s" "app_scheduled s' = app_scheduled s" "app_drafts s' = app_drafts s"
    "app_keyring s' = app_keyring s" "r = Inr () \<Longrightarrow> app_archive s' = app_archive s @ [(m, d)]"
    "r \<noteq> Inr () \<Longrightarrow> s' = s"
  using assms by (auto simp: archiveMail_def split: if_splits)

lemma deliver_quantum_outcome:
  assumes out: "deliver_quantum env session i inp s = out" and se: "app_session s = Some session"
    and id: "app_identity s = Some i" and lv: "si_level inp = Some 2"
  shows "refused s out \<or> went_out env inp s out"
proof (cases "si_to inp = []")
  case True
  then show ?thesis using out by (auto simp: deliver_quantum_def refused_def same_mail_def)
next
  case to: False
  obtain d s1 where d: "discoverRecipients env (si_to inp) s = (d, s1)" by fastforce
  note facts = discoverRecipients_facts [OF d]
  have id1: "app_identity s1 = Some i" using facts(1) id by (auto simp: same_mail_def)
  show ?thesis
  proof (cases d)
    case (Inl e)
    then show ?thesis using out d to facts(1) by (auto simp: deliver_quantum_def intro: refused_after_discovery)
  next
    case (Inr rs)
    then have rs: "rs = resolveRecipientStates (app_keyring s1) (Some i) (si_to inp)" using facts(3) id1 by simp
    define wrap where "wrap = list_all (\<lambda>r. usable (rs_status r) \<and> rs_key r \<noteq> None) rs"
    define keys where "keys = (if wrap then seal_keys rs i else [])"
    have all: "wrap \<longleftrightarrow> (\<forall>e \<in> set (si_to inp). usable (rs_status (recipientState (app_keyring s1) (Some i) e)))"
      using usable_has_key by (auto simp: wrap_def rs resolveRecipientStates_def list_all_iff)
    have nonempty: "keys \<noteq> [] \<longleftrightarrow> wrap" by (auto simp: keys_def seal_keys_def)
       (metis append_is_Nil_conv list.distinct(1) set_empty set_js_unique)
    have step: "out = (case env_build env (request session i inp keys 2) of
             Inl c \<Rightarrow> (Inl (BuildFailed c), s1)
           | Inr m \<Rightarrow> if (if wrap then \<not> isPgpMime m else \<not> isQkdMessage m) then (Inl NotSealed, s1)
               else await (archiveMail env m (archived_copy inp wrap) s1) (\<lambda>_ s. transmit_or_throw env m s))"
      unfolding keys_def wrap_def using out to d unfolding Inr by (simp only: deliver_quantum_def Let_def await_simps if_False)
    show ?thesis
    proof (cases "env_build env (request session i inp keys 2)")
      case (Inl c)
      then show ?thesis using step facts(1) refused_after_discovery by simp
    next
      case (Inr m)
      show ?thesis
      proof (cases "if wrap then isPgpMime m else isQkdMessage m")
        case False
        then have "out = (Inl NotSealed, s1)" using step Inr by (auto split: if_splits)
        then show ?thesis using facts(1) refused_after_discovery by blast
      next
        case guard: True
        obtain a s2 where a: "archiveMail env m (archived_copy inp wrap) s1 = (a, s2)" by fastforce
        note af = archiveMail_facts [OF a]
        show ?thesis
        proof (cases a)
          case (Inl e)
          then have "out = (Inl e, s1)" using step Inr \<open>env_build _ _ = Inr m\<close> guard a af(6) by (auto split: if_splits)
          then show ?thesis using facts(1) refused_after_discovery by blast
        next
          case (Inr u)
          obtain r s3 where tt: "transmit_or_throw env m s2 = (r, s3)" by fastforce
          have out': "out = (r, s3)" using step \<open>env_build _ _ = Inr m\<close> guard a Inr tt by (auto split: if_splits)
          note tf = transmit_or_throw_facts [OF tt]
          have "app_archive s3 = app_archive s @ [(m, archived_copy inp (keys \<noteq> []))]"
            using tf af(5) Inr facts(1) nonempty by (simp add: same_mail_def)
          moreover have "isPgpMime m \<and> sealed_to (app_keyring s3) i (si_to inp) keys
              \<or> isQkdMessage m \<and> keys = [] \<and> (\<exists>e \<in> set (si_to inp). sealing_key (app_keyring s3) (Some i) e = None)"
          proof (cases wrap)
            case True
            then show ?thesis
              using guard tf af(4) rs seal_keys_sealed_to [of "si_to inp" "app_keyring s1" i] all by (simp add: keys_def)
          next
            case False
            then show ?thesis using guard tf af(4) all usable_sealing_key by (auto simp: keys_def)
          qed
          moreover have sd: "app_scheduled s3 = app_scheduled s" "app_drafts s3 = app_drafts s" "app_wire s2 = app_wire s"
            using tf af facts(1) by (simp_all add: same_mail_def)
          moreover have "r = Inr Sent \<and> app_wire s3 = app_wire s @ [m] \<or> (\<exists>e. r = Inl e) \<and> app_wire s3 = app_wire s"
            using tf sd(3) by simp
          ultimately have "went_out env inp s out"
            unfolding went_out_def out' fst_conv snd_conv using se id lv to \<open>env_build _ _ = Inr m\<close>
            by (intro exI [of _ session] exI [of _ i] exI [of _ keys] exI [of _ 2] exI [of _ m]) blast
          then show ?thesis by blast
        qed
      qed
    qed
  qed
qed

lemma deliver_outcome:
  "refused s (deliver env inp s) \<or> went_out env inp s (deliver env inp s) \<or> was_held env inp s (deliver env inp s)"
proof (cases "app_connected s \<and> app_session s \<noteq> None \<and> app_identity s \<noteq> None
    \<and> si_level inp \<noteq> Some 3 \<and> si_level inp \<noteq> Some 4")
  case False
  then show ?thesis
    by (auto simp: deliver_def refused_def same_mail_def split: option.splits bool.splits)
next
  case True
  then obtain session i where se: "app_session s = Some session" and id: "app_identity s = Some i" by auto
  show ?thesis
  proof (cases "si_level inp = Some 2")
    case lv: True
    then have "deliver env inp s = deliver_quantum env session i inp s" using True se id by (simp add: deliver_def)
    then show ?thesis using deliver_quantum_outcome [OF refl se id lv, of env] by metis
  next
    case lv: False
    then have "deliver env inp s = deliver_pgp env session i inp s"
      using True se id by (auto simp: deliver_def DEFAULT_LEVEL_def split: option.splits)
    then show ?thesis using deliver_pgp_outcome [OF refl se id lv, of env] by metis
  qed
qed

lemma transmit_or_throw_keyring: "app_keyring (snd (transmit_or_throw env m s)) = app_keyring s"
  by (auto simp: transmit_or_throw_def transmit_def)

lemma sendInvites_keyring: "app_keyring (snd (sendInvites env emails s)) = app_keyring s"
proof (cases "\<exists>session i. app_session s = Some session \<and> app_identity s = Some i")
  case True
  then obtain session i where "app_session s = Some session" "app_identity s = Some i" by blast
  then show ?thesis using sendInvites_facts(3) [of env emails s "fst (sendInvites env emails s)" "snd (sendInvites env emails s)"]
    by simp
next
  case False
  then show ?thesis by (auto simp: sendInvites_def split: option.splits bool.splits)
qed

lemma await_keyring:
  "app_keyring (snd r) = ring \<Longrightarrow> (\<And>x s. app_keyring s = ring \<Longrightarrow> app_keyring (snd (k x s)) = ring) \<Longrightarrow>
   app_keyring (snd (await r k)) = ring"
  by (rule await_cases) auto

lemma await_discovery:
  assumes "\<And>rs s1. app_keyring (snd (k rs s1)) = app_keyring s1"
  shows "arrivals (app_keyring s) (app_keyring (snd (await (discoverRecipients env addresses s) k)))"
proof -
  obtain d s1 where d: "discoverRecipients env addresses s = (d, s1)" by fastforce
  show ?thesis using discoverRecipients_facts(2) [OF d] assms by (cases d) (simp_all add: d)
qed

lemma hold_keyring: "app_keyring (snd (hold env item s)) = app_keyring s"
  using hold_facts(2) [of env item s] by (cases "hold env item s") simp

lemma archiveMail_keyring: "app_keyring (snd (archiveMail env m d s)) = app_keyring s"
  by (simp add: archiveMail_def)

lemma deliver_arrivals: "arrivals (app_keyring s) (app_keyring (snd (deliver env inp s)))"
proof -
  have "arrivals (app_keyring s) (app_keyring (snd (deliver_pgp env session i inp s)))" for session i
    unfolding deliver_pgp_def
    by (rule await_discovery)
       (auto simp: Let_def hold_keyring sendInvites_keyring transmit_or_throw_keyring split: sum.splits intro!: await_keyring)
  moreover have "arrivals (app_keyring s) (app_keyring (snd (deliver_quantum env session i inp s)))" for session i
  proof (cases "si_to inp = []")
    case False
    then show ?thesis unfolding deliver_quantum_def if_False if_not_P [OF False]
      by (intro await_discovery)
         (auto simp: Let_def archiveMail_keyring transmit_or_throw_keyring split: sum.splits intro!: await_keyring)
  qed (simp add: deliver_quantum_def)
  ultimately show ?thesis
    by (auto simp: deliver_def split: option.splits bool.splits)
qed

end
