(* ===== verification/Send_Safety.thy ===== *)
theory Send_Safety
  imports Send
begin

text \<open>
  What the send path guarantees: nothing but sealed messages and contentless invites reaches the wire; at the default level
  a message is sealed to exactly the keys of its recipients and the sender, a changed key stops it and a missing key holds it
  whole, while Level 2 needs no recipient key; and no word of a message reaches the wire except through the crypto core.
\<close>

subsection \<open>Nothing unencrypted on the wire\<close>

lemma refused_wire: "refused s out \<Longrightarrow> app_wire (snd out) = app_wire s"
  by (auto simp: refused_def same_mail_def)

lemma deliver_extends_wire:
  "extends_wire (\<lambda>m. isPgpMime m \<or> isQkdMessage m \<or>
      (\<exists>session i e. app_session s = Some session \<and> app_identity s = Some i \<and> e \<in> set (si_to inp)
         \<and> m = invite_mail env session i e)) s (snd (deliver env inp s))"
proof -
  consider "refused s (deliver env inp s)" | "went_out env inp s (deliver env inp s)" | "was_held env inp s (deliver env inp s)"
    using deliver_outcome by blast
  then show ?thesis
  proof cases
    case 1
    then show ?thesis by (intro extends_wire_refl refused_wire)
  next
    case 2
    then show ?thesis unfolding went_out_def extends_wire_def by fastforce
  next
    case 3
    then show ?thesis unfolding was_held_def extends_wire_def by fastforce
  qed
qed

text \<open>C1 Rule 1: whatever the state, the input and the world, a delivery only ever adds to the wire PGP/MIME
  messages, quantum-sealed messages, and invites to recipients of the message, which are a fixed text built from
  the sender's address, the invited address and the sender's public key, and from nothing of the message.
  What was on the wire stays.\<close>

theorem deliver_wire_only_sealed:
  "\<exists>ms. app_wire (snd (deliver env inp s)) = app_wire s @ ms
    \<and> (\<forall>m \<in> set ms. isPgpMime m \<or> isQkdMessage m
         \<or> (\<exists>session i e. app_session s = Some session \<and> app_identity s = Some i \<and> e \<in> set (si_to inp)
              \<and> m = invite_mail env session i e))"
  using deliver_extends_wire [of s inp env] by (simp add: extends_wire_def)

definition note_to :: "string list \<Rightarrow> security_level option \<Rightarrow> send_input" where
  "note_to addresses level = \<lparr>si_id = Some ''m1'', si_to = addresses, si_subject = ''secret'', si_body = ''words'', si_html = None,
     si_inReplyTo = None, si_references = None, si_attachments = None, si_level = level\<rparr>"

theorem deliver_wire_only_sealed_witness:
  "\<exists>m. app_wire (snd (deliver world0 (note_to [''eve@z''] None) state0)) = [m] \<and> (isPgpMime m \<or> isQkdMessage m \<or>
     m = invite_mail world0 ''me@x'' (the (app_identity state0)) ''eve@z'')"
proof -
  obtain ms where ms: "app_wire (snd (deliver world0 (note_to [''eve@z''] None) state0)) = app_wire state0 @ ms"
    "\<forall>m \<in> set ms. isPgpMime m \<or> isQkdMessage m \<or> (\<exists>session i e. app_session state0 = Some session
       \<and> app_identity state0 = Some i \<and> e \<in> set (si_to (note_to [''eve@z''] None)) \<and> m = invite_mail world0 session i e)"
    using deliver_wire_only_sealed by blast
  have "length (app_wire (snd (deliver world0 (note_to [''eve@z''] None) state0))) = 1" by code_simp
  then obtain m where "ms = [m]" using ms(1) by (auto simp: state0_def length_Suc_conv)
  then show ?thesis using ms by (auto simp: state0_def note_to_def)
qed

subsection \<open>What it is sealed to\<close>

text \<open>C2 A delivery that reports Sent put exactly one message on the wire, the one the core built for this
  session with this message's contents, and changed neither the outbox nor the drafts. Below Level 2 it is a
  PGP/MIME message sealed to exactly the keys on file for its recipients and to the sender's own, each once.
  At Level 2, which only the user chooses, the quantum key is what makes it readable: it is a PGP/MIME message sealed to
  those same keys, or, when some recipient has no usable key, a quantum message for which the core got no key at all, not
  even the sender's; either way a readable copy was archived.\<close>

theorem deliver_sent_sealed_to:
  assumes "deliver env inp s = (Inr Sent, s')"
  shows "\<exists>session i keys level m.
     app_session s = Some session \<and> app_identity s = Some i
     \<and> env_build env (request session i inp keys level) = Inr m
     \<and> app_wire s' = app_wire s @ [m] \<and> app_scheduled s' = app_scheduled s \<and> app_drafts s' = app_drafts s
     \<and> (level = 1 \<and> si_level inp \<noteq> Some 2 \<and> isPgpMime m \<and> sealed_to (app_keyring s') i (si_to inp) keys
        \<or> level = 2 \<and> si_level inp = Some 2 \<and> si_to inp \<noteq> []
          \<and> (isPgpMime m \<and> sealed_to (app_keyring s') i (si_to inp) keys
             \<or> isQkdMessage m \<and> keys = [] \<and> (\<exists>e \<in> set (si_to inp). sealing_key (app_keyring s') (Some i) e = None))
          \<and> app_archive s' = app_archive s @ [(m, archived_copy inp (keys \<noteq> []))])"
proof -
  have "went_out env inp s (Inr Sent, s')"
    using deliver_outcome [of s env inp] by (simp add: assms refused_def was_held_def)
  then show ?thesis unfolding went_out_def fst_conv snd_conv by (elim exE conjE disjE) auto
qed

definition sample_sent :: "send_outcome outcome" where
  "sample_sent = deliver (world0\<lparr>env_build := (\<lambda>r. Inr ([NL, NL] @ ARMOR_BEGIN))\<rparr>) (note_to [''bob@y'', ''me@x''] None) state0"

theorem deliver_sent_sealed_to_witness:
  "\<exists>i keys. app_identity state0 = Some i \<and> sealed_to (app_keyring (snd sample_sent)) i [''bob@y'', ''me@x''] keys"
proof -
  have "fst sample_sent = Inr Sent" by code_simp
  then have "deliver (world0\<lparr>env_build := (\<lambda>r. Inr ([NL, NL] @ ARMOR_BEGIN))\<rparr>) (note_to [''bob@y'', ''me@x''] None) state0
      = (Inr Sent, snd sample_sent)"
    by (simp add: sample_sent_def prod_eq_iff)
  from deliver_sent_sealed_to [OF this] show ?thesis by (auto simp: note_to_def)
qed

subsection \<open>A changed key\<close>

text \<open>C3 While the ring holds a changed key for a recipient whose address is not the sender's own, a delivery at any level but
  Level 2 is refused with nothing sent, held, invited or archived, whatever the lookups find. At Level 2, which the user
  chose and which needs no recipient key, the message can still go out: it is then sealed to no recipient key at all, the
  changed one included.\<close>

theorem changed_key_stops_delivery:
  assumes "e \<in> set (si_to inp)" and "findKey (app_keyring s) e = Some k" and "ck_trust k = Changed"
    and "app_identity s = Some i" and "\<not> own_address i e"
  shows "(si_level inp \<noteq> Some 2 \<longrightarrow> refused s (deliver env inp s))
    \<and> (fst (deliver env inp s) = Inr Sent \<longrightarrow>
         (\<exists>session m. env_build env (request session i inp [] 2) = Inr m \<and> isQkdMessage m
            \<and> app_wire (snd (deliver env inp s)) = app_wire s @ [m]))"
proof -
  let ?ring = "app_keyring (snd (deliver env inp s))"
  obtain k' where k': "findKey ?ring e = Some k'" "ck_trust k' = Changed"
    using arrivals_keep [OF deliver_arrivals assms(2) [unfolded findKey_def], of env inp] assms(3)
    by (auto simp: findKey_def trust_kept_def)
  then have none: "sealing_key ?ring (Some i) e = None"
    using assms(5) by (simp add: sealing_key_def own_address_def)
  have not_sealed: "\<not> sealed_to ?ring i (si_to inp) keys" for keys
    using none assms(1) by (auto simp: sealed_to_def)
  have not_held: "\<not> was_held env inp s (deliver env inp s)"
    using k' assms(1,4,5) by (auto simp: was_held_def)
  have out: "refused s (deliver env inp s) \<or> went_out env inp s (deliver env inp s)"
    using deliver_outcome [of s env inp] not_held by blast
  have quantum: "si_level inp = Some 2 \<and> (\<exists>session m. env_build env (request session i inp [] 2) = Inr m \<and> isQkdMessage m
      \<and> (fst (deliver env inp s) = Inr Sent \<longrightarrow> app_wire (snd (deliver env inp s)) = app_wire s @ [m]))"
    if "went_out env inp s (deliver env inp s)"
    using that not_sealed assms(4) unfolding went_out_def by fastforce
  show ?thesis
  proof (intro conjI impI)
    assume "si_level inp \<noteq> Some 2"
    then show "refused s (deliver env inp s)" using out quantum by blast
  next
    assume sent: "fst (deliver env inp s) = Inr Sent"
    then have "\<not> refused s (deliver env inp s)" by (simp add: refused_def)
    then show "\<exists>session m. env_build env (request session i inp [] 2) = Inr m \<and> isQkdMessage m
            \<and> app_wire (snd (deliver env inp s)) = app_wire s @ [m]"
      using out quantum sent by blast
  qed
qed

definition state_changed :: app_state where
  "state_changed = state0\<lparr>app_keyring := key_run [] two_keys\<rparr>"

theorem changed_key_stops_delivery_witness:
  "refused state_changed (deliver world0 (note_to [''A@b''] None) state_changed)"
proof -
  have "case findKey (app_keyring state_changed) ''A@b'' of Some k \<Rightarrow> ck_trust k = Changed | None \<Rightarrow> False" by code_simp
  then obtain k where k: "findKey (app_keyring state_changed) ''A@b'' = Some k" "ck_trust k = Changed"
    by (auto split: option.splits)
  have i: "app_identity state_changed = Some (the (app_identity state0))" by (simp add: state_changed_def state0_def)
  have o: "\<not> own_address (the (app_identity state0)) ''A@b''" by code_simp
  have "''A@b'' \<in> set (si_to (note_to [''A@b''] None))" by (simp add: note_to_def)
  from changed_key_stops_delivery [OF this k i o, of world0] show ?thesis by (simp add: note_to_def)
qed

subsection \<open>A missing key\<close>

text \<open>A missing key holds the message whole: when a delivery reports Queued, the addresses it names are
  exactly the recipients without a key (ourselves apart), nothing was sent but invites to those addresses, and
  the outbox gained one entry, under the message's own id when it had one: every field as written, waiting for a
  key, with the named addresses pending. The other entries and the drafts are untouched.\<close>

theorem missing_key_holds_whole:
  assumes "deliver env inp s = (Inr (Queued missing), s')"
  shows "\<exists>session i item.
     app_session s = Some session \<and> app_identity s = Some i
     \<and> missing = filter (\<lambda>e. \<not> own_address i e \<and> findKey (app_keyring s') e = None) (si_to inp) \<and> missing \<noteq> []
     \<and> extends_wire (\<lambda>m. \<exists>e \<in> set missing. m = invite_mail env session i e) s s'
     \<and> app_drafts s' = app_drafts s
     \<and> (\<forall>j. obj_get (app_scheduled s') j = (if j = h_id item then Some item else obj_get (app_scheduled s) j))
     \<and> (\<forall>x. si_id inp = Some x \<longrightarrow> h_id item = x)
     \<and> h_to item = si_to inp \<and> h_subject item = si_subject inp \<and> h_body item = si_body inp \<and> h_html item = si_html inp
     \<and> h_attachments item = si_attachments inp \<and> h_level item = si_level inp \<and> h_inReplyTo item = si_inReplyTo inp
     \<and> h_references item = si_references inp \<and> holdReason item = AwaitingKey \<and> h_pending item = Some missing"
proof -
  have "was_held env inp s (Inr (Queued missing), s')"
    using deliver_outcome [of s env inp] by (simp add: assms refused_def went_out_def)
  then obtain session i where f: "app_session s = Some session" "app_identity s = Some i"
    "missing = filter (\<lambda>e. \<not> own_address i e \<and> findKey (app_keyring s') e = None) (si_to inp)" "missing \<noteq> []"
    "app_scheduled s' = upsertScheduled (app_scheduled s) (held_for_key env inp missing)" "app_drafts s' = app_drafts s"
    "extends_wire (\<lambda>m. \<exists>e \<in> set missing. m = invite_mail env session i e) s s'"
    unfolding was_held_def fst_conv snd_conv by blast
  have item: "(\<forall>x. si_id inp = Some x \<longrightarrow> h_id (held_for_key env inp missing) = x)
     \<and> h_to (held_for_key env inp missing) = si_to inp \<and> h_subject (held_for_key env inp missing) = si_subject inp
     \<and> h_body (held_for_key env inp missing) = si_body inp \<and> h_html (held_for_key env inp missing) = si_html inp
     \<and> h_attachments (held_for_key env inp missing) = si_attachments inp \<and> h_level (held_for_key env inp missing) = si_level inp
     \<and> h_inReplyTo (held_for_key env inp missing) = si_inReplyTo inp \<and> h_references (held_for_key env inp missing) = si_references inp
     \<and> holdReason (held_for_key env inp missing) = AwaitingKey \<and> h_pending (held_for_key env inp missing) = Some missing"
    by (simp add: held_for_key_def holdReason_def)
  show ?thesis
    using f(1,2,3,4,6,7) item
    by (intro exI [of _ session] exI [of _ i] exI [of _ "held_for_key env inp missing"] conjI)
       (simp_all add: f(5) outbox_store.get_put)
qed

theorem missing_key_holds_whole_witness:
  "\<exists>item. obj_get (app_scheduled (snd (deliver world0 (note_to [''bob@y'', ''eve@z''] None) state0))) ''m1'' = Some item
     \<and> h_body item = ''words'' \<and> h_pending item = Some [''eve@z'']"
proof -
  have "fst (deliver world0 (note_to [''bob@y'', ''eve@z''] None) state0) = Inr (Queued [''eve@z''])" by code_simp
  then have d: "deliver world0 (note_to [''bob@y'', ''eve@z''] None) state0
      = (Inr (Queued [''eve@z'']), snd (deliver world0 (note_to [''bob@y'', ''eve@z''] None) state0))"
    by (simp add: prod_eq_iff)
  obtain item where i: "\<forall>j. obj_get (app_scheduled (snd (deliver world0 (note_to [''bob@y'', ''eve@z''] None) state0))) j
       = (if j = h_id item then Some item else obj_get (app_scheduled state0) j)"
    "\<forall>x. si_id (note_to [''bob@y'', ''eve@z''] None) = Some x \<longrightarrow> h_id item = x"
    "h_body item = si_body (note_to [''bob@y'', ''eve@z''] None)" "h_pending item = Some [''eve@z'']"
    using missing_key_holds_whole [OF d] by blast
  have "h_id item = ''m1''" using i(2) by (simp add: note_to_def)
  then show ?thesis using i(1,3,4) by (intro exI [of _ item]) (simp add: note_to_def)
qed

text \<open>A message written for a level that no longer exists is not sent at another: it is refused before
  anything is looked up, built, held or invited, and the state is exactly as before.\<close>

theorem retired_level_refused:
  assumes "si_level inp = Some 3 \<or> si_level inp = Some 4"
  shows "snd (deliver env inp s) = s \<and> (\<exists>e. fst (deliver env inp s) = Inl e)"
  using assms by (auto simp: deliver_def split: option.splits bool.splits)

theorem retired_level_refused_witness:
  "snd (deliver world0 (note_to [''bob@y''] (Some 3)) state0) = state0"
  using retired_level_refused [of "note_to [''bob@y''] (Some 3)" world0 state0] by (simp add: note_to_def)

subsection \<open>No content leaves except through the core\<close>

text \<open>What an observer of the wire and of everything but the outbox and the archive sees.\<close>

definition content_view :: "app_state \<Rightarrow> app_state" where
  "content_view s = s\<lparr>app_scheduled := [], disk_scheduled := [], app_archive := []\<rparr>"

definition same_view :: "'a outcome \<Rightarrow> 'a outcome \<Rightarrow> bool" where
  "same_view a b \<longleftrightarrow> fst a = fst b \<and> content_view (snd a) = content_view (snd b)"








text \<open>What a message says, and a world whose core is given that instead of what it is asked to seal.\<close>

record contents =
  ct_subject :: string
  ct_body :: string
  ct_html :: "string option"
  ct_attachments :: "attachment list option"


definition core_given :: "contents \<Rightarrow> env \<Rightarrow> env" where
  "core_given c env =
     env\<lparr>env_build := (\<lambda>r. env_build env (r\<lparr>br_subject := ct_subject c, br_body := ct_body c, br_html := ct_html c,
                                             br_attachments := ct_attachments c\<rparr>))\<rparr>"




lemma core_given_saves [simp]: "writes (core_given c env) = writes env"
  by (simp add: fun_eq_iff core_given_def writes_def)



lemma same_view_refl [simp]: "same_view a a"
  by (simp add: same_view_def)










end
