(* ===== verification/Scheduler.thy ===== *)
theory Scheduler
  imports Send
begin

text \<open>
  The snooze service (\<^verbatim>\<open>state/snooze.ts\<close>) and the outbox scheduler (\<^verbatim>\<open>state/scheduler.ts\<close>): holding, scheduling,
  cancelling and retrying a queued message, the drain of messages waiting for a key, and the tick \<open>run\<close>.
  An action runs alone here, but for the switch of mailbox that \<open>handleAuthLoss\<close> (\<^verbatim>\<open>state/session.ts\<close>) starts when another
  mailbox is signed in: nobody waits for it, and it is over after some later message of the loop, as one step. The set
  \<open>inFlight\<close> is what overlapping runs have claimed, so an action leaves it as it was. The world is a family of environments:
  \<open>E p n\<close> is what it answers at the n-th call of phase \<open>p\<close> of a tick (0 waking, 1 draining, 2 sending).
\<close>

subsection \<open>The snooze service\<close>

definition persist_snoozes :: "env \<Rightarrow> snooze_map \<Rightarrow> app_state \<Rightarrow> unit outcome" where
  "persist_snoozes env st s = await (saveSnoozes env st s) (\<lambda>_ s. (Inr (), s\<lparr>app_snoozed := st\<rparr>))"

definition snoozeMessage :: "env \<Rightarrow> string \<Rightarrow> string \<Rightarrow> app_state \<Rightarrow> unit outcome" where
  "snoozeMessage env i until s =
     (let summary = (case find (\<lambda>m. sm_id m = i) (app_messages s) of
            Some m \<Rightarrow> Some m
          | None \<Rightarrow> (case obj_get (app_snoozed s) i of None \<Rightarrow> None | Some e \<Rightarrow> sz_summary e))
      in persist_snoozes env
           (upsertSnooze (app_snoozed s) \<lparr>sz_id = i, sz_until = until, sz_snoozedAt = env_now env, sz_summary = summary\<rparr>) s)"

definition unsnoozeMessage :: "env \<Rightarrow> string \<Rightarrow> app_state \<Rightarrow> unit outcome" where
  "unsnoozeMessage env i s = persist_snoozes env (removeSnooze (app_snoozed s) i) s"

definition wakedue :: "(string \<Rightarrow> string \<Rightarrow> int) \<Rightarrow> env \<Rightarrow> app_state \<Rightarrow> unit outcome" where
  "wakedue lc env s =
     (let due = dueSnoozed lc (app_snoozed s) (env_now env)
      in if due = [] then (Inr (), s)
         else persist_snoozes env (foldl removeSnooze (app_snoozed s) (map sz_id due)) s)"

subsection \<open>The state of the scheduler\<close>

record sched =
  sc_inFlight :: "string list"
  sc_lastRetry :: int
  sc_oneShot :: "int option"

definition HELD_LOOKUP_INTERVAL_MS :: int where
  "HELD_LOOKUP_INTERVAL_MS = 5 * 60 * 1000"

text \<open>The one-shot timer is the time it fires. A send time that does not parse gives \<open>NaN\<close>, for which no
  comparison holds and the timer fires at once.\<close>

definition scheduleOneShot :: "env \<Rightarrow> string \<Rightarrow> sched \<Rightarrow> sched" where
  "scheduleOneShot env sendAt sc =
     (case env_parse env sendAt of
        None \<Rightarrow> (case sc_oneShot sc of Some _ \<Rightarrow> sc | None \<Rightarrow> sc\<lparr>sc_oneShot := Some (env_now_ms env)\<rparr>)
      | Some t \<Rightarrow>
          (let delay = max 0 (t - env_now_ms env)
           in if 15000 < delay then sc
              else (case sc_oneShot sc of Some _ \<Rightarrow> sc
                    | None \<Rightarrow> sc\<lparr>sc_oneShot := Some (env_now_ms env + (delay + 50))\<rparr>)))"

definition near_future :: "env \<Rightarrow> held \<Rightarrow> bool" where
  "near_future env h \<longleftrightarrow> holdReason h = TimeHold
     \<and> (case env_parse env (h_sendAt h) of None \<Rightarrow> False | Some t \<Rightarrow> t - env_now_ms env < 15000)"

definition clearOneShotIfEmpty :: "env \<Rightarrow> sched \<Rightarrow> app_state \<Rightarrow> sched" where
  "clearOneShotIfEmpty env sc s =
     (if list_ex (near_future env) (obj_values (app_scheduled s)) then sc else sc\<lparr>sc_oneShot := None\<rparr>)"

definition forget :: "env \<Rightarrow> string list \<Rightarrow> app_state \<Rightarrow> unit outcome" where
  "forget env ids s =
     (if ids = [] then (Inr (), s)
      else let scheduled = foldl removeScheduled (app_scheduled s) ids
           in await (saveOutbox env scheduled s) (\<lambda>_ s. (Inr (), s\<lparr>app_scheduled := scheduled\<rparr>)))"

text \<open>With another mailbox signed in, the first of those that are not paused is brought to the front, and the switch clears the
  error line at once; otherwise the app is signed out.\<close>

definition handleAuthLoss :: "app_error \<Rightarrow> app_state \<Rightarrow> app_state" where
  "handleAuthLoss e s =
     (if e \<noteq> AuthLost then s
      else if app_account s \<noteq> None \<and> app_others s \<noteq> [] then
        (case find (\<lambda>m. \<not> om_paused m) (app_others s) of
           None \<Rightarrow> s\<lparr>app_error_text := Some (SignInAgain e)\<rparr>
         | Some m \<Rightarrow> s\<lparr>app_error_text := None, app_arriving := Some m\<rparr>)
      else s\<lparr>app_account := None, app_connected := False, app_session := None, app_identity := None,
             app_messages := [], app_error_text := Some (SignInAgain e)\<rparr>)"

text \<open>The end of the switch: the stores of the mailbox that arrives are in memory; those of the one that was left stay on disk.\<close>

definition finish_switch :: "env \<Rightarrow> app_state \<Rightarrow> app_state" where
  "finish_switch env s =
     (case app_arriving s of
        None \<Rightarrow> s
      | Some m \<Rightarrow>
          if \<not> env_arrives env then s
          else s\<lparr>app_account := Some (om_account m), app_connected := True, app_session := Some (om_session m),
                 app_identity := om_identity m, app_keyring := om_keyring m, app_invites := om_invites m,
                 app_scheduled := om_scheduled m, app_drafts := om_drafts m, app_snoozed := om_snoozed m,
                 app_messages := om_messages m, disk_keyring := om_keyring m, disk_invites := om_invites m,
                 disk_scheduled := om_scheduled m, disk_drafts := om_drafts m, disk_snoozed := om_snoozed m,
                 app_others := filter (\<lambda>o'. om_account o' \<noteq> om_account m) (app_others s), app_arriving := None,
                 app_left := app_left s @ [(case app_account s of None \<Rightarrow> [] | Some a \<Rightarrow> a, disk_scheduled s, disk_drafts s)]\<rparr>)"

definition after_attempt :: "env \<Rightarrow> (app_error, send_outcome) result \<Rightarrow> app_state \<Rightarrow> app_state" where
  "after_attempt env r s =
     (case r of Inl e \<Rightarrow> handleAuthLoss e (finish_switch env s) | Inr _ \<Rightarrow> finish_switch env s)"

subsection \<open>What the screens call\<close>

definition scheduled_item :: "env \<Rightarrow> send_input \<Rightarrow> string \<Rightarrow> held" where
  "scheduled_item env inp sendAt =
     \<lparr>h_id = (case si_id inp of None \<Rightarrow> env_outbox_id env | Some x \<Rightarrow> x), h_to = si_to inp, h_subject = si_subject inp,
      h_body = si_body inp, h_html = si_html inp, h_sendAt = sendAt, h_inReplyTo = si_inReplyTo inp,
      h_references = si_references inp, h_attachments = si_attachments inp, h_level = si_level inp,
      h_reason = Some TimeHold, h_pending = None\<rparr>"

definition scheduleSend :: "env \<Rightarrow> send_input \<Rightarrow> string \<Rightarrow> sched \<times> app_state \<Rightarrow> (app_error, unit) result \<times> sched \<times> app_state" where
  "scheduleSend env inp sendAt = (\<lambda>(sc, s).
     case discoverRecipients env (si_to inp) s of
       (Inl e, s) \<Rightarrow> (Inl e, sc, s)
     | (Inr rs, s) \<Rightarrow>
         let changed = emails_with ChangedKey rs
         in if changed \<noteq> [] then (Inl (KeyChanged changed), sc, s)
            else (case hold env (scheduled_item env inp sendAt) s of
                    (Inl e, s) \<Rightarrow> (Inl e, sc, s)
                  | (Inr _, s) \<Rightarrow> (Inr (), scheduleOneShot env sendAt sc, s)))"

definition cancelScheduled :: "env \<Rightarrow> string \<Rightarrow> sched \<times> app_state \<Rightarrow> (app_error, unit) result \<times> sched \<times> app_state" where
  "cancelScheduled env i = (\<lambda>(sc, s).
     case forget env [i] s of
       (Inl e, s) \<Rightarrow> (Inl e, sc, s)
     | (Inr _, s) \<Rightarrow> (Inr (), clearOneShotIfEmpty env sc s, s))"

text \<open>The input \<open>deliver\<close> gets for a queued message.\<close>

definition replay :: "held \<Rightarrow> send_input" where
  "replay item =
     \<lparr>si_id = Some (h_id item), si_to = h_to item, si_subject = h_subject item, si_body = h_body item,
      si_html = h_html item, si_inReplyTo = h_inReplyTo item, si_references = h_references item,
      si_attachments = h_attachments item, si_level = h_level item\<rparr>"

definition sendScheduledNow :: "env \<Rightarrow> string \<Rightarrow> app_state \<Rightarrow> send_outcome option outcome" where
  "sendScheduledNow env i s =
     (case obj_get (app_scheduled s) i of
        None \<Rightarrow> (Inr None, s)
      | Some item \<Rightarrow>
          await (deliver env ((replay item)\<lparr>si_id := Some i\<rparr>) s) (\<lambda>out s.
            if out \<noteq> Sent then (Inr (Some out), s)
            else await (forget env [i] s) (\<lambda>_ s. (Inr (Some out), s))))"

subsection \<open>Draining and the tick\<close>

text \<open>The loop of both: deliver each item, going on past what throws.\<close>

type_synonym attempt = "held \<times> (app_error, send_outcome) result"

fun deliver_each :: "(nat \<Rightarrow> env) \<Rightarrow> nat \<Rightarrow> held list \<Rightarrow> app_state \<Rightarrow> attempt list \<times> app_state" where
  "deliver_each E n [] s = ([], s)"
| "deliver_each E n (item # items) s =
     (case deliver (E n) (replay item) s of
        (r, s1) \<Rightarrow>
          (case deliver_each E (n + 1) items (after_attempt (E n) r s1) of
             (rs, s2) \<Rightarrow> ((item, r) # rs, s2)))"

definition sent_ids :: "attempt list \<Rightarrow> string list" where
  "sent_ids rs = map (h_id \<circ> fst) (filter (\<lambda>a. snd a = Inr Sent) rs)"

definition drainHeld ::
  "(string \<Rightarrow> string \<Rightarrow> int) \<Rightarrow> (nat \<Rightarrow> env) \<Rightarrow> sched \<times> app_state \<Rightarrow> (app_error, unit) result \<times> sched \<times> app_state" where
  "drainHeld lc E = (\<lambda>(sc, s).
     let waiting = filter (\<lambda>item. holdReason item = AwaitingKey \<and> h_id item \<notin> set (sc_inFlight sc))
           (listScheduled lc (app_scheduled s))
     in if waiting = [] then (Inr (), sc, s)
        else
          let ask = HELD_LOOKUP_INTERVAL_MS \<le> env_now_ms (E 0) - sc_lastRetry sc;
              sc = (if ask then sc\<lparr>sc_lastRetry := env_now_ms (E 0)\<rparr> else sc)
          in (case (if ask then
                      discover (E 0) (concat (map (\<lambda>item. stillPending item (app_keyring s) (app_identity s)) waiting)) s
                    else (Inr (app_keyring s), s)) of
                (Inl e, s) \<Rightarrow> (Inl e, sc, s)
              | (Inr _, s) \<Rightarrow>
                  let ready = filter (\<lambda>item. h_id item \<notin> set (sc_inFlight sc))
                        (resolvableHeld lc (app_scheduled s) (app_keyring s) (app_identity s))
                  in (case deliver_each E 1 ready s of
                        (rs, s) \<Rightarrow> (case forget (E (length ready + 1)) (sent_ids rs) s of
                           (r, s) \<Rightarrow> (r, sc, s)))))"

definition rescued_draft :: "env \<Rightarrow> held \<Rightarrow> app_error \<Rightarrow> draft" where
  "rescued_draft env item e =
     \<lparr>d_id = h_id item, d_to = h_to item, d_subject = h_subject item, d_body = h_body item, d_html = h_html item,
      d_attachments = h_attachments item, d_attachmentsOmitted = None, d_inReplyTo = h_inReplyTo item,
      d_references = h_references item, d_updatedAt = env_now env, d_sendError = Some (env_message env e)\<rparr>"

fun rescues :: "(nat \<Rightarrow> env) \<Rightarrow> nat \<Rightarrow> attempt list \<Rightarrow> draft list" where
  "rescues E n [] = []"
| "rescues E n ((item, Inl e) # rs) = rescued_draft (E n) item e # rescues E (n + 1) rs"
| "rescues E n ((item, Inr out) # rs) = rescues E (n + 1) rs"

fun first_error :: "attempt list \<Rightarrow> app_error option" where
  "first_error [] = None"
| "first_error ((item, Inl e) # rs) = Some e"
| "first_error ((item, Inr out) # rs) = first_error rs"

text \<open>The end of a tick: what the attempts came to is applied to the outbox and drafts of that moment.\<close>

definition settle :: "(nat \<Rightarrow> env) \<Rightarrow> attempt list \<Rightarrow> app_state \<Rightarrow> unit outcome" where
  "settle E rs s =
     (let env = E (length rs + 1);
          rescued = rescues E 1 rs;
          scheduled = foldl removeScheduled (foldl removeScheduled (app_scheduled s) (sent_ids rs)) (map d_id rescued);
          drafts = foldl upsertDraft (app_drafts s) rescued
      in await (saveOutbox env scheduled s) (\<lambda>_ s.
           await (if rescued = [] then (Inr (), s) else saveDrafts env drafts s) (\<lambda>_ s.
             (Inr (), s\<lparr>app_scheduled := scheduled, app_drafts := drafts,
                app_error_text := (if rescued = [] then app_error_text s
                                   else Some (CouldntSend (length rescued) (first_error rs)))\<rparr>))))"

definition due_items :: "(string \<Rightarrow> string \<Rightarrow> int) \<Rightarrow> (nat \<Rightarrow> env) \<Rightarrow> sched \<Rightarrow> app_state \<Rightarrow> held list" where
  "due_items lc E sc s =
     filter (\<lambda>item. h_id item \<notin> set (sc_inFlight sc)) (dueScheduled lc (app_scheduled s) (env_now (E 0)))"

definition send_due ::
  "(string \<Rightarrow> string \<Rightarrow> int) \<Rightarrow> (nat \<Rightarrow> env) \<Rightarrow> sched \<Rightarrow> app_state \<Rightarrow> unit outcome" where
  "send_due lc E sc s =
     (let due = due_items lc E sc s
      in if due = [] then (Inr (), s)
         else (case deliver_each E 1 due s of (rs, s) \<Rightarrow> settle E rs s))"

definition run ::
  "(string \<Rightarrow> string \<Rightarrow> int) \<Rightarrow> (nat \<Rightarrow> nat \<Rightarrow> env) \<Rightarrow> sched \<times> app_state \<Rightarrow> (app_error, unit) result \<times> sched \<times> app_state" where
  "run lc E = (\<lambda>(sc, s).
     case wakedue lc (E 0 0) s of
       (Inl e, s) \<Rightarrow> (Inl e, sc, s)
     | (Inr _, s) \<Rightarrow>
         (case drainHeld lc (E 1) (sc, s) of
            (Inl e, sc, s) \<Rightarrow> (Inl e, sc, s)
          | (Inr _, sc, s) \<Rightarrow> (case send_due lc (E 2) sc s of (r, s) \<Rightarrow> (r, sc, s))))"


subsection \<open>What a step keeps\<close>

text \<open>Two entries are the same message when \<open>deliver\<close> gets the same input for them; a message is kept when the
  outbox holds it under its id, for whatever reason it waits now.\<close>

definition kept :: "held \<Rightarrow> outbox \<Rightarrow> bool" where
  "kept item ob \<longleftrightarrow> (\<exists>h. obj_get ob (h_id item) = Some h \<and> replay h = replay item)"

text \<open>A message the crypto core built for it, at one of the calls \<open>W\<close>.\<close>

definition carried :: "env set \<Rightarrow> held \<Rightarrow> string \<Rightarrow> bool" where
  "carried W item m \<longleftrightarrow>
     (\<exists>env \<in> W. \<exists>session i keys level. env_build env (request session i (replay item) keys level) = Inr m)"

lemma replay_id: "replay a = replay b \<Longrightarrow> h_id a = h_id b"
  by (simp add: replay_def)

lemma carried_replay: "replay a = replay b \<Longrightarrow> carried W a m = carried W b m"
  by (simp add: carried_def)

lemma kept_in: "filed h_id ob \<Longrightarrow> x \<in> set (obj_values ob) \<Longrightarrow> kept x ob"
  unfolding kept_def using filed_in_values [of h_id ob x] by blast

lemma kept_upsert:
  "kept x ob \<Longrightarrow> replay x' = replay x \<Longrightarrow> kept y ob \<Longrightarrow> kept y (upsertScheduled ob x')"
  unfolding kept_def outbox_store.get_put using replay_id [of x' x] by (cases "h_id y = h_id x'") auto

lemma kept_same: "kept x ob \<Longrightarrow> kept y ob \<Longrightarrow> h_id x = h_id y \<Longrightarrow> replay x = replay y"
  unfolding kept_def by auto

lemma kept_remove: "kept y ob \<Longrightarrow> h_id y \<notin> set ids \<Longrightarrow> kept y (foldl removeScheduled ob ids)"
  by (simp add: kept_def outbox_store.get_rem_all)

lemma replay_held_for_key: "replay (held_for_key env (replay item) missing) = replay item"
  by (simp add: replay_def held_for_key_def)

lemma handleAuthLoss_facts [simp]:
  "app_scheduled (handleAuthLoss e s) = app_scheduled s" "app_drafts (handleAuthLoss e s) = app_drafts s"
  "app_wire (handleAuthLoss e s) = app_wire s" "app_keyring (handleAuthLoss e s) = app_keyring s"
  "disk_scheduled (handleAuthLoss e s) = disk_scheduled s" "disk_drafts (handleAuthLoss e s) = disk_drafts s"
  "app_left (handleAuthLoss e s) = app_left s"
  by (simp_all add: handleAuthLoss_def split: option.split)

text \<open>Whether the mailbox in front stays there while a loop runs.\<close>

definition front_stays :: "(nat \<Rightarrow> env) \<Rightarrow> bool" where
  "front_stays E \<longleftrightarrow> (\<forall>n. \<not> env_arrives (E n))"

lemma after_attempt_wire [simp]: "app_wire (after_attempt env r s) = app_wire s"
  by (simp add: after_attempt_def finish_switch_def split: sum.split option.split)

lemma after_attempt_facts:
  assumes "front_stays E"
  shows "app_scheduled (after_attempt (E n) r s) = app_scheduled s" "app_drafts (after_attempt (E n) r s) = app_drafts s"
    "disk_scheduled (after_attempt (E n) r s) = disk_scheduled s" "disk_drafts (after_attempt (E n) r s) = disk_drafts s"
  using assms by (simp_all add: front_stays_def after_attempt_def finish_switch_def split: sum.split option.split)

text \<open>One attempt: the outbox is as it was, or holds the same message for a key; a message that went out is on
  the wire.\<close>

lemma attempt:
  assumes "deliver env (replay item) s = (r, s')"
  shows "app_drafts s' = app_drafts s"
    and "\<exists>ms. app_wire s' = app_wire s @ ms"
    and "app_scheduled s' = app_scheduled s \<or>
      (r \<noteq> Inr Sent \<and> (\<exists>x'. replay x' = replay item \<and> app_scheduled s' = upsertScheduled (app_scheduled s) x'))"
    and "r = Inr Sent \<Longrightarrow> \<exists>m session i keys level. env_build env (request session i (replay item) keys level) = Inr m
      \<and> app_wire s' = app_wire s @ [m]"
proof -
  consider "refused s (r, s')" | "went_out env (replay item) s (r, s')" | "was_held env (replay item) s (r, s')"
    using deliver_outcome [of s env "replay item"] assms by auto
  then have "app_drafts s' = app_drafts s \<and> (\<exists>ms. app_wire s' = app_wire s @ ms)
    \<and> (app_scheduled s' = app_scheduled s \<or>
      (r \<noteq> Inr Sent \<and> (\<exists>x'. replay x' = replay item \<and> app_scheduled s' = upsertScheduled (app_scheduled s) x')))
    \<and> (r = Inr Sent \<longrightarrow> (\<exists>m session i keys level. env_build env (request session i (replay item) keys level) = Inr m
      \<and> app_wire s' = app_wire s @ [m]))"
  proof cases
    case 1
    then show ?thesis by (auto simp: refused_def same_mail_def)
  next
    case 2
    then obtain session i keys level m where m: "env_build env (request session i (replay item) keys level) = Inr m"
      and "app_scheduled s' = app_scheduled s" "app_drafts s' = app_drafts s"
      and "r = Inr Sent \<and> app_wire s' = app_wire s @ [m] \<or> (\<exists>e. r = Inl e) \<and> app_wire s' = app_wire s"
      unfolding went_out_def fst_conv snd_conv by blast
    then have "app_drafts s' = app_drafts s \<and> (\<exists>ms. app_wire s' = app_wire s @ ms) \<and> app_scheduled s' = app_scheduled s
      \<and> (r = Inr Sent \<longrightarrow> app_wire s' = app_wire s @ [m])" by auto
    then show ?thesis using m by blast
  next
    case 3
    then obtain missing where "app_scheduled s' = upsertScheduled (app_scheduled s) (held_for_key env (replay item) missing)"
      and "app_drafts s' = app_drafts s" and "\<exists>ms. app_wire s' = app_wire s @ ms" and "r \<noteq> Inr Sent"
      unfolding was_held_def extends_wire_def fst_conv snd_conv by auto
    then show ?thesis using replay_held_for_key by blast
  qed
  then show "app_drafts s' = app_drafts s" "\<exists>ms. app_wire s' = app_wire s @ ms"
    "app_scheduled s' = app_scheduled s \<or>
      (r \<noteq> Inr Sent \<and> (\<exists>x'. replay x' = replay item \<and> app_scheduled s' = upsertScheduled (app_scheduled s) x'))"
    "r = Inr Sent \<Longrightarrow> \<exists>m session i keys level. env_build env (request session i (replay item) keys level) = Inr m
      \<and> app_wire s' = app_wire s @ [m]" by blast+
qed

lemma deliver_each_facts:
  assumes "deliver_each E n items s = (rs, s')"
    and "\<forall>x \<in> set items. kept x (app_scheduled s)" and "filed h_id (app_scheduled s)" and "front_stays E"
  shows "map fst rs = items" and "app_drafts s' = app_drafts s" and "\<exists>ms. app_wire s' = app_wire s @ ms"
    and "filed h_id (app_scheduled s')"
    and "\<And>y. kept y (app_scheduled s) \<Longrightarrow> kept y (app_scheduled s')"
    and "\<And>x. (x, Inr Sent) \<in> set rs \<Longrightarrow> \<exists>m \<in> set (new_on_wire s s'). carried (range E) x m"
proof -
  have "map fst rs = items \<and> app_drafts s' = app_drafts s \<and> (\<exists>ms. app_wire s' = app_wire s @ ms)
    \<and> filed h_id (app_scheduled s') \<and> (\<forall>y. kept y (app_scheduled s) \<longrightarrow> kept y (app_scheduled s'))
    \<and> (\<forall>x. (x, Inr Sent) \<in> set rs \<longrightarrow> (\<exists>m \<in> set (new_on_wire s s'). carried (range E) x m))"
    using assms
  proof (induction E n items s arbitrary: rs s' rule: deliver_each.induct)
    case (1 E n s)
    then show ?case by (auto intro: exI [of _ "[]"])
  next
    case (2 E n item items s)
    obtain r s1 where d: "deliver (E n) (replay item) s = (r, s1)" by fastforce
    define s2 where "s2 = after_attempt (E n) r s1"
    obtain rs1 s3 where l: "deliver_each E (n + 1) items s2 = (rs1, s3)" by fastforce
    have out: "rs = (item, r) # rs1" "s' = s3" using 2(2) d l by (auto simp: s2_def)
    note at = attempt [OF d]
    have s2: "app_scheduled s2 = app_scheduled s1" "app_drafts s2 = app_drafts s1" "app_wire s2 = app_wire s1"
      using after_attempt_facts [OF 2(5)] by (simp_all add: s2_def)
    have item: "kept item (app_scheduled s)" using 2(3) by simp
    have keep: "kept y (app_scheduled s2)" if "kept y (app_scheduled s)" for y
      using at(3) s2(1) that kept_upsert [OF item _ that] by metis
    have filed: "filed h_id (app_scheduled s2)"
      using at(3) s2(1) 2(4) outbox_store.filed_put by metis
    have IH: "map fst rs1 = items \<and> app_drafts s3 = app_drafts s2 \<and> (\<exists>ms. app_wire s3 = app_wire s2 @ ms)
      \<and> filed h_id (app_scheduled s3) \<and> (\<forall>y. kept y (app_scheduled s2) \<longrightarrow> kept y (app_scheduled s3))
      \<and> (\<forall>x. (x, Inr Sent) \<in> set rs1 \<longrightarrow> (\<exists>m \<in> set (new_on_wire s2 s3). carried (range E) x m))"
      using 2(1) [OF d [symmetric], folded s2_def, OF l] 2(3,5) keep filed by simp
    obtain ms1 where w1: "app_wire s2 = app_wire s @ ms1" using at(2) s2(3) by auto
    obtain ms2 where w2: "app_wire s3 = app_wire s2 @ ms2" using IH by blast
    have sub: "set (new_on_wire s s2) \<union> set (new_on_wire s2 s3) = set (new_on_wire s s3)"
      using w1 w2 by (auto simp: new_on_wire_def)
    have first: "\<exists>m \<in> set (new_on_wire s s2). carried (range E) item m" if "r = Inr Sent"
    proof -
      from at(4) [OF that] obtain m where m: "carried (range E) item m" "app_wire s1 = app_wire s @ [m]"
        unfolding carried_def by blast
      then have "m \<in> set (new_on_wire s s2)" using s2(3) by (simp add: new_on_wire_def)
      then show ?thesis using m(1) by blast
    qed
    have sent: "\<exists>m \<in> set (new_on_wire s s3). carried (range E) x m" if "(x, Inr Sent) \<in> set rs" for x
    proof (cases "(x, Inr Sent) \<in> set rs1")
      case True
      then show ?thesis using IH sub by blast
    next
      case False
      then have "x = item" "r = Inr Sent" using that out(1) by auto
      then show ?thesis using first sub by blast
    qed
    show ?case unfolding out(2) using IH keep at(1) s2(2) w1 w2 sent out(1) by auto
  qed
  then show "map fst rs = items" "app_drafts s' = app_drafts s" "\<exists>ms. app_wire s' = app_wire s @ ms"
    "filed h_id (app_scheduled s')" "\<And>y. kept y (app_scheduled s) \<Longrightarrow> kept y (app_scheduled s')"
    "\<And>x. (x, Inr Sent) \<in> set rs \<Longrightarrow> \<exists>m \<in> set (new_on_wire s s'). carried (range E) x m" by blast+
qed

text \<open>Where a message that was in the outbox can be later: still in it, on the wire, or among the drafts.\<close>

definition draft_of :: "held \<Rightarrow> draft \<Rightarrow> bool" where
  "draft_of item d \<longleftrightarrow> d_id d = h_id item \<and> d_to d = h_to item \<and> d_subject d = h_subject item \<and> d_body d = h_body item
     \<and> d_html d = h_html item \<and> d_attachments d = h_attachments item \<and> d_inReplyTo d = h_inReplyTo item
     \<and> d_references d = h_references item \<and> d_sendError d \<noteq> None"

definition accounted :: "env set \<Rightarrow> held \<Rightarrow> app_state \<Rightarrow> app_state \<Rightarrow> bool" where
  "accounted W item s s' \<longleftrightarrow> kept item (app_scheduled s') \<or> (\<exists>m \<in> set (new_on_wire s s'). carried W item m)
     \<or> (\<exists>d. obj_get (app_drafts s') (h_id item) = Some d \<and> draft_of item d)"

lemma draft_of_replay: "replay x = replay y \<Longrightarrow> draft_of x d = draft_of y d"
  by (auto simp: replay_def draft_of_def)

lemma forget_facts:
  assumes "forget env ids s = (r, s')"
  shows "app_drafts s' = app_drafts s" "app_wire s' = app_wire s" "filed h_id (app_scheduled s) \<Longrightarrow> filed h_id (app_scheduled s')"
    and "app_scheduled s' = app_scheduled s \<or> app_scheduled s' = foldl removeScheduled (app_scheduled s) ids"
    and "r = Inr () \<Longrightarrow> app_scheduled s' = foldl removeScheduled (app_scheduled s) ids"
  using assms outbox_store.filed_rem_all
  by (auto simp: forget_def saveOutbox_def Let_def split: if_splits option.splits)

lemma sent_ids_in: "i \<in> set (sent_ids rs) \<longleftrightarrow> (\<exists>x. (x, Inr Sent) \<in> set rs \<and> h_id x = i)"
  by (force simp: sent_ids_def)

text \<open>Removing what was sent loses nothing.\<close>

lemma forget_accounted:
  assumes d: "deliver_each E n items s = (rs, s1)" and f: "forget env (sent_ids rs) s1 = (r, s2)"
    and items: "\<forall>x \<in> set items. kept x (app_scheduled s)" and st: "filed h_id (app_scheduled s)"
    and y: "kept y (app_scheduled s)" and stays: "front_stays E"
  shows "kept y (app_scheduled s2) \<or> (\<exists>m \<in> set (new_on_wire s s2). carried (range E) y m)"
proof -
  note de = deliver_each_facts [OF d items st stays] and fo = forget_facts [OF f]
  have new: "new_on_wire s s2 = new_on_wire s s1" using fo(2) by (simp add: new_on_wire_def)
  have y1: "kept y (app_scheduled s1)" using de(5) y .
  show ?thesis
  proof (cases "h_id y \<in> set (sent_ids rs)")
    case False
    then show ?thesis using fo(4) y1 kept_remove by metis
  next
    case True
    then obtain x where x: "(x, Inr Sent) \<in> set rs" "h_id x = h_id y" by (auto simp: sent_ids_in)
    then have "x \<in> set items" using de(1) by (metis fst_conv image_eqI list.set_map)
    then have "kept x (app_scheduled s)" using items by blast
    then have "replay x = replay y" using kept_same [OF _ y x(2)] by blast
    then show ?thesis using de(6) [OF x(1)] carried_replay new by metis
  qed
qed

lemma rescues_facts:
  "\<forall>d \<in> set (rescues E n rs). \<exists>x e k. (x, Inl e) \<in> set rs \<and> d = rescued_draft (E k) x e"
  "(x, Inl e) \<in> set rs \<Longrightarrow> \<exists>d \<in> set (rescues E n rs). d_id d = h_id x"
proof -
  show "\<forall>d \<in> set (rescues E n rs). \<exists>x e k. (x, Inl e) \<in> set rs \<and> d = rescued_draft (E k) x e"
    by (induction E n rs rule: rescues.induct) (simp_all, blast+)
  show "(x, Inl e) \<in> set rs \<Longrightarrow> \<exists>d \<in> set (rescues E n rs). d_id d = h_id x"
    by (induction E n rs rule: rescues.induct) (auto simp: rescued_draft_def)
qed

lemma rescued_draft_id [simp]: "d_id (rescued_draft env x e) = h_id x"
  by (simp add: rescued_draft_def)

lemma draft_of_rescued: "draft_of x (rescued_draft env x e)"
  by (simp add: draft_of_def rescued_draft_def)

lemma draft_of_id: "draft_of x d \<Longrightarrow> d_id d = h_id x"
  by (simp add: draft_of_def)

definition settled_outbox :: "(nat \<Rightarrow> env) \<Rightarrow> attempt list \<Rightarrow> outbox \<Rightarrow> outbox" where
  "settled_outbox E rs ob = foldl removeScheduled (foldl removeScheduled ob (sent_ids rs)) (map d_id (rescues E 1 rs))"

lemma settle_facts:
  assumes "settle E rs s = (r, s')"
  shows "app_wire s' = app_wire s"
    and "r = Inr () \<and> app_scheduled s' = settled_outbox E rs (app_scheduled s)
        \<and> app_drafts s' = foldl upsertDraft (app_drafts s) (rescues E 1 rs)
      \<or> (\<exists>e. r = Inl e) \<and> app_scheduled s' = app_scheduled s \<and> app_drafts s' = app_drafts s"
  using assms
  by (auto simp: settle_def settled_outbox_def saveOutbox_def saveDrafts_def Let_def split: if_splits option.splits)

lemma settle_accounted:
  assumes d: "deliver_each E n items s = (rs, s1)" and f: "settle E' rs s1 = (r, s2)"
    and items: "\<forall>x \<in> set items. kept x (app_scheduled s)" and st: "filed h_id (app_scheduled s)"
    and y: "kept y (app_scheduled s)" and stays: "front_stays E"
  shows "accounted (range E) y s s2"
proof -
  note de = deliver_each_facts [OF d items st stays] and se = settle_facts [OF f]
  have new: "new_on_wire s s2 = new_on_wire s s1" using se(1) by (simp add: new_on_wire_def)
  have y1: "kept y (app_scheduled s1)" using de(5) y .
  have same: "replay x = replay y" if "(x, a) \<in> set rs" "h_id x = h_id y" for x a
  proof -
    have "x \<in> set items" using de(1) that(1) by (metis fst_conv image_eqI list.set_map)
    then show ?thesis using items kept_same [OF _ y that(2)] by blast
  qed
  consider "\<exists>e. r = Inl e" | "r = Inr ()" using se(2) by blast
  then show ?thesis
  proof cases
    case 1
    then show ?thesis using se(2) y1 by (auto simp: accounted_def)
  next
    case 2
    then have ob: "app_scheduled s2 = settled_outbox E' rs (app_scheduled s1)"
      and dr: "app_drafts s2 = foldl upsertDraft (app_drafts s1) (rescues E' 1 rs)" using se(2) by auto
    consider "\<exists>x. (x, Inr Sent) \<in> set rs \<and> h_id x = h_id y" | "\<exists>d \<in> set (rescues E' 1 rs). d_id d = h_id y"
      | "h_id y \<notin> set (sent_ids rs)" "h_id y \<notin> set (map d_id (rescues E' 1 rs))"
      using sent_ids_in by fastforce
    then show ?thesis
    proof cases
      case 1
      then show ?thesis using same carried_replay de(6) new unfolding accounted_def by metis
    next
      case 2
      have "\<forall>d \<in> set (rescues E' 1 rs). d_id d = h_id y \<longrightarrow> draft_of y d"
        using rescues_facts(1) [of E' 1 rs] same draft_of_replay draft_of_id draft_of_rescued by metis
      then show ?thesis using draft_store.get_put_some 2 dr unfolding accounted_def by metis
    next
      case 3
      then show ?thesis using y1 ob kept_remove unfolding accounted_def settled_outbox_def by metis
    qed
  qed
qed

lemma accounted_trans:
  assumes "\<And>y. kept y (app_scheduled s) \<Longrightarrow> kept y (app_scheduled s') \<or> (\<exists>m \<in> set (new_on_wire s s'). carried V y m)"
    and "\<And>y. kept y (app_scheduled s') \<Longrightarrow> accounted W y s' s''" and "kept y (app_scheduled s)"
    and "\<exists>ms. app_wire s' = app_wire s @ ms" and "\<exists>ms. app_wire s'' = app_wire s' @ ms" and "V \<subseteq> U" and "W \<subseteq> U"
  shows "accounted U y s s''"
proof -
  have "set (new_on_wire s s'') = set (new_on_wire s s') \<union> set (new_on_wire s' s'')"
    using assms(4,5) by (auto simp: new_on_wire_def)
  moreover have "carried V y m \<Longrightarrow> carried U y m" "carried W y m \<Longrightarrow> carried U y m" for m
    using assms(6,7) unfolding carried_def by blast+
  ultimately show ?thesis using assms(1) [OF assms(3)] assms(2) [of y] unfolding accounted_def by blast
qed

lemma wakedue_facts:
  assumes "wakedue lc env s = (r, s')"
  shows "app_scheduled s' = app_scheduled s" "app_drafts s' = app_drafts s" "app_wire s' = app_wire s"
    "app_account s' = app_account s"
  using assms
  by (auto simp: wakedue_def persist_snoozes_def saveSnoozes_def Let_def split: if_splits option.splits)

lemma drainHeld_accounted:
  assumes out: "drainHeld lc E (sc, s) = (r, sc', s')" and st: "filed h_id (app_scheduled s)" and stays: "front_stays E"
  shows "filed h_id (app_scheduled s') \<and> (\<exists>ms. app_wire s' = app_wire s @ ms) \<and> app_drafts s' = app_drafts s
    \<and> (\<forall>y. kept y (app_scheduled s) \<longrightarrow> kept y (app_scheduled s') \<or> (\<exists>m \<in> set (new_on_wire s s'). carried (range E) y m))"
proof -
  let ?wait = "filter (\<lambda>item. holdReason item = AwaitingKey \<and> h_id item \<notin> set (sc_inFlight sc)) (listScheduled lc (app_scheduled s))"
  show ?thesis
  proof (cases "?wait = []")
    case True
    then show ?thesis using out st by (simp add: drainHeld_def)
  next
    case False
    define ask where "ask = (HELD_LOOKUP_INTERVAL_MS \<le> env_now_ms (E 0) - sc_lastRetry sc)"
    define asked where "asked = (if ask then discover (E 0)
      (concat (map (\<lambda>item. stillPending item (app_keyring s) (app_identity s)) ?wait)) s else (Inr (app_keyring s), s))"
    obtain d s1 where d: "asked = (d, s1)" by fastforce
    have sm: "same_mail s s1"
      using d discover_facts(1) [of "E 0" _ s d s1] by (auto simp: asked_def same_mail_def split: if_splits)
    show ?thesis
    proof (cases d)
      case (Inl e)
      then have "s' = s1" using out False d by (simp add: drainHeld_def Let_def asked_def ask_def split: if_splits)
      then show ?thesis using sm st by (simp add: same_mail_def)
    next
      case (Inr ring)
      define ready where "ready = filter (\<lambda>item. h_id item \<notin> set (sc_inFlight sc))
        (resolvableHeld lc (app_scheduled s1) (app_keyring s1) (app_identity s1))"
      obtain rs s2 where l: "deliver_each E 1 ready s1 = (rs, s2)" by fastforce
      obtain q s3 where f: "forget (E (length ready + 1)) (sent_ids rs) s2 = (q, s3)" by fastforce
      have s': "s' = s3"
        using out False d l f Inr
        by (auto simp: drainHeld_def Let_def asked_def ask_def ready_def split: if_splits)
      have st1: "filed h_id (app_scheduled s1)" using sm st by (simp add: same_mail_def)
      have ready: "\<forall>x \<in> set ready. kept x (app_scheduled s1)"
        using kept_in [OF st1] unfolding ready_def resolvableHeld_def by auto
      note de = deliver_each_facts [OF l ready st1 stays] and fo = forget_facts [OF f]
      have new: "new_on_wire s s3 = new_on_wire s1 s3" using sm by (simp add: new_on_wire_def same_mail_def)
      show ?thesis
        using forget_accounted [OF l f ready st1 _ stays] de fo sm new unfolding s' same_mail_def by simp
    qed
  qed
qed

lemma send_due_accounted:
  assumes out: "send_due lc E sc s = (r, s')" and st: "filed h_id (app_scheduled s)" and y: "kept y (app_scheduled s)"
    and stays: "front_stays E"
  shows "accounted (range E) y s s' \<and> (\<exists>ms. app_wire s' = app_wire s @ ms)"
proof -
  define due where "due = due_items lc E sc s"
  show ?thesis
  proof (cases "due = []")
    case True
    then show ?thesis using out y by (simp add: send_due_def due_def accounted_def)
  next
    case False
    obtain rs s1 where l: "deliver_each E 1 due s = (rs, s1)" by fastforce
    have se: "settle E rs s1 = (r, s')" using out False l by (simp add: send_due_def due_def)
    have due: "\<forall>x \<in> set due. kept x (app_scheduled s)"
      using kept_in [OF st] unfolding due_def due_items_def dueScheduled_def by auto
    show ?thesis
      using settle_accounted [OF l se due st y stays] deliver_each_facts(3) [OF l due st stays] settle_facts(1) [OF se] by simp
  qed
qed

lemma deliver_each_wire: "deliver_each E n items s = (rs, s') \<Longrightarrow> \<exists>ms. app_wire s' = app_wire s @ ms"
proof (induction E n items s arbitrary: rs s' rule: deliver_each.induct)
  case (2 E n item items s)
  obtain r s1 where d: "deliver (E n) (replay item) s = (r, s1)" by fastforce
  define s2 where "s2 = after_attempt (E n) r s1"
  obtain rs1 s3 where l: "deliver_each E (n + 1) items s2 = (rs1, s3)" by fastforce
  have "app_wire s2 = app_wire s1" by (simp add: s2_def)
  moreover have "s' = s3" using 2(2) d l by (auto simp: s2_def)
  ultimately show ?case
    using attempt(2) [OF d] 2(1) [OF d [symmetric], folded s2_def, OF l] by auto
qed (auto intro: exI [of _ "[]"])

lemma send_due_wire: "send_due lc E sc s = (r, s') \<Longrightarrow> \<exists>ms. app_wire s' = app_wire s @ ms"
  using deliver_each_wire settle_facts(1) by (fastforce simp: send_due_def Let_def split: if_splits prod.splits)

lemma attempt_queued:
  assumes "deliver env (replay item) s = (Inr (Queued missing), s')"
  shows "\<exists>x'. h_id x' = h_id item \<and> replay x' = replay item \<and> holdReason x' = AwaitingKey
    \<and> app_scheduled s' = upsertScheduled (app_scheduled s) x'"
proof -
  have "was_held env (replay item) s (Inr (Queued missing), s')"
    using deliver_outcome [of s env "replay item"] assms by (auto simp: refused_def went_out_def)
  then obtain ms where "app_scheduled s' = upsertScheduled (app_scheduled s) (held_for_key env (replay item) ms)"
    unfolding was_held_def by auto
  moreover have "holdReason (held_for_key env (replay item) ms) = AwaitingKey"
    by (simp add: held_for_key_def holdReason_def)
  ultimately show ?thesis using replay_held_for_key [of env item ms] replay_id by blast
qed

lemma deliver_each_entries:
  assumes "deliver_each E n items s = (rs, s')" and "distinct (map h_id items)" and "front_stays E"
  shows "\<And>k. k \<notin> h_id ` set items \<Longrightarrow> obj_get (app_scheduled s') k = obj_get (app_scheduled s) k"
    and "\<And>x ms. (x, Inr (Queued ms)) \<in> set rs \<Longrightarrow>
      \<exists>h. obj_get (app_scheduled s') (h_id x) = Some h \<and> replay h = replay x \<and> holdReason h = AwaitingKey"
proof -
  have "(\<forall>k. k \<notin> h_id ` set items \<longrightarrow> obj_get (app_scheduled s') k = obj_get (app_scheduled s) k)
    \<and> (\<forall>x ms. (x, Inr (Queued ms)) \<in> set rs \<longrightarrow>
      (\<exists>h. obj_get (app_scheduled s') (h_id x) = Some h \<and> replay h = replay x \<and> holdReason h = AwaitingKey))"
    using assms
  proof (induction E n items s arbitrary: rs s' rule: deliver_each.induct)
    case (1 E n s)
    then show ?case by simp
  next
    case (2 E n item items s)
    obtain r s1 where d: "deliver (E n) (replay item) s = (r, s1)" by fastforce
    define s2 where "s2 = after_attempt (E n) r s1"
    obtain rs1 s3 where l: "deliver_each E (n + 1) items s2 = (rs1, s3)" by fastforce
    have out: "rs = (item, r) # rs1" "s' = s3" using 2(2) d l by (auto simp: s2_def)
    have s2: "app_scheduled s2 = app_scheduled s1" using after_attempt_facts [OF 2(4)] by (simp add: s2_def)
    have IH: "(\<forall>k. k \<notin> h_id ` set items \<longrightarrow> obj_get (app_scheduled s3) k = obj_get (app_scheduled s2) k)
      \<and> (\<forall>x ms. (x, Inr (Queued ms)) \<in> set rs1 \<longrightarrow>
        (\<exists>h. obj_get (app_scheduled s3) (h_id x) = Some h \<and> replay h = replay x \<and> holdReason h = AwaitingKey))"
      using 2(1) [OF d [symmetric], folded s2_def, OF l] 2(3,4) by simp
    have item: "h_id item \<notin> h_id ` set items" using 2(3) by (auto simp: image_iff)
    have other: "obj_get (app_scheduled s2) k = obj_get (app_scheduled s) k" if k: "k \<noteq> h_id item" for k
    proof -
      from attempt(3) [OF d] consider "app_scheduled s1 = app_scheduled s"
        | x' where "replay x' = replay item" "app_scheduled s1 = upsertScheduled (app_scheduled s) x'" by blast
      then show ?thesis
      proof cases
        case 2
        then show ?thesis using k s2 replay_id [OF 2(1)] by (simp add: outbox_store.get_put)
      qed (simp add: s2)
    qed
    have queued: "\<exists>h. obj_get (app_scheduled s3) (h_id item) = Some h \<and> replay h = replay item \<and> holdReason h = AwaitingKey"
      if r: "r = Inr (Queued ms)" for ms
    proof -
      obtain x' where "h_id x' = h_id item" "replay x' = replay item" "holdReason x' = AwaitingKey"
        "app_scheduled s1 = upsertScheduled (app_scheduled s) x'"
        using attempt_queued [OF d [unfolded r]] by blast
      then show ?thesis using IH item s2 by (simp add: outbox_store.get_put)
    qed
    show ?case unfolding out
    proof (intro conjI allI impI)
      fix k assume "k \<notin> h_id ` set (item # items)"
      then show "obj_get (app_scheduled s3) k = obj_get (app_scheduled s) k" using IH other by simp
    next
      fix x ms assume "(x, Inr (Queued ms)) \<in> set ((item, r) # rs1)"
      then show "\<exists>h. obj_get (app_scheduled s3) (h_id x) = Some h \<and> replay h = replay x \<and> holdReason h = AwaitingKey"
        using IH queued by auto
    qed
  qed
  then show "\<And>k. k \<notin> h_id ` set items \<Longrightarrow> obj_get (app_scheduled s') k = obj_get (app_scheduled s) k"
    "\<And>x ms. (x, Inr (Queued ms)) \<in> set rs \<Longrightarrow>
      \<exists>h. obj_get (app_scheduled s') (h_id x) = Some h \<and> replay h = replay x \<and> holdReason h = AwaitingKey" by blast+
qed

lemma await_account:
  "app_account (snd r) = a \<Longrightarrow> (\<And>x s. app_account s = a \<Longrightarrow> app_account (snd (k x s)) = a) \<Longrightarrow>
   app_account (snd (await r k)) = a"
  by (rule await_cases) auto

lemma sendInvites_account: "app_account (snd (sendInvites env emails s)) = app_account s"
proof (cases "\<exists>session i. app_session s = Some session \<and> app_identity s = Some i")
  case True
  then obtain session i where si: "app_session s = Some session" "app_identity s = Some i" by blast
  obtain q s' where "sendInvites env emails s = (q, s')" by fastforce
  from sendInvites_facts [OF this si] this show ?thesis by simp
next
  case False
  then show ?thesis by (auto simp: sendInvites_def split: option.splits bool.splits)
qed

lemma deliver_account: "app_account (snd (deliver env inp s)) = app_account s"
proof -
  have disc: "app_account (snd (discoverRecipients env es s)) = app_account s" for es
    using discoverRecipients_facts(1) [of env es s "fst (discoverRecipients env es s)"] by (simp add: same_mail_def)
  have hold: "app_account (snd (hold env x s)) = app_account s" for x s
    using hold_facts(5) [of env x s] by (cases "hold env x s") simp
  have tr: "app_account (snd (transmit_or_throw env m s)) = app_account s" for m s
    by (auto simp: transmit_or_throw_def transmit_def)
  have ar: "app_account (snd (archiveMail env m d s)) = app_account s" for m d s
    by (simp add: archiveMail_def)
  have "app_account (snd (deliver_pgp env session i inp s)) = app_account s" for session i
    unfolding deliver_pgp_def
    by (rule await_account [OF disc])
       (auto simp: Let_def hold sendInvites_account tr split: sum.splits intro!: await_account)
  moreover have "app_account (snd (deliver_quantum env session i inp s)) = app_account s" for session i
  proof (cases "si_to inp = []")
    case False
    then show ?thesis unfolding deliver_quantum_def if_not_P [OF False]
      by (intro await_account [OF disc]) (auto simp: Let_def ar tr split: sum.splits intro!: await_account)
  qed (simp add: deliver_quantum_def)
  ultimately show ?thesis by (auto simp: deliver_def split: option.splits bool.splits)
qed
subsection \<open>Memory and disk\<close>

text \<open>Whether the outbox and the drafts on disk are those in memory.\<close>

definition mirrored :: "app_state \<Rightarrow> bool" where
  "mirrored s \<longleftrightarrow> disk_scheduled s = app_scheduled s \<and> disk_drafts s = app_drafts s"

lemma await_mirrored:
  "mirrored (snd r) \<Longrightarrow> (\<And>x s. mirrored s \<Longrightarrow> mirrored (snd (k x s))) \<Longrightarrow> mirrored (snd (await r k))"
  by (rule await_cases) auto

lemma hold_mirrored: "mirrored s \<Longrightarrow> mirrored (snd (hold env x s))"
  by (auto simp: mirrored_def hold_def saveOutbox_def Let_def split: option.split)

lemma transmit_mirrored: "mirrored s \<Longrightarrow> mirrored (snd (transmit_or_throw env m s))"
  by (auto simp: mirrored_def transmit_or_throw_def transmit_def)

lemma archive_mirrored: "mirrored s \<Longrightarrow> mirrored (snd (archiveMail env m d s))"
  by (simp add: mirrored_def archiveMail_def)

lemma same_mail_mirrored: "same_mail s s' \<Longrightarrow> mirrored s' = mirrored s"
  by (auto simp: same_mail_def mirrored_def)

lemma discover_mirrored: "mirrored s \<Longrightarrow> mirrored (snd (discoverRecipients env es s))"
  using same_mail_mirrored discoverRecipients_facts(1) [of env es s] by (metis prod.collapse)

lemma invites_mirrored:
  assumes "mirrored s"
  shows "mirrored (snd (sendInvites env es s))"
proof -
  have one: "mirrored (snd (invite_one env session i acc e))" if "mirrored (snd acc)" for session i acc e
    using that by (cases acc) (auto simp: mirrored_def invite_one_def transmit_def split: prod.split)
  have all: "mirrored (snd (foldl (invite_one env session i) acc es))" if "mirrored (snd acc)" for session i acc
    using that by (induction es arbitrary: acc) (simp_all add: one)
  have log: "mirrored t \<Longrightarrow> mirrored (snd (saveInvites env l t))" for l t
    by (simp add: mirrored_def saveInvites_def split: option.split)
  have "mirrored (snd (await (saveInvites env l t) (\<lambda>_ s. (Inr (), s\<lparr>app_invites := l\<rparr>))))" if "mirrored t" for l t
    using log [OF that, of l] by (rule await_mirrored) (simp add: mirrored_def)
  moreover have "mirrored t" if "foldl (invite_one env session i) ((app_invites s, False), s) es = (lc, t)" for session i lc t
    using all [of "((app_invites s, False), s)" session i] that assms by simp
  ultimately show ?thesis using assms by (auto simp: sendInvites_def split: option.split bool.split prod.split)
qed

lemma deliver_mirrored: "mirrored s \<Longrightarrow> mirrored (snd (deliver env inp s))"
proof -
  assume m: "mirrored s"
  have "mirrored (snd (deliver_pgp env session i inp s))" for session i
    unfolding deliver_pgp_def
    by (rule await_mirrored [OF discover_mirrored [OF m]])
       (auto simp: Let_def hold_mirrored invites_mirrored transmit_mirrored split: sum.splits intro!: await_mirrored)
  moreover have "mirrored (snd (deliver_quantum env session i inp s))" for session i
  proof (cases "si_to inp = []")
    case False
    then show ?thesis unfolding deliver_quantum_def if_not_P [OF False]
      by (intro await_mirrored [OF discover_mirrored [OF m]])
         (auto simp: Let_def archive_mirrored transmit_mirrored split: sum.splits intro!: await_mirrored)
  qed (simp add: deliver_quantum_def m)
  ultimately show ?thesis using m by (auto simp: deliver_def split: option.splits bool.splits)
qed

lemma deliver_each_mirrored:
  "front_stays E \<Longrightarrow> mirrored s \<Longrightarrow> mirrored (snd (deliver_each E n items s))"
proof (induction E n items s rule: deliver_each.induct)
  case (2 E n item items s)
  obtain r s1 where d: "deliver (E n) (replay item) s = (r, s1)" by fastforce
  have "mirrored (after_attempt (E n) r s1)"
    using deliver_mirrored [OF 2(3), of "E n" "replay item"] after_attempt_facts [OF 2(2)] by (simp add: d mirrored_def)
  from 2(1) [OF d [symmetric] 2(2) this] show ?case by (simp add: d case_prod_beta)
qed simp

lemma forget_mirrored: "mirrored s \<Longrightarrow> mirrored (snd (forget env ids s))"
  by (auto simp: mirrored_def forget_def saveOutbox_def Let_def split: option.split)

lemma drainHeld_mirrored:
  assumes out: "drainHeld lc E (sc, s) = (r, sc', s')" and "front_stays E" and m: "mirrored s"
  shows "mirrored s'"
proof (cases "filter (\<lambda>item. holdReason item = AwaitingKey \<and> h_id item \<notin> set (sc_inFlight sc)) (listScheduled lc (app_scheduled s)) = []")
  case True
  then show ?thesis using out m by (simp add: drainHeld_def)
next
  case False
  have asked: "mirrored (snd (discover (E 0) es s))" for es
    using same_mail_mirrored discover_facts(1) [of "E 0" es s] m by (metis prod.collapse)
  have rest: "mirrored (snd (forget env (sent_ids (fst (deliver_each E 1 items t))) (snd (deliver_each E 1 items t))))"
    if "mirrored t" for env items t
    using deliver_each_mirrored [OF assms(2) that] by (rule forget_mirrored)
  show ?thesis
    using out False asked rest m
    by (auto simp: drainHeld_def Let_def case_prod_beta split: sum.splits if_splits prod.splits)
qed

lemma settle_mirrored:
  assumes "settle E rs s = (r, s')" and "mirrored s"
  shows "mirrored s' \<or> r = Inl StorageFailed \<and> \<not> env_store_ok (E (length rs + 1)) DraftsStore"
  using assms
  by (auto simp: mirrored_def settle_def saveOutbox_def saveDrafts_def writes_def Let_def split: if_splits)

lemma send_due_mirrored:
  assumes "send_due lc E sc s = (r, s')" and "front_stays E" and "mirrored s"
  shows "mirrored s' \<or> r = Inl StorageFailed \<and> (\<exists>n. \<not> env_store_ok (E n) DraftsStore)"
proof (cases "due_items lc E sc s = []")
  case True
  then show ?thesis using assms by (simp add: send_due_def)
next
  case False
  obtain rs s1 where l: "deliver_each E 1 (due_items lc E sc s) s = (rs, s1)" by fastforce
  then have "settle E rs s1 = (r, s')" using assms(1) False by (simp add: send_due_def)
  moreover have "mirrored s1" using deliver_each_mirrored [OF assms(2,3), of 1 "due_items lc E sc s"] l by simp
  ultimately show ?thesis using settle_mirrored by blast
qed

lemma wakedue_mirrored: "mirrored s \<Longrightarrow> mirrored (snd (wakedue lc env s))"
  by (auto simp: mirrored_def wakedue_def persist_snoozes_def saveSnoozes_def Let_def split: option.split)
subsection \<open>What a delivery leaves to the switch\<close>

definition switching :: "app_state \<Rightarrow> other_mailbox list \<times> other_mailbox option \<times> (string \<times> outbox \<times> drafts) list" where
  "switching s = (app_others s, app_arriving s, app_left s)"

lemma switching_simps [simp]:
  "switching (s\<lparr>app_keyring := k\<rparr>) = switching s" "switching (s\<lparr>disk_keyring := k\<rparr>) = switching s"
  "switching (s\<lparr>app_discovering := d\<rparr>) = switching s" "switching (s\<lparr>app_undiscoverable := d\<rparr>) = switching s"
  "switching (s\<lparr>app_scheduled := ob\<rparr>) = switching s" "switching (s\<lparr>disk_scheduled := ob\<rparr>) = switching s"
  "switching (s\<lparr>app_invites := l\<rparr>) = switching s" "switching (s\<lparr>disk_invites := l\<rparr>) = switching s"
  "switching (s\<lparr>app_archive := a\<rparr>) = switching s" "switching (s\<lparr>app_tries := n\<rparr>) = switching s"
  "switching (s\<lparr>app_wire := w\<rparr>) = switching s"
  by (simp_all add: switching_def)

lemma await_switching:
  "switching (snd r) = x \<Longrightarrow> (\<And>y s. switching s = x \<Longrightarrow> switching (snd (k y s)) = x) \<Longrightarrow> switching (snd (await r k)) = x"
  by (rule await_cases) auto

lemma discover_switching: "switching (snd (discoverRecipients env es s)) = switching s"
proof -
  have "switching (snd (saveKeyring env ring s)) = switching s" for ring s
    by (simp add: saveKeyring_def split: option.split)
  then have "switching (snd (commitKeyring env ring s)) = switching s" for ring s
    by (auto simp: commitKeyring_def intro!: await_switching)
  then have "switching (snd (discover env es s)) = switching s"
    by (simp add: discover_def Let_def split: prod.split) (metis snd_conv switching_simps(3))
  then show ?thesis unfolding discoverRecipients_def by (rule await_switching) simp
qed

lemma invites_switching: "switching (snd (sendInvites env es s)) = switching s"
proof -
  have one: "switching (snd (invite_one env session i acc e)) = switching (snd acc)" for session i acc e
    by (cases acc) (auto simp: invite_one_def transmit_def)
  have all: "switching (snd (foldl (invite_one env session i) acc es)) = switching (snd acc)" for session i acc
    by (induction es arbitrary: acc) (simp_all add: one)
  have "switching (snd (saveInvites env l t)) = switching t" for l t
    by (simp add: saveInvites_def split: option.split)
  then have log: "switching (snd (await (saveInvites env l t) (\<lambda>_ s. (Inr (), s\<lparr>app_invites := l\<rparr>)))) = switching t" for l t
    by (rule await_switching) simp
  have "switching t = switching s" if "foldl (invite_one env session i) ((app_invites s, False), s) es = (lc, t)" for session i lc t
    using all [of session i "((app_invites s, False), s)"] that by simp
  then show ?thesis by (auto simp: sendInvites_def log split: option.split bool.split prod.split)
qed

lemma deliver_keeps_switch: "switching (snd (deliver env inp s)) = switching s"
proof -
  have hold: "switching (snd (hold env x s)) = switching s" for x s
    by (auto simp: hold_def saveOutbox_def Let_def split: option.split)
  have tr: "switching (snd (transmit_or_throw env m s)) = switching s" for m s
    by (auto simp: transmit_or_throw_def transmit_def)
  have ar: "switching (snd (archiveMail env m d s)) = switching s" for m d s
    by (simp add: archiveMail_def)
  have "switching (snd (deliver_pgp env session i inp s)) = switching s" for session i
    unfolding deliver_pgp_def
    by (rule await_switching [OF discover_switching])
       (auto simp: Let_def hold invites_switching tr split: sum.splits intro!: await_switching)
  moreover have "switching (snd (deliver_quantum env session i inp s)) = switching s" for session i
  proof (cases "si_to inp = []")
    case False
    then show ?thesis unfolding deliver_quantum_def if_not_P [OF False]
      by (intro await_switching [OF discover_switching]) (auto simp: Let_def ar tr split: sum.splits intro!: await_switching)
  qed (simp add: deliver_quantum_def)
  ultimately show ?thesis by (auto simp: deliver_def split: option.splits bool.splits)
qed

lemma deliver_switch:
  "app_others (snd (deliver env inp s)) = app_others s" "app_arriving (snd (deliver env inp s)) = app_arriving s"
  "app_left (snd (deliver env inp s)) = app_left s"
  using deliver_keeps_switch [of env inp s] by (simp_all add: switching_def)

end
