(* ===== verification/Scheduler_Laws.thy ===== *)
theory Scheduler_Laws
  imports Scheduler
begin

text \<open>
  What the outbox scheduler promises: a tick loses nothing, settles each due message by what became of it, and
  what a sign-out in the middle of a tick leaves behind; the wake pass of the snoozed messages.
\<close>

subsection \<open>Properties\<close>

text \<open>C31 A tick of the scheduler loses nothing, provided no other mailbox is brought to the front while it runs: whatever the
  directory, the provider, the core and the storage answer, and whether or not the tick ends in an error, every message of
  the outbox is afterwards still in it with the same recipients and content, or the provider took a message the core built
  for it, or it is among the drafts with its content and the reason it failed. The outbox and the drafts on disk are then
  again those in memory, with one exception: the drafts could not be written, and the tick ended with that error.\<close>

theorem run_loses_nothing:
  assumes "run lc E (sc, s) = (r, sc', s')" and "filed h_id (app_scheduled s)"
    and "item \<in> set (obj_values (app_scheduled s))" and "mirrored s" and "\<And>p. front_stays (E p)"
  shows "accounted {E p n | p n. True} item s s'
    \<and> (mirrored s' \<or> r = Inl StorageFailed \<and> (\<exists>n. \<not> env_store_ok (E 2 n) DraftsStore))"
proof -
  obtain w s1 where w: "wakedue lc (E 0 0) s = (w, s1)" by fastforce
  note wf = wakedue_facts [OF w]
  have item: "kept item (app_scheduled s)" by (rule kept_in [OF assms(2,3)])
  have m1: "mirrored s1" using wakedue_mirrored [OF assms(4), of lc "E 0 0"] w by simp
  show ?thesis
  proof (cases w)
    case (Inl e)
    then show ?thesis using assms(1) w item wf m1 by (simp add: run_def accounted_def)
  next
    case (Inr u)
    obtain q sc1 s2 where d: "drainHeld lc (E 1) (sc, s1) = (q, sc1, s2)" by (metis prod.exhaust)
    have st1: "filed h_id (app_scheduled s1)" using wf assms(2) by simp
    note dr = drainHeld_accounted [OF d st1 assms(5)]
    have m2: "mirrored s2" by (rule drainHeld_mirrored [OF d assms(5) m1])
    have new: "new_on_wire s s'' = new_on_wire s1 s''" for s'' using wf by (simp add: new_on_wire_def)
    have sub: "range (E 1) \<subseteq> {E p n | p n. True}" "range (E 2) \<subseteq> {E p n | p n. True}" by auto
    show ?thesis
    proof (cases q)
      case (Inl e)
      then have "s' = s2" using assms(1) w Inr d by (simp add: run_def)
      then show ?thesis using dr item wf new sub(1) m2 unfolding accounted_def carried_def by fastforce
    next
      case (Inr u')
      obtain z s3 where z: "send_due lc (E 2) sc1 s2 = (z, s3)" by fastforce
      have s': "s' = s3" "r = z" using assms(1) w d z \<open>w = Inr u\<close> Inr by (simp_all add: run_def)
      have st2: "filed h_id (app_scheduled s2)" using dr by blast
      have item1: "kept item (app_scheduled s1)" using item wf by simp
      have grow: "\<exists>ms. app_wire s3 = app_wire s2 @ ms"
        using z by (rule send_due_wire)
      have "accounted {E p n | p n. True} item s1 s3"
        using accounted_trans [OF _ _ item1 _ grow sub] dr send_due_accounted [OF z st2 _ assms(5)] by blast
      then show ?thesis using new send_due_mirrored [OF z assms(5) m2] unfolding s' accounted_def by simp
    qed
  qed
qed

definition sample_held :: "string \<Rightarrow> string list \<Rightarrow> held" where
  "sample_held i to =
     \<lparr>h_id = i, h_to = to, h_subject = ''s'', h_body = ''b'', h_html = None, h_sendAt = ''t0'', h_inReplyTo = None,
      h_references = None, h_attachments = None, h_level = None, h_reason = Some TimeHold, h_pending = None\<rparr>"

definition sample_outbox :: outbox where
  "sample_outbox = foldl upsertScheduled [] [sample_held ''a'' [''bob@y''], sample_held ''b'' [''me@x'']]"

definition sched0 :: sched where
  "sched0 = \<lparr>sc_inFlight = [], sc_lastRetry = 0, sc_oneShot = None\<rparr>"

lemma filed_queue: "filed h_id (app_scheduled (s\<lparr>app_scheduled := foldl upsertScheduled [] items\<rparr>))"
  using outbox_store.filed_put_all [OF filed_Nil] by simp

lemma filed_sample: "filed h_id sample_outbox"
  unfolding sample_outbox_def by (rule outbox_store.filed_put_all) simp

theorem run_loses_nothing_witness:
  "accounted {(\<lambda>p n. world0) p n | p n. True} (sample_held ''b'' [''me@x'']) (state0\<lparr>app_scheduled := sample_outbox, disk_scheduled := sample_outbox\<rparr>)
     (snd (snd (run str_cmp (\<lambda>p n. world0) (sched0, state0\<lparr>app_scheduled := sample_outbox, disk_scheduled := sample_outbox\<rparr>))))"
proof -
  let ?s = "state0\<lparr>app_scheduled := sample_outbox, disk_scheduled := sample_outbox\<rparr>"
  obtain r sc' s' where r: "run str_cmp (\<lambda>p n. world0) (sched0, ?s) = (r, sc', s')" by (metis prod.exhaust)
  have i: "sample_held ''b'' [''me@x''] \<in> set (obj_values (app_scheduled ?s))"
    by (simp add: sample_outbox_def upsertScheduled_def sample_held_def)
  have "mirrored ?s" "front_stays (\<lambda>n. world0)" by (simp_all add: mirrored_def state0_def front_stays_def world0_def)
  then show ?thesis using run_loses_nothing [OF r _ i] filed_sample r by simp
qed

definition sample_outbox2 :: outbox where
  "sample_outbox2 = foldl upsertScheduled [] [sample_held ''a'' [''me@x''], sample_held ''b'' [''eve@z'']]"

text \<open>A core that builds a message for every request, and shows the subject.\<close>

definition world1 :: env where
  "world1 = world0\<lparr>env_build := (\<lambda>r. Inr ([NL, NL] @ ARMOR_BEGIN @ br_subject r))\<rparr>"

lemma one_attempt:
  assumes "distinct (map h_id (map fst rs))" and "(x, a) \<in> set rs" and "(y, b) \<in> set rs" and "h_id x = h_id y"
  shows "x = y \<and> a = b"
proof -
  have "inj_on (h_id \<circ> fst) (set rs)" using assms(1) by (simp add: distinct_map)
  from inj_onD [OF this _ assms(2,3)] assms(4) show ?thesis by simp
qed

lemma rescues_ids: "k \<in> d_id ` set (rescues E n rs) \<longleftrightarrow> (\<exists>x e. (x, Inl e) \<in> set rs \<and> h_id x = k)"
proof
  assume "k \<in> d_id ` set (rescues E n rs)"
  then obtain d where d: "d \<in> set (rescues E n rs)" "k = d_id d" by blast
  with rescues_facts(1) [of E n rs] obtain x e m where "(x, Inl e) \<in> set rs" "d = rescued_draft (E m) x e" by blast
  then show "\<exists>x e. (x, Inl e) \<in> set rs \<and> h_id x = k" using d(2) by auto
qed (metis rescues_facts(2) image_eqI)

lemma settled_get:
  "obj_get (settled_outbox E rs ob) k =
     (if \<exists>x. ((x, Inr Sent) \<in> set rs \<or> (\<exists>e. (x, Inl e) \<in> set rs)) \<and> h_id x = k then None else obj_get ob k)"
proof -
  have "k \<in> set (map d_id (rescues E 1 rs)) \<longleftrightarrow> (\<exists>x e. (x, Inl e) \<in> set rs \<and> h_id x = k)"
    using rescues_ids [of k E 1 rs] by simp
  then show ?thesis unfolding settled_outbox_def outbox_store.get_rem_all sent_ids_in by auto
qed

lemma rescue_stored:
  assumes "distinct (map h_id (map fst rs))" and "(x, Inl e) \<in> set rs"
  shows "\<exists>n. obj_get (foldl upsertDraft ds (rescues E 1 rs)) (h_id x) = Some (rescued_draft (E n) x e)"
proof -
  have "\<forall>d \<in> set (rescues E 1 rs). d_id d = h_id x \<longrightarrow> (\<exists>n. d = rescued_draft (E n) x e)"
  proof (intro ballI impI)
    fix d assume "d \<in> set (rescues E 1 rs)" and i: "d_id d = h_id x"
    then obtain y e' k where y: "(y, Inl e') \<in> set rs" "d = rescued_draft (E k) y e'"
      using rescues_facts(1) by blast
    then have "y = x" "e' = e" using one_attempt [OF assms(1) y(1) assms(2)] i by auto
    then show "\<exists>n. d = rescued_draft (E n) x e" using y(2) by blast
  qed
  moreover have "\<exists>d \<in> set (rescues E 1 rs). d_id d = h_id x" using rescues_facts(2) [OF assms(2)] .
  ultimately show ?thesis
    using draft_store.get_put_some [of "rescues E 1 rs" "h_id x" "\<lambda>d. \<exists>n. d = rescued_draft (E n) x e" ds] by auto
qed

lemma due_items_facts:
  assumes "filed h_id (app_scheduled s)"
  shows "distinct (map h_id (due_items lc E sc s))" and "\<forall>x \<in> set (due_items lc E sc s). kept x (app_scheduled s)"
proof -
  show "distinct (map h_id (due_items lc E sc s))"
    unfolding due_items_def dueScheduled_def by (intro distinct_map_filter distinct_listScheduled assms)
  show "\<forall>x \<in> set (due_items lc E sc s). kept x (app_scheduled s)"
    using kept_in [OF assms] unfolding due_items_def dueScheduled_def by auto
qed

text \<open>A tick settles what was due: when it ends without an error and no other mailbox came to the front meanwhile, a message that went out is gone from the outbox;
  one that turned out to need a key is in it, now waiting for the key; one that failed is out of it and among
  the drafts with its content and the text of its error, and the screen counts the failures; every other
  entry is as it was.\<close>

theorem tick_settles:
  assumes "send_due lc E sc s = (Inr (), s')" and "deliver_each E 1 (due_items lc E sc s) s = (rs, s1)"
    and "filed h_id (app_scheduled s)" and stays: "front_stays E"
  shows "map fst rs = due_items lc E sc s
    \<and> (\<forall>x. (x, Inr Sent) \<in> set rs \<longrightarrow> obj_get (app_scheduled s') (h_id x) = None)
    \<and> (\<forall>x ms. (x, Inr (Queued ms)) \<in> set rs \<longrightarrow>
        (\<exists>h. obj_get (app_scheduled s') (h_id x) = Some h \<and> replay h = replay x \<and> holdReason h = AwaitingKey))
    \<and> (\<forall>x e. (x, Inl e) \<in> set rs \<longrightarrow> obj_get (app_scheduled s') (h_id x) = None
        \<and> (\<exists>n. obj_get (app_drafts s') (h_id x) = Some (rescued_draft (E n) x e)))
    \<and> (\<forall>k. k \<notin> h_id ` set (due_items lc E sc s) \<longrightarrow>
        obj_get (app_scheduled s') k = obj_get (app_scheduled s) k \<and> obj_get (app_drafts s') k = obj_get (app_drafts s) k)"
proof -
  define due where "due = due_items lc E sc s"
  have each: "deliver_each E 1 due s = (rs, s1)" using assms(2) by (simp add: due_def)
  note facts = due_items_facts [OF assms(3), of lc E sc, folded due_def]
  note de = deliver_each_facts [OF each facts(2) assms(3) stays] and en = deliver_each_entries [OF each facts(1) stays]
  have dist: "distinct (map h_id (map fst rs))" using facts(1) de(1) by simp
  have tick: "app_scheduled s' = settled_outbox E rs (app_scheduled s1)
    \<and> app_drafts s' = foldl upsertDraft (app_drafts s) (rescues E 1 rs)"
  proof (cases "due = []")
    case True
    then show ?thesis using assms(1) each by (auto simp: send_due_def due_def settled_outbox_def sent_ids_def)
  next
    case False
    then have "settle E rs s1 = (Inr (), s')" using assms(1) each by (simp add: send_due_def due_def)
    then show ?thesis using settle_facts(2) de(2) by fastforce
  qed
  have in_due: "h_id x \<in> h_id ` set due" if "(x, a) \<in> set rs" for x a
    using that de(1) by (metis fst_conv image_eqI list.set_map)
  show ?thesis unfolding due_def [symmetric]
  proof (intro conjI allI impI)
    show "map fst rs = due" by (rule de(1))
  next
    fix x assume "(x, Inr Sent) \<in> set rs"
    then show "obj_get (app_scheduled s') (h_id x) = None" using tick settled_get by metis
  next
    fix x ms assume x: "(x, Inr (Queued ms)) \<in> set rs"
    have "\<not> (\<exists>y. ((y, Inr Sent) \<in> set rs \<or> (\<exists>e. (y, Inl e) \<in> set rs)) \<and> h_id y = h_id x)"
      using one_attempt [OF dist x] by fastforce
    then show "\<exists>h. obj_get (app_scheduled s') (h_id x) = Some h \<and> replay h = replay x \<and> holdReason h = AwaitingKey"
      using tick settled_get en(2) [OF x] by metis
  next
    fix x e assume x: "(x, Inl e) \<in> set rs"
    then show "obj_get (app_scheduled s') (h_id x) = None" using tick settled_get by metis
    show "\<exists>n. obj_get (app_drafts s') (h_id x) = Some (rescued_draft (E n) x e)"
      using rescue_stored [OF dist x] tick by simp
  next
    fix k assume k: "k \<notin> h_id ` set due"
    then show "obj_get (app_scheduled s') k = obj_get (app_scheduled s) k"
      using tick settled_get in_due en(1) [OF k] by metis
    have "k \<notin> d_id ` set (rescues E 1 rs)" unfolding rescues_ids using in_due k by metis
    then show "obj_get (app_drafts s') k = obj_get (app_drafts s) k"
      using tick draft_store.get_put_other by metis
  qed
qed

text \<open>A concrete tick: one message goes out, one waits for a key of its recipient.\<close>

theorem tick_settles_witness:
  "case send_due str_cmp (\<lambda>_. world1) sched0 (state0\<lparr>app_scheduled := sample_outbox2\<rparr>) of
     (r, s') \<Rightarrow> obj_get (app_scheduled s') ''a'' = None
       \<and> (\<exists>h. obj_get (app_scheduled s') ''b'' = Some h \<and> holdReason h = AwaitingKey)"
proof -
  let ?s = "state0\<lparr>app_scheduled := sample_outbox2\<rparr>"
  have ok: "fst (send_due str_cmp (\<lambda>_. world1) sched0 ?s) = Inr ()" by code_simp
  have res: "map (\<lambda>(x, r). (h_id x, r)) (fst (deliver_each (\<lambda>_. world1) 1 (due_items str_cmp (\<lambda>_. world1) sched0 ?s) ?s))
      = [(''a'', Inr Sent), (''b'', Inr (Queued [''eve@z'']))]" by code_simp
  obtain s' where s': "send_due str_cmp (\<lambda>_. world1) sched0 ?s = (Inr (), s')" using ok by (cases "send_due str_cmp (\<lambda>_. world1) sched0 ?s") auto
  obtain rs s1 where rs: "deliver_each (\<lambda>_. world1) 1 (due_items str_cmp (\<lambda>_. world1) sched0 ?s) ?s = (rs, s1)" by fastforce
  have f: "filed h_id (app_scheduled ?s)"
    unfolding sample_outbox2_def by (rule filed_queue)
  have "front_stays (\<lambda>_. world1)" by (simp add: front_stays_def world1_def world0_def)
  note laws = tick_settles [OF s' rs f this]
  obtain x y where x: "(x, Inr Sent) \<in> set rs" "h_id x = ''a''"
    and y: "(y, Inr (Queued [''eve@z''])) \<in> set rs" "h_id y = ''b''"
    using res rs by (cases rs; cases "tl rs") auto
  have "obj_get (app_scheduled s') ''a'' = None" using laws x(1) unfolding x(2) [symmetric] by blast
  moreover have "\<exists>h. obj_get (app_scheduled s') ''b'' = Some h \<and> holdReason h = AwaitingKey" using laws y(1) unfolding y(2) [symmetric] by blast
  ultimately show ?thesis unfolding s' by simp
qed

lemma signed_out_stays_out:
  "app_account s = None \<Longrightarrow> app_arriving s = None \<Longrightarrow>
   app_account (after_attempt env r s) = None \<and> app_arriving (after_attempt env r s) = None"
  by (simp add: after_attempt_def finish_switch_def handleAuthLoss_def split: sum.split)

lemma deliver_each_signed_out:
  "app_account s = None \<Longrightarrow> app_arriving s = None \<Longrightarrow> app_account (snd (deliver_each E n items s)) = None"
proof (induction E n items s rule: deliver_each.induct)
  case (2 E n item items s)
  obtain r s1 where d: "deliver (E n) (replay item) s = (r, s1)" by fastforce
  have "app_account s1 = None" "app_arriving s1 = None"
    using deliver_account [of "E n" "replay item" s] deliver_switch [of "E n" "replay item" s] d 2(2,3) by simp_all
  then have "app_account (after_attempt (E n) r s1) = None" "app_arriving (after_attempt (E n) r s1) = None"
    using signed_out_stays_out by blast+
  from 2(1) [OF d [symmetric] this] show ?case by (simp add: d case_prod_beta)
qed simp

lemma auth_loss_signs_out:
  "deliver_each E n items s = (rs, s') \<Longrightarrow> (y, Inl AuthLost) \<in> set rs \<Longrightarrow> app_others s = [] \<Longrightarrow> app_arriving s = None \<Longrightarrow>
   app_account s' = None"
proof (induction E n items s arbitrary: rs s' rule: deliver_each.induct)
  case (2 E n item items s)
  obtain r s1 where d: "deliver (E n) (replay item) s = (r, s1)" by fastforce
  define s2 where "s2 = after_attempt (E n) r s1"
  obtain rs1 s3 where l: "deliver_each E (n + 1) items s2 = (rs1, s3)" by fastforce
  have out: "rs = (item, r) # rs1" "s' = s3" using 2(2) d l by (auto simp: s2_def)
  have alone: "app_others s1 = []" "app_arriving s1 = None" using deliver_switch [of "E n" "replay item" s] d 2(4,5) by simp_all
  then have s2: "app_others s2 = []" "app_arriving s2 = None"
    by (auto simp: s2_def after_attempt_def finish_switch_def handleAuthLoss_def split: sum.split)
  show ?case
  proof (cases "(y, Inl AuthLost) \<in> set rs1")
    case True
    then show ?thesis using 2(1) [OF d [symmetric], folded s2_def, OF l _ s2] out by simp
  next
    case False
    then have "r = Inl AuthLost" using 2(3) out by auto
    then have "app_account s2 = None" using alone by (simp add: s2_def after_attempt_def finish_switch_def handleAuthLoss_def)
    then show ?thesis using deliver_each_signed_out [of s2 E "n + 1" items] l out s2 by simp
  qed
qed simp

text \<open>A sign-out in the middle of a tick: when this is the only mailbox signed in and the provider asks to sign in again for one due message, the tick
  ends with an error before it can take out of the outbox what it sent, so every message that went out in that
  tick is still queued, due at once, and goes out a second time after the next sign-in.\<close>

theorem auth_loss_leaves_sent_queued:
  assumes "deliver_each E 1 (due_items lc E sc s) s = (rs, s1)" and "send_due lc E sc s = (r, s')"
    and "(x, Inr Sent) \<in> set rs" and "(y, Inl AuthLost) \<in> set rs" and "filed h_id (app_scheduled s)"
    and alone: "app_others s = []" "app_arriving s = None" and stays: "front_stays E"
  shows "r = Inl NoAccount \<and> (\<exists>m \<in> set (new_on_wire s s'). carried (range E) x m) \<and> kept x (app_scheduled s')"
proof -
  note de = deliver_each_facts [OF assms(1) due_items_facts(2) [OF assms(5)] assms(5) stays]
  have "x \<in> set (due_items lc E sc s)" using assms(3) de(1) by (metis fst_conv image_eqI list.set_map)
  then have kept: "kept x (app_scheduled s1)" and "due_items lc E sc s \<noteq> []"
    using due_items_facts(2) [OF assms(5)] de(5) by auto
  then have "settle E rs s1 = (r, s')" using assms(1,2) by (simp add: send_due_def)
  moreover have "app_account s1 = None" using auth_loss_signs_out [OF assms(1,4) alone] .
  ultimately have "r = Inl NoAccount" "s' = s1" by (auto simp: settle_def saveOutbox_def writes_def Let_def)
  then show ?thesis using de(6) [OF assms(3)] kept by simp
qed

definition expiring :: env where
  "expiring = world1\<lparr>env_send_ok := (\<lambda>n m. n \<noteq> 1), env_reauth := (\<lambda>n. n = 1)\<rparr>"

definition two_due :: app_state where
  "two_due = state0\<lparr>app_scheduled := foldl upsertScheduled [] [sample_held ''a'' [''me@x''], sample_held ''b'' [''me@x'']]\<rparr>"

definition after_expiry :: app_state where
  "after_expiry = snd (send_due str_cmp (\<lambda>_. expiring) sched0 two_due)"

definition signed_in_again :: app_state where
  "signed_in_again = after_expiry\<lparr>app_account := app_account state0, app_connected := True,
     app_session := app_session state0, app_identity := app_identity state0\<rparr>"

theorem auth_loss_leaves_sent_queued_witness:
  "kept (sample_held ''a'' [''me@x'']) (app_scheduled after_expiry)
   \<and> length (app_wire after_expiry) = 1
   \<and> length (filter (\<lambda>m. m = hd (app_wire after_expiry)) (app_wire (snd (send_due str_cmp (\<lambda>_. world1) sched0 signed_in_again)))) = 3"
proof (intro conjI)
  obtain rs s1 where rs: "deliver_each (\<lambda>_. expiring) 1 (due_items str_cmp (\<lambda>_. expiring) sched0 two_due) two_due = (rs, s1)"
    by fastforce
  have "(sample_held ''a'' [''me@x''], Inr Sent) \<in> set (fst (deliver_each (\<lambda>_. expiring) 1 (due_items str_cmp (\<lambda>_. expiring) sched0 two_due) two_due))
     \<and> (sample_held ''b'' [''me@x''], Inl AuthLost) \<in> set (fst (deliver_each (\<lambda>_. expiring) 1 (due_items str_cmp (\<lambda>_. expiring) sched0 two_due) two_due))"
    by code_simp
  then have x: "(sample_held ''a'' [''me@x''], Inr Sent) \<in> set rs" "(sample_held ''b'' [''me@x''], Inl AuthLost) \<in> set rs"
    using rs by auto
  obtain r s' where s': "send_due str_cmp (\<lambda>_. expiring) sched0 two_due = (r, s')" by fastforce
  have f: "filed h_id (app_scheduled two_due)"
    unfolding two_due_def by (rule filed_queue)
  show "kept (sample_held ''a'' [''me@x'']) (app_scheduled after_expiry)"
    using auth_loss_leaves_sent_queued [OF rs s' x f] s'
    by (simp add: after_expiry_def two_due_def state0_def front_stays_def expiring_def world1_def world0_def)
  show "length (app_wire after_expiry) = 1" by code_simp
  show "length (filter (\<lambda>m. m = hd (app_wire after_expiry)) (app_wire (snd (send_due str_cmp (\<lambda>_. world1) sched0 signed_in_again)))) = 3"
    by code_simp
qed

text \<open>The wake pass brings back exactly what is due: the entries whose time has come leave the snoozed messages and
  the others stay as they are, nothing is due afterwards, and no message changes between hidden and shown by it.\<close>

theorem wakedue_exact:
  assumes "wakedue lc env s = (Inr (), s')" and "filed sz_id (app_snoozed s)"
  shows "obj_get (app_snoozed s') i = (case obj_get (app_snoozed s) i of None \<Rightarrow> None
       | Some e \<Rightarrow> if str_le (sz_until e) (env_now env) then None else Some e)
    \<and> dueSnoozed lc (app_snoozed s') (env_now env) = []
    \<and> isSnoozed (app_snoozed s') i (env_now env) = isSnoozed (app_snoozed s) i (env_now env)"
proof -
  define due where "due = dueSnoozed lc (app_snoozed s) (env_now env)"
  have after: "app_snoozed s' = foldl removeSnooze (app_snoozed s) (map sz_id due)"
    using assms(1) unfolding due_def
    by (auto simp: wakedue_def persist_snoozes_def saveSnoozes_def Let_def split: if_splits option.splits)
  have mem: "k \<in> set (map sz_id due) \<longleftrightarrow> (\<exists>e. obj_get (app_snoozed s) k = Some e \<and> str_le (sz_until e) (env_now env))" for k
  proof -
    have "k \<in> set (map sz_id due) \<longleftrightarrow> (\<exists>e. e \<in> set due \<and> sz_id e = k)" by auto
    moreover have "e \<in> set due \<longleftrightarrow> e \<in> set (obj_values (app_snoozed s)) \<and> str_le (sz_until e) (env_now env)" for e
      by (simp only: due_def set_dueSnoozed mem_Collect_eq)
    ultimately show ?thesis using filed_get_iff [OF assms(2), of k] by blast
  qed
  have get: "obj_get (app_snoozed s') k = (case obj_get (app_snoozed s) k of None \<Rightarrow> None
      | Some e \<Rightarrow> if str_le (sz_until e) (env_now env) then None else Some e)" for k
    unfolding after snooze_store.get_rem_all mem by (simp split: option.splits)
  have st': "filed sz_id (app_snoozed s')" unfolding after by (rule snooze_store.filed_rem_all [OF assms(2)])
  have "\<not> str_le (sz_until e) (env_now env)" if "e \<in> set (obj_values (app_snoozed s'))" for e
    using filed_in_values [OF st', of e] that get [of "sz_id e"] by (auto split: option.splits if_splits)
  then have "set (dueSnoozed lc (app_snoozed s') (env_now env)) = {}" unfolding set_dueSnoozed by blast
  then have none: "dueSnoozed lc (app_snoozed s') (env_now env) = []" by (simp only: set_empty)
  show ?thesis using get none by (simp add: isSnoozed_def str_less_le_not_le split: option.splits)
qed

theorem wakedue_exact_witness:
  "obj_get (app_snoozed (snd (wakedue str_cmp (world0\<lparr>env_now := ''3''\<rparr>) (state0\<lparr>app_snoozed := snooze_sample\<rparr>)))) ''b'' = None"
proof -
  let ?env = "world0\<lparr>env_now := ''3''\<rparr>" and ?s = "state0\<lparr>app_snoozed := snooze_sample\<rparr>"
  have "fst (wakedue str_cmp ?env ?s) = Inr ()" by code_simp
  then obtain s' where w: "wakedue str_cmp ?env ?s = (Inr (), s')" by (cases "wakedue str_cmp ?env ?s") auto
  have "filed sz_id snooze_sample"
    unfolding snooze_sample_def by (rule snooze_store.filed_put_all) simp
  then have f: "filed sz_id (app_snoozed ?s)" by simp
  have "map_option sz_until (obj_get snooze_sample ''b'') = Some ''2'' \<and> str_le ''2'' ''3''" by code_simp
  then show ?thesis using wakedue_exact [OF w f, of "''b''"] w by auto
qed
subsection \<open>Two ways a tick goes wrong\<close>

text \<open>The end of a tick writes the outbox first. When the drafts then cannot be written, a message that failed is on disk neither in
  the outbox nor among the drafts; only memory still has it.\<close>

theorem failed_drafts_drop_on_disk:
  assumes "settle E rs s = (r, s')" and "(x, Inl e) \<in> set rs" and "app_account s \<noteq> None"
    and "env_store_ok (E (length rs + 1)) OutboxStore" and "\<not> env_store_ok (E (length rs + 1)) DraftsStore"
  shows "r = Inl StorageFailed \<and> obj_get (disk_scheduled s') (h_id x) = None \<and> disk_drafts s' = disk_drafts s
    \<and> app_scheduled s' = app_scheduled s"
proof -
  have "rescues E 1 rs \<noteq> []" using rescues_facts(2) [OF assms(2), of E 1] by auto
  then have "r = Inl StorageFailed" "s' = s\<lparr>disk_scheduled := settled_outbox E rs (app_scheduled s)\<rparr>"
    using assms(1,3-5) by (auto simp: settle_def settled_outbox_def saveOutbox_def saveDrafts_def writes_def Let_def)
  moreover have "obj_get (settled_outbox E rs (app_scheduled s)) (h_id x) = None"
    using assms(2) unfolding settled_get by auto
  ultimately show ?thesis by simp
qed

text \<open>A grant is lost in the middle of a tick while another mailbox is signed in: the switch this starts is over before the tick is,
  and every due message after that is built and sent as the other mailbox's, from its address and with its identity. The outbox
  of the mailbox that was left still holds it on disk.\<close>

theorem switch_sends_from_the_other:
  assumes "deliver_each E n (x # y # ys) s = ((x, r) # (y, Inr Sent) # rest, s')"
    and "app_arriving s = Some m" and "env_arrives (E n)"
  shows "\<exists>i keys level msg. om_identity m = Some i
    \<and> env_build (E (n + 1)) (request (om_session m) i (replay y) keys level) = Inr msg \<and> msg \<in> set (new_on_wire s s')
    \<and> (\<exists>a d. (a, disk_scheduled (snd (deliver (E n) (replay x) s)), d) \<in> set (app_left (after_attempt (E n) r (snd (deliver (E n) (replay x) s)))))"
proof -
  define s1 where "s1 = snd (deliver (E n) (replay x) s)"
  define s2 where "s2 = after_attempt (E n) r s1"
  obtain q s3 where y: "deliver (E (n + 1)) (replay y) s2 = (q, s3)" by fastforce
  have first: "fst (deliver (E n) (replay x) s) = r" using assms(1) by (auto split: prod.splits)
  then have x: "deliver (E n) (replay x) s = (r, s1)" by (simp add: s1_def prod_eq_iff)
  have q: "q = Inr Sent" and tail: "\<exists>rs. deliver_each E (n + 1 + 1) ys (after_attempt (E (n + 1)) q s3) = (rs, s')"
    using assms(1) x y by (auto simp: s2_def split: prod.splits)
  have arriving: "app_arriving s1 = Some m" using deliver_switch(2) [of "E n" "replay x" s] assms(2) by (simp add: s1_def)
  have front: "app_session s2 = Some (om_session m) \<or> app_session s2 = None" "app_identity s2 = om_identity m \<or> app_identity s2 = None"
    and left: "\<exists>a d. (a, disk_scheduled s1, d) \<in> set (app_left s2)"
    using arriving assms(3) by (auto simp: s2_def after_attempt_def finish_switch_def handleAuthLoss_def split: sum.split option.split)
  have "went_out (E (n + 1)) (replay y) s2 (Inr Sent, s3)"
    using deliver_outcome [of s2 "E (n + 1)" "replay y"] unfolding y q by (simp add: refused_def was_held_def)
  then obtain session i keys level msg where msg: "app_session s2 = Some session" "app_identity s2 = Some i"
    "env_build (E (n + 1)) (request session i (replay y) keys level) = Inr msg" "app_wire s3 = app_wire s2 @ [msg]"
    unfolding went_out_def fst_conv snd_conv by blast
  have wires: "app_wire s2 = app_wire s1" "\<exists>ms. app_wire s1 = app_wire s @ ms" "\<exists>ms. app_wire s' = app_wire s3 @ ms"
    using attempt(2) [OF x] tail deliver_each_wire by (fastforce simp: s2_def)+
  then have "msg \<in> set (new_on_wire s s')" using msg(4) by (auto simp: new_on_wire_def)
  moreover have "session = om_session m" "om_identity m = Some i" using front msg(1,2) by auto
  ultimately show ?thesis using msg(3) left unfolding s2_def s1_def by blast
qed

end
