(* ===== verification/Scheduler_Races.thy ===== *)
theory Scheduler_Races
  imports Outbox
begin

text \<open>
  The scheduler's actions interleaved (\<^verbatim>\<open>state/scheduler.ts\<close>): any number of ticks, manual retries and new holds
  run at once, each between two of its \<open>await\<close>s at a time. A tick is started by a timer that does not wait for the
  last one, so two can overlap. Only the order of reads, sends and writes of the outbox is modelled; every send
  is one the provider takes, and the wire is the list of the ids that went out.
\<close>

subsection \<open>Steps\<close>

text \<open>Where an action stands: not running; in the loop of a tick, with the items still to go and the ids sent;
  in \<open>sendScheduledNow\<close>, before its send; before the write of an outbox it has computed.\<close>

datatype phase = Idle | Sending "held list" "string list" | Manual held | Saving outbox

record race =
  ra_outbox :: outbox
  ra_inFlight :: "string set"
  ra_wire :: "string list"
  ra_phase :: "nat \<Rightarrow> phase"

definition goes :: "nat \<Rightarrow> phase \<Rightarrow> race \<Rightarrow> race" where
  "goes p ph s = s\<lparr>ra_phase := (ra_phase s)(p := ph)\<rparr>"

definition claimable :: "(string \<Rightarrow> string \<Rightarrow> int) \<Rightarrow> string \<Rightarrow> race \<Rightarrow> held list" where
  "claimable lc now s = filter (\<lambda>item. h_id item \<notin> ra_inFlight s) (dueScheduled lc (ra_outbox s) now)"

text \<open>What a tick does: claim what is due, send it, message by message, compute the outbox that is left, write it.\<close>

inductive tick_step :: "(string \<Rightarrow> string \<Rightarrow> int) \<Rightarrow> nat \<Rightarrow> race \<Rightarrow> race \<Rightarrow> bool" for lc where
  tick: "ra_phase s p = Idle \<Longrightarrow> claimable lc now s = due \<Longrightarrow> due \<noteq> [] \<Longrightarrow>
    tick_step lc p s (goes p (Sending due []) (s\<lparr>ra_inFlight := ra_inFlight s \<union> h_id ` set due\<rparr>))"
| send: "ra_phase s p = Sending (item # items) sent \<Longrightarrow>
    tick_step lc p s (goes p (Sending items (h_id item # sent))
      (s\<lparr>ra_wire := ra_wire s @ [h_id item], ra_inFlight := ra_inFlight s - {h_id item}\<rparr>))"
| collect: "ra_phase s p = Sending [] sent \<Longrightarrow>
    tick_step lc p s (goes p (Saving (foldl removeScheduled (ra_outbox s) sent)) s)"
| commit: "ra_phase s p = Saving ob \<Longrightarrow> tick_step lc p s (goes p Idle (s\<lparr>ra_outbox := ob\<rparr>))"

text \<open>Besides ticks, the user retries a message by hand or queues another.\<close>

inductive race_step :: "(string \<Rightarrow> string \<Rightarrow> int) \<Rightarrow> nat \<Rightarrow> race \<Rightarrow> race \<Rightarrow> bool" for lc where
  ticking: "tick_step lc p s s' \<Longrightarrow> race_step lc p s s'"
| retry: "ra_phase s p = Idle \<Longrightarrow> obj_get (ra_outbox s) i = Some item \<Longrightarrow> race_step lc p s (goes p (Manual item) s)"
| retried: "ra_phase s p = Manual item \<Longrightarrow>
    race_step lc p s (goes p (Saving (removeScheduled (ra_outbox s) (h_id item)))
      (s\<lparr>ra_wire := ra_wire s @ [h_id item]\<rparr>))"
| queue: "ra_phase s p = Idle \<Longrightarrow> h_id item \<notin> set (ra_wire s) \<Longrightarrow>
    race_step lc p s (goes p (Saving (upsertScheduled (ra_outbox s) item)) s)"

inductive_cases race_stepE: "race_step lc p s s'"
inductive_cases tick_stepE: "tick_step lc p s s'"

text \<open>The launch: an outbox read from disk, nothing sent, nothing running.\<close>

definition launched :: "outbox \<Rightarrow> race" where
  "launched ob = \<lparr>ra_outbox = ob, ra_inFlight = {}, ra_wire = [], ra_phase = (\<lambda>_. Idle)\<rparr>"

inductive reachable :: "(string \<Rightarrow> string \<Rightarrow> int) \<Rightarrow> race \<Rightarrow> bool" for lc where
  start: "filed h_id ob \<Longrightarrow> reachable lc (launched ob)"
| step: "reachable lc s \<Longrightarrow> race_step lc p s s' \<Longrightarrow> reachable lc s'"

text \<open>Runs in which an action starts only when no other is under way.\<close>

inductive serial :: "(string \<Rightarrow> string \<Rightarrow> int) \<Rightarrow> race \<Rightarrow> bool" for lc where
  start: "filed h_id ob \<Longrightarrow> serial lc (launched ob)"
| step: "serial lc s \<Longrightarrow> \<forall>q. q \<noteq> p \<longrightarrow> ra_phase s q = Idle \<Longrightarrow> race_step lc p s s' \<Longrightarrow> serial lc s'"

text \<open>Runs of ticks alone; and of ticks of which none starts while another is under way.\<close>

inductive ticks :: "(string \<Rightarrow> string \<Rightarrow> int) \<Rightarrow> race \<Rightarrow> bool" for lc where
  start: "filed h_id ob \<Longrightarrow> ticks lc (launched ob)"
| step: "ticks lc s \<Longrightarrow> tick_step lc p s s' \<Longrightarrow> ticks lc s'"

inductive ticks_in_turn :: "(string \<Rightarrow> string \<Rightarrow> int) \<Rightarrow> race \<Rightarrow> bool" for lc where
  start: "filed h_id ob \<Longrightarrow> ticks_in_turn lc (launched ob)"
| step: "ticks_in_turn lc s \<Longrightarrow> \<forall>q. q \<noteq> p \<longrightarrow> ra_phase s q = Idle \<Longrightarrow> tick_step lc p s s' \<Longrightarrow> ticks_in_turn lc s'"

lemma ticks_reachable: "ticks lc s \<Longrightarrow> reachable lc s"
  by (induction rule: ticks.induct) (auto intro: reachable.intros race_step.ticking)


lemma goes_simps [simp]:
  "ra_outbox (goes p ph s) = ra_outbox s" "ra_inFlight (goes p ph s) = ra_inFlight s"
  "ra_wire (goes p ph s) = ra_wire s" "ra_phase (goes p ph s) q = (if q = p then ph else ra_phase s q)"
  by (simp_all add: goes_def)

subsection \<open>The guard \<open>inFlight\<close>\<close>

fun to_go :: "phase \<Rightarrow> held list" where
  "to_go (Sending items sent) = items"
| "to_go _ = []"

definition ids_to_go :: "race \<Rightarrow> nat \<Rightarrow> string set" where
  "ids_to_go s p = h_id ` set (to_go (ra_phase s p))"

definition guard_inv :: "race \<Rightarrow> bool" where
  "guard_inv s \<longleftrightarrow> (\<forall>p. ids_to_go s p \<subseteq> ra_inFlight s \<and> distinct (map h_id (to_go (ra_phase s p))))
     \<and> (\<forall>p q. p \<noteq> q \<longrightarrow> ids_to_go s p \<inter> ids_to_go s q = {})"

definition stored :: "race \<Rightarrow> bool" where
  "stored s \<longleftrightarrow> filed h_id (ra_outbox s) \<and> (\<forall>p ob. ra_phase s p = Saving ob \<longrightarrow> filed h_id ob)"

lemma ids_to_go_goes: "ids_to_go (goes p ph s) q = (if q = p then h_id ` set (to_go ph) else ids_to_go s q)"
  by (simp add: ids_to_go_def)

lemma ids_to_go_update [simp]:
  "ids_to_go (s\<lparr>ra_outbox := ob\<rparr>) q = ids_to_go s q" "ids_to_go (s\<lparr>ra_inFlight := f\<rparr>) q = ids_to_go s q"
  "ids_to_go (s\<lparr>ra_wire := w\<rparr>) q = ids_to_go s q"
  by (simp_all add: ids_to_go_def)

lemma stored_tick: "tick_step lc p s s' \<Longrightarrow> stored s \<Longrightarrow> stored s'"
  by (induction rule: tick_step.induct) (auto simp: stored_def outbox_store.filed_rem_all split: if_splits)

lemma stored_step: "race_step lc p s s' \<Longrightarrow> stored s \<Longrightarrow> stored s'"
  by (induction rule: race_step.induct)
     (auto simp: stored_def outbox_store.filed_rem outbox_store.filed_put split: if_splits dest: stored_tick [unfolded stored_def])

lemma claimable_distinct: "filed h_id (ra_outbox s) \<Longrightarrow> distinct (map h_id (claimable lc now s))"
  unfolding claimable_def dueScheduled_def by (intro distinct_map_filter distinct_listScheduled)

lemma guard_tick: "tick_step lc p s s' \<Longrightarrow> stored s \<Longrightarrow> guard_inv s \<Longrightarrow> guard_inv s'"
proof (induction rule: tick_step.induct)
  case (tick s p now due)
  have d: "distinct (map h_id due)" using claimable_distinct tick(2,4) by (auto simp: stored_def)
  have fresh: "h_id ` set due \<inter> ra_inFlight s = {}" using tick(2) by (auto simp: claimable_def)
  have "ids_to_go s q \<inter> h_id ` set due = {}" for q using fresh tick(5) unfolding guard_inv_def by blast
  then show ?case using tick(5) d unfolding guard_inv_def by (auto simp: ids_to_go_goes)
next
  case (send s p item items sent)
  have now: "ids_to_go s p = insert (h_id item) (h_id ` set items)" using send(1) by (simp add: ids_to_go_def)
  have d: "distinct (map h_id (item # items))" using send(1,3) unfolding guard_inv_def by (metis to_go.simps(1))
  let ?s' = "goes p (Sending items (h_id item # sent))
    (s\<lparr>ra_wire := ra_wire s @ [h_id item], ra_inFlight := ra_inFlight s - {h_id item}\<rparr>)"
  have ids: "ids_to_go ?s' q = (if q = p then h_id ` set items else ids_to_go s q)" for q by (simp add: ids_to_go_goes)
  have old: "ids_to_go s q \<subseteq> ra_inFlight s" "q \<noteq> r \<Longrightarrow> ids_to_go s q \<inter> ids_to_go s r = {}" for q r
    using send(3) unfolding guard_inv_def by blast+
  have other: "h_id item \<notin> ids_to_go s q" if "q \<noteq> p" for q using old(2) [OF that] now by blast
  have rest: "h_id item \<notin> h_id ` set items" using d by auto
  have "ids_to_go ?s' q \<subseteq> ra_inFlight ?s'" for q
    using ids [of q] old(1) [of q] other [of q] rest now by (cases "q = p") (simp_all add: subset_Diff_insert)
  moreover have "ids_to_go ?s' q \<inter> ids_to_go ?s' r = {}" if "q \<noteq> r" for q r
    using ids [of q] ids [of r] old(2) [OF that] now that by (cases "q = p"; cases "r = p") auto
  moreover have "distinct (map h_id (to_go (ra_phase ?s' q)))" for q
    using send(3) d unfolding guard_inv_def by simp
  ultimately show ?case unfolding guard_inv_def by blast
next
  case (commit s p ob)
  then show ?case unfolding guard_inv_def by (auto simp: ids_to_go_goes)
qed (auto simp: guard_inv_def ids_to_go_goes)

lemma guard_step: "race_step lc p s s' \<Longrightarrow> stored s \<Longrightarrow> guard_inv s \<Longrightarrow> guard_inv s'"
  by (induction rule: race_step.induct) (simp add: guard_tick, auto simp: guard_inv_def ids_to_go_goes)

lemma reachable_inv: "reachable lc s \<Longrightarrow> stored s \<and> guard_inv s"
proof (induction rule: reachable.induct)
  case start
  then show ?case by (simp add: stored_def guard_inv_def launched_def ids_to_go_def)
next
  case (step s p s')
  then show ?case using stored_step guard_step by blast
qed

subsection \<open>Serial runs\<close>

definition known :: "outbox \<Rightarrow> string set" where
  "known ob = {i. obj_get ob i \<noteq> None}"

text \<open>What is sent is out of the outbox, or on the list of a running tick that will take it out.\<close>

fun phase_ok :: "race \<Rightarrow> phase \<Rightarrow> bool" where
  "phase_ok s (Sending items sent) \<longleftrightarrow> distinct (map h_id items) \<and> h_id ` set items \<inter> set (ra_wire s) = {}
     \<and> known (ra_outbox s) \<inter> set (ra_wire s) \<subseteq> set sent"
| "phase_ok s (Manual item) \<longleftrightarrow> h_id item \<notin> set (ra_wire s) \<and> known (ra_outbox s) \<inter> set (ra_wire s) = {}"
| "phase_ok s (Saving ob) \<longleftrightarrow> known ob \<inter> set (ra_wire s) = {}"
| "phase_ok s Idle \<longleftrightarrow> known (ra_outbox s) \<inter> set (ra_wire s) = {}"

definition serial_inv :: "race \<Rightarrow> bool" where
  "serial_inv s \<longleftrightarrow> distinct (ra_wire s) \<and> (\<exists>p. phase_ok s (ra_phase s p) \<and> (\<forall>q. q \<noteq> p \<longrightarrow> ra_phase s q = Idle))"

lemma known_remove_all: "known (foldl removeScheduled ob ids) = known ob - set ids"
  by (auto simp: known_def outbox_store.get_rem_all)

lemma known_remove: "known (removeScheduled ob i) = known ob - {i}"
  by (auto simp: known_def outbox_store.get_rem)

lemma known_upsert: "known (upsertScheduled ob item) = insert (h_id item) (known ob)"
  by (auto simp: known_def outbox_store.get_put)

lemma claimable_known: "filed h_id (ra_outbox s) \<Longrightarrow> h_id ` set (claimable lc now s) \<subseteq> known (ra_outbox s)"
proof
  fix i assume f: "filed h_id (ra_outbox s)" and "i \<in> h_id ` set (claimable lc now s)"
  then obtain x where "x \<in> set (obj_values (ra_outbox s))" "i = h_id x"
    unfolding claimable_def dueScheduled_def by auto
  then show "i \<in> known (ra_outbox s)" using filed_in_values [OF f, of x] by (simp add: known_def)
qed

text \<open>One step of the only running action.\<close>

lemma serial_tick:
  assumes "tick_step lc p s s'" and "stored s" and "phase_ok s (ra_phase s p)" and "distinct (ra_wire s)"
  shows "phase_ok s' (ra_phase s' p) \<and> distinct (ra_wire s')"
  using assms
proof (induction rule: tick_step.induct)
  case (tick s p now due)
  have "distinct (map h_id due)" using claimable_distinct tick(2,4) by (auto simp: stored_def)
  moreover have "h_id ` set due \<subseteq> known (ra_outbox s)" using claimable_known [of s lc now] tick(2,4) by (simp add: stored_def)
  ultimately show ?case using tick(1,5,6) by auto
next
  case (send s p item items sent)
  then show ?case by auto
next
  case (collect s p sent)
  then show ?case by (auto simp: known_remove_all)
qed simp

lemma serial_phase:
  assumes "race_step lc p s s'" and "stored s" and "phase_ok s (ra_phase s p)" and "distinct (ra_wire s)"
  shows "phase_ok s' (ra_phase s' p) \<and> distinct (ra_wire s')"
  using assms
proof (induction rule: race_step.induct)
  case (ticking p s s')
  then show ?case by (rule serial_tick)
next
  case (retry s p i item)
  have "h_id item = i" using retry(2,3) by (simp add: stored_def filed_def)
  then have "h_id item \<in> known (ra_outbox s)" using retry(2) by (simp add: known_def)
  then show ?case using retry(1,4,5) by auto
next
  case (retried s p item)
  then show ?case by (auto simp: known_remove)
next
  case (queue s p item)
  then show ?case by (auto simp: known_upsert)
qed

lemma others_idle: "race_step lc p s s' \<Longrightarrow> q \<noteq> p \<Longrightarrow> ra_phase s' q = ra_phase s q"
  by (induction rule: race_step.induct) (auto elim: tick_stepE)

lemma serial_inv: "serial lc s \<Longrightarrow> stored s \<and> serial_inv s"
proof (induction rule: serial.induct)
  case start
  then show ?case by (simp add: stored_def serial_inv_def launched_def known_def)
next
  case (step s p s')
  obtain p0 where p0: "phase_ok s (ra_phase s p0)" "\<forall>q. q \<noteq> p0 \<longrightarrow> ra_phase s q = Idle"
    using step.IH by (auto simp: serial_inv_def)
  have idle: "ra_phase s q = Idle" if "q \<noteq> p" for q using step(2) that by blast
  have "phase_ok s (ra_phase s p)"
  proof (cases "p = p0")
    case False
    then have "ra_phase s p = ra_phase s p0" using p0(2) idle by metis
    then show ?thesis using p0(1) by simp
  qed (use p0 in simp)
  moreover have "ra_phase s' q = Idle" if "q \<noteq> p" for q
    using others_idle [OF step(3) that] idle [OF that] by simp
  ultimately show ?case
    using serial_phase [OF step(3)] stored_step [OF step(3)] step.IH by (auto simp: serial_inv_def)
qed

subsection \<open>Properties\<close>

text \<open>The guard against double sends does what it can: in any interleaving the loops of two ticks never hold the
  same message, each loop holds it once, and what a loop still has to send is marked in flight.\<close>

theorem in_flight_exclusive:
  assumes "reachable lc s" and "p \<noteq> q"
  shows "ids_to_go s p \<inter> ids_to_go s q = {} \<and> distinct (map h_id (to_go (ra_phase s p))) \<and> ids_to_go s p \<subseteq> ra_inFlight s"
  using reachable_inv [OF assms(1)] assms(2) unfolding guard_inv_def by blast

theorem in_flight_exclusive_witness:
  "reachable str_cmp (launched []) \<and> ids_to_go (launched []) 0 \<inter> ids_to_go (launched []) 1 = {}"
  using in_flight_exclusive [OF reachable.start [OF filed_Nil, of str_cmp], of 0 1] reachable.start [OF filed_Nil] by simp

text \<open>Actions that run one after the other never send a message twice, and a message that went out is not in the
  outbox when nothing is under way.\<close>

theorem serial_runs_send_once:
  assumes "serial lc s"
  shows "distinct (ra_wire s) \<and> ((\<forall>p. ra_phase s p = Idle) \<longrightarrow> (\<forall>i \<in> set (ra_wire s). obj_get (ra_outbox s) i = None))"
proof -
  have inv: "serial_inv s" using serial_inv [OF assms] by blast
  have "known (ra_outbox s) \<inter> set (ra_wire s) = {}" if "\<forall>p. ra_phase s p = Idle"
    using inv that by (auto simp: serial_inv_def)
  then show ?thesis using inv unfolding serial_inv_def known_def by blast
qed

definition due_at_once :: "string \<Rightarrow> held" where
  "due_at_once i =
     \<lparr>h_id = i, h_to = [''bob@y''], h_subject = ''s'', h_body = ''b'', h_html = None, h_sendAt = ''t0'', h_inReplyTo = None,
      h_references = None, h_attachments = None, h_level = None, h_reason = Some TimeHold, h_pending = None\<rparr>"

theorem serial_runs_send_once_witness:
  "\<exists>s. serial str_cmp s \<and> ra_phase s 0 = Saving (upsertScheduled [] (due_at_once ''a'')) \<and> distinct (ra_wire s)"
proof -
  let ?s = "goes 0 (Saving (upsertScheduled [] (due_at_once ''a''))) (launched [])"
  have "race_step str_cmp 0 (launched []) ?s"
    using race_step.queue [of "launched []" 0 "due_at_once ''a''" str_cmp] by (simp add: launched_def)
  then have s: "serial str_cmp ?s"
    by (rule serial.step [OF serial.start [OF filed_Nil], rotated]) (simp add: launched_def)
  then show ?thesis using serial_runs_send_once [OF s] by (intro exI [of _ ?s]) simp
qed

lemma claim_one:
  assumes "ra_outbox s = [(h_id item, item)]" and "h_id item \<notin> ra_inFlight s" and "holdReason item = TimeHold"
    and "str_le (h_sendAt item) now"
  shows "claimable lc now s = [item]"
  using assms by (simp add: claimable_def dueScheduled_def listScheduled_def js_sort_def)

text \<open>A tick that has sent its only message and not yet taken it out of the outbox.\<close>

abbreviation one_due :: outbox where
  "one_due \<equiv> [(''a'', due_at_once ''a'')]"

lemma one_due:
  "filed h_id one_due" "h_id (due_at_once ''a'') = ''a''"
  "ra_outbox s = one_due \<Longrightarrow> ''a'' \<notin> ra_inFlight s \<Longrightarrow> claimable lc ''t0'' s = [due_at_once ''a'']"
  using claim_one [of s "due_at_once ''a''" "''t0''" lc]
  by (simp_all add: due_at_once_def holdReason_def filed_def obj_ok_def)

definition claimed_by :: "nat \<Rightarrow> race \<Rightarrow> race" where
  "claimed_by p s = goes p (Sending [due_at_once ''a''] []) (s\<lparr>ra_inFlight := ra_inFlight s \<union> h_id ` set [due_at_once ''a'']\<rparr>)"

definition sent_by :: "nat \<Rightarrow> race \<Rightarrow> race" where
  "sent_by p s = goes p (Sending [] [h_id (due_at_once ''a'')])
     (s\<lparr>ra_wire := ra_wire s @ [h_id (due_at_once ''a'')], ra_inFlight := ra_inFlight s - {h_id (due_at_once ''a'')}\<rparr>)"

lemma claim_and_send:
  assumes "ra_outbox s = one_due" and "ra_inFlight s = {}" and "ra_phase s p = Idle"
  shows "tick_step lc p s (claimed_by p s)" and "tick_step lc p (claimed_by p s) (sent_by p (claimed_by p s))"
  using tick_step.tick [OF assms(3) one_due(3) [of s lc]] tick_step.send [of "claimed_by p s" p "due_at_once ''a''" "[]" "[]" lc] assms
  by (simp_all add: claimed_by_def sent_by_def)

definition in_transit :: race where
  "in_transit = sent_by 0 (claimed_by 0 (launched one_due))"

lemma in_transit:
  "ra_outbox in_transit = one_due" "ra_inFlight in_transit = {}" "ra_wire in_transit = [''a'']"
  "ra_phase in_transit 0 = Sending [] [''a'']" "p \<noteq> 0 \<Longrightarrow> ra_phase in_transit p = Idle"
  by (simp_all add: in_transit_def claimed_by_def sent_by_def launched_def one_due(2))

lemma in_transit_runs: "ticks lc in_transit" "ticks_in_turn lc in_transit"
proof -
  have steps: "tick_step lc 0 (launched one_due) (claimed_by 0 (launched one_due))"
    "tick_step lc 0 (claimed_by 0 (launched one_due)) in_transit"
    unfolding in_transit_def by (rule claim_and_send; simp add: launched_def)+
  have alone: "\<forall>q. q \<noteq> 0 \<longrightarrow> ra_phase (launched one_due) q = Idle"
    "\<forall>q. q \<noteq> 0 \<longrightarrow> ra_phase (claimed_by 0 (launched one_due)) q = Idle"
    by (simp_all add: launched_def claimed_by_def)
  show "ticks lc in_transit"
    by (rule ticks.step [OF ticks.step [OF ticks.start [OF one_due(1)] steps(1)] steps(2)])
  show "ticks_in_turn lc in_transit"
    by (rule ticks_in_turn.step [OF ticks_in_turn.step [OF ticks_in_turn.start [OF one_due(1)] alone(1) steps(1)] alone(2) steps(2)])
qed



text \<open>A write of the outbox is computed before its \<open>await\<close> and lands after it, so of two that overlap the second
  undoes the first: a message accepted into the outbox while a tick is finishing can vanish without being sent.\<close>

theorem overlapping_writes_lose_a_message:
  assumes "reachable lc s" and "ra_phase s 0 = Sending [] sent" and "ra_phase s 1 = Idle"
    and "h_id item \<notin> set (ra_wire s)" and "obj_get (ra_outbox s) (h_id item) = None"
  shows "\<exists>s1 s2. reachable lc s1 \<and> obj_get (ra_outbox s1) (h_id item) = Some item
    \<and> race_step lc 0 s1 s2 \<and> obj_get (ra_outbox s2) (h_id item) = None \<and> ra_wire s2 = ra_wire s"
proof -
  let ?a = "foldl removeScheduled (ra_outbox s) sent" and ?b = "upsertScheduled (ra_outbox s) item"
  define t1 where "t1 = goes 0 (Saving ?a) s"
  define t2 where "t2 = goes 1 (Saving ?b) t1"
  define t3 where "t3 = goes 1 Idle (t2\<lparr>ra_outbox := ?b\<rparr>)"
  define t4 where "t4 = goes 0 Idle (t3\<lparr>ra_outbox := ?a\<rparr>)"
  have r1: "reachable lc t1"
    using reachable.step [OF assms(1) race_step.ticking [OF tick_step.collect [OF assms(2)]]] by (simp add: t1_def)
  have r2: "reachable lc t2"
    using reachable.step [OF r1 race_step.queue [of t1 1 item lc]] assms(3,4) by (simp add: t1_def t2_def)
  have r3: "reachable lc t3"
    using reachable.step [OF r2 race_step.ticking [OF tick_step.commit [of t2 1 ?b lc]]] by (simp add: t2_def t3_def)
  have "race_step lc 0 t3 t4"
    using race_step.ticking [OF tick_step.commit [of t3 0 ?a lc]] by (simp add: t1_def t2_def t3_def t4_def)
  then show ?thesis using r3 assms(5)
    by (intro exI [of _ t3] exI [of _ t4])
       (simp add: t1_def t2_def t3_def t4_def outbox_store.get_put outbox_store.get_rem_all)
qed

theorem overlapping_writes_lose_a_message_witness:
  "\<exists>s1 s2. reachable str_cmp s1 \<and> obj_get (ra_outbox s1) ''b'' = Some (due_at_once ''b'')
    \<and> race_step str_cmp 0 s1 s2 \<and> obj_get (ra_outbox s2) ''b'' = None \<and> ra_wire s2 = [''a'']"
proof -
  have i: "h_id (due_at_once ''b'') = ''b''" by (simp add: due_at_once_def)
  let ?s = in_transit
  have f: "ra_wire ?s = [''a'']" "ra_phase ?s 0 = Sending [] [''a'']" "ra_phase ?s 1 = Idle" by (simp_all add: in_transit)
  have "h_id (due_at_once ''b'') \<notin> set (ra_wire ?s)" "obj_get (ra_outbox ?s) (h_id (due_at_once ''b'')) = None"
    using i by (simp_all add: in_transit)
  from overlapping_writes_lose_a_message [OF ticks_reachable [OF in_transit_runs(1)] f(2,3) this] show ?thesis unfolding f(1) i .
qed

end
