(* ===== verification/Threads.thy ===== *)
theory Threads
  imports Mail_Types
begin

text \<open>Conversation threading (\<^verbatim>\<open>threads/threads.ts\<close>): rows grouped by the provider's thread id. \<open>lc\<close> is \<open>localeCompare\<close>.\<close>

record mail_thread =
  th_id :: string
  th_messages :: "mail_summary list"
  th_latest :: mail_summary
  th_count :: nat

definition thread_key :: "mail_summary \<Rightarrow> string" where
  "thread_key m = (case sm_threadId m of None \<Rightarrow> sm_id m | Some t \<Rightarrow> t)"

text \<open>The map of buckets, in the order their first message came.\<close>

definition add_to_bucket :: "mail_summary list obj \<Rightarrow> mail_summary \<Rightarrow> mail_summary list obj" where
  "add_to_bucket byKey m =
     obj_set byKey (thread_key m) ((case obj_get byKey (thread_key m) of None \<Rightarrow> [] | Some ms \<Rightarrow> ms) @ [m])"

definition make_thread :: "(string \<Rightarrow> string \<Rightarrow> int) \<Rightarrow> string \<times> mail_summary list \<Rightarrow> mail_thread" where
  "make_thread lc = (\<lambda>(i, ms). let ordered = js_sort (cmp_by_text lc sm_date) ms
     in \<lparr>th_id = i, th_messages = ordered, th_latest = last ordered, th_count = length ordered\<rparr>)"

definition groupIntoThreads :: "(string \<Rightarrow> string \<Rightarrow> int) \<Rightarrow> mail_summary list \<Rightarrow> mail_thread list" where
  "groupIntoThreads lc ms =
     js_sort (cmp_desc (cmp_by_text lc (sm_date \<circ> th_latest))) (map (make_thread lc) (foldl add_to_bucket [] ms))"

subsection \<open>Facts\<close>

definition buckets_ok :: "mail_summary list obj \<Rightarrow> mail_summary list \<Rightarrow> bool" where
  "buckets_ok b ms \<longleftrightarrow> obj_ok b \<and> (\<forall>k bs. obj_get b k = Some bs \<longrightarrow> bs = filter (\<lambda>m. thread_key m = k) ms \<and> bs \<noteq> [])
     \<and> (\<forall>m \<in> set ms. obj_get b (thread_key m) \<noteq> None)"

lemma buckets_step:
  assumes "buckets_ok b ms"
  shows "buckets_ok (add_to_bucket b m) (ms @ [m])"
proof -
  let ?old = "case obj_get b (thread_key m) of None \<Rightarrow> [] | Some ms \<Rightarrow> ms"
  have old: "?old = filter (\<lambda>x. thread_key x = thread_key m) ms"
  proof (cases "obj_get b (thread_key m)")
    case None
    have "\<not> (\<exists>x \<in> set ms. thread_key x = thread_key m)"
      using assms None unfolding buckets_ok_def by fastforce
    then have "filter (\<lambda>x. thread_key x = thread_key m) ms = []" unfolding filter_empty_conv by blast
    then show ?thesis by (simp add: None)
  next
    case (Some bs)
    then show ?thesis using assms unfolding buckets_ok_def by simp
  qed
  have get: "obj_get (add_to_bucket b m) k = (if k = thread_key m then Some (?old @ [m]) else obj_get b k)" for k
    by (simp add: add_to_bucket_def obj_get_set)
  have "bs = filter (\<lambda>x. thread_key x = k) (ms @ [m]) \<and> bs \<noteq> []" if "obj_get (add_to_bucket b m) k = Some bs" for k bs
  proof (cases "k = thread_key m")
    case True
    then have "bs = ?old @ [m]" using that get by simp
    then show ?thesis using old True by simp
  next
    case False
    then have "obj_get b k = Some bs" using that get by simp
    then have "bs = filter (\<lambda>m. thread_key m = k) ms \<and> bs \<noteq> []" using assms unfolding buckets_ok_def by blast
    moreover have "filter (\<lambda>x. thread_key x = k) (ms @ [m]) = filter (\<lambda>m. thread_key m = k) ms" using False by simp
    ultimately show ?thesis by argo
  qed
  moreover have "obj_get (add_to_bucket b m) (thread_key x) \<noteq> None" if "x \<in> set (ms @ [m])" for x
  proof (cases "thread_key x = thread_key m")
    case False
    then have "x \<in> set ms" using that by auto
    then have "obj_get b (thread_key x) \<noteq> None" using assms unfolding buckets_ok_def by blast
    then show ?thesis using get False by simp
  qed (simp add: get)
  moreover have "obj_ok (add_to_bucket b m)" using assms by (simp add: buckets_ok_def add_to_bucket_def)
  ultimately show ?thesis unfolding buckets_ok_def by blast
qed

lemma buckets: "buckets_ok (foldl add_to_bucket [] ms) ms"
proof -
  have "buckets_ok b ms' \<Longrightarrow> buckets_ok (foldl add_to_bucket b ms) (ms' @ ms)" for b ms'
  proof (induction ms arbitrary: b ms')
    case (Cons m ms)
    then show ?case using Cons.IH [OF buckets_step [OF Cons.prems, of m]] by simp
  qed simp
  from this [of "[]" "[]"] show ?thesis by (simp add: buckets_ok_def)
qed

lemma split_by_key:
  "distinct ks \<Longrightarrow> set (map thread_key ms) \<subseteq> set ks \<Longrightarrow>
   mset (concat (map (\<lambda>k. filter (\<lambda>m. thread_key m = k) ms) ks)) = mset ms"
proof (induction ms)
  case (Cons m ms)
  have "mset (concat (map (\<lambda>k. filter (\<lambda>x. thread_key x = k) (m # ms)) ks))
      = mset (concat (map (\<lambda>k. filter (\<lambda>x. thread_key x = k) ms) ks)) + mset (concat (map (\<lambda>k. if thread_key m = k then [m] else []) ks))"
    by (induction ks) auto
  moreover have "mset (concat (map (\<lambda>k. if thread_key m = k then [m] else []) ks)) = (if thread_key m \<in> set ks then {#m#} else {#})"
    using Cons.prems(1) by (induction ks) auto
  ultimately show ?case using Cons by simp
qed simp

lemma mset_of_sorted_threads:
  "mset (concat (map th_messages (groupIntoThreads lc ms)))
     = mset (concat (map th_messages (map (make_thread lc) (foldl add_to_bucket [] ms))))"
proof -
  have "mset (map th_messages (js_sort cmp ts)) = mset (map th_messages ts)" for cmp ts by simp
  then have "sum_list (map mset (map th_messages (js_sort cmp ts))) = sum_list (map mset (map th_messages ts))" for cmp ts
    by (metis mset_map sum_mset_sum_list)
  then show ?thesis unfolding mset_concat groupIntoThreads_def by blast
qed

subsection \<open>Properties\<close>

text \<open>Threading loses and duplicates nothing: every row is in exactly one conversation, a conversation holds exactly the
  rows with its thread id, oldest first, and shows its newest; conversations come newest first.\<close>

theorem threads_partition:
  assumes "comparator lc"
  shows "mset (concat (map th_messages (groupIntoThreads lc ms))) = mset ms
    \<and> distinct (map th_id (groupIntoThreads lc ms))
    \<and> sorted_wrt (\<lambda>s t. lc (sm_date (th_latest t)) (sm_date (th_latest s)) \<le> 0) (groupIntoThreads lc ms)
    \<and> (\<forall>t \<in> set (groupIntoThreads lc ms). mset (th_messages t) = mset (filter (\<lambda>m. thread_key m = th_id t) ms)
         \<and> sorted_wrt (\<lambda>a b. lc (sm_date a) (sm_date b) \<le> 0) (th_messages t)
         \<and> th_latest t \<in> set (th_messages t) \<and> (\<forall>m \<in> set (th_messages t). lc (sm_date m) (sm_date (th_latest t)) \<le> 0)
         \<and> th_count t = length (th_messages t))"
proof -
  let ?b = "foldl add_to_bucket [] ms" and ?ts = "groupIntoThreads lc ms"
  note b = buckets [of ms, unfolded buckets_ok_def]
  have dist: "distinct (map fst ?b)" using b by (simp add: obj_ok_def)
  have bucket: "snd e = filter (\<lambda>m. thread_key m = fst e) ms \<and> snd e \<noteq> []" if "e \<in> set ?b" for e
    using b that by (metis obj_get_eq_Some_iff prod.collapse)
  have byDate: "comparator (cmp_by_text lc sm_date)" using assms by blast
  have th: "th_id (make_thread lc e) = fst e \<and> mset (th_messages (make_thread lc e)) = mset (snd e)" for e
    by (simp add: make_thread_def Let_def case_prod_beta)
  have "mset (concat (map th_messages ?ts)) = mset (concat (map th_messages (map (make_thread lc) ?b)))"
    by (rule mset_of_sorted_threads)
  also have "\<dots> = mset (concat (map snd ?b))"
    unfolding mset_concat map_map o_def using th by simp
  also have "map snd ?b = map (\<lambda>k. filter (\<lambda>m. thread_key m = k) ms) (map fst ?b)"
    unfolding map_map o_def
  proof (rule map_cong [OF refl])
    show "snd e = filter (\<lambda>m. thread_key m = fst e) ms" if "e \<in> set ?b" for e by (rule conjunct1 [OF bucket [OF that]])
  qed
  also have "mset (concat \<dots>) = mset ms"
  proof (rule split_by_key [OF dist], rule subsetI)
    fix k assume "k \<in> set (map thread_key ms)"
    then obtain m where "m \<in> set ms" "k = thread_key m" by auto
    then have "obj_get ?b k \<noteq> None" using b by blast
    then obtain bs where "obj_get ?b k = Some bs" by blast
    then have "(k, bs) \<in> set ?b" using b obj_get_eq_Some_iff by fast
    then show "k \<in> set (map fst ?b)" by force
  qed
  finally have parts: "mset (concat (map th_messages ?ts)) = mset ms" .
  have ids: "distinct (map th_id ?ts)"
    using dist by (simp add: groupIntoThreads_def o_def th)
  have sorted: "sorted_wrt (\<lambda>s t. lc (sm_date (th_latest t)) (sm_date (th_latest s)) \<le> 0) ?ts"
    using comparator.sort_sorted [OF comparator_desc [OF comparator_by_text [OF assms, of "sm_date \<circ> th_latest"]]]
    by (simp add: groupIntoThreads_def cmp_desc_def cmp_by_text_def)
  have "mset (th_messages t) = mset (filter (\<lambda>m. thread_key m = th_id t) ms)
         \<and> sorted_wrt (\<lambda>a b. lc (sm_date a) (sm_date b) \<le> 0) (th_messages t)
         \<and> th_latest t \<in> set (th_messages t) \<and> (\<forall>m \<in> set (th_messages t). lc (sm_date m) (sm_date (th_latest t)) \<le> 0)
         \<and> th_count t = length (th_messages t)" if t_in: "t \<in> set ?ts" for t
  proof -
    obtain e where e: "e \<in> set ?b" "t = make_thread lc e"
      using t_in unfolding groupIntoThreads_def set_js_sort set_map by blast
    have t: "th_messages t = js_sort (cmp_by_text lc sm_date) (snd e)" "th_latest t = last (th_messages t)"
      "th_count t = length (th_messages t)" "th_id t = fst e"
      by (simp_all add: e(2) make_thread_def Let_def case_prod_beta)
    have ne: "th_messages t \<noteq> []" unfolding t(1) js_sort_eq_Nil by (rule conjunct2 [OF bucket [OF e(1)]])
    have "mset (th_messages t) = mset (filter (\<lambda>m. thread_key m = th_id t) ms)"
      unfolding t(1) t(4) mset_js_sort by (rule arg_cong [OF conjunct1 [OF bucket [OF e(1)]]])
    moreover have "th_latest t \<in> set (th_messages t)" unfolding t(2) by (rule last_in_set [OF ne])
    moreover have "lc (sm_date m) (sm_date (th_latest t)) \<le> 0" if "m \<in> set (th_messages t)" for m
      using comparator.sort_last_greatest [OF byDate, of m "snd e"] that t by (simp add: cmp_by_text_def)
    moreover have "sorted_wrt (\<lambda>a b. lc (sm_date a) (sm_date b) \<le> 0) (th_messages t)"
      using comparator.sort_sorted [OF byDate, of "snd e"] t(1) by (simp add: cmp_by_text_def)
    ultimately show ?thesis using t(3) by blast
  qed
  then show ?thesis using parts ids sorted by blast
qed

definition sample_row :: "string \<Rightarrow> string option \<Rightarrow> string \<Rightarrow> mail_summary" where
  "sample_row i thread date =
     \<lparr>sm_id = i, sm_threadId = thread, sm_from_address = ''a@b'', sm_from_name = None, sm_to = [], sm_date = date,
      sm_subject = ''s'', sm_snippet = ''t'', sm_unread = True, sm_starred = False, sm_messageId = None, sm_references = None,
      sm_autocrypt = None, sm_replyTo = None, sm_authenticationResults = None, sm_listUnsubscribe = None,
      sm_returnPath = None, sm_labels = None\<rparr>"

theorem threads_partition_witness:
  "mset (concat (map th_messages (groupIntoThreads str_cmp [sample_row ''1'' (Some ''t'') ''2'', sample_row ''2'' None ''3'', sample_row ''3'' (Some ''t'') ''1''])))
     = mset [sample_row ''1'' (Some ''t'') ''2'', sample_row ''2'' None ''3'', sample_row ''3'' (Some ''t'') ''1'']"
  using threads_partition [OF code_units.comparator_axioms,
      of "[sample_row ''1'' (Some ''t'') ''2'', sample_row ''2'' None ''3'', sample_row ''3'' (Some ''t'') ''1'']"] by blast

end
