(* ===== verification/Links.thy ===== *)
theory Links
  imports Js_Prelude
begin

text \<open>
  URLs in a message body (\<^verbatim>\<open>lib/links.ts\<close>): finding the \<^verbatim>\<open>http(s)\<close> addresses of running text, and the host and path of
  one. The regular expressions are written out: the scan with the sticky position is a loop over the rest of the
  text that remembers the prose seen since the last link and the character before.
\<close>

record segment =
  sg_text :: string
  sg_url :: "string option"

definition url_char :: "char \<Rightarrow> bool" where
  "url_char c \<longleftrightarrow> \<not> js_space c \<and> c \<notin> set ''<>`'' \<and> code_unit c \<notin> {34, 39, 92}"

text \<open>The scheme of \<^verbatim>\<open>https?://\<close>, in any case, and what follows it.\<close>

definition after_scheme :: "string \<Rightarrow> (string \<times> string) option" where
  "after_scheme s =
     (if js_lower (take 8 s) = ''https://'' then Some (''https'', drop 8 s)
      else if js_lower (take 7 s) = ''http://'' then Some (''http'', drop 7 s) else None)"

text \<open>\<open>URL_IN_TEXT\<close> at the start of a text: the raw match.\<close>

definition url_match :: "string \<Rightarrow> string option" where
  "url_match s =
     (case after_scheme s of
        None \<Rightarrow> None
      | Some (scheme, rest) \<Rightarrow>
          (if takeWhile url_char rest = [] then None
           else Some (take (length s - length rest) s @ takeWhile url_char rest)))"

definition trailing_punctuation :: "char \<Rightarrow> bool" where
  "trailing_punctuation c \<longleftrightarrow> c \<in> set ''.,;:!?'' \<or> code_unit c \<in> {34, 39}"

definition strip_end :: "(char \<Rightarrow> bool) \<Rightarrow> string \<Rightarrow> string" where
  "strip_end P s = rev (dropWhile P (rev s))"

definition BRACKET_PAIRS :: "(char \<times> char) list" where
  "BRACKET_PAIRS = [(CHR ''('', CHR '')''), (CHR ''['', CHR '']''), (CHR ''{'', CHR ''}'')]"

definition countOf :: "string \<Rightarrow> char \<Rightarrow> nat" where
  "countOf s c = length (filter (\<lambda>d. d = c) s)"

text \<open>\<open>while (out.endsWith(close) && countOf(out, close) > countOf(out, open)) out = out.slice(0, -1)\<close>, on the
  reversed text.\<close>

fun drop_closers :: "char \<Rightarrow> char \<Rightarrow> string \<Rightarrow> string" where
  "drop_closers opn cls [] = []"
| "drop_closers opn cls (c # r) =
     (if c = cls \<and> countOf (c # r) opn < countOf (c # r) cls then drop_closers opn cls r else c # r)"

definition trim_step :: "string \<Rightarrow> string" where
  "trim_step url =
     foldl (\<lambda>out (opn, cls). rev (drop_closers opn cls (rev out))) (strip_end trailing_punctuation url) BRACKET_PAIRS"

lemma strip_end_prefix: "prefix (strip_end P s) s"
  unfolding strip_end_def by (metis rev_rev_ident suffix_dropWhile suffix_to_prefix)

lemma drop_closers_suffix: "suffix (drop_closers opn cls r) r"
  by (induction r) (auto intro: suffix_ConsI)

lemma trim_step_prefix: "prefix (trim_step url) url"
proof -
  have "prefix (rev (drop_closers opn cls (rev out))) out" for opn cls out
    using drop_closers_suffix [of opn cls "rev out"] by (simp add: suffix_to_prefix)
  then have "prefix (foldl (\<lambda>out (opn, cls). rev (drop_closers opn cls (rev out))) s ps) s" for s ps
  proof (induction ps arbitrary: s)
    case (Cons p ps)
    then show ?case by (cases p) (metis (no_types, lifting) case_prod_conv foldl_Cons prefix_order.trans)
  qed simp
  then show ?thesis unfolding trim_step_def using strip_end_prefix prefix_order.trans by blast
qed

function trimTrailing :: "string \<Rightarrow> string" where
  "trimTrailing url = (if trim_step url = url then url else trimTrailing (trim_step url))"
  by pat_completeness auto
termination
proof (relation "measure length")
  fix url assume "trim_step url \<noteq> url"
  then show "(trim_step url, url) \<in> measure length"
    using trim_step_prefix [of url] by (metis in_measure prefix_length_less strict_prefixI)
qed simp

declare trimTrailing.simps [simp del]

subsection \<open>Host and path\<close>

definition line_end :: "char \<Rightarrow> bool" where
  "line_end c \<longleftrightarrow> code_unit c \<in> {10, 13}"

definition after_last_at :: "string \<Rightarrow> string" where
  "after_last_at s = rev (takeWhile (\<lambda>c. c \<noteq> CHR ''@'') (rev s))"

definition is_digit :: "char \<Rightarrow> bool" where
  "is_digit c \<longleftrightarrow> 48 \<le> code_unit c \<and> code_unit c \<le> 57"

text \<open>\<open>replace(/:\d+$/, '')\<close>\<close>

definition drop_port :: "string \<Rightarrow> string" where
  "drop_port s =
     (case dropWhile is_digit (rev s) of
        c # r \<Rightarrow> if c = CHR '':'' \<and> takeWhile is_digit (rev s) \<noteq> [] then rev r else s
      | [] \<Rightarrow> s)"

definition url_parts :: "string \<Rightarrow> (string \<times> string \<times> string) option" where
  "url_parts url =
     (case after_scheme url of
        None \<Rightarrow> None
      | Some (scheme, rest) \<Rightarrow>
          if list_ex line_end rest then None
          else (let authority = takeWhile (\<lambda>c. c \<notin> set ''/?#'') rest;
                    path = dropWhile (\<lambda>c. c \<notin> set ''/?#'') rest;
                    host = js_lower (drop_port (after_last_at authority))
                in if host = [] then None else Some (scheme, host, path)))"

definition hostOf :: "string \<Rightarrow> string option" where
  "hostOf url = map_option (\<lambda>(scheme, host, path). host) (url_parts url)"

definition pathOf :: "string \<Rightarrow> string option" where
  "pathOf url = map_option (\<lambda>(scheme, host, path). path) (url_parts url)"

subsection \<open>Linkify\<close>

definition alnum :: "char \<Rightarrow> bool" where
  "alnum c \<longleftrightarrow> (let n = code_unit c in 48 \<le> n \<and> n \<le> 57 \<or> 65 \<le> n \<and> n \<le> 90 \<or> 97 \<le> n \<and> n \<le> 122)"

definition prose :: "string \<Rightarrow> segment list" where
  "prose s = (if s = [] then [] else [\<lparr>sg_text = s, sg_url = None\<rparr>])"

definition found_url :: "char option \<Rightarrow> string \<Rightarrow> (string + string) option" where
  "found_url prev s =
     (case url_match s of
        None \<Rightarrow> None
      | Some raw \<Rightarrow>
          if (case prev of None \<Rightarrow> False | Some c \<Rightarrow> alnum c) \<or> hostOf (trimTrailing raw) = None then Some (Inl raw)
          else Some (Inr (trimTrailing raw)))"

lemma after_scheme_parts: "after_scheme s = Some (scheme, rest) \<Longrightarrow> \<exists>n. 7 \<le> n \<and> n \<le> length s \<and> rest = drop n s \<and> length rest + n = length s"
proof -
  assume a: "after_scheme s = Some (scheme, rest)"
  then consider "js_lower (take 8 s) = ''https://''" "rest = drop 8 s" | "js_lower (take 7 s) = ''http://''" "rest = drop 7 s"
    by (auto simp: after_scheme_def split: if_splits)
  then show ?thesis
  proof cases
    case 1
    then have "length (take 8 s) = 8" using js_lower_length [of "take 8 s"] by simp
    then show ?thesis using 1 by (intro exI [of _ 8]) auto
  next
    case 2
    then have "length (take 7 s) = 7" using js_lower_length [of "take 7 s"] by simp
    then show ?thesis using 2 by (intro exI [of _ 7]) auto
  qed
qed

lemma url_match_prefix: "url_match s = Some raw \<Longrightarrow> prefix raw s \<and> raw \<noteq> []"
proof -
  assume m: "url_match s = Some raw"
  then obtain scheme rest where a: "after_scheme s = Some (scheme, rest)"
    and raw: "raw = take (length s - length rest) s @ takeWhile url_char rest" and ne: "takeWhile url_char rest \<noteq> []"
    by (auto simp: url_match_def split: option.splits if_splits)
  obtain n where n: "n \<le> length s" "rest = drop n s" "length rest + n = length s"
    using after_scheme_parts [OF a] by blast
  then have r: "raw = take n s @ takeWhile url_char (drop n s)" using raw by auto
  have "s = take n s @ takeWhile url_char (drop n s) @ dropWhile url_char (drop n s)" by simp
  then have "s = raw @ dropWhile url_char (drop n s)" unfolding r by simp
  then show ?thesis using ne raw by (auto intro: prefixI)
qed

lemma trimTrailing_prefix: "prefix (trimTrailing url) url"
proof (induction url rule: trimTrailing.induct)
  case (1 url)
  then show ?case using trim_step_prefix [of url] prefix_order.trans by (subst trimTrailing.simps) auto
qed

lemma hostOf_nonempty: "hostOf url = Some h \<Longrightarrow> url \<noteq> []"
  by (auto simp: hostOf_def url_parts_def after_scheme_def)

lemma found_url_prefix:
  assumes "found_url prev s = Some x"
  shows "prefix (case x of Inl raw \<Rightarrow> raw | Inr url \<Rightarrow> url) s \<and> (case x of Inl raw \<Rightarrow> raw | Inr url \<Rightarrow> url) \<noteq> []"
proof -
  obtain raw where raw: "url_match s = Some raw" using assms by (auto simp: found_url_def split: option.splits)
  note m = url_match_prefix [OF raw]
  show ?thesis
  proof (cases x)
    case (Inl r)
    then have "r = raw" using assms raw by (auto simp: found_url_def split: if_splits)
    then show ?thesis using m Inl by simp
  next
    case (Inr url)
    then have u: "url = trimTrailing raw" "hostOf url \<noteq> None" using assms raw by (auto simp: found_url_def split: if_splits)
    then have "url \<noteq> []" using hostOf_nonempty by blast
    moreover have "prefix url s" using trimTrailing_prefix [of raw] m u(1) prefix_order.trans by blast
    ultimately show ?thesis using Inr by simp
  qed
qed

function linkify_from :: "string \<Rightarrow> char option \<Rightarrow> string \<Rightarrow> segment list" where
  "linkify_from pending prev s =
     (case s of
        [] \<Rightarrow> prose pending
      | c # cs \<Rightarrow>
          (case found_url prev s of
             None \<Rightarrow> linkify_from (pending @ [c]) (Some c) cs
           | Some (Inl raw) \<Rightarrow> linkify_from (pending @ raw) (Some (last raw)) (drop (length raw) s)
           | Some (Inr url) \<Rightarrow>
               prose pending @ \<lparr>sg_text = url, sg_url = Some url\<rparr> # linkify_from [] (Some (last url)) (drop (length url) s)))"
  by pat_completeness auto
termination
  by (relation "measure (\<lambda>(pending, prev, s). length s)") (use found_url_prefix in \<open>fastforce+\<close>)

declare linkify_from.simps [simp del]

definition linkify :: "string \<Rightarrow> segment list" where
  "linkify text = linkify_from [] None text"

subsection \<open>Properties\<close>

lemma linkify_from_text: "concat (map sg_text (linkify_from pending prev s)) = pending @ s"
proof (induction pending prev s rule: linkify_from.induct)
  case (1 pending prev s)
  show ?case
  proof (cases s)
    case Nil
    then show ?thesis by (subst linkify_from.simps) (simp add: prose_def)
  next
    case (Cons c cs)
    show ?thesis
    proof (cases "found_url prev s")
      case None
      then show ?thesis using 1(1) [OF Cons] Cons by (subst linkify_from.simps) simp
    next
      case (Some x)
      note pre = found_url_prefix [OF Some]
      show ?thesis
      proof (cases x)
        case (Inl raw)
        then have "raw @ drop (length raw) s = s" using pre by (auto simp: prefix_def)
        then show ?thesis using 1(2) [OF Cons] Some Inl Cons by (subst linkify_from.simps) simp
      next
        case (Inr url)
        then have "url @ drop (length url) s = s" using pre by (auto simp: prefix_def)
        then show ?thesis using 1(3) [OF Cons] Some Inr Cons by (subst linkify_from.simps) (simp add: prose_def)
      qed
    qed
  qed
qed

definition safe_segment :: "segment \<Rightarrow> bool" where
  "safe_segment g \<longleftrightarrow> (\<forall>u. sg_url g = Some u \<longrightarrow> sg_text g = u \<and> hostOf u \<noteq> None \<and> after_scheme u \<noteq> None
     \<and> (\<forall>c \<in> set u. \<not> js_space c \<and> c \<notin> set ''<>''))"

lemma scheme_has_no_space: "after_scheme s = Some (scheme, rest) \<Longrightarrow> c \<in> set (take (length s - length rest) s) \<Longrightarrow> url_char c"
proof -
  assume a: "after_scheme s = Some (scheme, rest)" and c: "c \<in> set (take (length s - length rest) s)"
  have low: "url_char c" if "js_lower_char c \<in> set ''https:/''" for c
  proof -
    have "code_unit (js_lower_char c) \<in> {104, 116, 112, 115, 58, 47}" using that by (auto simp: code_unit_def)
    then have n: "code_unit c \<in> {104, 116, 112, 115, 58, 47, 72, 84, 80, 83}"
      unfolding js_lower_char_unit by (auto split: if_splits)
    then show ?thesis by (auto simp: url_char_def js_space_def code_unit_def)
  qed
  consider "js_lower (take 8 s) = ''https://''" "rest = drop 8 s" | "js_lower (take 7 s) = ''http://''" "rest = drop 7 s"
    using a by (auto simp: after_scheme_def split: if_splits)
  then have "js_lower_char c \<in> set ''https:/''"
  proof cases
    case 1
    have "8 \<le> length s" using 1(1) js_lower_length [of "take 8 s"] by simp
    then have "c \<in> set (take 8 s)" using c 1(2) by simp
    then have "js_lower_char c \<in> set (js_lower (take 8 s))" by (simp add: js_lower_def)
    then show ?thesis unfolding 1(1) by auto
  next
    case 2
    have "7 \<le> length s" using 2(1) js_lower_length [of "take 7 s"] by simp
    then have "c \<in> set (take 7 s)" using c 2(2) by simp
    then have "js_lower_char c \<in> set (js_lower (take 7 s))" by (simp add: js_lower_def)
    then show ?thesis unfolding 2(1) by auto
  qed
  then show ?thesis by (rule low)
qed

lemma url_match_chars: "url_match s = Some raw \<Longrightarrow> c \<in> set raw \<Longrightarrow> url_char c"
  using scheme_has_no_space set_takeWhileD unfolding url_match_def
  by (fastforce split: option.splits if_splits)

lemma found_url_safe:
  assumes "found_url prev s = Some (Inr url)"
  shows "safe_segment \<lparr>sg_text = url, sg_url = Some url\<rparr>"
proof -
  obtain raw where raw: "url_match s = Some raw" and u: "url = trimTrailing raw" "hostOf url \<noteq> None"
    using assms by (auto simp: found_url_def split: option.splits if_splits)
  have "set url \<subseteq> set raw" unfolding u(1) by (rule set_mono_prefix [OF trimTrailing_prefix])
  then have "\<forall>c \<in> set url. url_char c" using url_match_chars [OF raw] by blast
  moreover have "after_scheme url \<noteq> None" using u(2) by (auto simp: hostOf_def url_parts_def split: option.splits)
  ultimately show ?thesis using u(2) by (auto simp: safe_segment_def url_char_def)
qed

lemma linkify_from_safe: "g \<in> set (linkify_from pending prev s) \<Longrightarrow> safe_segment g"
proof (induction pending prev s rule: linkify_from.induct)
  case (1 pending prev s)
  have prose: "safe_segment g" if "g \<in> set (prose pending)" using that by (auto simp: prose_def safe_segment_def split: if_splits)
  show ?case
  proof (cases s)
    case Nil
    then show ?thesis using 1(4) prose by (subst (asm) linkify_from.simps) simp
  next
    case (Cons c cs)
    show ?thesis
    proof (cases "found_url prev s")
      case None
      then show ?thesis using 1(1) [OF Cons] 1(4) Cons by (subst (asm) linkify_from.simps) simp
    next
      case (Some x)
      show ?thesis
      proof (cases x)
        case (Inl raw)
        then show ?thesis using 1(2) [OF Cons] Some 1(4) Cons by (subst (asm) linkify_from.simps) simp
      next
        case (Inr url)
        then have "g \<in> set (prose pending) \<or> g = \<lparr>sg_text = url, sg_url = Some url\<rparr>
            \<or> g \<in> set (linkify_from [] (Some (last url)) (drop (length url) s))"
          using Some 1(4) Cons by (subst (asm) linkify_from.simps) auto
        then show ?thesis using 1(3) [OF Cons] Some Inr Cons prose found_url_safe by auto
      qed
    qed
  qed
qed

text \<open>C39 A message body cut into runs shows unchanged, and what is made tappable is only ever an \<^verbatim>\<open>http\<close> or \<^verbatim>\<open>https\<close> address with
  a host, displayed as itself, without white space or angle brackets.\<close>

theorem linkify_faithful:
  "concat (map sg_text (linkify body)) = body \<and> list_all safe_segment (linkify body)"
  using linkify_from_text [of "[]" None body] linkify_from_safe by (auto simp: linkify_def list_all_iff)

end
