(* ===== verification/Base32.thy ===== *)
theory Base32
  imports Base64 Js_Text
begin

text \<open>
  The two base-32 encoders, of the recovery code (\<^verbatim>\<open>core/recoveryCode.ts\<close>) and of Web Key Directory hashes
  (\<^verbatim>\<open>keys/zbase32.ts\<close>): a bit buffer in a 32-bit integer that is never masked, emptied five bits at a time. Then
  the recovery code as it is shown and typed.
\<close>

subsection \<open>The bit buffer\<close>

fun emit5 :: "string \<Rightarrow> int32 \<Rightarrow> nat \<Rightarrow> string \<times> nat" where
  "emit5 alphabet value bits =
     (if bits < 5 then ([], bits)
      else (case emit5 alphabet value (bits - 5) of
              (out, left) \<Rightarrow> (alphabet_at alphabet (sar value (bits - 5) AND 31) # out, left)))"

declare emit5.simps [simp del]

fun base32_loop :: "string \<Rightarrow> u8 list \<Rightarrow> int32 \<Rightarrow> nat \<Rightarrow> string \<times> int32 \<times> nat" where
  "base32_loop alphabet [] value bits = ([], value, bits)"
| "base32_loop alphabet (b # bs) value bits =
     (let value = shl value 8 OR ucast b
      in case emit5 alphabet value (bits + 8) of
           (out, bits) \<Rightarrow> (case base32_loop alphabet bs value bits of (rest, v) \<Rightarrow> (out @ rest, v)))"

definition CROCKFORD :: string where
  "CROCKFORD = ''0123456789ABCDEFGHJKMNPQRSTVWXYZ''"

definition Z_ALPHABET :: string where
  "Z_ALPHABET = ''ybndrfg8ejkmcpqxot1uwisza345h769''"

definition encodeBase32 :: "u8 list \<Rightarrow> string" where
  "encodeBase32 bytes = fst (base32_loop CROCKFORD bytes 0 0)"

definition zBase32 :: "u8 list \<Rightarrow> string" where
  "zBase32 bytes =
     (case base32_loop Z_ALPHABET bytes 0 0 of
        (out, buffer, bits) \<Rightarrow>
          if 0 < bits then out @ [alphabet_at Z_ALPHABET (shl buffer (5 - bits) AND 31)] else out)"

definition zBase32Sha1 :: "(u8 list \<Rightarrow> u8 list) \<Rightarrow> string \<Rightarrow> string" where
  "zBase32Sha1 sha1 localPart = zBase32 (sha1 (utf8ToBytes (map (\<lambda>c. of_nat (code_unit c)) (js_lower localPart))))"

subsection \<open>The recovery code\<close>

definition ENTROPY_BYTES :: nat where
  "ENTROPY_BYTES = 20"

definition CODE_LENGTH :: nat where
  "CODE_LENGTH = (ENTROPY_BYTES * 8) div 5"

definition GROUP_SIZE :: nat where
  "GROUP_SIZE = 4"

text \<open>\<open>toUpperCase\<close> on one unit below 256; the sharp s becomes two letters, the micro sign and the y with
  diaeresis leave Latin-1 (they are dropped below like any other unit, and are kept as they are here).\<close>

definition js_upper_char :: "char \<Rightarrow> string" where
  "js_upper_char c = (let n = code_unit c in
     if 97 \<le> n \<and> n \<le> 122 \<or> 224 \<le> n \<and> n \<le> 254 \<and> n \<noteq> 247 then [char_of (n - 32)]
     else if n = 223 then ''SS'' else [c])"

definition fold_confusable :: "char \<Rightarrow> char" where
  "fold_confusable c = (if c \<in> set ''IL'' then CHR ''1'' else if c = CHR ''O'' then CHR ''0'' else c)"

definition normaliseRecoveryCode :: "string \<Rightarrow> string" where
  "normaliseRecoveryCode input =
     filter (\<lambda>c. c \<in> set CROCKFORD) (map fold_confusable (concat (map js_upper_char input)))"

definition formatRecoveryCode :: "string \<Rightarrow> string" where
  "formatRecoveryCode code = js_join ''-'' (chunks GROUP_SIZE (normaliseRecoveryCode code))"

definition typedRecoveryCode :: "string \<Rightarrow> string" where
  "typedRecoveryCode input = formatRecoveryCode (take CODE_LENGTH (normaliseRecoveryCode input))"

definition isValidRecoveryCode :: "string \<Rightarrow> bool" where
  "isValidRecoveryCode input \<longleftrightarrow> length (normaliseRecoveryCode input) = CODE_LENGTH"

text \<open>The random bytes are an argument.\<close>

definition generateRecoveryCode :: "u8 list \<Rightarrow> string" where
  "generateRecoveryCode random = formatRecoveryCode (encodeBase32 random)"

subsection \<open>The reference: groups of five bits\<close>

definition byte_bits :: "u8 \<Rightarrow> bool list" where
  "byte_bits b = map (bit b) (rev [0..<8])"

definition group_number :: "bool list \<Rightarrow> nat" where
  "group_number g = foldl (\<lambda>n b. 2 * n + of_bool b) 0 (g @ replicate (5 - length g) False)"

definition base32_spec :: "string \<Rightarrow> u8 list \<Rightarrow> string" where
  "base32_spec alphabet bytes = map (\<lambda>g. alphabet ! group_number g) (chunks 5 (concat (map byte_bits bytes)))"

definition pending :: "nat \<Rightarrow> int32 \<Rightarrow> bool list" where
  "pending n v = map (bit v) (rev [0..<n])"

lemma length_pending [simp]: "length (pending n v) = n" and length_byte_bits [simp]: "length (byte_bits b) = 8"
  by (simp_all add: pending_def byte_bits_def)

lemma small_number: "\<forall>w \<in> set (map of_nat [0..<32]). group_number (pending 5 w) = unat (w :: int32)"
  by code_simp

lemma number_of_bits: "w AND 31 = w \<Longrightarrow> group_number (pending 5 w) = unat w" for w :: int32
proof -
  assume "w AND 31 = w"
  moreover have "unat (w AND 31) < 32"
    using word_and_le1 [of w 31] by (simp add: word_le_nat_alt)
  ultimately have "unat w < 32" by simp
  then have "w \<in> set (map of_nat [0..<32])" by (auto simp: image_iff intro: bexI [of _ "unat w"])
  then show ?thesis using small_number by blast
qed

lemma pending_Suc [simp]: "pending (Suc n) v = bit v n # pending n v" and pending_0 [simp]: "pending 0 v = []"
  by (simp_all add: pending_def)

lemma drop_pending: "drop k (pending (k + n) v) = pending n v"
  by (induction k) simp_all

lemma emitted: "k + 5 \<le> 32 \<Longrightarrow> group_number (take 5 (pending (k + 5) v)) = unat (sar v k AND 31)"
proof -
  assume k: "k + 5 \<le> 32"
  let ?w = "sar v k AND 31"
  have bits: "bit ?w i = bit v (k + i)" if "i < 5" for i
  proof -
    have "i \<in> set [0..<5]" using that by simp
    moreover have "\<forall>i \<in> set [0..<5]. bit (31 :: int32) i" by code_simp
    ultimately have "bit (31 :: int32) i" by blast
    moreover have "\<not> 32 - k \<le> i" using k that by linarith
    ultimately show ?thesis using k that by (simp add: sar_def bit_simps)
  qed
  have "take 5 (pending (k + 5) v) = pending 5 ?w"
    using bits [of 0] bits [of 1] bits [of 2] bits [of 3] bits [of 4] by (simp add: numeral_eq_Suc)
  moreover have "?w AND 31 = ?w" by (simp add: and.assoc)
  ultimately show ?thesis using number_of_bits by simp
qed

lemma shifted_in: "n + 8 \<le> 32 \<Longrightarrow> pending (n + 8) (shl v 8 OR ucast b) = pending n v @ byte_bits b" for b :: u8
proof (induction n)
  case 0
  have "bit (shl v 8 OR ucast b) i = bit b i" if "i < 8" for i
    using that by (simp add: shl_def bit_simps)
  then show ?case by (simp add: pending_def byte_bits_def)
next
  case (Suc n)
  have "\<not> bit b (n + 8)" using bit_imp_le_length [of b "n + 8"] by auto
  then have "bit (shl v 8 OR ucast b) (n + 8) = bit v n"
    using Suc.prems by (simp add: shl_def bit_simps)
  then show ?case using Suc unfolding add_Suc pending_Suc by simp
qed

lemma chunks_append: "length xs = k * n \<Longrightarrow> 0 < n \<Longrightarrow> chunks n (xs @ ys) = chunks n xs @ chunks n ys"
proof (induction k arbitrary: xs)
  case (Suc k)
  have "chunks n (xs @ ys) = take n xs # chunks n (drop n xs @ ys)"
    using Suc.prems by (subst chunks.simps) auto
  moreover have "chunks n xs = take n xs # chunks n (drop n xs)"
    using Suc.prems by (subst chunks.simps) auto
  ultimately show ?case using Suc.IH [of "drop n xs"] Suc.prems by simp
qed (simp add: chunks.simps)

definition digits5 :: "string \<Rightarrow> bool list \<Rightarrow> string" where
  "digits5 alphabet bits = map (\<lambda>g. alphabet ! group_number g) (chunks 5 bits)"

lemma digits5_append: "length xs = k * 5 \<Longrightarrow> digits5 alphabet (xs @ ys) = digits5 alphabet xs @ digits5 alphabet ys"
  using chunks_append [of xs k 5 ys] by (simp add: digits5_def)

lemma digits5_one: "length g = 5 \<Longrightarrow> digits5 alphabet g = [alphabet ! group_number g]"
  by (cases g) (simp_all add: digits5_def chunks.simps)

lemma emit5_spec:
  assumes "n \<le> 32"
  shows "\<exists>k. emit5 alphabet v n = (digits5 alphabet (take (k * 5) (pending n v)), n - k * 5) \<and> k * 5 \<le> n \<and> n - k * 5 < 5"
  using assms
proof (induction alphabet v n rule: emit5.induct)
  case (1 alphabet v n)
  show ?case
  proof (cases "n < 5")
    case True
    then show ?thesis by (intro exI [of _ 0]) (subst emit5.simps, simp add: digits5_def chunks.simps)
  next
    case False
    obtain k where k: "emit5 alphabet v (n - 5) = (digits5 alphabet (take (k * 5) (pending (n - 5) v)), n - 5 - k * 5)"
      "k * 5 \<le> n - 5" "n - 5 - k * 5 < 5"
    proof -
      have "n - 5 \<le> 32" using 1(2) by simp
      from 1(1) [OF False this] show thesis using that by blast
    qed
    have n: "n = (n - 5) + 5" using False by simp
    have split: "take (Suc k * 5) (pending n v) = take 5 (pending n v) @ take (k * 5) (pending (n - 5) v)"
      using drop_pending [of 5 "n - 5" v] n by (metis add.commute mult_Suc take_add)
    have one: "digits5 alphabet (take 5 (pending n v)) = [alphabet_at alphabet (sar v (n - 5) AND 31)]"
      using emitted [of "n - 5" v] 1(2) n digits5_one [of "take 5 (pending n v)" alphabet] False
      by (simp add: alphabet_at_def)
    have "digits5 alphabet (take (Suc k * 5) (pending n v))
        = alphabet_at alphabet (sar v (n - 5) AND 31) # digits5 alphabet (take (k * 5) (pending (n - 5) v))"
      unfolding split using digits5_append [of "take 5 (pending n v)" 1] False one by simp
    then show ?thesis using k False
      by (intro exI [of _ "Suc k"]) (subst emit5.simps, simp)
  qed
qed

lemma base32_loop_spec:
  assumes "n < 5"
  shows "\<exists>k v'. base32_loop alphabet bytes v n
    = (digits5 alphabet (take (k * 5) (pending n v @ concat (map byte_bits bytes))), v', n + 8 * length bytes - k * 5)
    \<and> k * 5 \<le> n + 8 * length bytes \<and> n + 8 * length bytes - k * 5 < 5
    \<and> pending (n + 8 * length bytes - k * 5) v' = drop (k * 5) (pending n v @ concat (map byte_bits bytes))"
  using assms
proof (induction bytes arbitrary: v n)
  case Nil
  then show ?case by (intro exI [of _ 0] exI [of _ v]) (simp add: digits5_def chunks.simps)
next
  case (Cons b bs)
  let ?v = "shl v 8 OR ucast b" and ?rest = "concat (map byte_bits bs)"
  have p: "pending (n + 8) ?v = pending n v @ byte_bits b" using shifted_in [of n v b] Cons.prems by simp
  obtain k where k: "emit5 alphabet ?v (n + 8) = (digits5 alphabet (take (k * 5) (pending (n + 8) ?v)), n + 8 - k * 5)"
    "k * 5 \<le> n + 8" "n + 8 - k * 5 < 5" using emit5_spec [of "n + 8" alphabet ?v] Cons.prems by auto
  define m where "m = n + 8 - k * 5"
  have left: "pending m ?v = drop (k * 5) (pending (n + 8) ?v)"
    using drop_pending [of "k * 5" m ?v] k(2) by (simp add: m_def)
  obtain j v' where j: "base32_loop alphabet bs ?v m = (digits5 alphabet (take (j * 5) (pending m ?v @ ?rest)), v', m + 8 * length bs - j * 5)"
    "j * 5 \<le> m + 8 * length bs" "m + 8 * length bs - j * 5 < 5"
    "pending (m + 8 * length bs - j * 5) v' = drop (j * 5) (pending m ?v @ ?rest)"
    using Cons.IH [of m ?v] k(3) by (auto simp: m_def)
  let ?all = "pending n v @ concat (map byte_bits (b # bs))"
  have all: "?all = take (k * 5) (pending (n + 8) ?v) @ pending m ?v @ ?rest"
    unfolding left append_assoc [symmetric] append_take_drop_id p by simp
  have len: "length (take (k * 5) (pending (n + 8) ?v)) = k * 5" using k(2) by simp
  have "take ((k + j) * 5) ?all = take (k * 5) (pending (n + 8) ?v) @ take (j * 5) (pending m ?v @ ?rest)"
    unfolding all using len by (simp add: add_mult_distrib)
  then have "digits5 alphabet (take ((k + j) * 5) ?all)
      = digits5 alphabet (take (k * 5) (pending (n + 8) ?v)) @ digits5 alphabet (take (j * 5) (pending m ?v @ ?rest))"
    using digits5_append [OF len] by simp
  moreover have "drop ((k + j) * 5) ?all = drop (j * 5) (pending m ?v @ ?rest)"
    unfolding all using len by (simp add: add_mult_distrib)
  moreover have "n + 8 * length (b # bs) - (k + j) * 5 = m + 8 * length bs - j * 5" "(k + j) * 5 \<le> n + 8 * length (b # bs)"
    using k(2) j(2) by (simp_all add: m_def)
  ultimately show ?case
    using k(1) j by (intro exI [of _ "k + j"] exI [of _ v']) (simp add: Let_def m_def [symmetric])
qed

lemma length_bits: "length (concat (map byte_bits bytes)) = 8 * length bytes"
  by (induction bytes) simp_all

lemma encodeBase32_spec: "5 dvd 8 * length bytes \<Longrightarrow> encodeBase32 bytes = base32_spec CROCKFORD bytes"
proof -
  assume d: "5 dvd 8 * length bytes"
  obtain k v' where k: "base32_loop CROCKFORD bytes 0 0
      = (digits5 CROCKFORD (take (k * 5) (concat (map byte_bits bytes))), v', 8 * length bytes - k * 5)"
    "k * 5 \<le> 8 * length bytes" "8 * length bytes - k * 5 < 5"
    using base32_loop_spec [of 0 CROCKFORD bytes 0] by auto
  have "5 dvd 8 * length bytes - k * 5" using d by (simp add: dvd_diff_nat)
  then have "k * 5 = 8 * length bytes" using k(2,3) by (metis dvd_imp_le le_antisym diff_is_0_eq not_gr_zero not_le)
  then show ?thesis using k(1) by (simp add: encodeBase32_def base32_spec_def digits5_def length_bits)
qed

lemma last_digit:
  assumes "0 < m" and "m < 5"
  shows "unat (shl v (5 - m) AND 31) = group_number (pending m v)"
proof -
  let ?w = "shl v (5 - m) AND 31"
  have five: "bit (31 :: int32) i" if "i < 5" for i
  proof -
    have "\<forall>i \<in> set [0..<5]. bit (31 :: int32) i" by code_simp
    then show ?thesis using that by simp
  qed
  have bits: "bit ?w i = (5 - m \<le> i \<and> bit v (i - (5 - m)))" if "i < 5" for i
    using that five [OF that] by (simp add: shl_def bit_simps)
  have "pending 5 ?w = [bit ?w 4, bit ?w 3, bit ?w 2, bit ?w 1, bit ?w 0]"
    by (simp add: numeral_eq_Suc)
  moreover have "pending m v @ replicate (5 - m) False = [5 - m \<le> 4 \<and> bit v (4 - (5 - m)), 5 - m \<le> 3 \<and> bit v (3 - (5 - m)),
      5 - m \<le> 2 \<and> bit v (2 - (5 - m)), 5 - m \<le> 1 \<and> bit v (1 - (5 - m)), 5 - m \<le> 0 \<and> bit v (0 - (5 - m))]"
  proof -
    consider "m = 1" | "m = 2" | "m = 3" | "m = 4" using assms by linarith
    then show ?thesis by cases (simp_all add: pending_def upt_rec numeral_eq_Suc)
  qed
  ultimately have "pending 5 ?w = pending m v @ replicate (5 - m) False"
    using bits [of 0] bits [of 1] bits [of 2] bits [of 3] bits [of 4] by (simp only: zero_less_numeral one_less_numeral_iff)
       (simp only: list.inject, simp)
  moreover have "?w AND 31 = ?w" by (simp add: and.assoc)
  ultimately show ?thesis using number_of_bits [of ?w] by (simp add: group_number_def)
qed

lemma digits5_short: "0 < length g \<Longrightarrow> length g < 5 \<Longrightarrow> digits5 alphabet g = [alphabet ! group_number g]"
  by (cases g) (simp_all add: digits5_def chunks.simps)

lemma zBase32_spec: "zBase32 bytes = base32_spec Z_ALPHABET bytes"
proof -
  let ?bits = "concat (map byte_bits bytes)" and ?n = "8 * length bytes"
  obtain k v' where k: "base32_loop Z_ALPHABET bytes 0 0 = (digits5 Z_ALPHABET (take (k * 5) ?bits), v', ?n - k * 5)"
    "k * 5 \<le> ?n" "?n - k * 5 < 5" "pending (?n - k * 5) v' = drop (k * 5) ?bits"
    using base32_loop_spec [of 0 Z_ALPHABET bytes 0] by auto
  have spec: "base32_spec Z_ALPHABET bytes = digits5 Z_ALPHABET (take (k * 5) ?bits) @ digits5 Z_ALPHABET (pending (?n - k * 5) v')"
    using digits5_append [of "take (k * 5) ?bits" k Z_ALPHABET "drop (k * 5) ?bits"] k(2,4)
    by (simp add: base32_spec_def digits5_def [symmetric] length_bits)
  show ?thesis
  proof (cases "?n - k * 5 = 0")
    case True
    then show ?thesis using k(1) spec by (simp add: zBase32_def digits5_def chunks.simps)
  next
    case False
    then show ?thesis
      using k(1,3) spec last_digit [of "?n - k * 5" v'] digits5_short [of "pending (?n - k * 5) v'" Z_ALPHABET]
      by (simp add: zBase32_def alphabet_at_def)
  qed
qed

subsection \<open>Writing a code down\<close>

lemma bare_append: "normaliseRecoveryCode (a @ b) = normaliseRecoveryCode a @ normaliseRecoveryCode b"
  by (simp add: normaliseRecoveryCode_def)

lemma bare_Cons: "normaliseRecoveryCode (c # cs) = normaliseRecoveryCode [c] @ normaliseRecoveryCode cs"
  using bare_append [of "[c]" cs] by simp

lemma normalise_alphabet: "\<forall>c \<in> set CROCKFORD. normaliseRecoveryCode [c] = [c]"
  by code_simp

lemma normalise_dash: "normaliseRecoveryCode ''-'' = []"
  by code_simp

lemma normalise_Nil [simp]: "normaliseRecoveryCode [] = []"
  by (simp add: normaliseRecoveryCode_def)

lemma normalise_bare: "set s \<subseteq> set CROCKFORD \<Longrightarrow> normaliseRecoveryCode s = s"
proof (induction s)
  case (Cons c s)
  then show ?case using bare_Cons [of c s] normalise_alphabet by auto
qed simp

lemma normalise_set: "set (normaliseRecoveryCode s) \<subseteq> set CROCKFORD"
  by (auto simp: normaliseRecoveryCode_def)

lemma normalise_dash_Cons: "normaliseRecoveryCode (CHR ''-'' # s) = normaliseRecoveryCode s"
  by (subst bare_Cons) (simp add: normalise_dash)

lemma normalise_join: "normaliseRecoveryCode (js_join ''-'' xs) = normaliseRecoveryCode (concat xs)"
  by (induction "''-'' :: string" xs rule: js_join.induct) (simp_all add: bare_append normalise_dash_Cons)

lemma normalise_format: "normaliseRecoveryCode (formatRecoveryCode code) = normaliseRecoveryCode code"
  using normalise_bare [OF normalise_set] by (simp add: formatRecoveryCode_def normalise_join concat_chunks GROUP_SIZE_def)

lemma group_numbers:
  "distinct (map group_number (List.n_lists 5 [False, True]))"
  "\<forall>g \<in> set (List.n_lists 5 [False, True]). group_number g < 32"
  by code_simp+

lemma five_bits: "g \<in> set (List.n_lists 5 [False, True]) \<longleftrightarrow> length g = 5"
  by (auto simp: set_n_lists)

lemma digit_injective:
  assumes "length g = 5" and "length h = 5" and "CROCKFORD ! group_number g = CROCKFORD ! group_number h"
  shows "g = h"
proof -
  have "distinct CROCKFORD" "length CROCKFORD = 32" by (simp_all add: CROCKFORD_def)
  then have "group_number g = group_number h"
    using group_numbers(2) five_bits assms by (metis nth_eq_iff_index_eq)
  then show ?thesis using group_numbers(1) five_bits assms unfolding distinct_map by (metis inj_onD)
qed

lemma chunk_lengths: "length xs = k * 5 \<Longrightarrow> g \<in> set (chunks 5 xs) \<Longrightarrow> length g = 5"
proof (induction k arbitrary: xs)
  case (Suc k)
  then have c: "chunks 5 xs = take 5 xs # chunks 5 (drop 5 xs)" by (subst chunks.simps) auto
  from Suc.prems(2) consider "g = take 5 xs" | "g \<in> set (chunks 5 (drop 5 xs))" unfolding c by auto
  then show ?case
    using Suc.IH [of "drop 5 xs"] Suc.prems(1) by cases auto
qed (simp add: chunks.simps)

lemma chunk_count: "length xs = k * 5 \<Longrightarrow> length (chunks 5 xs) = k"
proof (induction k arbitrary: xs)
  case (Suc k)
  then have "chunks 5 xs = take 5 xs # chunks 5 (drop 5 xs)" by (subst chunks.simps) auto
  then show ?case using Suc.IH [of "drop 5 xs"] Suc.prems by simp
next
  case 0
  then show ?case by (subst chunks.simps) simp
qed

lemma byte_bits_inject: "byte_bits a = byte_bits b \<Longrightarrow> a = b"
  by (simp add: byte_bits_def bits_eq8 rev_map [symmetric])

lemma encode_injective:
  assumes "length a = ENTROPY_BYTES" and "length b = ENTROPY_BYTES" and "encodeBase32 a = encodeBase32 b"
  shows "a = b"
proof -
  let ?bits = "\<lambda>bs. concat (map byte_bits bs)"
  have len: "length (?bits a) = 32 * 5" "length (?bits b) = 32 * 5"
    using assms(1,2) by (simp_all add: length_bits ENTROPY_BYTES_def)
  have "map (\<lambda>g. CROCKFORD ! group_number g) (chunks 5 (?bits a)) = map (\<lambda>g. CROCKFORD ! group_number g) (chunks 5 (?bits b))"
    using assms encodeBase32_spec [of a] encodeBase32_spec [of b] by (simp add: ENTROPY_BYTES_def base32_spec_def)
  then have "chunks 5 (?bits a) = chunks 5 (?bits b)"
  proof (rule map_inj_on)
    show "inj_on (\<lambda>g. CROCKFORD ! group_number g) (set (chunks 5 (?bits a)) \<union> set (chunks 5 (?bits b)))"
    proof (rule inj_onI)
      fix g h assume "g \<in> set (chunks 5 (?bits a)) \<union> set (chunks 5 (?bits b))"
        and "h \<in> set (chunks 5 (?bits a)) \<union> set (chunks 5 (?bits b))"
        and eq: "CROCKFORD ! group_number g = CROCKFORD ! group_number h"
      then have "length g = 5" "length h = 5" using chunk_lengths [OF len(1)] chunk_lengths [OF len(2)] by blast+
      then show "g = h" using eq by (rule digit_injective)
    qed
  qed
  then have "concat (chunks 5 (?bits a)) = concat (chunks 5 (?bits b))" by (rule arg_cong)
  then have "?bits a = ?bits b" by (simp only: concat_chunks [OF zero_less_numeral])
  then have "map byte_bits a = map byte_bits b"
    by (rule concat_injective) (use assms(1,2) in \<open>auto simp: in_set_zip\<close>)
  then show ?thesis using byte_bits_inject by (metis list.inj_map injI inj_map_eq_map)
qed

lemma encode_set: "length bytes = ENTROPY_BYTES \<Longrightarrow> set (encodeBase32 bytes) \<subseteq> set CROCKFORD \<and> length (encodeBase32 bytes) = CODE_LENGTH"
proof -
  assume l: "length bytes = ENTROPY_BYTES"
  then have e: "encodeBase32 bytes = base32_spec CROCKFORD bytes" by (intro encodeBase32_spec) (simp add: ENTROPY_BYTES_def)
  have len: "length (concat (map byte_bits bytes)) = 32 * 5" using l by (simp add: length_bits ENTROPY_BYTES_def)
  have "group_number g < length CROCKFORD" if "g \<in> set (chunks 5 (concat (map byte_bits bytes)))" for g
  proof -
    have "length CROCKFORD = 32" by (simp add: CROCKFORD_def)
    moreover have "group_number g < 32" using group_numbers(2) five_bits chunk_lengths [OF len that] by blast
    ultimately show ?thesis by (simp only:)
  qed
  then have "set (encodeBase32 bytes) \<subseteq> set CROCKFORD" by (auto simp: e base32_spec_def)
  moreover from chunk_count [OF len] have "length (encodeBase32 bytes) = CODE_LENGTH"
    by (simp add: e base32_spec_def CODE_LENGTH_def ENTROPY_BYTES_def)
  ultimately show ?thesis by blast
qed

subsection \<open>Properties\<close>

text \<open>C40 Both encoders write the bits of the bytes, most significant first, five to a letter, and the buffer that is never
  masked loses nothing however many bytes there are. The recovery code's length is a multiple of five bits, as
  that encoder requires; z-base-32 fills a last partial group with zero bits.\<close>

theorem base32_encoders_match_spec:
  "zBase32 bytes = base32_spec Z_ALPHABET bytes
   \<and> (length bytes = ENTROPY_BYTES \<longrightarrow> encodeBase32 bytes = base32_spec CROCKFORD bytes)"
  using zBase32_spec encodeBase32_spec [of bytes] by (simp add: ENTROPY_BYTES_def)

theorem base32_encoders_match_spec_witness:
  "encodeBase32 (replicate 20 0xff) = base32_spec CROCKFORD (replicate 20 0xff)"
  using base32_encoders_match_spec [of "replicate 20 0xff"] by (simp add: ENTROPY_BYTES_def)

text \<open>A recovery code survives paper: however it is grouped, a generated code reads back as its thirty-two letters, is
  accepted and shows the same when typed, and two different codes never read the same.\<close>

theorem recovery_code_round_trip:
  assumes "length a = ENTROPY_BYTES" and "length b = ENTROPY_BYTES"
  shows "normaliseRecoveryCode (generateRecoveryCode a) = encodeBase32 a \<and> isValidRecoveryCode (generateRecoveryCode a)
    \<and> formatRecoveryCode (generateRecoveryCode a) = generateRecoveryCode a
    \<and> typedRecoveryCode (generateRecoveryCode a) = generateRecoveryCode a
    \<and> (normaliseRecoveryCode (generateRecoveryCode a) = normaliseRecoveryCode (generateRecoveryCode b) \<longrightarrow> a = b)"
proof -
  have n: "normaliseRecoveryCode (generateRecoveryCode c) = encodeBase32 c" if "length c = ENTROPY_BYTES" for c
    using encode_set [OF that] normalise_bare by (simp add: generateRecoveryCode_def normalise_format)
  have f: "formatRecoveryCode (generateRecoveryCode a) = generateRecoveryCode a"
    using n [OF assms(1)] by (simp add: formatRecoveryCode_def [of "generateRecoveryCode a"])
       (simp add: generateRecoveryCode_def formatRecoveryCode_def normalise_bare encode_set assms(1))
  have t: "typedRecoveryCode (generateRecoveryCode a) = generateRecoveryCode a"
    using n [OF assms(1)] encode_set [OF assms(1)] by (simp add: typedRecoveryCode_def generateRecoveryCode_def)
  show ?thesis using n [OF assms(1)] n [OF assms(2)] f t encode_set [OF assms(1)] encode_injective [OF assms]
    by (simp add: isValidRecoveryCode_def)
qed

theorem recovery_code_round_trip_witness:
  "normaliseRecoveryCode (generateRecoveryCode (replicate 20 7)) \<noteq> normaliseRecoveryCode (generateRecoveryCode (replicate 20 8))"
  using recovery_code_round_trip [of "replicate 20 7" "replicate 20 8"] by (auto simp: ENTROPY_BYTES_def)

end
