(* ===== verification/App_Lock.thy ===== *)
theory App_Lock
  imports Base64
begin

text \<open>
  The app lock (\<^verbatim>\<open>applock/appLock.ts\<close>) and the check of a typed PIN (\<^verbatim>\<open>ui/appLock.tsx\<close>). The key derivation PBKDF2 is
  the parameter \<open>kdf pin salt rounds\<close>; a PIN is the string typed.
\<close>

definition PIN_MIN_LENGTH :: nat where "PIN_MIN_LENGTH = 4"
definition PIN_MAX_LENGTH :: nat where "PIN_MAX_LENGTH = 8"
definition PIN_ITERATIONS :: nat where "PIN_ITERATIONS = 1000"

record pin_verifier =
  pv_salt :: string
  pv_hash :: string
  pv_iterations :: nat
  pv_length :: nat

datatype lock_timeout = Immediately | After1m | After5m | After15m | After1h

definition LOCK_TIMEOUT_MS :: "lock_timeout \<Rightarrow> int" where
  "LOCK_TIMEOUT_MS t = (case t of Immediately \<Rightarrow> 0 | After1m \<Rightarrow> 60000 | After5m \<Rightarrow> 5 * 60000
     | After15m \<Rightarrow> 15 * 60000 | After1h \<Rightarrow> 60 * 60000)"

record lock_prefs =
  lp_pin :: "pin_verifier option"
  lp_biometrics :: bool
  lp_timeout :: lock_timeout
  lp_failures :: int
  lp_lockedUntil :: int

definition DEFAULT_APP_LOCK :: lock_prefs where
  "DEFAULT_APP_LOCK =
     \<lparr>lp_pin = None, lp_biometrics = False, lp_timeout = Immediately, lp_failures = 0, lp_lockedUntil = 0\<rparr>"

definition isLockEnabled :: "lock_prefs \<Rightarrow> bool" where
  "isLockEnabled p \<longleftrightarrow> lp_pin p \<noteq> None"

definition isValidPin :: "string \<Rightarrow> bool" where
  "isValidPin pin \<longleftrightarrow> PIN_MIN_LENGTH \<le> length pin \<and> length pin \<le> PIN_MAX_LENGTH
     \<and> list_all (\<lambda>c. 48 \<le> code_unit c \<and> code_unit c \<le> 57) pin"

type_synonym kdf = "string \<Rightarrow> u8 list \<Rightarrow> nat \<Rightarrow> u8 list"

text \<open>\<open>None\<close> is the error for a PIN of the wrong shape.\<close>

definition makePinVerifier :: "kdf \<Rightarrow> string \<Rightarrow> u8 list \<Rightarrow> nat \<Rightarrow> pin_verifier option" where
  "makePinVerifier kdf pin salt iterations =
     (if \<not> isValidPin pin then None
      else Some \<lparr>pv_salt = bytesToBase64 salt, pv_hash = bytesToBase64 (kdf pin salt iterations),
        pv_iterations = iterations, pv_length = length pin\<rparr>)"

definition needsRehash :: "pin_verifier \<Rightarrow> bool" where
  "needsRehash v \<longleftrightarrow> pv_iterations v \<noteq> PIN_ITERATIONS"

definition constantTimeEqual :: "u8 list \<Rightarrow> u8 list \<Rightarrow> bool" where
  "constantTimeEqual a b \<longleftrightarrow>
     length a = length b \<and> foldl (\<lambda>diff (x, y). diff OR (ucast x XOR ucast y)) (0 :: int32) (zip a b) = 0"

definition checkPin :: "kdf \<Rightarrow> string \<Rightarrow> pin_verifier \<Rightarrow> bool" where
  "checkPin kdf pin v \<longleftrightarrow> isValidPin pin \<and> length pin = pv_length v
     \<and> constantTimeEqual (kdf pin (base64ToBytes (pv_salt v)) (pv_iterations v)) (base64ToBytes (pv_hash v))"

definition FREE_ATTEMPTS :: int where "FREE_ATTEMPTS = 5"
definition FIRST_COOLDOWN_MS :: int where "FIRST_COOLDOWN_MS = 30000"
definition MAX_COOLDOWN_MS :: int where "MAX_COOLDOWN_MS = 60 * 60000"

definition cooldownAfter :: "int \<Rightarrow> int" where
  "cooldownAfter failures =
     (if failures < FREE_ATTEMPTS then 0
      else min (FIRST_COOLDOWN_MS * 2 ^ nat (min (failures - FREE_ATTEMPTS) 20)) MAX_COOLDOWN_MS)"

definition afterFailure :: "lock_prefs \<Rightarrow> int \<Rightarrow> lock_prefs" where
  "afterFailure p now =
     (let failures = lp_failures p + 1; wait = cooldownAfter failures
      in p\<lparr>lp_failures := failures, lp_lockedUntil := (if 0 < wait then now + wait else 0)\<rparr>)"

definition afterSuccess :: "lock_prefs \<Rightarrow> lock_prefs" where
  "afterSuccess p = p\<lparr>lp_failures := 0, lp_lockedUntil := 0\<rparr>"

definition cooldownRemaining :: "lock_prefs \<Rightarrow> int \<Rightarrow> int" where
  "cooldownRemaining p now = max 0 (lp_lockedUntil p - now)"

definition shouldLockOnReturn :: "lock_prefs \<Rightarrow> int option \<Rightarrow> int \<Rightarrow> bool" where
  "shouldLockOnReturn p awayAt now =
     (case awayAt of None \<Rightarrow> False
      | Some at \<Rightarrow> isLockEnabled p \<and> (let away = now - at in away < 0 \<or> LOCK_TIMEOUT_MS (lp_timeout p) \<le> away))"

definition describeWait :: "(int \<Rightarrow> string) \<Rightarrow> int \<Rightarrow> string" where
  "describeWait show_int ms =
     (let seconds = (ms + 999) div 1000; minutes = (seconds + 59) div 60; hours = (minutes + 59) div 60;
          plural = (\<lambda>n. if n = 1 then '''' else ''s'')
      in if seconds < 60 then show_int seconds @ '' second'' @ plural seconds
         else if minutes < 60 then show_int minutes @ '' minute'' @ plural minutes
         else show_int hours @ '' hour'' @ plural hours)"

subsection \<open>A typed PIN\<close>

datatype pin_attempt = NoPinSet | TooMany int | Right | WrongPin int

text \<open>One attempt at the times \<open>now\<close> (before the derivation) and \<open>later\<close> (after it); the replacement of an old
  verifier, which changes neither counter, is left out.\<close>

definition verifyPin :: "kdf \<Rightarrow> string \<Rightarrow> int \<Rightarrow> int \<Rightarrow> lock_prefs \<Rightarrow> pin_attempt \<times> lock_prefs" where
  "verifyPin kdf pin now later p =
     (case lp_pin p of
        None \<Rightarrow> (NoPinSet, p)
      | Some v \<Rightarrow>
          if 0 < cooldownRemaining p now then (TooMany (cooldownRemaining p now), p)
          else if checkPin kdf pin v then (Right, if 0 < lp_failures p \<or> 0 < lp_lockedUntil p then afterSuccess p else p)
          else (let failed = afterFailure p later in (WrongPin (cooldownRemaining failed later), failed)))"

text \<open>A series of attempts with the clock at each.\<close>

fun attempts :: "kdf \<Rightarrow> (string \<times> int \<times> int) list \<Rightarrow> lock_prefs \<Rightarrow> pin_attempt list \<times> lock_prefs" where
  "attempts kdf [] p = ([], p)"
| "attempts kdf ((pin, now, later) # as) p =
     (case verifyPin kdf pin now later p of
        (r, p1) \<Rightarrow> (case attempts kdf as p1 of (rs, p2) \<Rightarrow> (r # rs, p2)))"

subsection \<open>Facts\<close>

lemma constantTimeEqual_iff: "constantTimeEqual a b \<longleftrightarrow> a = b"
proof -
  have or0: "(d OR e = 0) = (d = 0 \<and> e = 0)" for d e :: int32
    by (rule or_eq_0_iff)
  have x0: "(ucast x XOR ucast y = (0 :: int32)) = (x = y)" for x y :: u8
    by (simp add: bits_eq8 bits_eq32 eval_bits)
  have "foldl (\<lambda>diff (x, y). diff OR (ucast x XOR ucast y)) d zs = 0 \<longleftrightarrow> d = 0 \<and> (\<forall>(x, y) \<in> set zs. x = y)"
    for d :: int32 and zs :: "(u8 \<times> u8) list"
    by (induction zs arbitrary: d) (auto simp: or0 x0)
  moreover have "(\<forall>(x, y) \<in> set (zip a b). x = y) \<longleftrightarrow> a = b" if "length a = length b"
    using that by (induction a b rule: list_induct2) auto
  ultimately show ?thesis unfolding constantTimeEqual_def by auto
qed

lemma checkPin_made:
  assumes "makePinVerifier kdf pin salt n = Some v"
  shows "checkPin kdf pin' v \<longleftrightarrow> isValidPin pin' \<and> length pin' = length pin \<and> kdf pin' salt n = kdf pin salt n"
proof -
  have "v = \<lparr>pv_salt = bytesToBase64 salt, pv_hash = bytesToBase64 (kdf pin salt n), pv_iterations = n, pv_length = length pin\<rparr>"
    using assms by (auto simp: makePinVerifier_def split: if_splits)
  then show ?thesis by (simp add: checkPin_def constantTimeEqual_iff base64_inverse)
qed

text \<open>The time that \<open>n\<close> wrong PINs take at least: the cooldowns between them.\<close>

fun wait_sum :: "nat \<Rightarrow> int" where
  "wait_sum 0 = 0"
| "wait_sum (Suc n) = wait_sum n + cooldownAfter (int n)"

lemma cooldown_nonneg [simp]: "0 \<le> cooldownAfter n"
  by (simp add: cooldownAfter_def FIRST_COOLDOWN_MS_def MAX_COOLDOWN_MS_def)

lemma cooldown_pos: "5 \<le> n \<Longrightarrow> 0 < cooldownAfter n"
  by (simp add: cooldownAfter_def FREE_ATTEMPTS_def FIRST_COOLDOWN_MS_def MAX_COOLDOWN_MS_def)

lemma cooldown_cap: "12 \<le> n \<Longrightarrow> cooldownAfter n = MAX_COOLDOWN_MS"
proof -
  assume "12 \<le> n"
  then have "7 \<le> nat (min (n - FREE_ATTEMPTS) 20)" by (simp add: FREE_ATTEMPTS_def)
  then have "(2 :: int) ^ 7 \<le> 2 ^ nat (min (n - FREE_ATTEMPTS) 20)" by (rule power_increasing) simp
  then show ?thesis using \<open>12 \<le> n\<close>
    by (simp add: cooldownAfter_def FREE_ATTEMPTS_def FIRST_COOLDOWN_MS_def MAX_COOLDOWN_MS_def)
qed

lemma wait_sum_cap: "wait_sum (12 + n) = wait_sum 12 + int n * MAX_COOLDOWN_MS"
proof (induction n)
  case (Suc n)
  have "wait_sum (12 + Suc n) = wait_sum (12 + n) + cooldownAfter (int (12 + n))"
    unfolding add_Suc_right wait_sum.simps by simp
  then show ?case using Suc cooldown_cap [of "int (12 + n)"] by (simp add: algebra_simps)
qed simp

lemma wait_sum_nonneg: "0 \<le> wait_sum n"
  by (induction n) simp_all

text \<open>What the counters say after wrong attempts alone, started at \<open>t0\<close> with none.\<close>

definition counted :: "int \<Rightarrow> int \<Rightarrow> lock_prefs \<Rightarrow> bool" where
  "counted t0 t p \<longleftrightarrow> (\<exists>n. lp_failures p = int n \<and> t0 + wait_sum n \<le> t
     \<and> (0 < n \<longrightarrow> cooldownAfter (int n) = 0 \<or> t0 + wait_sum (Suc n) \<le> lp_lockedUntil p) \<and> (n = 0 \<longrightarrow> lp_lockedUntil p \<le> 0))"

definition no_success :: "pin_attempt list \<Rightarrow> bool" where
  "no_success rs \<longleftrightarrow> list_all (\<lambda>r. r \<noteq> Right) rs"

lemma verifyPin_counted:
  assumes "verifyPin kdf pin now later p = (r, p')" and "r \<noteq> Right" and "counted t0 t p" and "t \<le> now" and "now \<le> later"
  shows "counted t0 later p' \<and> (r = TooMany w \<longrightarrow> p' = p)"
proof -
  obtain n where n: "lp_failures p = int n" "t0 + wait_sum n \<le> t"
    "0 < n \<longrightarrow> cooldownAfter (int n) = 0 \<or> t0 + wait_sum (Suc n) \<le> lp_lockedUntil p" "n = 0 \<longrightarrow> lp_lockedUntil p \<le> 0"
    using assms(3) by (auto simp: counted_def)
  have same: "counted t0 later p" using n assms(4,5) by (auto simp: counted_def)
  show ?thesis
  proof (cases "lp_pin p = None \<or> 0 < cooldownRemaining p now")
    case True
    then have "p' = p" using assms(1) by (auto simp: verifyPin_def split: option.splits if_splits)
    then show ?thesis using same by simp
  next
    case False
    then have out: "r = WrongPin (cooldownRemaining (afterFailure p later) later)" "p' = afterFailure p later"
      using assms(1,2) by (auto simp: verifyPin_def Let_def split: option.splits if_splits)
    have "lp_lockedUntil p \<le> now" using False by (auto simp: cooldownRemaining_def)
    then have waited: "t0 + wait_sum (Suc n) \<le> later"
      using n assms(4,5) by (cases n) (auto simp: cooldownAfter_def FREE_ATTEMPTS_def)
    have "counted t0 later (afterFailure p later)"
      unfolding counted_def
    proof (intro exI [of _ "Suc n"] conjI impI)
      show "lp_failures (afterFailure p later) = int (Suc n)" using n(1) by (simp add: afterFailure_def Let_def)
      show "t0 + wait_sum (Suc n) \<le> later" by (rule waited)
      have until: "lp_lockedUntil (afterFailure p later) = later + cooldownAfter (int (Suc n))" if "cooldownAfter (int (Suc n)) \<noteq> 0"
      proof -
        have "0 < cooldownAfter (int n + 1)" using that cooldown_nonneg [of "1 + int n"] by (simp add: add.commute order_le_less)
        then show ?thesis using n(1) by (simp add: afterFailure_def Let_def add.commute)
      qed
      show "cooldownAfter (int (Suc n)) = 0 \<or> t0 + wait_sum (Suc (Suc n)) \<le> lp_lockedUntil (afterFailure p later)"
      proof (cases "cooldownAfter (int (Suc n)) = 0")
        case False
        have "wait_sum (Suc (Suc n)) = wait_sum (Suc n) + cooldownAfter (int (Suc n))" by (rule wait_sum.simps(2))
        then show ?thesis using until [OF False] waited by simp
      qed simp
    qed simp_all
    then show ?thesis using out by simp
  qed
qed

text \<open>The clock does not run backwards during the attempts.\<close>

fun clock_ok :: "int \<Rightarrow> (string \<times> int \<times> int) list \<Rightarrow> bool" where
  "clock_ok t [] = True"
| "clock_ok t ((pin, now, later) # as) \<longleftrightarrow> t \<le> now \<and> now \<le> later \<and> clock_ok later as"

fun last_time :: "int \<Rightarrow> (string \<times> int \<times> int) list \<Rightarrow> int" where
  "last_time t [] = t"
| "last_time t ((pin, now, later) # as) = last_time later as"

lemma attempts_counted:
  "attempts kdf as p = (rs, p') \<Longrightarrow> no_success rs \<Longrightarrow> counted t0 t p \<Longrightarrow> clock_ok t as \<Longrightarrow> counted t0 (last_time t as) p'"
proof (induction kdf as p arbitrary: rs p' t rule: attempts.induct)
  case (2 kdf pin now later as p)
  obtain r p1 where v: "verifyPin kdf pin now later p = (r, p1)" by fastforce
  obtain rs1 p2 where a: "attempts kdf as p1 = (rs1, p2)" by fastforce
  have out: "rs = r # rs1" "p' = p2" using 2(2) v a by auto
  then have r: "r \<noteq> Right" "no_success rs1" using 2(3) by (auto simp: no_success_def)
  have "counted t0 later p1" using verifyPin_counted [OF v r(1) 2(4)] 2(5) by auto
  then show ?case using 2(1) [OF v [symmetric] a r(2)] out 2(5) by simp
qed simp

subsection \<open>Properties\<close>

text \<open>C38 Guessing is slow: whatever is typed and however fast, as long as the clock does not run backwards, reaching a
  count of n wrong PINs takes at least the sum of the cooldowns in between, so more than an hour for every count past twelve;
  an attempt during a cooldown is refused without being checked.\<close>

theorem guessing_takes_time:
  assumes "attempts kdf as p = (rs, p')" and "no_success rs" and "clock_ok t0 as"
    and "lp_failures p = 0" and "lp_lockedUntil p = 0" and "lp_failures p' = int n"
  shows "wait_sum n \<le> last_time t0 as - t0 \<and> (12 \<le> n \<longrightarrow> int (n - 12) * MAX_COOLDOWN_MS \<le> last_time t0 as - t0)"
proof -
  have "counted t0 t0 p" using assms(4,5) by (auto simp: counted_def intro!: exI [of _ 0])
  from attempts_counted [OF assms(1,2) this assms(3)] have w: "wait_sum n \<le> last_time t0 as - t0"
    using assms(6) by (auto simp: counted_def)
  moreover have "int (n - 12) * MAX_COOLDOWN_MS \<le> wait_sum n" if "12 \<le> n"
    using wait_sum_cap [of "n - 12"] wait_sum_nonneg [of 12] that by simp
  ultimately show ?thesis by force
qed

definition sample_lock :: lock_prefs where
  "sample_lock = DEFAULT_APP_LOCK\<lparr>lp_pin := Some \<lparr>pv_salt = ''AA=='', pv_hash = ''AQ=='', pv_iterations = 1, pv_length = 4\<rparr>\<rparr>"

theorem guessing_takes_time_witness:
  "wait_sum 6 \<le> 30000 \<and> lp_failures (snd (attempts (\<lambda>_ _ _. [0]) (replicate 6 (''1111'', 0, 0) @ [(''1111'', 30000, 30000)]) sample_lock)) = 6"
proof -
  let ?as = "replicate 6 (''1111'', 0, 0) @ [(''1111'', 30000, 30000)] :: (string \<times> int \<times> int) list"
  obtain rs p' where a: "attempts (\<lambda>_ _ _. [0]) ?as sample_lock = (rs, p')" by fastforce
  have six: "lp_failures (snd (attempts (\<lambda>_ _ _. [0]) ?as sample_lock)) = 6" by code_simp
  have "no_success (fst (attempts (\<lambda>_ _ _. [0]) ?as sample_lock))" by code_simp
  then have n: "no_success rs" using a by simp
  have c: "clock_ok 0 ?as" by (simp add: numeral_eq_Suc)
  have p0: "lp_failures sample_lock = 0" "lp_lockedUntil sample_lock = 0" by (simp_all add: sample_lock_def DEFAULT_APP_LOCK_def)
  have "lp_failures p' = int 6" using six a by simp
  from guessing_takes_time [OF a n c p0 this] have "wait_sum 6 \<le> 30000" by (simp add: numeral_eq_Suc)
  then show ?thesis using six by blast
qed

text \<open>The lock opens for the PIN it was set with and for no PIN with another derived key; its length is compared
  first, and a malformed PIN is never accepted.\<close>

theorem pin_check_exact:
  assumes "makePinVerifier kdf pin salt n = Some v"
  shows "checkPin kdf pin v \<and> (checkPin kdf pin' v \<longleftrightarrow> isValidPin pin' \<and> length pin' = length pin \<and> kdf pin' salt n = kdf pin salt n)"
  using checkPin_made [OF assms] assms by (auto simp: makePinVerifier_def split: if_splits)

theorem pin_check_exact_witness:
  "\<not> checkPin (\<lambda>pin _ _. map (\<lambda>c. of_nat (code_unit c)) pin) ''1235''
     (the (makePinVerifier (\<lambda>pin _ _. map (\<lambda>c. of_nat (code_unit c)) pin) ''1234'' [1] 1000))"
proof -
  let ?kdf = "\<lambda>pin _ _. map (\<lambda>c. of_nat (code_unit c)) pin :: u8 list"
  have valid: "isValidPin ''1234''" by code_simp
  then obtain v where v: "makePinVerifier ?kdf ''1234'' [1] 1000 = Some v" by (simp add: makePinVerifier_def)
  have "?kdf ''1235'' [1] (1000::nat) \<noteq> ?kdf ''1234'' [1] (1000::nat)" by code_simp
  then show ?thesis using pin_check_exact [OF v, of "''1235''"] v by simp
qed

end
