(* ===== verification/Labels.thy ===== *)
theory Labels
  imports Js_Prelude
begin

text \<open>
  Local labels (\<^verbatim>\<open>labels/labels.ts\<close>): the labels of a mailbox by id, and which of them each message carries.
  \<open>lc\<close> is \<open>localeCompare\<close> with base sensitivity. What is thrown is a \<open>label_problem\<close>; the source words it.
\<close>

record label =
  lb_id :: string
  lb_name :: string
  lb_createdAt :: string

record label_state =
  ls_labels :: "label obj"
  ls_applied :: "string list obj"

definition emptyLabelState :: label_state where
  "emptyLabelState = \<lparr>ls_labels = [], ls_applied = []\<rparr>"

definition MAX_LABEL_NAME :: nat where
  "MAX_LABEL_NAME = 40"

text \<open>\<open>replace(/\s+/g, ' ')\<close>\<close>

function collapse_spaces :: "string \<Rightarrow> string" where
  "collapse_spaces [] = []"
| "collapse_spaces (c # cs) =
     (if js_space c then CHR '' '' # collapse_spaces (dropWhile js_space cs) else c # collapse_spaces cs)"
  by pat_completeness auto
termination
  by (relation "measure length") (auto simp: le_imp_less_Suc length_dropWhile_le)

definition cleanLabelName :: "string \<Rightarrow> string" where
  "cleanLabelName name = take MAX_LABEL_NAME (collapse_spaces (js_trim name))"

datatype label_problem = NeedsName | NameTaken string

definition labelNameProblem :: "label_state \<Rightarrow> string \<Rightarrow> string option \<Rightarrow> label_problem option" where
  "labelNameProblem st name except =
     (let clean = cleanLabelName name
      in if clean = [] then Some NeedsName
         else if list_ex (\<lambda>l. Some (lb_id l) \<noteq> except \<and> js_lower (lb_name l) = js_lower clean) (obj_values (ls_labels st))
         then Some (NameTaken clean) else None)"

definition listLabels :: "(string \<Rightarrow> string \<Rightarrow> int) \<Rightarrow> label_state \<Rightarrow> label list" where
  "listLabels lc st = js_sort (cmp_by_text lc lb_name) (obj_values (ls_labels st))"

definition createLabel :: "label_state \<Rightarrow> string \<Rightarrow> string \<Rightarrow> string \<Rightarrow> (label_problem, label_state) result" where
  "createLabel st name i now =
     (case labelNameProblem st name None of
        Some p \<Rightarrow> Inl p
      | None \<Rightarrow> Inr (st\<lparr>ls_labels := obj_set (ls_labels st) i
          \<lparr>lb_id = i, lb_name = cleanLabelName name, lb_createdAt = now\<rparr>\<rparr>))"

definition renameLabel :: "label_state \<Rightarrow> string \<Rightarrow> string \<Rightarrow> (label_problem, label_state) result" where
  "renameLabel st i name =
     (case obj_get (ls_labels st) i of
        None \<Rightarrow> Inr st
      | Some l \<Rightarrow>
          (case labelNameProblem st name (Some i) of
             Some p \<Rightarrow> Inl p
           | None \<Rightarrow> Inr (st\<lparr>ls_labels := obj_set (ls_labels st) i (l\<lparr>lb_name := cleanLabelName name\<rparr>)\<rparr>)))"

text \<open>The loops that rebuild a map of lists, keeping what passes a test and dropping what is left empty.\<close>

definition keep_in :: "(string \<Rightarrow> bool) \<Rightarrow> string list obj \<Rightarrow> string list obj" where
  "keep_in P m = filter (\<lambda>(k, ids). ids \<noteq> []) (map (\<lambda>(k, ids). (k, filter P ids)) m)"

definition deleteLabel :: "label_state \<Rightarrow> string \<Rightarrow> label_state" where
  "deleteLabel st i =
     (if obj_get (ls_labels st) i = None then st
      else \<lparr>ls_labels = obj_del (ls_labels st) i, ls_applied = keep_in (\<lambda>l. l \<noteq> i) (ls_applied st)\<rparr>)"

definition or_nil :: "'a list option \<Rightarrow> 'a list" where
  "or_nil xs = (case xs of None \<Rightarrow> [] | Some ys \<Rightarrow> ys)"

definition push_new :: "string list \<Rightarrow> string list \<Rightarrow> string list" where
  "push_new add next = foldl (\<lambda>ids i. if i \<in> set ids then ids else ids @ [i]) next add"

definition apply_one :: "string list \<Rightarrow> string list \<Rightarrow> string list obj \<Rightarrow> string \<Rightarrow> string list obj" where
  "apply_one add remove applied m =
     (let next = push_new add (filter (\<lambda>i. i \<notin> set remove) (or_nil (obj_get applied m)))
      in if next \<noteq> [] then obj_set applied m next else obj_del applied m)"

definition applyLabels :: "label_state \<Rightarrow> string list \<Rightarrow> string list option \<Rightarrow> string list option \<Rightarrow> label_state" where
  "applyLabels st messageIds add remove =
     st\<lparr>ls_applied := foldl (apply_one (filter (\<lambda>i. obj_get (ls_labels st) i \<noteq> None) (or_nil add)) (or_nil remove))
       (ls_applied st) messageIds\<rparr>"

definition labelsOn :: "(string \<Rightarrow> string \<Rightarrow> int) \<Rightarrow> label_state \<Rightarrow> string \<Rightarrow> label list" where
  "labelsOn lc st m =
     js_sort (cmp_by_text lc lb_name) (List.map_filter (obj_get (ls_labels st)) (or_nil (obj_get (ls_applied st) m)))"

definition carries_label :: "label_state \<Rightarrow> string \<Rightarrow> string \<Rightarrow> bool" where
  "carries_label st m i \<longleftrightarrow> i \<in> set (or_nil (obj_get (ls_applied st) m))"

definition labelNamesFor :: "(string \<Rightarrow> string \<Rightarrow> int) \<Rightarrow> label_state \<Rightarrow> string list \<Rightarrow> string list" where
  "labelNamesFor lc st messageIds =
     map lb_name (filter (\<lambda>l. lb_id l \<in> set (concat (map (\<lambda>m. or_nil (obj_get (ls_applied st) m)) messageIds))) (listLabels lc st))"

definition hasLabel :: "label_state \<Rightarrow> string list \<Rightarrow> string \<Rightarrow> bool" where
  "hasLabel st messageIds i \<longleftrightarrow> list_ex (\<lambda>m. carries_label st m i) messageIds"

datatype coverage = AllOf | SomeOf | NoneOf

definition labelCoverage :: "label_state \<Rightarrow> string list \<Rightarrow> string \<Rightarrow> coverage" where
  "labelCoverage st messageIds i =
     (let carrying = length (filter (\<lambda>m. carries_label st m i) messageIds)
      in if carrying = 0 then NoneOf else if carrying = length messageIds then AllOf else SomeOf)"

definition bump :: "nat obj \<Rightarrow> string \<Rightarrow> nat obj" where
  "bump counts i = obj_set counts i ((case obj_get counts i of None \<Rightarrow> 0 | Some n \<Rightarrow> n) + 1)"

definition labelCounts :: "label_state \<Rightarrow> nat obj" where
  "labelCounts st = foldl (foldl bump) [] (obj_values (ls_applied st))"

text \<open>A stored state that parsed as the two maps; an older write may lack either.\<close>

definition normaliseLabelState :: "label obj option \<Rightarrow> string list obj option \<Rightarrow> label_state" where
  "normaliseLabelState labels applied =
     (let ls = or_nil labels
      in \<lparr>ls_labels = ls, ls_applied = keep_in (\<lambda>i. obj_get ls i \<noteq> None) (or_nil applied)\<rparr>)"

subsection \<open>Facts\<close>

lemma push_new_set: "set (push_new add ids) = set ids \<union> set add"
  unfolding push_new_def by (induction add arbitrary: ids) auto

lemma push_new_distinct: "distinct ids \<Longrightarrow> distinct (push_new add ids)"
  unfolding push_new_def by (induction add arbitrary: ids) auto

lemma keep_in_Cons:
  "keep_in P ((k, ids) # m) = (if filter P ids = [] then keep_in P m else (k, filter P ids) # keep_in P m)"
  by (simp add: keep_in_def)

lemma keep_in_get:
  "obj_ok m \<Longrightarrow> obj_get (keep_in P m) k =
     (case obj_get m k of None \<Rightarrow> None | Some ids \<Rightarrow> if filter P ids = [] then None else Some (filter P ids))"
proof (induction m)
  case (Cons e m)
  obtain j ids where e: "e = (j, ids)" by fastforce
  have j: "obj_get m j = None" using Cons.prems e by (simp add: obj_ok_def map_of_eq_None_iff)
  have IH: "obj_get (keep_in P m) k =
     (case obj_get m k of None \<Rightarrow> None | Some ids \<Rightarrow> if filter P ids = [] then None else Some (filter P ids))"
    using Cons.IH Cons.prems by (simp add: obj_ok_def)
  show ?case unfolding e keep_in_Cons
  proof (cases "k = j")
    case True
    then show "obj_get (if filter P ids = [] then keep_in P m else (j, filter P ids) # keep_in P m) k =
       (case obj_get ((j, ids) # m) k of None \<Rightarrow> None | Some ids \<Rightarrow> if filter P ids = [] then None else Some (filter P ids))"
      using IH j by simp
  next
    case False
    then show "obj_get (if filter P ids = [] then keep_in P m else (j, filter P ids) # keep_in P m) k =
       (case obj_get ((j, ids) # m) k of None \<Rightarrow> None | Some ids \<Rightarrow> if filter P ids = [] then None else Some (filter P ids))"
      using IH by simp
  qed
qed (simp add: keep_in_def)

lemma keep_in_ok: "obj_ok m \<Longrightarrow> obj_ok (keep_in P m)"
proof -
  assume "obj_ok m"
  then have "distinct (map fst (map (\<lambda>(k, ids). (k, filter P ids)) m))"
    by (simp add: obj_ok_def case_prod_beta o_def)
  then show ?thesis unfolding keep_in_def obj_ok_def by (rule distinct_map_filter)
qed

lemma or_nil_simps [simp]: "or_nil None = []" "or_nil (Some xs) = xs"
  by (simp_all add: or_nil_def)


text \<open>One message: what it carries afterwards.\<close>

lemma apply_one_set:
  "set (or_nil (obj_get (apply_one add remove applied m) k)) =
     (if k = m then set (or_nil (obj_get applied k)) - set remove \<union> set add else set (or_nil (obj_get applied k)))"
proof -
  let ?next = "push_new add (filter (\<lambda>i. i \<notin> set remove) (or_nil (obj_get applied m)))"
  have "set ?next = set (or_nil (obj_get applied m)) - set remove \<union> set add" by (auto simp: push_new_set)
  then show ?thesis by (auto simp: apply_one_def Let_def obj_simps)
qed

lemma apply_all_set:
  "set (or_nil (obj_get (foldl (apply_one add remove) applied ms) k)) =
     (if k \<in> set ms then set (or_nil (obj_get applied k)) - set remove \<union> set add else set (or_nil (obj_get applied k)))"
  by (induction ms arbitrary: applied) (auto simp: apply_one_set)

text \<open>The invariant: labels filed under their ids with clean names, no two equal up to case; what messages carry
  is never an empty list, has no repetition and names labels that exist.\<close>

definition applied_ok :: "label obj \<Rightarrow> string list obj \<Rightarrow> bool" where
  "applied_ok labels applied \<longleftrightarrow> obj_ok applied \<and>
     (\<forall>k ids. obj_get applied k = Some ids \<longrightarrow> ids \<noteq> [] \<and> distinct ids \<and> (\<forall>i \<in> set ids. obj_get labels i \<noteq> None))"

definition names_ok :: "label obj \<Rightarrow> bool" where
  "names_ok labels \<longleftrightarrow> obj_ok labels \<and>
     (\<forall>i l. obj_get labels i = Some l \<longrightarrow> lb_id l = i \<and> lb_name l \<noteq> [] \<and> length (lb_name l) \<le> MAX_LABEL_NAME) \<and>
     (\<forall>i j l l'. obj_get labels i = Some l \<longrightarrow> obj_get labels j = Some l' \<longrightarrow>
        js_lower (lb_name l) = js_lower (lb_name l') \<longrightarrow> i = j)"

definition labels_ok :: "label_state \<Rightarrow> bool" where
  "labels_ok st \<longleftrightarrow> names_ok (ls_labels st) \<and> applied_ok (ls_labels st) (ls_applied st)"

lemma clean_length: "length (cleanLabelName name) \<le> MAX_LABEL_NAME"
  by (simp add: cleanLabelName_def)

lemma name_free:
  assumes "labelNameProblem st name except = None" and "obj_ok (ls_labels st)" and "obj_get (ls_labels st) j = Some l"
    and "Some (lb_id l) \<noteq> except"
  shows "cleanLabelName name \<noteq> [] \<and> js_lower (lb_name l) \<noteq> js_lower (cleanLabelName name)"
  using assms obj_get_in_values [OF assms(3)]
  by (auto simp: labelNameProblem_def Let_def list_ex_iff simp del: set_map split: if_splits)

lemma name_nonempty: "labelNameProblem st name except = None \<Longrightarrow> cleanLabelName name \<noteq> []"
  by (auto simp: labelNameProblem_def Let_def split: if_splits)

lemma names_ok_set:
  assumes "names_ok (ls_labels st)" and "labelNameProblem st name except = None"
    and "except = Some i \<or> except = None \<and> obj_get (ls_labels st) i = None"
    and "lb_id l = i" and "lb_name l = cleanLabelName name"
  shows "names_ok (obj_set (ls_labels st) i l)"
proof -
  have ok: "obj_ok (ls_labels st)" using assms(1) by (simp add: names_ok_def)
  have other: "js_lower (lb_name l') \<noteq> js_lower (cleanLabelName name)"
    if "obj_get (ls_labels st) j = Some l'" "j \<noteq> i" for j l'
    using name_free [OF assms(2) ok that(1)] assms(1,3) that unfolding names_ok_def by fastforce
  note names = assms(1) [unfolded names_ok_def]
  show ?thesis unfolding names_ok_def
  proof (intro conjI allI impI)
    show "obj_ok (obj_set (ls_labels st) i l)" using ok by simp
  next
    fix j l' assume l': "obj_get (obj_set (ls_labels st) i l) j = Some l'"
    have "lb_id l' = j \<and> lb_name l' \<noteq> [] \<and> length (lb_name l') \<le> MAX_LABEL_NAME"
    proof (cases "j = i")
      case True
      then have "l' = l" using l' by (simp add: obj_get_set)
      then show ?thesis using True assms(4,5) clean_length [of name] name_nonempty [OF assms(2)] by simp
    next
      case False
      then have "obj_get (ls_labels st) j = Some l'" using l' by (simp add: obj_get_set)
      then show ?thesis using names by blast
    qed
    then show "lb_id l' = j" "lb_name l' \<noteq> []" "length (lb_name l') \<le> MAX_LABEL_NAME" by blast+
  next
    fix j k l1 l2 assume 1: "obj_get (obj_set (ls_labels st) i l) j = Some l1"
      and 2: "obj_get (obj_set (ls_labels st) i l) k = Some l2" and eq: "js_lower (lb_name l1) = js_lower (lb_name l2)"
    show "j = k"
    proof (cases "j = i"; cases "k = i")
      assume "j = i" "k \<noteq> i"
      then show ?thesis using 1 2 eq other [of k l2] assms(5) by (simp add: obj_simps)
    next
      assume "j \<noteq> i" "k = i"
      then show ?thesis using 1 2 eq other [of j l1] assms(5) by (simp add: obj_simps)
    next
      assume "j \<noteq> i" "k \<noteq> i"
      then show ?thesis using 1 2 eq names by (simp add: obj_simps)
    qed simp
  qed
qed

lemma applied_ok_grow:
  "applied_ok labels applied \<Longrightarrow> (\<And>i. obj_get labels i \<noteq> None \<Longrightarrow> obj_get labels' i \<noteq> None) \<Longrightarrow> applied_ok labels' applied"
  unfolding applied_ok_def by blast

lemma applied_ok_keep:
  assumes "applied_ok labels applied" and "\<And>i. P i \<Longrightarrow> obj_get labels i \<noteq> None \<Longrightarrow> obj_get labels' i \<noteq> None"
  shows "applied_ok labels' (keep_in P applied)"
proof -
  have ok: "obj_ok applied" using assms(1) by (simp add: applied_ok_def)
  have "ids \<noteq> [] \<and> distinct ids \<and> (\<forall>i \<in> set ids. obj_get labels' i \<noteq> None)" if "obj_get (keep_in P applied) k = Some ids" for k ids
  proof -
    from that obtain old where old: "obj_get applied k = Some old" "ids = filter P old" "ids \<noteq> []"
      unfolding keep_in_get [OF ok] by (auto split: option.splits if_splits)
    then have "distinct old" "\<forall>i \<in> set old. obj_get labels i \<noteq> None" using assms(1) unfolding applied_ok_def by blast+
    then show ?thesis using old assms(2) by auto
  qed
  then show ?thesis using keep_in_ok [OF ok] unfolding applied_ok_def by blast
qed

lemma applied_ok_set:
  assumes "applied_ok labels applied" and "ids \<noteq> []" and "distinct ids" and "\<forall>i \<in> set ids. obj_get labels i \<noteq> None"
  shows "applied_ok labels (obj_set applied m ids)"
  unfolding applied_ok_def
proof (intro conjI allI impI)
  show "obj_ok (obj_set applied m ids)" using assms(1) by (simp add: applied_ok_def)
  fix k js assume k: "obj_get (obj_set applied m ids) k = Some js"
  have "js \<noteq> [] \<and> distinct js \<and> (\<forall>i \<in> set js. obj_get labels i \<noteq> None)"
  proof (cases "k = m")
    case True
    then have "js = ids" using k by (simp add: obj_get_set)
    then show ?thesis using assms(2-4) by blast
  next
    case False
    then have "obj_get applied k = Some js" using k by (simp add: obj_get_set)
    then show ?thesis using assms(1) unfolding applied_ok_def by blast
  qed
  then show "js \<noteq> []" "distinct js" "\<forall>i \<in> set js. obj_get labels i \<noteq> None" by blast+
qed

lemma applied_ok_del:
  assumes "applied_ok labels applied"
  shows "applied_ok labels (obj_del applied m)"
proof -
  have "obj_get applied k = Some ids" if "obj_get (obj_del applied m) k = Some ids" for k ids
    using that unfolding obj_get_del by (cases "k = m") simp_all
  moreover have "obj_ok (obj_del applied m)" using assms by (simp add: applied_ok_def)
  ultimately show ?thesis using assms unfolding applied_ok_def by blast
qed

lemma applied_ok_one:
  assumes "applied_ok labels applied" and "\<forall>i \<in> set add. obj_get labels i \<noteq> None"
  shows "applied_ok labels (apply_one add remove applied m)"
proof -
  let ?old = "or_nil (obj_get applied m)"
  let ?next = "push_new add (filter (\<lambda>i. i \<notin> set remove) ?old)"
  have "distinct ?old \<and> (\<forall>i \<in> set ?old. obj_get labels i \<noteq> None)"
  proof (cases "obj_get applied m")
    case (Some ids)
    then have "distinct ids" "\<forall>i \<in> set ids. obj_get labels i \<noteq> None" using assms(1) unfolding applied_ok_def by blast+
    then show ?thesis unfolding Some or_nil_simps by blast
  qed simp
  then have next': "distinct ?next" "\<forall>i \<in> set ?next. obj_get labels i \<noteq> None"
    using assms(2) unfolding push_new_set by (simp add: push_new_distinct, fastforce)
  show ?thesis unfolding apply_one_def Let_def
    using applied_ok_set [OF assms(1) _ next', of m] applied_ok_del [OF assms(1), of m] by simp
qed

lemma applied_ok_all:
  "applied_ok labels applied \<Longrightarrow> \<forall>i \<in> set add. obj_get labels i \<noteq> None \<Longrightarrow>
   applied_ok labels (foldl (apply_one add remove) applied ms)"
  by (induction ms arbitrary: applied) (simp_all add: applied_ok_one)

subsection \<open>Histories\<close>

datatype label_op =
  Create string string string
| Rename string string
| Delete string
| Apply "string list" "string list option" "string list option"

text \<open>A refused operation leaves the state; a new id is fresh, as the generated ids are.\<close>

fun label_step :: "label_state \<Rightarrow> label_op \<Rightarrow> label_state" where
  "label_step st (Create name i now) =
     (if obj_get (ls_labels st) i \<noteq> None then st
      else case createLabel st name i now of Inl _ \<Rightarrow> st | Inr st' \<Rightarrow> st')"
| "label_step st (Rename i name) = (case renameLabel st i name of Inl _ \<Rightarrow> st | Inr st' \<Rightarrow> st')"
| "label_step st (Delete i) = deleteLabel st i"
| "label_step st (Apply ms add remove) = applyLabels st ms add remove"

lemma label_step_ok: "labels_ok st \<Longrightarrow> labels_ok (label_step st op)"
proof (cases op)
  case (Create name i now)
  assume ok: "labels_ok st"
  show ?thesis
  proof (cases "obj_get (ls_labels st) i = None \<and> labelNameProblem st name None = None")
    case True
    let ?l = "\<lparr>lb_id = i, lb_name = cleanLabelName name, lb_createdAt = now\<rparr>"
    have "names_ok (obj_set (ls_labels st) i ?l)"
      by (rule names_ok_set [of _ name None]) (use ok True in \<open>simp_all add: labels_ok_def\<close>)
    moreover have "applied_ok (obj_set (ls_labels st) i ?l) (ls_applied st)"
      by (rule applied_ok_grow [of "ls_labels st"]) (use ok in \<open>auto simp: labels_ok_def obj_simps\<close>)
    ultimately show ?thesis using Create True by (simp add: createLabel_def labels_ok_def)
  qed (use Create ok in \<open>auto simp: createLabel_def split: option.splits\<close>)
next
  case (Rename i name)
  assume ok: "labels_ok st"
  show ?thesis
  proof (cases "obj_get (ls_labels st) i \<noteq> None \<and> labelNameProblem st name (Some i) = None")
    case True
    then obtain l where l: "obj_get (ls_labels st) i = Some l" by blast
    let ?l = "l\<lparr>lb_name := cleanLabelName name\<rparr>"
    have "lb_id l = i" using ok l by (simp add: labels_ok_def names_ok_def)
    then have "names_ok (obj_set (ls_labels st) i ?l)"
      by (intro names_ok_set [of _ name "Some i"]) (use ok True in \<open>simp_all add: labels_ok_def\<close>)
    moreover have "applied_ok (obj_set (ls_labels st) i ?l) (ls_applied st)"
      by (rule applied_ok_grow [of "ls_labels st"]) (use ok in \<open>auto simp: labels_ok_def obj_simps\<close>)
    ultimately show ?thesis using Rename True l by (simp add: renameLabel_def labels_ok_def)
  qed (use Rename ok in \<open>auto simp: renameLabel_def split: option.splits\<close>)
next
  case (Delete i)
  assume ok: "labels_ok st"
  then have "applied_ok (obj_del (ls_labels st) i) (keep_in (\<lambda>l. l \<noteq> i) (ls_applied st))"
    by (intro applied_ok_keep [of "ls_labels st"]) (auto simp: labels_ok_def obj_simps)
  moreover have "names_ok (obj_del (ls_labels st) i)"
    using ok by (auto simp: labels_ok_def names_ok_def obj_simps split: if_splits)
  ultimately show ?thesis using Delete ok by (simp add: deleteLabel_def labels_ok_def)
next
  case (Apply ms add remove)
  assume "labels_ok st"
  then show ?thesis using Apply by (auto simp: labels_ok_def applyLabels_def intro!: applied_ok_all)
qed

subsection \<open>Properties\<close>

text \<open>In every history of creating, renaming, deleting and applying labels the two maps agree: every label sits under
  its id with a name of one to forty characters, no two names are equal up to case, and what a message carries is
  a non-empty list without repetition of labels that exist.\<close>

theorem labels_stay_consistent:
  "labels_ok (foldl label_step emptyLabelState ops)"
proof -
  have "labels_ok st \<Longrightarrow> labels_ok (foldl label_step st ops)" for st
    by (induction ops arbitrary: st) (simp_all add: label_step_ok)
  moreover have "labels_ok emptyLabelState"
    by (simp add: labels_ok_def names_ok_def applied_ok_def emptyLabelState_def)
  ultimately show ?thesis .
qed

text \<open>Applying labels does exactly what was asked: each of the messages loses what was removed and gains what was added
  and exists, every other message keeps what it had, and the labels themselves stay.\<close>

theorem applyLabels_exact:
  "(carries_label (applyLabels st ms add remove) m i \<longleftrightarrow>
     (if m \<in> set ms
      then carries_label st m i \<and> i \<notin> set (or_nil remove) \<or> i \<in> set (or_nil add) \<and> obj_get (ls_labels st) i \<noteq> None
      else carries_label st m i))
   \<and> ls_labels (applyLabels st ms add remove) = ls_labels st"
  unfolding carries_label_def applyLabels_def by (simp add: apply_all_set)

text \<open>A name cut at a space keeps the space, so two labels that read the same on a row can both exist.\<close>

lemma cut_name_reads_the_same:
  "let x39 = replicate 39 (CHR ''x'');
       st = foldl label_step emptyLabelState [Create (x39 @ '' y'') ''1'' ''t'', Create x39 ''2'' ''t'']
   in map (js_trim \<circ> lb_name) (obj_values (ls_labels st)) = [x39, x39]"
  by code_simp

end
