(* ===== verification/Search.thy ===== *)
theory Search
  imports Mail_Types Base64
begin

text \<open>
  Search over mail (\<^verbatim>\<open>search/search.ts\<close>): what a query is matched against, and the index of decrypted content with
  the bound on its size, measured as the UTF-8 of its JSON. \<open>JSON.stringify\<close> of the index is written out; the
  units of a string are below 256 here.
\<close>

record index_entry =
  ie_subject :: string
  ie_body :: string
  ie_indexedAt :: "int option"

type_synonym search_index = "index_entry obj"

definition SEARCH_INDEX_MAX_BYTES :: int where
  "SEARCH_INDEX_MAX_BYTES = 1024 * 1024"

definition MAX_INDEXED_BODY_CHARS :: nat where
  "MAX_INDEXED_BODY_CHARS = 16000"

definition or_empty :: "string option \<Rightarrow> string" where
  "or_empty s = (case s of None \<Rightarrow> [] | Some t \<Rightarrow> t)"

definition searchable_parts :: "mail_summary \<Rightarrow> bool \<Rightarrow> search_index \<Rightarrow> string list" where
  "searchable_parts m encrypted index =
     [or_empty (sm_from_name m), sm_from_address m] @
     (if encrypted then (case obj_get index (sm_id m) of None \<Rightarrow> [] | Some e \<Rightarrow> [ie_subject e, ie_body e])
      else [sm_subject m, sm_snippet m])"

definition messageMatchesQuery :: "mail_summary \<Rightarrow> bool \<Rightarrow> search_index \<Rightarrow> string \<Rightarrow> bool" where
  "messageMatchesQuery m encrypted index query =
     (let needle = js_lower (js_trim query)
      in needle = [] \<or> js_includes (js_lower (js_join '' '' (searchable_parts m encrypted index))) needle)"

definition textMatchesQuery :: "string option list \<Rightarrow> string \<Rightarrow> bool" where
  "textMatchesQuery texts query =
     (let needle = js_lower (js_trim query)
      in needle = [] \<or> js_includes (js_lower (js_join '' '' (filter (\<lambda>s. s \<noteq> []) (map or_empty texts)))) needle)"

subsection \<open>The JSON of the index\<close>

definition hex_digit :: "nat \<Rightarrow> char" where
  "hex_digit n = ''0123456789abcdef'' ! n"

definition json_char :: "char \<Rightarrow> string" where
  "json_char c =
     (let n = code_unit c
      in if n = 34 then [CHR 0x5C, CHR 0x22] else if n = 92 then [CHR 0x5C, CHR 0x5C]
         else if n = 8 then [CHR 0x5C, CHR ''b''] else if n = 9 then [CHR 0x5C, CHR ''t'']
         else if n = 10 then [CHR 0x5C, CHR ''n''] else if n = 12 then [CHR 0x5C, CHR ''f'']
         else if n = 13 then [CHR 0x5C, CHR ''r'']
         else if n < 32 then [CHR 0x5C, CHR ''u'', CHR ''0'', CHR ''0'', hex_digit (n div 16), hex_digit (n mod 16)]
         else [c])"

definition json_string :: "string \<Rightarrow> string" where
  "json_string s = [CHR 0x22] @ concat (map json_char s) @ [CHR 0x22]"

fun decimal_nat :: "nat \<Rightarrow> string" where
  "decimal_nat n = (if n < 10 then [char_of (48 + n)] else decimal_nat (n div 10) @ [char_of (48 + n mod 10)])"

declare decimal_nat.simps [simp del]

definition json_int :: "int \<Rightarrow> string" where
  "json_int i = (if i < 0 then CHR ''-'' # decimal_nat (nat (- i)) else decimal_nat (nat i))"

definition json_entry :: "index_entry \<Rightarrow> string" where
  "json_entry e =
     ''{'' @ json_string ''subject'' @ '':'' @ json_string (ie_subject e) @ '','' @ json_string ''body'' @ '':'' @ json_string (ie_body e)
     @ (case ie_indexedAt e of None \<Rightarrow> [] | Some t \<Rightarrow> '','' @ json_string ''indexedAt'' @ '':'' @ json_int t) @ ''}''"

definition json_index :: "search_index \<Rightarrow> string" where
  "json_index index = ''{'' @ js_join '','' (map (\<lambda>(i, e). json_string i @ '':'' @ json_entry e) index) @ ''}''"

definition text_bytes :: "string \<Rightarrow> int" where
  "text_bytes s = int (utf8ByteLength (map (\<lambda>c. of_nat (code_unit c)) s))"

definition indexBytes :: "search_index \<Rightarrow> int" where
  "indexBytes index = text_bytes (json_index index)"

definition entry_size :: "string \<times> index_entry \<Rightarrow> int" where
  "entry_size ie = text_bytes (json_string (fst ie) @ json_entry (snd ie)) + 2"

text \<open>The eviction loop: oldest first, until the rest fits.\<close>

fun evict :: "int \<Rightarrow> (string \<Rightarrow> int) \<Rightarrow> string list \<Rightarrow> int \<Rightarrow> search_index \<Rightarrow> search_index" where
  "evict maxBytes size_of [] bytes index = index"
| "evict maxBytes size_of (i # is) bytes index =
     (if bytes \<le> maxBytes then index else evict maxBytes size_of is (bytes - size_of i) (obj_del index i))"

definition indexed_at :: "search_index \<Rightarrow> string \<Rightarrow> int" where
  "indexed_at index i = (case obj_get index i of None \<Rightarrow> 0 | Some e \<Rightarrow> (case ie_indexedAt e of None \<Rightarrow> 0 | Some t \<Rightarrow> t))"

definition size_in :: "search_index \<Rightarrow> string \<Rightarrow> int" where
  "size_in index i = (case obj_get index i of None \<Rightarrow> 0 | Some e \<Rightarrow> entry_size (i, e))"

definition oldestFirst :: "search_index \<Rightarrow> string list" where
  "oldestFirst index = js_sort (cmp_by_number (indexed_at index)) (obj_keys index)"

definition boundIndex :: "search_index \<Rightarrow> int \<Rightarrow> search_index" where
  "boundIndex index maxBytes =
     (let bytes = 2 + sum_list (map entry_size index)
      in if bytes \<le> maxBytes then index else evict maxBytes (size_in index) (oldestFirst index) bytes index)"

definition indexContent :: "search_index \<Rightarrow> string \<Rightarrow> string \<Rightarrow> string \<Rightarrow> int \<Rightarrow> int \<Rightarrow> search_index" where
  "indexContent index i subject body at maxBytes =
     boundIndex (obj_set index i
       \<lparr>ie_subject = subject, ie_body = take MAX_INDEXED_BODY_CHARS body, ie_indexedAt = Some at\<rparr>) maxBytes"

subsection \<open>Counting bytes\<close>

lemma text_bytes_Cons: "text_bytes (c # cs) = (if code_unit c < 128 then 1 else 2) + text_bytes cs"
proof -
  have n: "unat (of_nat (code_unit c) :: 16 word) = code_unit c"
    using code_unit_less_256 [of c] by (simp add: unat_of_nat)
  have "(of_nat (code_unit c) :: 16 word) < 0x80 \<longleftrightarrow> code_unit c < 128" "(of_nat (code_unit c) :: 16 word) < 0x800"
    using n code_unit_less_256 [of c] by (simp_all add: word_less_nat_alt)
  then show ?thesis by (simp add: text_bytes_def)
qed

lemma text_bytes_Nil [simp]: "text_bytes [] = 0"
  by (simp add: text_bytes_def)

lemma text_bytes_append [simp]: "text_bytes (a @ b) = text_bytes a + text_bytes b"
  by (induction a) (simp_all add: text_bytes_Cons)

lemma text_bytes_nonneg [simp]: "0 \<le> text_bytes s"
  by (simp add: text_bytes_def)

lemma text_bytes_ascii:
  "text_bytes (CHR '':'' # s) = 1 + text_bytes s" "text_bytes (CHR '','' # s) = 1 + text_bytes s"
  "text_bytes (CHR ''{'' # s) = 1 + text_bytes s" "text_bytes (CHR ''}'' # s) = 1 + text_bytes s"
  by (simp_all add: text_bytes_Cons code_unit_def)

lemma entry_size_pos: "0 < entry_size e"
  unfolding entry_size_def by (simp add: add_nonneg_pos)

lemma joined_bytes:
  "text_bytes (js_join '','' (map (\<lambda>(i, e). json_string i @ '':'' @ json_entry e) index))
     = sum_list (map entry_size index) - (if index = [] then 0 else 1)"
proof (induction "'','' :: string" "map (\<lambda>(i, e). json_string i @ '':'' @ json_entry e) index" arbitrary: index rule: js_join.induct)
  case 1
  then show ?case by simp
next
  case (2 x)
  then show ?case by (auto simp: entry_size_def text_bytes_ascii)
next
  case (3 x y xs)
  then obtain i e rest where index: "index = (i, e) # rest"
    and x: "x = json_string i @ '':'' @ json_entry e"
    and rest: "y # xs = map (\<lambda>(i, e). json_string i @ '':'' @ json_entry e) rest" by (cases index) auto
  have "rest \<noteq> []" using rest by auto
  have join: "js_join '','' (map (\<lambda>(i, e). json_string i @ '':'' @ json_entry e) index)
      = x @ '','' @ js_join '','' (y # xs)" unfolding 3(2) [symmetric] by simp
  show ?case unfolding join using 3(1) [OF rest] \<open>rest \<noteq> []\<close> index x rest
    by (simp add: entry_size_def text_bytes_ascii)
qed

text \<open>The sum the bound works with is the size of the JSON, or one more (the last entry has no comma).\<close>

lemma indexBytes_sum: "indexBytes index = 2 + sum_list (map entry_size index) - (if index = [] then 0 else 1)"
  unfolding indexBytes_def json_index_def text_bytes_append joined_bytes by (simp add: text_bytes_ascii)

subsection \<open>The bound\<close>

lemma delete_all: "foldl obj_del index ids = filter (\<lambda>e. fst e \<notin> set ids) index"
  by (induction ids arbitrary: index) (auto simp: AList.delete_eq filter_filter case_prod_beta intro!: filter_cong)

lemma evict_prefix:
  "\<exists>n \<le> length ids. evict maxBytes f ids bytes index = foldl obj_del index (take n ids)
     \<and> (n < length ids \<longrightarrow> bytes - sum_list (map f (take n ids)) \<le> maxBytes)
     \<and> (\<forall>k < n. maxBytes < bytes - sum_list (map f (take k ids)))"
proof (induction ids arbitrary: bytes index)
  case (Cons i ids)
  show ?case
  proof (cases "bytes \<le> maxBytes")
    case True
    then show ?thesis by (intro exI [of _ 0]) simp
  next
    case False
    obtain n where n: "n \<le> length ids" "evict maxBytes f ids (bytes - f i) (obj_del index i) = foldl obj_del (obj_del index i) (take n ids)"
      "n < length ids \<longrightarrow> bytes - f i - sum_list (map f (take n ids)) \<le> maxBytes"
      "\<forall>k < n. maxBytes < bytes - f i - sum_list (map f (take k ids))"
      using Cons.IH [of "bytes - f i" "obj_del index i"] by blast
    have "maxBytes < bytes - sum_list (map f (take k (i # ids)))" if "k < Suc n" for k
      using that n(4) False by (cases k) (auto simp: algebra_simps)
    then show ?thesis using n(1-3) False by (intro exI [of _ "Suc n"]) (simp add: algebra_simps)
  qed
qed simp

lemma sum_split:
  "sum_list (map f (filter P xs)) + sum_list (map f (filter (\<lambda>x. \<not> P x) xs)) = (sum_list (map f xs) :: int)"
  by (induction xs) auto

lemma sum_without:
  assumes "obj_ok index"
  shows "sum_list (map entry_size (filter (\<lambda>e. fst e \<notin> set ids) index)) + (\<Sum>i \<in> set ids. size_in index i)
    = sum_list (map entry_size index)"
proof -
  have dist: "distinct index" using assms by (simp add: obj_ok_def distinct_map)
  have size: "size_in index (fst e) = entry_size e" if "e \<in> set index" for e
    using assms that by (cases e) (simp add: size_in_def obj_get_eq_Some_iff [OF assms, symmetric])
  have "(\<Sum>i \<in> set ids. size_in index i) = (\<Sum>i \<in> set ids \<inter> fst ` set index. size_in index i)"
  proof (rule sum.mono_neutral_right)
    show "\<forall>i \<in> set ids - set ids \<inter> fst ` set index. size_in index i = 0"
      by (auto simp: size_in_def map_of_eq_None_iff split: option.splits dest: map_of_SomeD)
         (metis domI dom_map_of_conv_image_fst)
  qed auto
  also have "\<dots> = (\<Sum>e \<in> {e \<in> set index. fst e \<in> set ids}. entry_size e)"
  proof (rule sum.reindex_cong [of fst])
    show "inj_on fst {e \<in> set index. fst e \<in> set ids}"
      using assms by (auto simp: obj_ok_def distinct_map intro: inj_on_subset)
  qed (auto simp: size)
  also have "\<dots> = sum_list (map entry_size (filter (\<lambda>e. fst e \<in> set ids) index))"
    using dist by (simp add: sum_list_distinct_conv_sum_set)
  finally show ?thesis using sum_split [of entry_size "\<lambda>e. fst e \<notin> set ids" index] by simp
qed

lemma boundIndex_cases:
  assumes "obj_ok index" and "2 \<le> maxBytes"
  obtains n where "boundIndex index maxBytes = filter (\<lambda>e. fst e \<notin> set (take n (oldestFirst index))) index"
    and "2 + sum_list (map entry_size (boundIndex index maxBytes)) \<le> maxBytes"
    and "\<And>k. k < n \<Longrightarrow> maxBytes < 2 + sum_list (map entry_size (filter (\<lambda>e. fst e \<notin> set (take k (oldestFirst index))) index))"
proof -
  let ?all = "2 + sum_list (map entry_size index)" and ?ids = "oldestFirst index"
  have dist: "distinct ?ids" using assms(1) by (simp add: oldestFirst_def obj_ok_def)
  have left: "?all - sum_list (map (size_in index) (take k ?ids))
      = 2 + sum_list (map entry_size (filter (\<lambda>e. fst e \<notin> set (take k ?ids)) index))" for k
    using sum_without [OF assms(1), of "take k ?ids"] dist by (simp add: sum_list_distinct_conv_sum_set)
  show thesis
  proof (cases "?all \<le> maxBytes")
    case True
    then show ?thesis by (intro that [of 0]) (simp_all add: boundIndex_def)
  next
    case False
    then have b: "boundIndex index maxBytes = evict maxBytes (size_in index) ?ids ?all index" by (simp add: boundIndex_def)
    obtain n where n: "n \<le> length ?ids" "boundIndex index maxBytes = filter (\<lambda>e. fst e \<notin> set (take n ?ids)) index"
      "n < length ?ids \<longrightarrow> ?all - sum_list (map (size_in index) (take n ?ids)) \<le> maxBytes"
      "\<forall>k < n. maxBytes < ?all - sum_list (map (size_in index) (take k ?ids))"
      using evict_prefix [of ?ids maxBytes "size_in index" ?all index] unfolding b delete_all by blast
    have "2 + sum_list (map entry_size (boundIndex index maxBytes)) \<le> maxBytes"
    proof (cases "n < length ?ids")
      case True
      then show ?thesis using n(2,3) left by metis
    next
      case False
      then have "boundIndex index maxBytes = []"
        using n(1,2) by (simp add: filter_empty_conv oldestFirst_def)
      then show ?thesis using assms(2) by simp
    qed
    then show ?thesis using that n(2,4) left by metis
  qed
qed

lemma search_evicts_last:
  assumes "obj_ok index" and "2 \<le> maxBytes"
    and b: "b = filter (\<lambda>e. fst e \<notin> set (take n (oldestFirst index))) index"
    and over: "\<And>k. k < n \<Longrightarrow> maxBytes < 2 + sum_list (map entry_size (filter (\<lambda>e. fst e \<notin> set (take k (oldestFirst index))) index))"
    and "b \<noteq> index"
  shows "\<exists>i \<in> fst ` set index. maxBytes < indexBytes b + size_in index i + 1"
proof -
  let ?ids = "oldestFirst index"
  have "take n ?ids \<noteq> []"
  proof
    assume none: "take n ?ids = []"
    have "b = index" unfolding b none by simp
    with assms(5) show False by blast
  qed
  define k where "k = min n (length ?ids) - 1"
  have k: "k < n" "k < length ?ids" "take n ?ids = take (Suc k) ?ids"
    using \<open>take n ?ids \<noteq> []\<close> by (auto simp: k_def min_def Suc_diff_1 not_le)
  have dist: "distinct ?ids" using assms(1) by (simp add: oldestFirst_def obj_ok_def)
  have i: "?ids ! k \<in> fst ` set index"
    using nth_mem [OF k(2)] by (simp add: oldestFirst_def)
  have "(\<Sum>i \<in> set (take (Suc k) ?ids). size_in index i) = (\<Sum>i \<in> set (take k ?ids). size_in index i) + size_in index (?ids ! k)"
  proof -
    have sums: "(\<Sum>i \<in> set (take m ?ids). size_in index i) = sum_list (map (size_in index) (take m ?ids))" for m
      using dist by (simp add: sum_list_distinct_conv_sum_set)
    show ?thesis unfolding sums using k(2) by (simp add: take_Suc_conv_app_nth)
  qed
  then have "sum_list (map entry_size (filter (\<lambda>e. fst e \<notin> set (take k ?ids)) index)) = sum_list (map entry_size b) + size_in index (?ids ! k)"
    using sum_without [OF assms(1), of "take k ?ids"] sum_without [OF assms(1), of "take (Suc k) ?ids"] k(3)
    unfolding b by simp
  then show ?thesis using over [OF k(1)] indexBytes_sum [of b] i by (intro bexI [of _ "?ids ! k"]) auto
qed

subsection \<open>Properties\<close>

text \<open>The index never grows past its bound, measured as the UTF-8 of the JSON that is stored; what is evicted was
  indexed no later than anything that stays, the rest keeps its place, and each eviction was needed: keeping one
  more entry would have gone over the bound, up to the one comma the sum counts in excess.\<close>

theorem search_index_bound:
  assumes "obj_ok index" and "2 \<le> maxBytes"
  shows "indexBytes (boundIndex index maxBytes) \<le> maxBytes \<and> subseq (boundIndex index maxBytes) index
    \<and> (\<forall>i j. i \<in> set (obj_keys index) - set (obj_keys (boundIndex index maxBytes)) \<longrightarrow>
         j \<in> set (obj_keys (boundIndex index maxBytes)) \<longrightarrow> indexed_at index i \<le> indexed_at index j)
    \<and> (boundIndex index maxBytes \<noteq> index \<longrightarrow>
         (\<exists>i \<in> set (obj_keys index). maxBytes < indexBytes (boundIndex index maxBytes) + size_in index i + 1))"
proof -
  let ?ids = "oldestFirst index" and ?b = "boundIndex index maxBytes"
  obtain n where n: "?b = filter (\<lambda>e. fst e \<notin> set (take n ?ids)) index"
    "2 + sum_list (map entry_size ?b) \<le> maxBytes"
    "\<And>k. k < n \<Longrightarrow> maxBytes < 2 + sum_list (map entry_size (filter (\<lambda>e. fst e \<notin> set (take k ?ids)) index))"
    using boundIndex_cases [OF assms] by blast
  have keys: "set ?ids = fst ` set index" by (simp add: oldestFirst_def)
  have sorted: "sorted_wrt (\<lambda>a b. indexed_at index a \<le> indexed_at index b) ?ids"
    using by_number.sort_sorted [of "indexed_at index" "obj_keys index"] by (simp add: oldestFirst_def cmp_by_number_def)
  have order: "indexed_at index i \<le> indexed_at index j" if "i \<in> set (take n ?ids)" "j \<in> set (drop n ?ids)" for i j
    using sorted that by (metis append_take_drop_id sorted_wrt_append)
  have "indexed_at index i \<le> indexed_at index j"
    if "i \<in> fst ` set index - fst ` set ?b" "j \<in> fst ` set ?b" for i j
  proof -
    have "i \<in> set (take n ?ids)" using that(1) unfolding n(1) by force
    moreover have "j \<in> set ?ids" "j \<notin> set (take n ?ids)" using that(2) keys unfolding n(1) by force+
    then have "j \<in> set (drop n ?ids)" by (metis Un_iff append_take_drop_id set_append)
    ultimately show ?thesis by (rule order)
  qed
  moreover have "indexBytes ?b \<le> maxBytes" using n(2) indexBytes_sum [of ?b] assms(2) by (simp split: if_splits)
  moreover have "subseq ?b index" unfolding n(1) by simp
  moreover have "\<exists>i \<in> fst ` set index. maxBytes < indexBytes ?b + size_in index i + 1" if "?b \<noteq> index"
    using search_evicts_last [OF assms n(1) n(3) that] by simp
  ultimately show ?thesis by simp
qed

theorem search_index_bound_witness:
  "indexBytes (boundIndex [(''a'', \<lparr>ie_subject = ''s'', ie_body = ''b'', ie_indexedAt = Some 2\<rparr>),
      (''b'', \<lparr>ie_subject = ''s'', ie_body = ''b'', ie_indexedAt = None\<rparr>)] 60) \<le> 60"
  using search_index_bound [of "[(''a'', \<lparr>ie_subject = ''s'', ie_body = ''b'', ie_indexedAt = Some 2\<rparr>),
      (''b'', \<lparr>ie_subject = ''s'', ie_body = ''b'', ie_indexedAt = None\<rparr>)]" 60]
  by (simp add: obj_ok_def)

text \<open>A search never reads what this device has not decrypted: for an encrypted message that is not in the index the
  answer depends on the sender alone, and for an indexed one on the sender and the indexed content, never on the
  subject or snippet the provider holds.\<close>

theorem search_reads_only_decrypted:
  "messageMatchesQuery (m\<lparr>sm_subject := s, sm_snippet := t\<rparr>) True index query = messageMatchesQuery m True index query
   \<and> messageMatchesQuery m True (obj_del index (sm_id m)) query =
     (canonical query = [] \<or> js_includes (js_lower (or_empty (sm_from_name m) @ '' '' @ sm_from_address m)) (canonical query))"
  by (simp add: messageMatchesQuery_def searchable_parts_def canonical_def obj_simps Let_def)

end
