(* ===== verification/Provider_Labels.thy ===== *)
theory Provider_Labels
  imports Mail_Types
begin

text \<open>What the provider's own labels say about a message (\<^verbatim>\<open>categorizer/categorizer.ts\<close>).\<close>

definition PROVIDER_TABS :: "string list" where
  "PROVIDER_TABS = [''CATEGORY_PERSONAL'', ''CATEGORY_SOCIAL'', ''CATEGORY_PROMOTIONS'', ''CATEGORY_UPDATES'', ''CATEGORY_FORUMS'']"

definition PROVIDER_JUNK_LABELS :: "string list" where
  "PROVIDER_JUNK_LABELS = [''SPAM'', ''JUNK'']"

definition providerFiledAsJunk :: "string list option \<Rightarrow> bool" where
  "providerFiledAsJunk labels =
     (case labels of None \<Rightarrow> False | Some ls \<Rightarrow> list_ex (\<lambda>l. ascii_upper l \<in> set PROVIDER_JUNK_LABELS) ls)"

datatype promotional = PromoYes | PromoNo | PromoUnknown

definition providerPromotions :: "string list option \<Rightarrow> promotional" where
  "providerPromotions labels =
     (case labels of
        None \<Rightarrow> PromoUnknown
      | Some ls \<Rightarrow>
          if ''CATEGORY_PROMOTIONS'' \<in> set ls then PromoYes
          else if list_ex (\<lambda>l. l \<in> set PROVIDER_TABS) ls then PromoNo else PromoUnknown)"

text \<open>The optimistic refiling of a row and the reading of its labels agree.\<close>

lemma refiled_is_junk: "providerFiledAsJunk (Some (refiled ls junk)) \<longleftrightarrow> junk"
proof -
  have "set PROVIDER_JUNK_LABELS \<subseteq> set FILING" by (simp add: PROVIDER_JUNK_LABELS_def FILING_def)
  then have "\<not> list_ex (\<lambda>l. ascii_upper l \<in> set PROVIDER_JUNK_LABELS)
      (filter (\<lambda>l. ascii_upper l \<notin> set FILING) (case ls of None \<Rightarrow> [] | Some xs \<Rightarrow> xs))"
    by (auto simp: list_ex_iff)
  moreover have "ascii_upper ''SPAM'' \<in> set PROVIDER_JUNK_LABELS" "ascii_upper ''INBOX'' \<notin> set PROVIDER_JUNK_LABELS"
    by code_simp+
  ultimately show ?thesis by (simp add: providerFiledAsJunk_def refiled_def)
qed

end
