(* ===== verification/Rules.thy ===== *)
theory Rules
  imports Labels Search Provider_Labels
begin

text \<open>
  Client-side filters and rules (\<^verbatim>\<open>rules/rules.ts\<close>): when a rule matches a message, what it then does, and the
  record of which rules have already acted on which message. What \<open>ruleProblem\<close> says is a \<open>rule_problem\<close>; the
  source words it.
\<close>

datatype rule_field = FromField | SubjectField | ContentField

record rule_condition =
  rc_field :: rule_field
  rc_contains :: string

record rule_actions =
  ra_star :: bool
  ra_markRead :: bool
  ra_archive :: bool
  ra_labelId :: "string option"

record rule =
  rl_id :: string
  rl_name :: string
  rl_enabled :: bool
  rl_conditions :: "rule_condition list"
  rl_actions :: rule_actions
  rl_createdAt :: string

record rules_state =
  rst_rules :: "rule list"
  rst_fired :: "string list obj"

definition emptyRulesState :: rules_state where
  "emptyRulesState = \<lparr>rst_rules = [], rst_fired = []\<rparr>"

definition NO_ACTIONS :: rule_actions where
  "NO_ACTIONS = \<lparr>ra_star = False, ra_markRead = False, ra_archive = False, ra_labelId = None\<rparr>"

datatype rule_problem = NoCondition | EmptyNeedle | NoAction

definition truthy :: "string option \<Rightarrow> bool" where
  "truthy s \<longleftrightarrow> (case s of None \<Rightarrow> False | Some t \<Rightarrow> t \<noteq> [])"

definition hasAnyAction :: "rule_actions \<Rightarrow> bool" where
  "hasAnyAction a \<longleftrightarrow> ra_star a \<or> ra_markRead a \<or> ra_archive a \<or> truthy (ra_labelId a)"

definition ruleProblem :: "rule_condition list \<Rightarrow> rule_actions \<Rightarrow> rule_problem option" where
  "ruleProblem conditions actions =
     (if conditions = [] then Some NoCondition
      else if list_ex (\<lambda>c. js_trim (rc_contains c) = []) conditions then Some EmptyNeedle
      else if \<not> hasAnyAction actions then Some NoAction else None)"

text \<open>A message and whether it is ciphertext. The functions take any row that carries at least a summary.\<close>

type_synonym 'a rule_input = "'a mail_summary_scheme \<times> bool"

definition readableField :: "rule_field \<Rightarrow> 'a rule_input \<Rightarrow> search_index \<Rightarrow> string option" where
  "readableField field = (\<lambda>(m, encrypted) index.
     if field = FromField then Some (or_empty (sm_from_name m) @ '' '' @ sm_from_address m)
     else if encrypted
     then (case obj_get index (sm_id m) of
             None \<Rightarrow> None
           | Some e \<Rightarrow> Some (if field = SubjectField then ie_subject e else ie_subject e @ '' '' @ ie_body e))
     else Some (if field = SubjectField then sm_subject m else sm_subject m @ '' '' @ sm_snippet m))"

definition matchRule :: "rule_condition list \<Rightarrow> 'a rule_input \<Rightarrow> search_index \<Rightarrow> bool" where
  "matchRule conditions inp index \<longleftrightarrow>
     conditions \<noteq> [] \<and>
     list_all (\<lambda>c. let needle = js_lower (js_trim (rc_contains c))
       in needle \<noteq> [] \<and> (case readableField (rc_field c) inp index of
            None \<Rightarrow> False | Some t \<Rightarrow> js_includes (js_lower t) needle)) conditions"

record rule_outcome =
  ro_id :: string
  ro_flags :: flag_patch
  ro_addLabels :: "string list"
  ro_rules :: "string list"

text \<open>What one matching rule adds: the changes that change something, its label if it still exists, its id.\<close>

definition act_rule ::
  "string set \<Rightarrow> bool \<Rightarrow> 'a mail_summary_scheme \<Rightarrow> flag_patch \<times> string list \<times> string list \<Rightarrow> rule \<Rightarrow>
   flag_patch \<times> string list \<times> string list" where
  "act_rule labelIds archivable m = (\<lambda>(flags, add, hits) r.
     let a = rl_actions r;
         f1 = (if ra_star a \<and> \<not> sm_starred m then flags\<lparr>fp_starred := Some True\<rparr> else flags);
         f2 = (if ra_markRead a \<and> sm_unread m then f1\<lparr>fp_unread := Some False\<rparr> else f1);
         f3 = (if ra_archive a \<and> archivable then f2\<lparr>fp_archived := Some True\<rparr> else f2);
         add = (case ra_labelId a of
                  None \<Rightarrow> add
                | Some l \<Rightarrow> if l \<noteq> [] \<and> l \<in> labelIds \<and> l \<notin> set add then add @ [l] else add)
     in (f3, add, hits @ [rl_id r]))"

definition run_rules_on ::
  "rule list \<Rightarrow> search_index \<Rightarrow> string set \<Rightarrow> bool \<Rightarrow> string list \<Rightarrow> 'a rule_input \<Rightarrow> flag_patch \<times> string list \<times> string list" where
  "run_rules_on active index labelIds archivable already inp =
     foldl (\<lambda>acc r. if rl_id r \<in> set already \<or> \<not> matchRule (rl_conditions r) inp index then acc
                   else act_rule labelIds archivable (fst inp) acc r) (no_flags, [], []) active"

definition apply_input ::
  "rule list \<Rightarrow> search_index \<Rightarrow> string set \<Rightarrow> ('a mail_summary_scheme \<Rightarrow> bool) \<Rightarrow>
   rule_outcome list \<times> string list obj \<Rightarrow> 'a rule_input \<Rightarrow> rule_outcome list \<times> string list obj" where
  "apply_input active index labelIds canArchive = (\<lambda>(outcomes, fired) inp.
     let i = sm_id (fst inp);
         already = js_unique (or_nil (obj_get fired i))
     in case run_rules_on active index labelIds (canArchive (fst inp)) already inp of
          (flags, add, hits) \<Rightarrow>
            if hits = [] then (outcomes, fired)
            else (outcomes @ [\<lparr>ro_id = i, ro_flags = flags, ro_addLabels = add, ro_rules = hits\<rparr>],
                  obj_set fired i (already @ hits)))"

definition active_rules :: "rule list \<Rightarrow> rule list" where
  "active_rules rs = filter (\<lambda>r. rl_enabled r \<and> ruleProblem (rl_conditions r) (rl_actions r) = None) rs"

definition applyRules ::
  "'a rule_input list \<Rightarrow> search_index \<Rightarrow> rules_state \<Rightarrow> string set \<Rightarrow> ('a mail_summary_scheme \<Rightarrow> bool) \<Rightarrow>
   rule_outcome list \<times> string list obj" where
  "applyRules inputs index st labelIds canArchive =
     (let active = active_rules (rst_rules st)
      in if active = [] then ([], rst_fired st)
         else foldl (apply_input active index labelIds canArchive) ([], rst_fired st) inputs)"

definition FIRED_CAP :: nat where
  "FIRED_CAP = 4000"

definition pruneFired :: "string list obj \<Rightarrow> string set \<Rightarrow> nat \<Rightarrow> string list obj" where
  "pruneFired fired keep cap = (if length fired \<le> cap then fired else filter (\<lambda>(i, ids). i \<in> keep) fired)"

definition removeRule :: "rules_state \<Rightarrow> string \<Rightarrow> rules_state" where
  "removeRule st i =
     \<lparr>rst_rules = filter (\<lambda>r. rl_id r \<noteq> i) (rst_rules st), rst_fired = keep_in (\<lambda>r. r \<noteq> i) (rst_fired st)\<rparr>"

fun replace_first_rule :: "rule \<Rightarrow> rule list \<Rightarrow> rule list option" where
  "replace_first_rule new [] = None"
| "replace_first_rule new (r # rs) =
     (if rl_id r = rl_id new then Some (new # rs) else map_option (Cons r) (replace_first_rule new rs))"

definition upsertRule :: "rules_state \<Rightarrow> rule \<Rightarrow> rules_state" where
  "upsertRule st r =
     st\<lparr>rst_rules := (case replace_first_rule r (rst_rules st) of None \<Rightarrow> rst_rules st @ [r] | Some rs \<Rightarrow> rs)\<rparr>"

definition dropLabelFromRules :: "rules_state \<Rightarrow> string \<Rightarrow> rules_state" where
  "dropLabelFromRules st l =
     st\<lparr>rst_rules := map (\<lambda>r. if ra_labelId (rl_actions r) = Some l
         then r\<lparr>rl_actions := (rl_actions r)\<lparr>ra_labelId := None\<rparr>\<rparr> else r) (rst_rules st)\<rparr>"

definition draftRuleFrom :: "'a rule_input \<Rightarrow> search_index \<Rightarrow> string \<times> string option" where
  "draftRuleFrom inp index =
     (sm_from_address (fst inp),
      case readableField SubjectField inp index of
        None \<Rightarrow> None | Some t \<Rightarrow> if js_trim t = [] then None else Some (js_trim t))"

subsection \<open>Facts\<close>

definition hits_on :: "rule list \<Rightarrow> search_index \<Rightarrow> string list \<Rightarrow> 'a rule_input \<Rightarrow> string list" where
  "hits_on active index already inp =
     map rl_id (filter (\<lambda>r. rl_id r \<notin> set already \<and> matchRule (rl_conditions r) inp index) active)"

lemma run_rules_hits: "snd (snd (run_rules_on active index L arch already inp)) = hits_on active index already inp"
proof -
  have "snd (snd (foldl (\<lambda>acc r. if rl_id r \<in> set already \<or> \<not> matchRule (rl_conditions r) inp index then acc
      else act_rule L arch (fst inp) acc r) acc active)) = snd (snd acc) @ hits_on active index already inp" for acc
    by (induction active arbitrary: acc) (auto simp: hits_on_def act_rule_def Let_def case_prod_beta)
  then show ?thesis by (simp add: run_rules_on_def)
qed

lemma apply_input_cases:
  fixes inp :: "'a rule_input"
  assumes "apply_input active index L C (outs, fired) inp = (outs', fired')"
  defines "i \<equiv> sm_id (fst inp)"
  defines "hits \<equiv> hits_on active index (or_nil (obj_get fired i)) inp"
  obtains "hits = []" "outs' = outs" "fired' = fired"
  | new where "hits \<noteq> []" "outs' = outs @ [new]" "ro_id new = i" "ro_rules new = hits"
      "fired' = obj_set fired i (js_unique (or_nil (obj_get fired i)) @ hits)"
proof -
  let ?ran = "run_rules_on active index L (C (fst inp)) (js_unique (or_nil (obj_get fired i))) inp"
  have h: "snd (snd ?ran) = hits" by (simp add: run_rules_hits hits_def hits_on_def)
  show thesis
  proof (cases "hits = []")
    case True
    then show thesis using that(1) assms(1) h by (auto simp: apply_input_def i_def Let_def case_prod_beta)
  next
    case False
    then show thesis
      using that(2) [of "\<lparr>ro_id = i, ro_flags = fst ?ran, ro_addLabels = fst (snd ?ran), ro_rules = hits\<rparr>"] assms(1) h
      by (auto simp: apply_input_def i_def Let_def case_prod_beta)
  qed
qed

lemma apply_inputs_induct [consumes 1, case_names start step]:
  fixes P :: "rule_outcome list \<times> string list obj \<Rightarrow> bool"
  assumes "P acc" and "\<And>acc inp. inp \<in> set inputs \<Longrightarrow> P acc \<Longrightarrow> P (apply_input active index L C acc inp)"
  shows "P (foldl (apply_input active index L C) acc inputs)"
  using assms by (induction inputs arbitrary: acc) auto

definition fired_on :: "string list obj \<Rightarrow> string \<Rightarrow> string set" where
  "fired_on fired i = set (or_nil (obj_get fired i))"

definition fired_pairs :: "rule_outcome list \<Rightarrow> (string \<times> string) list" where
  "fired_pairs outs = concat (map (\<lambda>out. map (Pair (ro_id out)) (ro_rules out)) outs)"

lemma fired_pairs_simps [simp]:
  "fired_pairs [] = []" "fired_pairs (xs @ ys) = fired_pairs xs @ fired_pairs ys"
  "fired_pairs [new] = map (Pair (ro_id new)) (ro_rules new)"
  by (simp_all add: fired_pairs_def)

lemma fired_on_set [simp]:
  "fired_on (obj_set fired i xs) j = (if j = i then set xs else fired_on fired j)"
  by (simp add: fired_on_def obj_get_set or_nil_def)

lemma step_fires:
  fixes inp :: "'a rule_input"
  assumes "apply_input active index L C (outs, fired) inp = (outs', fired')"
  shows "fired_on fired' j = fired_on fired j \<union>
      (if j = sm_id (fst inp) then set (hits_on active index (or_nil (obj_get fired j)) inp) else {})"
    and "set (fired_pairs outs') = set (fired_pairs outs) \<union>
      Pair (sm_id (fst inp)) ` set (hits_on active index (or_nil (obj_get fired (sm_id (fst inp)))) inp)"
    and "fired_pairs outs' = fired_pairs outs @
      map (Pair (sm_id (fst inp))) (hits_on active index (or_nil (obj_get fired (sm_id (fst inp)))) inp)"
proof -
  show "fired_on fired' j = fired_on fired j \<union>
      (if j = sm_id (fst inp) then set (hits_on active index (or_nil (obj_get fired j)) inp) else {})"
    using assms by (cases rule: apply_input_cases) (auto simp: fired_on_def obj_get_set or_nil_def)
  show "fired_pairs outs' = fired_pairs outs @
      map (Pair (sm_id (fst inp))) (hits_on active index (or_nil (obj_get fired (sm_id (fst inp)))) inp)"
    using assms by (cases rule: apply_input_cases) auto
  then show "set (fired_pairs outs') = set (fired_pairs outs) \<union>
      Pair (sm_id (fst inp)) ` set (hits_on active index (or_nil (obj_get fired (sm_id (fst inp)))) inp)" by simp
qed

lemma hits_distinct:
  assumes "distinct (map rl_id active)"
  shows "distinct (hits_on active index already inp)" and "set (hits_on active index already inp) \<inter> set already = {}"
  using assms by (auto simp: hits_on_def distinct_map inj_on_def)

text \<open>A pass keeps: what fired is recorded, nothing that was recorded fires again, and no pair fires twice.\<close>

lemma pass_fires_once:
  fixes inputs :: "'a rule_input list"
  assumes "distinct (map rl_id active)"
    and "distinct (fired_pairs outs)" and "\<forall>(i, r) \<in> set (fired_pairs outs). r \<in> fired_on fired i"
    and "foldl (apply_input active index L C) (outs, fired) inputs = (outs', fired')"
  shows "distinct (fired_pairs outs')" and "\<forall>(i, r) \<in> set (fired_pairs outs'). r \<in> fired_on fired' i"
    and "fired_on fired i \<subseteq> fired_on fired' i"
proof -
  define good :: "rule_outcome list \<times> string list obj \<Rightarrow> bool" where
    "good = (\<lambda>(outs, f). distinct (fired_pairs outs) \<and> (\<forall>(i, r) \<in> set (fired_pairs outs). r \<in> fired_on f i)
       \<and> (\<forall>i. fired_on fired i \<subseteq> fired_on f i))"
  have step: "good (apply_input active index L C acc inp)" if "good acc" for acc and inp :: "'a rule_input"
  proof -
    obtain outs fired' where acc: "acc = (outs, fired')" by fastforce
    obtain outs2 fired2 where res: "apply_input active index L C (outs, fired') inp = (outs2, fired2)" by fastforce
    let ?i = "sm_id (fst inp)" and ?h = "hits_on active index (or_nil (obj_get fired' (sm_id (fst inp)))) inp"
    note s = step_fires [OF res]
    have "distinct (map (Pair ?i) ?h)" using hits_distinct(1) [OF assms(1)] by (simp add: distinct_map inj_on_def)
    moreover have "set (fired_pairs outs) \<inter> set (map (Pair ?i) ?h) = {}"
      using that hits_distinct(2) [OF assms(1), of index "or_nil (obj_get fired' ?i)" inp]
      by (auto simp: good_def acc fired_on_def)
    ultimately have "distinct (fired_pairs outs2)" using that s(3) by (simp add: good_def acc)
    moreover have "r \<in> fired_on fired2 i" if p: "(i, r) \<in> set (fired_pairs outs2)" for i r
      using p s(1) [of i] s(2) \<open>good acc\<close> by (auto simp: good_def acc)
    moreover have "fired_on fired i \<subseteq> fired_on fired2 i" for i
      using s(1) [of i] that by (auto simp: good_def acc)
    ultimately show ?thesis by (auto simp: good_def acc res)
  qed
  have "good (foldl (apply_input active index L C) (outs, fired) inputs)"
    by (rule apply_inputs_induct) (use assms(2,3) step in \<open>auto simp: good_def\<close>)
  then show "distinct (fired_pairs outs')" and "\<forall>(i, r) \<in> set (fired_pairs outs'). r \<in> fired_on fired' i"
    and "fired_on fired i \<subseteq> fired_on fired' i"
    by (auto simp: assms(4) good_def)
qed

lemma pass_fires_new:
  fixes inputs :: "'a rule_input list"
  assumes "distinct (map rl_id active)" and "foldl (apply_input active index L C) ([], fired) inputs = (outs', fired')"
  shows "\<forall>(i, r) \<in> set (fired_pairs outs'). r \<notin> fired_on fired i"
proof -
  define good :: "rule_outcome list \<times> string list obj \<Rightarrow> bool" where
    "good = (\<lambda>(outs, f). (\<forall>(i, r) \<in> set (fired_pairs outs). r \<notin> fired_on fired i) \<and> (\<forall>i. fired_on fired i \<subseteq> fired_on f i))"
  have step: "good (apply_input active index L C acc inp)" if "good acc" for acc and inp :: "'a rule_input"
  proof -
    obtain o1 f1 where r: "apply_input active index L C (fst acc, snd acc) inp = (o1, f1)" by fastforce
    have "set (hits_on active index (or_nil (obj_get (snd acc) (sm_id (fst inp)))) inp) \<inter> fired_on fired (sm_id (fst inp)) = {}"
      using hits_distinct(2) [OF assms(1), of index "or_nil (obj_get (snd acc) (sm_id (fst inp)))" inp] that
      by (fastforce simp: good_def fired_on_def)
    then show ?thesis using that step_fires(1) [OF r] step_fires(2) [OF r] r by (fastforce simp: good_def)
  qed
  have "good (foldl (apply_input active index L C) ([], fired) inputs)"
    by (rule apply_inputs_induct) (use step in \<open>auto simp: good_def\<close>)
  then show ?thesis by (simp add: assms(2) good_def)
qed

text \<open>A pass over inputs whose matching rules have all fired does nothing, and every pass ends in such a state.\<close>

definition settled_input :: "rule list \<Rightarrow> search_index \<Rightarrow> string list obj \<Rightarrow> 'a rule_input \<Rightarrow> bool" where
  "settled_input active index fired inp \<longleftrightarrow>
     (\<forall>r \<in> set active. matchRule (rl_conditions r) inp index \<longrightarrow> rl_id r \<in> fired_on fired (sm_id (fst inp)))"

lemma settled_no_hits: "settled_input active index fired inp \<Longrightarrow>
    hits_on active index (or_nil (obj_get fired (sm_id (fst inp)))) inp = []"
  by (auto simp: settled_input_def hits_on_def fired_on_def filter_empty_conv)

lemma settled_pass:
  fixes inputs :: "'a rule_input list"
  assumes "\<forall>inp \<in> set inputs. settled_input active index fired inp"
  shows "foldl (apply_input active index L C) (outs, fired) inputs = (outs, fired)"
  using assms
proof (induction inputs)
  case (Cons inp inputs)
  obtain outs' fired' where res: "apply_input active index L C (outs, fired) inp = (outs', fired')" by fastforce
  then have "(outs', fired') = (outs, fired)"
    using settled_no_hits [of active index fired inp] Cons.prems by (cases rule: apply_input_cases) auto
  then show ?case using Cons res by simp
qed simp

lemma fired_grows:
  fixes inputs :: "'a rule_input list"
  shows "foldl (apply_input active index L C) (outs, fired) inputs = (outs', fired') \<Longrightarrow> fired_on fired i \<subseteq> fired_on fired' i"
proof (induction inputs arbitrary: outs fired)
  case (Cons inp inputs)
  obtain outs1 fired1 where res: "apply_input active index L C (outs, fired) inp = (outs1, fired1)" by fastforce
  then show ?case using Cons.IH [of outs1 fired1] Cons.prems step_fires(1) [OF res, of i] by auto
qed simp

lemma pass_settles:
  fixes inputs :: "'a rule_input list"
  shows "foldl (apply_input active index L C) (outs, fired) inputs = (outs', fired') \<Longrightarrow>
    \<forall>inp \<in> set inputs. settled_input active index fired' inp"
proof (induction inputs arbitrary: outs fired)
  case (Cons inp inputs)
  obtain outs1 fired1 where res: "apply_input active index L C (outs, fired) inp = (outs1, fired1)" by fastforce
  have rest: "foldl (apply_input active index L C) (outs1, fired1) inputs = (outs', fired')" using Cons.prems res by simp
  have "settled_input active index fired1 inp"
    using step_fires(1) [OF res, of "sm_id (fst inp)"] by (auto simp: settled_input_def hits_on_def fired_on_def)
  then have "settled_input active index fired' inp"
    using fired_grows [OF rest, of "sm_id (fst inp)"] unfolding settled_input_def by blast
  then show ?case using Cons.IH [OF rest] by simp
qed simp

lemma apply_inputs_no_outcome:
  fixes inputs :: "'a rule_input list"
  shows "foldl (apply_input active index L C) (outs, fired) inputs = (outs, fired') \<Longrightarrow> fired' = fired"
proof (induction inputs arbitrary: outs fired)
  case (Cons inp inputs)
  obtain outs1 fired1 where res: "apply_input active index L C (outs, fired) inp = (outs1, fired1)" by fastforce
  have rest: "foldl (apply_input active index L C) (outs1, fired1) inputs = (outs, fired')" using Cons.prems res by simp
  have "length outs1 \<le> length (fst (foldl (apply_input active index L C) (outs1, fired1) inputs))" for outs1 fired1
  proof (induction inputs arbitrary: outs1 fired1)
    case (Cons i more_inputs)
    obtain o2 f2 where r2: "apply_input active index L C (outs1, fired1) i = (o2, f2)" by fastforce
    then have "length outs1 \<le> length o2" by (cases rule: apply_input_cases) auto
    then show ?case using Cons [of o2 f2] r2 by simp
  qed simp
  then have len: "length outs1 \<le> length outs" using rest by (metis fst_conv)
  have "outs1 = outs \<and> fired1 = fired" using res len by (cases rule: apply_input_cases) auto
  then show ?case using Cons.IH rest by blast
qed simp

subsection \<open>Properties\<close>

definition seal_input :: "string \<Rightarrow> string \<Rightarrow> mail_summary \<times> bool \<Rightarrow> mail_summary \<times> bool" where
  "seal_input s t inp = (if snd inp then ((fst inp)\<lparr>sm_subject := s, sm_snippet := t\<rparr>, True) else inp)"

lemma seal_input_same:
  "sm_id (fst (seal_input s t inp)) = sm_id (fst inp)" "sm_labels (fst (seal_input s t inp)) = sm_labels (fst inp)"
  "matchRule cs (seal_input s t inp) index = matchRule cs inp index"
  "act_rule L arch (fst (seal_input s t inp)) = act_rule L arch (fst inp)"
proof -
  have "readableField f (seal_input s t inp) index = readableField f inp index" for f
    by (cases inp) (simp add: seal_input_def readableField_def split: option.splits)
  then show "matchRule cs (seal_input s t inp) index = matchRule cs inp index" by (simp add: matchRule_def)
qed (auto simp: seal_input_def act_rule_def fun_eq_iff Let_def)

text \<open>C34 No rule ever acts on content this device has not read: whatever subject and snippet the provider shows for the
  encrypted messages, the rules decide the same for every message and record the same.\<close>

theorem rules_never_read_ciphertext:
  "applyRules (map (seal_input s t) inputs) index st labelIds (\<lambda>m. \<not> providerFiledAsJunk (sm_labels m))
   = applyRules inputs index st labelIds (\<lambda>m. \<not> providerFiledAsJunk (sm_labels m))"
proof -
  let ?C = "\<lambda>m. \<not> providerFiledAsJunk (sm_labels m)"
  have "apply_input active index labelIds ?C acc (seal_input s t inp) = apply_input active index labelIds ?C acc inp" for active acc inp
    by (cases acc) (simp add: apply_input_def run_rules_on_def seal_input_same cong: if_cong)
  then have "foldl (apply_input active index labelIds ?C) acc (map (seal_input s t) inputs)
      = foldl (apply_input active index labelIds ?C) acc inputs" for active acc
    by (induction inputs arbitrary: acc) simp_all
  then show ?thesis by (simp add: applyRules_def Let_def)
qed

text \<open>One pass of the service (\<^verbatim>\<open>state/rules.ts\<close>): the rules run over the candidates, and when any fired the record is trimmed to
  the messages still listed, if it has grown past the cap.\<close>

definition rule_pass ::
  "string set \<Rightarrow> 'a rule_input list \<Rightarrow> search_index \<Rightarrow> string set \<Rightarrow> rules_state \<Rightarrow> rule_outcome list \<times> rules_state" where
  "rule_pass labelIds inputs index listed st =
     (case applyRules inputs index st labelIds (\<lambda>m. \<not> providerFiledAsJunk (sm_labels m)) of
        (outs, fired) \<Rightarrow>
          if outs = [] then ([], st) else (outs, st\<lparr>rst_fired := pruneFired fired listed FIRED_CAP\<rparr>))"

text \<open>Passes over a mailbox as time goes on: each over the rows, the index and the listed messages of its moment.\<close>

type_synonym pass_input = "(mail_summary \<times> bool) list \<times> search_index \<times> string set"

fun passes :: "string set \<Rightarrow> pass_input list \<Rightarrow> rules_state \<Rightarrow> rule_outcome list" where
  "passes L [] st = []"
| "passes L ((inputs, index, listed) # later) st =
     (case rule_pass L inputs index listed st of (outs, st') \<Rightarrow> outs @ passes L later st')"

text \<open>Whether a message stays remembered: at every pass it is listed, or no more messages than the cap are on record.\<close>

fun remembered :: "string \<Rightarrow> string set \<Rightarrow> pass_input list \<Rightarrow> rules_state \<Rightarrow> bool" where
  "remembered i L [] st \<longleftrightarrow> True"
| "remembered i L ((inputs, index, listed) # later) st \<longleftrightarrow>
     (i \<in> listed \<or> length (snd (applyRules inputs index st L (\<lambda>m. \<not> providerFiledAsJunk (sm_labels m)))) \<le> FIRED_CAP)
     \<and> remembered i L later (snd (rule_pass L inputs index listed st))"

definition fires_on :: "string \<Rightarrow> rule_outcome list \<Rightarrow> string list" where
  "fires_on i outs = map snd (filter (\<lambda>p. fst p = i) (fired_pairs outs))"

lemma fires_on_simps: "fires_on i [] = []" "fires_on i (xs @ ys) = fires_on i xs @ fires_on i ys"
  by (simp_all add: fires_on_def)

lemma set_fires_on: "r \<in> set (fires_on i outs) \<longleftrightarrow> (i, r) \<in> set (fired_pairs outs)"
  by (force simp: fires_on_def)

lemma distinct_fires_on: "distinct (fired_pairs outs) \<Longrightarrow> distinct (fires_on i outs)"
  by (auto simp: fires_on_def distinct_map inj_on_def)

lemma prune_keeps: "i \<in> keep \<or> length fired \<le> cap \<Longrightarrow> fired_on (pruneFired fired keep cap) i = fired_on fired i"
proof -
  assume i: "i \<in> keep \<or> length fired \<le> cap"
  have "i \<in> keep \<Longrightarrow> obj_get (filter (\<lambda>(i, ids). i \<in> keep) fired) i = obj_get fired i"
    by (induction fired) auto
  then show ?thesis using i by (auto simp: pruneFired_def fired_on_def)
qed

text \<open>What one pass does to one message: what fires is new and fires once, and nothing that fired is forgotten.\<close>

lemma rule_pass_one:
  assumes "distinct (map rl_id (rst_rules st))" and pass: "rule_pass L inputs index listed st = (outs, st')"
    and "i \<in> listed \<or> length (snd (applyRules inputs index st L (\<lambda>m. \<not> providerFiledAsJunk (sm_labels m)))) \<le> FIRED_CAP"
  shows "rst_rules st' = rst_rules st" "distinct (fires_on i outs)" "set (fires_on i outs) \<inter> fired_on (rst_fired st) i = {}"
    "fired_on (rst_fired st) i \<union> set (fires_on i outs) \<subseteq> fired_on (rst_fired st') i"
proof -
  let ?C = "\<lambda>m. \<not> providerFiledAsJunk (sm_labels m)" and ?active = "active_rules (rst_rules st)"
  obtain os fired where res: "applyRules inputs index st L ?C = (os, fired)" by fastforce
  have dist: "distinct (map rl_id ?active)" using assms(1) by (simp add: active_rules_def distinct_map_filter)
  have run: "foldl (apply_input ?active index L ?C) ([], rst_fired st) inputs = (os, fired)"
    using res settled_pass [of inputs ?active index "rst_fired st" L ?C "[]"]
    by (auto simp: applyRules_def Let_def settled_input_def split: if_splits)
  note once = pass_fires_once [OF dist _ _ run] and new = pass_fires_new [OF dist run]
  show "rst_rules st' = rst_rules st" using pass res by (auto simp: rule_pass_def split: if_splits)
  have outs: "outs = os" using pass res by (auto simp: rule_pass_def split: if_splits)
  show "distinct (fires_on i outs)" unfolding outs by (rule distinct_fires_on) (simp add: once(1))
  show "set (fires_on i outs) \<inter> fired_on (rst_fired st) i = {}" using new unfolding outs by (auto simp: set_fires_on)
  have grown: "fired_on (rst_fired st) i \<union> set (fires_on i os) \<subseteq> fired_on fired i"
    using once(2,3) by (auto simp: set_fires_on)
  show "fired_on (rst_fired st) i \<union> set (fires_on i outs) \<subseteq> fired_on (rst_fired st') i"
  proof (cases "os = []")
    case True
    then show ?thesis using pass res by (simp add: rule_pass_def fires_on_simps)
  next
    case False
    then have "st' = st\<lparr>rst_fired := pruneFired fired listed FIRED_CAP\<rparr>" using pass res by (simp add: rule_pass_def)
    then show ?thesis using grown prune_keeps [of i listed fired FIRED_CAP] assms(3) res unfolding outs by simp
  qed
qed

lemma passes_fire_once:
  "distinct (map rl_id (rst_rules st)) \<Longrightarrow> remembered i L later st \<Longrightarrow>
   distinct (fires_on i (passes L later st)) \<and> set (fires_on i (passes L later st)) \<inter> fired_on (rst_fired st) i = {}"
proof (induction L later st rule: passes.induct)
  case (2 L inputs index listed later st)
  obtain outs st' where pass: "rule_pass L inputs index listed st = (outs, st')" by fastforce
  have kept: "i \<in> listed \<or> length (snd (applyRules inputs index st L (\<lambda>m. \<not> providerFiledAsJunk (sm_labels m)))) \<le> FIRED_CAP"
    and later: "remembered i L later st'" using 2(3) pass by simp_all
  note one = rule_pass_one [OF 2(2) pass kept]
  have "distinct (map rl_id (rst_rules st'))" using 2(2) one(1) by simp
  note tail = 2(1) [OF pass [symmetric] this later]
  show ?case using one(2-4) tail by (auto simp: pass fires_on_simps)
qed (simp add: fires_on_simps)

text \<open>C35 No rule acts twice on a message while the message stays remembered: over any sequence of passes that each start from
  the record the last one left (a restart after a failed write of the record would lose it), whatever the rows and
  the index are at each, if at every pass the message is among those listed or the record holds at most four thousand
  messages, then each rule fires on it at most once, and none that was on record for it fires again. Only a pass that ends
  over the cap while the message is not listed forgets it.\<close>

theorem each_rule_fires_once:
  assumes "distinct (map rl_id (rst_rules st))" and "remembered i L later st"
  shows "distinct (fires_on i (passes L later st))
    \<and> (\<forall>r \<in> set (fires_on i (passes L later st)). r \<notin> set (or_nil (obj_get (rst_fired st) i)))"
  using passes_fire_once [OF assms] by (auto simp: fired_on_def)

definition sample_summary :: "string \<Rightarrow> string \<Rightarrow> mail_summary" where
  "sample_summary i subject =
     \<lparr>sm_id = i, sm_threadId = None, sm_from_address = ''ann@x.example'', sm_from_name = Some ''Ann'', sm_to = [], sm_date = ''2'',
      sm_subject = subject, sm_snippet = ''t'', sm_unread = True, sm_starred = False, sm_messageId = None, sm_references = None,
      sm_autocrypt = None, sm_replyTo = None, sm_authenticationResults = None, sm_listUnsubscribe = None,
      sm_returnPath = None, sm_labels = None\<rparr>"

definition sample_rules :: rules_state where
  "sample_rules = \<lparr>rst_rules =
     [\<lparr>rl_id = ''r1'', rl_name = ''Ann'', rl_enabled = True, rl_conditions = [\<lparr>rc_field = FromField, rc_contains = ''ann''\<rparr>],
       rl_actions = NO_ACTIONS\<lparr>ra_star := True\<rparr>, rl_createdAt = ''1''\<rparr>,
      \<lparr>rl_id = ''r2'', rl_name = ''Plan'', rl_enabled = True, rl_conditions = [\<lparr>rc_field = ContentField, rc_contains = ''plan''\<rparr>],
       rl_actions = NO_ACTIONS\<lparr>ra_archive := True\<rparr>, rl_createdAt = ''1''\<rparr>], rst_fired = []\<rparr>"

text \<open>The sealed message is starred at the first pass, for its sender, and archived at the second, once it was opened.\<close>

definition sample_passes :: "pass_input list" where
  "sample_passes =
     [([(sample_summary ''m'' ''Encrypted message'', True)], [], {''m''}),
      ([(sample_summary ''m'' ''Encrypted message'', True)], [(''m'', \<lparr>ie_subject = ''Our plan'', ie_body = [], ie_indexedAt = None\<rparr>)], {''m''})]"

theorem each_rule_fires_once_witness:
  "distinct (fires_on ''m'' (passes {} sample_passes sample_rules))
   \<and> fires_on ''m'' (passes {} sample_passes sample_rules) = [''r1'', ''r2'']"
proof -
  have "distinct (map rl_id (rst_rules sample_rules))" by code_simp
  moreover have "remembered ''m'' {} sample_passes sample_rules" by (simp add: sample_passes_def)
  moreover have "fires_on ''m'' (passes {} sample_passes sample_rules) = [''r1'', ''r2'']" by code_simp
  ultimately show ?thesis using each_rule_fires_once [of sample_rules "''m''" "{}" sample_passes] by simp
qed

end
