(* ===== verification/Account_Scope.thy ===== *)
theory Account_Scope
  imports Js_Prelude
begin

text \<open>Which account a stored value belongs to, and what the user decided about one mailbox (\<^verbatim>\<open>store/accountScope.ts\<close>).\<close>

datatype provider = Gmail | Outlook | Imap

definition provider_name :: "provider \<Rightarrow> string" where
  "provider_name p = (case p of Gmail \<Rightarrow> ''gmail'' | Outlook \<Rightarrow> ''outlook'' | Imap \<Rightarrow> ''imap'')"

datatype sync_window = WindowAll | Window7 | Window30 | Window90

definition SYNC_WINDOWS :: "sync_window list" where
  "SYNC_WINDOWS = [Window7, Window30, Window90, WindowAll]"

datatype avatar_mode = AvatarPhoto | AvatarInitials | AvatarProvider

record account_settings =
  as_displayName :: string
  as_avatar :: avatar_mode
  as_blockRemoteImages :: bool
  as_syncWindow :: sync_window
  as_paused :: bool
  as_signature :: string
  as_notify :: bool

definition DEFAULT_ACCOUNT_SETTINGS :: account_settings where
  "DEFAULT_ACCOUNT_SETTINGS =
     \<lparr>as_displayName = [], as_avatar = AvatarPhoto, as_blockRemoteImages = False, as_syncWindow = WindowAll,
      as_paused = False, as_signature = [], as_notify = True\<rparr>"

record account_ref =
  ar_id :: string
  ar_provider :: provider
  ar_email :: string
  ar_name :: "string option"
  ar_photo :: "string option"
  ar_settings :: "account_settings option"

definition settingsOf :: "account_ref option \<Rightarrow> account_settings" where
  "settingsOf ref =
     (case ref of None \<Rightarrow> DEFAULT_ACCOUNT_SETTINGS
      | Some r \<Rightarrow> (case ar_settings r of None \<Rightarrow> DEFAULT_ACCOUNT_SETTINGS | Some st \<Rightarrow> st))"

definition accountLabel :: "account_ref \<Rightarrow> string" where
  "accountLabel r =
     (if js_trim (as_displayName (settingsOf (Some r))) \<noteq> [] then js_trim (as_displayName (settingsOf (Some r)))
      else (case ar_name r of
              None \<Rightarrow> ar_email r
            | Some n \<Rightarrow> if js_trim n \<noteq> [] then js_trim n else ar_email r))"

definition accountIdFor :: "provider \<Rightarrow> string \<Rightarrow> string" where
  "accountIdFor p email = provider_name p @ '':'' @ canonical email"

definition accountRefFor :: "provider \<Rightarrow> string \<Rightarrow> string option \<Rightarrow> string option \<Rightarrow> account_ref" where
  "accountRefFor p email name photo =
     \<lparr>ar_id = accountIdFor p email, ar_provider = p, ar_email = canonical email, ar_name = name, ar_photo = photo,
      ar_settings = None\<rparr>"

definition scopedKey :: "string \<Rightarrow> string \<Rightarrow> string" where
  "scopedKey base account = base @ ''@'' @ account"

text \<open>The ids keep providers and addresses apart, and the keys keep accounts apart.\<close>

lemma accountIdFor_inject: "accountIdFor p e = accountIdFor q f \<longleftrightarrow> p = q \<and> canonical e = canonical f"
  by (cases p; cases q) (simp_all add: accountIdFor_def provider_name_def)

lemma scopedKey_inject:
  assumes "CHR ''@'' \<notin> set base" and "CHR ''@'' \<notin> set base'"
  shows "scopedKey base a = scopedKey base' a' \<longleftrightarrow> base = base' \<and> a = a'"
proof
  assume eq: "scopedKey base a = scopedKey base' a'"
  then have "takeWhile (\<lambda>c. c \<noteq> CHR ''@'') (scopedKey base a) = takeWhile (\<lambda>c. c \<noteq> CHR ''@'') (scopedKey base' a')" by simp
  moreover have "takeWhile (\<lambda>c. c \<noteq> CHR ''@'') (scopedKey b x) = b" if "CHR ''@'' \<notin> set b" for b x
    using that by (simp add: scopedKey_def takeWhile_tail) (metis append_Nil2 takeWhile_append2 takeWhile_eq_all_conv)
  ultimately have "base = base'" using assms by metis
  then show "base = base' \<and> a = a'" using eq by (simp add: scopedKey_def)
qed simp

end
