(* ===== verification/Mailbox_State.thy ===== *)
theory Mailbox_State
  imports Rules Mime Account_Scope
begin

text \<open>
  The lists of the mailbox service (\<^verbatim>\<open>state/mailbox.ts\<close>): rows tagged with the account they came from, the inbox
  with the junk folder in it, the three boxes that have a list of their own, how far each mailbox of each account has
  been paged, and what the provider was told. A connector (\<open>MailClient\<close>) is the account it was built for; what it
  answers is in the environment.
\<close>

record inbox_item = mail_summary +
  ii_account :: string

datatype box = SentBox | ArchiveBox | TrashBox

datatype mailbox = InboxMail | SpamMail | BoxMail box

definition SECONDARY_BOXES :: "box list" where
  "SECONDARY_BOXES = [SentBox, ArchiveBox, TrashBox]"

datatype mail_error = GrantGone string | MailError string

definition needsReauth :: "mail_error \<Rightarrow> bool" where
  "needsReauth e \<longleftrightarrow> (case e of GrantGone _ \<Rightarrow> True | MailError _ \<Rightarrow> False)"

definition error_message :: "mail_error \<Rightarrow> string" where
  "error_message e = (case e of GrantGone m \<Rightarrow> m | MailError m \<Rightarrow> m)"

record box_state =
  bx_items :: "inbox_item list"
  bx_loading :: bool
  bx_refreshing :: bool
  bx_loadingMore :: bool
  bx_canLoadMore :: bool
  bx_error :: "string option"

definition emptyBox :: box_state where
  "emptyBox = \<lparr>bx_items = [], bx_loading = False, bx_refreshing = False, bx_loadingMore = False, bx_canLoadMore = False,
     bx_error = None\<rparr>"

text \<open>One page: the rows and the token of the page behind it. A cursor is missing until the mailbox was paged, and
  \<open>Some None\<close>, the source's \<open>null\<close>, once it has no older mail.\<close>

type_synonym page_answer = "(mail_error, mail_summary list \<times> string option) result"

record mailbox_state =
  mb_accounts :: "account_ref list"
  mb_active :: "string option"
  mb_unified :: bool
  mb_clients :: "string list"
  mb_sessions :: "string list"
  mb_current :: "string option"
  mb_messages :: "inbox_item list"
  mb_boxes :: "box \<Rightarrow> box_state"
  mb_loading :: bool
  mb_refreshing :: bool
  mb_loadingMore :: bool
  mb_canLoadMore :: bool
  mb_error :: "string option"
  mb_cursors :: "(mailbox \<times> string) \<Rightarrow> string option option"
  mb_departed :: "string \<Rightarrow> string option"
  mb_reauth :: "string list"
  mb_switch_to :: "string option"
  mb_index :: search_index
  mb_labels :: label_state
  mb_rules :: rules_state
  disk_labels :: label_state
  disk_rules :: rules_state
  mb_asked :: "(string \<times> mailbox \<times> string option) list"
  mb_told :: "(string \<times> string \<times> flag_patch) list"
  mb_refetched :: "box option list"

text \<open>\<open>me_list\<close> answers \<open>client.list\<close> for an account, a mailbox, a page token and a window in days; \<open>me_update\<close>
  tells whether \<open>client.updateFlags\<close> succeeds, \<open>me_store_ok\<close> whether a store can be written.\<close>

record mailbox_env =
  me_list :: "string \<Rightarrow> mailbox \<Rightarrow> nat \<Rightarrow> string option \<Rightarrow> int option \<Rightarrow> page_answer"
  me_update :: "string \<Rightarrow> string \<Rightarrow> flag_patch \<Rightarrow> bool"
  me_store_ok :: bool

definition PAGE_SIZE :: nat where
  "PAGE_SIZE = 20"

definition JUNK_PAGE_SIZE :: nat where
  "JUNK_PAGE_SIZE = 10"

definition tag :: "mail_summary list \<Rightarrow> string \<Rightarrow> inbox_item list" where
  "tag ms account = map (\<lambda>m. mail_summary.extend m \<lparr>ii_account = account\<rparr>) ms"

definition syncWindowDays :: "mailbox_state \<Rightarrow> string \<Rightarrow> int option" where
  "syncWindowDays s account =
     (case as_syncWindow (settingsOf (find (\<lambda>a. ar_id a = account) (mb_accounts s))) of
        WindowAll \<Rightarrow> None | Window7 \<Rightarrow> Some 7 | Window30 \<Rightarrow> Some 30 | Window90 \<Rightarrow> Some 90)"

definition is_encrypted_row :: "'a mail_summary_scheme \<Rightarrow> bool" where
  "is_encrypted_row m = hasSealedSubject (sm_subject m)"

end
