(* ===== verification/Mailbox_Lists.thy ===== *)
theory Mailbox_Lists
  imports Mailbox_State Id_Store
begin

text \<open>
  Listing mail (\<^verbatim>\<open>state/mailbox.ts\<close>): paging one mailbox of one account, the merged inbox, older pages, and the boxes
  with a list of their own. The pages of a merged inbox are asked side by side in the source; each touches its own
  cursor only, so they are run here one after another. \<open>lc\<close> is \<open>localeCompare\<close>.
\<close>

datatype fetch_mode = Refresh | More

definition exhausted :: "mailbox \<Rightarrow> string \<Rightarrow> mailbox_state \<Rightarrow> bool" where
  "exhausted b account s \<longleftrightarrow> mb_cursors s (b, account) = Some None"

definition mergesAccounts :: "mailbox \<Rightarrow> bool" where
  "mergesAccounts b \<longleftrightarrow> b = InboxMail \<or> b = SpamMail"

definition moreAvailable :: "mailbox \<Rightarrow> mailbox_state \<Rightarrow> bool" where
  "moreAvailable b s =
     (case mb_active s of
        None \<Rightarrow> False
      | Some a \<Rightarrow> list_ex (\<lambda>x. \<not> exhausted b x s) (if mb_unified s \<and> mergesAccounts b then mb_clients s else [a]))"

definition moreInboxAvailable :: "mailbox_state \<Rightarrow> bool" where
  "moreInboxAvailable s \<longleftrightarrow> moreAvailable InboxMail s \<or> moreAvailable SpamMail s"

text \<open>The synchronous part of \<open>markReauth\<close> (\<^verbatim>\<open>state/accounts.ts\<close>); the switch it may start is recorded. Then
  \<open>handleAuthLoss\<close> (\<^verbatim>\<open>state/session.ts\<close>) with several accounts.\<close>

definition markReauth :: "string \<Rightarrow> string option \<Rightarrow> mailbox_state \<Rightarrow> mailbox_state" where
  "markReauth i reason s =
     (let s1 = s\<lparr>mb_sessions := filter (\<lambda>x. x \<noteq> i) (mb_sessions s), mb_clients := filter (\<lambda>x. x \<noteq> i) (mb_clients s),
            mb_reauth := (if i \<in> set (mb_reauth s) then mb_reauth s else mb_reauth s @ [i]),
            mb_error := (case reason of None \<Rightarrow> mb_error s | Some m \<Rightarrow> if m = [] then mb_error s else Some m)\<rparr>
      in if Some i \<noteq> mb_active s then s1
         else (case find (\<lambda>a. ar_id a \<noteq> i \<and> ar_id a \<in> set (mb_sessions s1) \<and> \<not> as_paused (settingsOf (Some a))) (mb_accounts s) of
                 None \<Rightarrow> s1
               | Some a \<Rightarrow> s1\<lparr>mb_switch_to := Some (ar_id a)\<rparr>))"

definition accountAuthLoss :: "mail_error \<Rightarrow> string option \<Rightarrow> mailbox_state \<Rightarrow> bool \<times> mailbox_state" where
  "accountAuthLoss e account s =
     (if \<not> needsReauth e then (False, s)
      else (case (case account of None \<Rightarrow> mb_active s | Some a \<Rightarrow> Some a) of
              Some failed \<Rightarrow>
                if list_ex (\<lambda>a. ar_id a \<noteq> failed \<and> ar_id a \<in> set (mb_sessions s)) (mb_accounts s)
                then (True, markReauth failed (Some (error_message e)) s)
                else (True, s\<lparr>mb_current := None, mb_clients := [], mb_accounts := [], mb_active := None, mb_unified := False,
                       mb_messages := [], mb_loading := False, mb_refreshing := False, mb_loadingMore := False,
                       mb_canLoadMore := False, mb_error := Some (error_message e)\<rparr>)
            | None \<Rightarrow> (True, s\<lparr>mb_current := None, mb_clients := [], mb_accounts := [], mb_active := None, mb_unified := False,
                       mb_messages := [], mb_loading := False, mb_refreshing := False, mb_loadingMore := False,
                       mb_canLoadMore := False, mb_error := Some (error_message e)\<rparr>)))"

subsection \<open>One page, and the pages of a list\<close>

definition fetch_page ::
  "mailbox_env \<Rightarrow> mailbox \<Rightarrow> fetch_mode \<Rightarrow> string \<Rightarrow> string \<Rightarrow> mailbox_state \<Rightarrow> (mail_error, inbox_item list) result \<times> mailbox_state" where
  "fetch_page env b mode account client s =
     (if mode = More \<and> exhausted b account s then (Inr [], s)
      else let token = (if mode = More then (case mb_cursors s (b, account) of Some t \<Rightarrow> t | None \<Rightarrow> None) else None);
               s = s\<lparr>mb_asked := mb_asked s @ [(account, b, token)]\<rparr>
           in case me_list env client b (if b = SpamMail then JUNK_PAGE_SIZE else PAGE_SIZE) token (syncWindowDays s account) of
                Inl e \<Rightarrow> (Inl e, s)
              | Inr (ms, next) \<Rightarrow> (Inr (tag ms account), s\<lparr>mb_cursors := (mb_cursors s)((b, account) := Some next)\<rparr>))"

definition forget_cursors :: "mailbox \<Rightarrow> mailbox_state \<Rightarrow> mailbox_state" where
  "forget_cursors b s = s\<lparr>mb_cursors := (\<lambda>(b', a). if b' = b then None else mb_cursors s (b', a))\<rparr>"

fun fetch_all ::
  "mailbox_env \<Rightarrow> mailbox \<Rightarrow> fetch_mode \<Rightarrow> string \<Rightarrow> string list \<Rightarrow> mailbox_state \<Rightarrow> (mail_error, inbox_item list list) result \<times> mailbox_state" where
  "fetch_all env b mode active [] s = (Inr [], s)"
| "fetch_all env b mode active (a # accounts) s =
     (case fetch_page env b mode a a s of
        (Inr items, s) \<Rightarrow>
          (case fetch_all env b mode active accounts s of
             (Inl e, s) \<Rightarrow> (Inl e, s) | (Inr rest, s) \<Rightarrow> (Inr (items # rest), s))
      | (Inl e, s) \<Rightarrow>
          (if a = active
           then (case fetch_all env b mode active accounts s of (_, s) \<Rightarrow> (Inl e, s))
           else (case fetch_all env b mode active accounts (snd (accountAuthLoss e (Some a) s)) of
                   (Inl e, s) \<Rightarrow> (Inl e, s) | (Inr rest, s) \<Rightarrow> (Inr ([] # rest), s))))"

definition collect ::
  "mailbox_env \<Rightarrow> mailbox \<Rightarrow> fetch_mode \<Rightarrow> mailbox_state \<Rightarrow> (mail_error, inbox_item list) result \<times> mailbox_state" where
  "collect env b mode s =
     (case mb_active s of
        None \<Rightarrow> (Inr [], s)
      | Some active \<Rightarrow>
          let s = (if mode = Refresh then forget_cursors b s else s)
          in if \<not> mb_unified s \<or> \<not> mergesAccounts b
             then (case mb_current s of None \<Rightarrow> (Inr [], s) | Some client \<Rightarrow> fetch_page env b mode active client s)
             else (case fetch_all env b mode active (mb_clients s) s of
                     (Inl e, s) \<Rightarrow> (Inl e, s) | (Inr found, s) \<Rightarrow> (Inr (concat found), s)))"

definition collectInbox ::
  "mailbox_env \<Rightarrow> fetch_mode \<Rightarrow> mailbox_state \<Rightarrow> (mail_error, inbox_item list) result \<times> mailbox_state" where
  "collectInbox env mode s =
     (case collect env InboxMail mode s of
        (inbox, s) \<Rightarrow>
          (case collect env SpamMail mode s of
             (junk, s) \<Rightarrow>
               (case inbox of
                  Inl e \<Rightarrow> (Inl e, s)
                | Inr rows \<Rightarrow> (Inr (rows @ (case junk of Inl _ \<Rightarrow> [] | Inr more_rows \<Rightarrow> more_rows)), s))))"

definition byDateDesc :: "(string \<Rightarrow> string \<Rightarrow> int) \<Rightarrow> inbox_item \<Rightarrow> inbox_item \<Rightarrow> int" where
  "byDateDesc lc = cmp_desc (cmp_by_text lc sm_date)"

text \<open>\<open>new Map(existing.map((m) => [m.id, m]))\<close> keeps the place of the first row with an id and the value of the last.\<close>

definition put_row :: "'a mail_summary_scheme obj \<Rightarrow> 'a mail_summary_scheme \<Rightarrow> 'a mail_summary_scheme obj" where
  "put_row m r = obj_set m (sm_id r) r"

definition add_row :: "'a mail_summary_scheme obj \<Rightarrow> 'a mail_summary_scheme \<Rightarrow> 'a mail_summary_scheme obj" where
  "add_row m r = (if obj_get m (sm_id r) = None then put_row m r else m)"

definition merge_rows :: "(string \<Rightarrow> string \<Rightarrow> int) \<Rightarrow> inbox_item list \<Rightarrow> inbox_item list \<Rightarrow> inbox_item list" where
  "merge_rows lc existing older =
     js_sort (byDateDesc lc) (obj_values (foldl add_row (foldl put_row [] existing) older))"

subsection \<open>Refreshing and paging\<close>

text \<open>The part of \<open>refreshInbox\<close> that fills the list, when no newer fetch of it was started meanwhile, and the rest
  of the loaders. What follows a sync (rules, notifications, the harvest, held mail) is modelled on its own.\<close>

definition refreshInbox_list ::
  "(string \<Rightarrow> string \<Rightarrow> int) \<Rightarrow> mailbox_env \<Rightarrow> bool \<Rightarrow> mailbox_state \<Rightarrow> mailbox_state" where
  "refreshInbox_list lc env manual s =
     (if mb_current s = None then s
      else let s = s\<lparr>mb_loading := True, mb_refreshing := manual, mb_error := None\<rparr>
           in case collectInbox env Refresh s of
                (Inr rows, s) \<Rightarrow>
                  s\<lparr>mb_messages := js_sort (byDateDesc lc) rows, mb_loading := False, mb_refreshing := False,
                    mb_canLoadMore := moreInboxAvailable s\<rparr>
              | (Inl e, s) \<Rightarrow>
                  (case accountAuthLoss e None (s\<lparr>mb_refreshing := False\<rparr>) of
                     (True, s) \<Rightarrow> s
                   | (False, s) \<Rightarrow> s\<lparr>mb_loading := False, mb_error := Some (error_message e)\<rparr>))"

definition loadMoreInbox_list :: "(string \<Rightarrow> string \<Rightarrow> int) \<Rightarrow> mailbox_env \<Rightarrow> mailbox_state \<Rightarrow> mailbox_state" where
  "loadMoreInbox_list lc env s =
     (if mb_current s = None \<or> mb_loading s \<or> mb_loadingMore s \<or> \<not> mb_canLoadMore s then s
      else let s = s\<lparr>mb_loadingMore := True, mb_error := None\<rparr>
           in case collectInbox env More s of
                (Inr older, s) \<Rightarrow>
                  s\<lparr>mb_messages := merge_rows lc (mb_messages s) older, mb_loadingMore := False,
                    mb_canLoadMore := moreInboxAvailable s\<rparr>
              | (Inl e, s) \<Rightarrow>
                  (case accountAuthLoss e None (s\<lparr>mb_loadingMore := False\<rparr>) of
                     (True, s) \<Rightarrow> s | (False, s) \<Rightarrow> s\<lparr>mb_error := Some (error_message e)\<rparr>))"

definition patchBox :: "box \<Rightarrow> (box_state \<Rightarrow> box_state) \<Rightarrow> mailbox_state \<Rightarrow> mailbox_state" where
  "patchBox b change s = s\<lparr>mb_boxes := (mb_boxes s)(b := change (mb_boxes s b))\<rparr>"

definition loadBox :: "(string \<Rightarrow> string \<Rightarrow> int) \<Rightarrow> mailbox_env \<Rightarrow> box \<Rightarrow> bool \<Rightarrow> mailbox_state \<Rightarrow> mailbox_state" where
  "loadBox lc env b manual s =
     (if mb_current s = None then s
      else let s = patchBox b (\<lambda>x. x\<lparr>bx_loading := True, bx_refreshing := manual, bx_error := None\<rparr>) s
           in case collect env (BoxMail b) Refresh s of
                (Inr items, s) \<Rightarrow>
                  patchBox b (\<lambda>x. x\<lparr>bx_items := js_sort (byDateDesc lc) items, bx_loading := False, bx_refreshing := False,
                    bx_canLoadMore := moreAvailable (BoxMail b) s\<rparr>) s
              | (Inl e, s) \<Rightarrow>
                  (case accountAuthLoss e None (patchBox b (\<lambda>x. x\<lparr>bx_loading := False, bx_refreshing := False\<rparr>) s) of
                     (True, s) \<Rightarrow> s
                   | (False, s) \<Rightarrow> patchBox b (\<lambda>x. x\<lparr>bx_error := Some (error_message e)\<rparr>) s))"

definition loadMoreBox :: "(string \<Rightarrow> string \<Rightarrow> int) \<Rightarrow> mailbox_env \<Rightarrow> box \<Rightarrow> mailbox_state \<Rightarrow> mailbox_state" where
  "loadMoreBox lc env b s =
     (if mb_current s = None \<or> bx_loading (mb_boxes s b) \<or> bx_loadingMore (mb_boxes s b) \<or> \<not> bx_canLoadMore (mb_boxes s b) then s
      else let s = patchBox b (\<lambda>x. x\<lparr>bx_loadingMore := True, bx_error := None\<rparr>) s
           in case collect env (BoxMail b) More s of
                (Inr older, s) \<Rightarrow>
                  patchBox b (\<lambda>x. x\<lparr>bx_items := merge_rows lc (bx_items (mb_boxes s b)) older, bx_loadingMore := False,
                    bx_canLoadMore := moreAvailable (BoxMail b) s\<rparr>) s
              | (Inl e, s) \<Rightarrow>
                  (case accountAuthLoss e None (patchBox b (\<lambda>x. x\<lparr>bx_loadingMore := False\<rparr>) s) of
                     (True, s) \<Rightarrow> s
                   | (False, s) \<Rightarrow> patchBox b (\<lambda>x. x\<lparr>bx_error := Some (error_message e)\<rparr>) s))"

subsection \<open>Merging pages\<close>

interpretation row_store: id_store sm_id put_row obj_del
  using id_store_obj [of sm_id] by (simp add: put_row_def [abs_def])

lemma filed_add_row: "filed sm_id m \<Longrightarrow> filed sm_id (add_row m r)"
  by (simp add: add_row_def row_store.filed_put)

lemma filed_add_rows: "filed sm_id m \<Longrightarrow> filed sm_id (foldl add_row m rs)"
  by (induction rs arbitrary: m) (simp_all add: filed_add_row)

lemma get_add_rows:
  "distinct (map sm_id rs) \<Longrightarrow> obj_get (foldl add_row m rs) k =
     (case obj_get m k of Some r \<Rightarrow> Some r | None \<Rightarrow> find (\<lambda>r. sm_id r = k) rs)"
proof (induction rs arbitrary: m)
  case (Cons r rs)
  have "find (\<lambda>x. sm_id x = sm_id r) rs = None"
    using Cons.prems by (simp add: find_None_iff) (metis image_eqI)
  with Cons show ?case by (auto simp: add_row_def row_store.get_put split: option.splits)
qed (simp split: option.splits)

lemma find_id_unique: "distinct (map f xs) \<Longrightarrow> find (\<lambda>x. f x = k) xs = Some x \<longleftrightarrow> x \<in> set xs \<and> f x = k"
  by (induction xs) (auto simp: image_iff)

text \<open>Paging back never loses, duplicates or replaces a row: after an older page is merged in, the list holds every row
  that was on screen, as it was, and every older row whose id was not, once each, newest first.\<close>

theorem merge_keeps_everything_once:
  assumes "comparator lc" and "distinct (map sm_id existing)" and "distinct (map sm_id older)"
  shows "distinct (map sm_id (merge_rows lc existing older))
    \<and> set (merge_rows lc existing older) = set existing \<union> {r \<in> set older. sm_id r \<notin> sm_id ` set existing}
    \<and> sorted_wrt (\<lambda>a b. lc (sm_date b) (sm_date a) \<le> 0) (merge_rows lc existing older)"
proof -
  let ?e = "foldl put_row [] existing" let ?m = "foldl add_row ?e older"
  have filed: "filed sm_id ?m" by (intro filed_add_rows row_store.filed_put_all filed_Nil)
  have get: "obj_get ?m k = (case find (\<lambda>r. sm_id r = k) existing of Some r \<Rightarrow> Some r | None \<Rightarrow> find (\<lambda>r. sm_id r = k) older)" for k
    unfolding get_add_rows [OF assms(3)] row_store.get_put_all [OF assms(2)] by (simp split: option.splits)
  have "r \<in> set (obj_values ?m) \<longleftrightarrow> r \<in> set existing \<or> r \<in> set older \<and> sm_id r \<notin> sm_id ` set existing" for r
  proof (cases "find (\<lambda>x. sm_id x = sm_id r) existing")
    case None
    then have "sm_id r \<notin> sm_id ` set existing" by (auto simp: find_None_iff)
    then show ?thesis
      unfolding filed_in_values [OF filed] get using None find_id_unique [OF assms(3), of "sm_id r" r] by auto
  next
    case (Some x)
    then have "x \<in> set existing" "sm_id x = sm_id r" using find_id_unique [OF assms(2)] by blast+
    then have "sm_id r \<in> sm_id ` set existing" by (metis imageI)
    moreover have "x = r \<longleftrightarrow> r \<in> set existing" using Some find_id_unique [OF assms(2), of "sm_id r" r] by simp
    ultimately show ?thesis unfolding filed_in_values [OF filed] get Some by simp
  qed
  then have "set (merge_rows lc existing older) = set existing \<union> {r \<in> set older. sm_id r \<notin> sm_id ` set existing}"
    unfolding merge_rows_def set_js_sort by blast
  moreover have "distinct (map sm_id (merge_rows lc existing older))"
    unfolding merge_rows_def distinct_map_js_sort by (rule filed_distinct [OF filed])
  moreover have "sorted_wrt (\<lambda>a b. lc (sm_date b) (sm_date a) \<le> 0) (merge_rows lc existing older)"
    using comparator.sort_sorted [OF comparator_desc [OF comparator_by_text [OF assms(1), of sm_date]]]
    unfolding merge_rows_def byDateDesc_def by (simp add: cmp_desc_def cmp_by_text_def)
  ultimately show ?thesis by blast
qed

definition sample_item :: "string \<Rightarrow> string \<Rightarrow> string \<Rightarrow> inbox_item" where
  "sample_item i date account = mail_summary.extend ((sample_summary i ''Hi'')\<lparr>sm_date := date\<rparr>) \<lparr>ii_account = account\<rparr>"

theorem merge_keeps_everything_once_witness:
  "set (merge_rows str_cmp [sample_item ''a'' ''3'' ''x'', sample_item ''b'' ''2'' ''x''] [sample_item ''b'' ''2'' ''y'', sample_item ''c'' ''1'' ''x''])
   = {sample_item ''a'' ''3'' ''x'', sample_item ''b'' ''2'' ''x'', sample_item ''c'' ''1'' ''x''}"
proof -
  let ?e = "[sample_item ''a'' ''3'' ''x'', sample_item ''b'' ''2'' ''x'']" and ?o = "[sample_item ''b'' ''2'' ''y'', sample_item ''c'' ''1'' ''x'']"
  have "set (merge_rows str_cmp ?e ?o) = set ?e \<union> {r \<in> set ?o. sm_id r \<notin> sm_id ` set ?e}"
    using merge_keeps_everything_once [OF code_units.comparator_axioms, of ?e ?o] by (simp add: sample_item_def sample_summary_def mail_summary.defs)
  also have "\<dots> = {sample_item ''a'' ''3'' ''x'', sample_item ''b'' ''2'' ''x'', sample_item ''c'' ''1'' ''x''}"
    by (auto simp: sample_item_def sample_summary_def mail_summary.defs)
  finally show ?thesis .
qed

subsection \<open>The merged inbox\<close>

definition answers :: "mailbox_env \<Rightarrow> mailbox \<Rightarrow> mailbox_state \<Rightarrow> string \<Rightarrow> page_answer" where
  "answers env b s a = me_list env a b (if b = SpamMail then JUNK_PAGE_SIZE else PAGE_SIZE) None (syncWindowDays s a)"

definition rows_of :: "string \<Rightarrow> page_answer \<Rightarrow> inbox_item list" where
  "rows_of a r = (case r of Inl e \<Rightarrow> [] | Inr (ms, next) \<Rightarrow> tag ms a)"

definition front_ok :: "string \<Rightarrow> mailbox_state \<Rightarrow> bool" where
  "front_ok active s \<longleftrightarrow> mb_active s = Some active \<and> active \<in> set (mb_sessions s) \<and> active \<in> ar_id ` set (mb_accounts s)"

lemma loss_beside_front:
  assumes "front_ok active s" and "a \<noteq> active"
  shows "snd (accountAuthLoss e (Some a) s) = (if needsReauth e then markReauth a (Some (error_message e)) s else s)"
    and "front_ok active (snd (accountAuthLoss e (Some a) s))"
    and "mb_accounts (snd (accountAuthLoss e (Some a) s)) = mb_accounts s"
proof -
  have "list_ex (\<lambda>x. ar_id x \<noteq> a \<and> ar_id x \<in> set (mb_sessions s)) (mb_accounts s)"
    using assms by (fastforce simp: front_ok_def list_ex_iff)
  then show *: "snd (accountAuthLoss e (Some a) s) = (if needsReauth e then markReauth a (Some (error_message e)) s else s)"
    by (simp add: accountAuthLoss_def)
  show "front_ok active (snd (accountAuthLoss e (Some a) s))"
    using assms unfolding * by (auto simp: front_ok_def markReauth_def Let_def split: option.splits)
  show "mb_accounts (snd (accountAuthLoss e (Some a) s)) = mb_accounts s"
    unfolding * by (auto simp: markReauth_def Let_def split: option.splits)
qed

lemma fetch_page_refresh:
  "fst (fetch_page env b Refresh a a s) = (case answers env b s a of Inl e \<Rightarrow> Inl e | Inr (ms, next) \<Rightarrow> Inr (tag ms a))"
  "front_ok active (snd (fetch_page env b Refresh a a s)) = front_ok active s"
  "mb_accounts (snd (fetch_page env b Refresh a c s)) = mb_accounts s"
  "mb_reauth (snd (fetch_page env b Refresh a c s)) = mb_reauth s"
  by (auto simp: fetch_page_def answers_def Let_def front_ok_def syncWindowDays_def split: sum.splits prod.splits)

lemma answers_accounts: "mb_accounts s' = mb_accounts s \<Longrightarrow> answers env b s' a = answers env b s a"
  by (simp add: answers_def syncWindowDays_def)

lemma reauth_grows: "front_ok active s \<Longrightarrow> a \<noteq> active \<Longrightarrow> x \<in> set (mb_reauth s) \<Longrightarrow> x \<in> set (mb_reauth (snd (accountAuthLoss e (Some a) s)))"
  by (auto simp: loss_beside_front markReauth_def Let_def split: option.splits)

lemma reauth_flags: "front_ok active s \<Longrightarrow> a \<noteq> active \<Longrightarrow> needsReauth e \<Longrightarrow> a \<in> set (mb_reauth (snd (accountAuthLoss e (Some a) s)))"
  by (auto simp: loss_beside_front markReauth_def Let_def split: option.splits)

definition failed :: "('e, 'a) result \<Rightarrow> bool" where
  "failed r \<longleftrightarrow> (case r of Inl _ \<Rightarrow> True | Inr _ \<Rightarrow> False)"

lemma fetch_all_refresh:
  "front_ok active s \<Longrightarrow> fetch_all env b Refresh active accounts s = (r, s') \<Longrightarrow>
   (if active \<in> set accounts \<and> failed (answers env b s active) then failed r
    else r = Inr (map (\<lambda>a. rows_of a (answers env b s a)) accounts))
   \<and> set (mb_reauth s) \<subseteq> set (mb_reauth s')
   \<and> (\<forall>a \<in> set accounts. \<forall>m. a \<noteq> active \<longrightarrow> answers env b s a = Inl (GrantGone m) \<longrightarrow> a \<in> set (mb_reauth s'))"
proof (induction accounts arbitrary: s r s')
  case (Cons a accounts)
  obtain p s1 where page: "fetch_page env b Refresh a a s = (p, s1)" by fastforce
  note pg = fetch_page_refresh [where env = env and b = b and a = a and s = s]
  have front1: "front_ok active s1" and acc1: "mb_accounts s1 = mb_accounts s" and re1: "mb_reauth s1 = mb_reauth s"
    using pg(2) [of active] pg(3,4) [of a] Cons.prems(1) page by auto
  define s2 where "s2 = (case p of Inr _ \<Rightarrow> s1 | Inl e \<Rightarrow> if a = active then s1 else snd (accountAuthLoss e (Some a) s1))"
  have "s2 = s1 \<or> a \<noteq> active \<and> (\<exists>e. s2 = snd (accountAuthLoss e (Some a) s1))" by (auto simp: s2_def split: sum.splits)
  then have front2: "front_ok active s2" and acc2: "mb_accounts s2 = mb_accounts s" and re2: "set (mb_reauth s) \<subseteq> set (mb_reauth s2)"
    using front1 acc1 re1 loss_beside_front(2,3) [OF front1, of a] reauth_grows [OF front1, of a] by auto
  obtain r2 s3 where rest: "fetch_all env b Refresh active accounts s2 = (r2, s3)" by fastforce
  note IH = Cons.IH [OF front2 rest]
  have ans: "answers env b s2 x = answers env b s x" for x by (rule answers_accounts [OF acc2])
  have p: "p = (case answers env b s a of Inl e \<Rightarrow> Inl e | Inr (ms, next) \<Rightarrow> Inr (tag ms a))" using pg(1) page by simp
  have res: "s' = s3 \<and> r = (case p of
      Inr items \<Rightarrow> (case r2 of Inl e \<Rightarrow> Inl e | Inr rest \<Rightarrow> Inr (items # rest))
    | Inl e \<Rightarrow> if a = active then Inl e else (case r2 of Inl e \<Rightarrow> Inl e | Inr rest \<Rightarrow> Inr ([] # rest)))"
    using Cons.prems(2) page rest by (auto simp: s2_def split: sum.splits if_splits prod.splits)
  have "a \<in> set (mb_reauth s3)" if "a \<noteq> active" "answers env b s a = Inl (GrantGone m)" for m
  proof -
    have "p = Inl (GrantGone m)" using p that(2) by simp
    then have "a \<in> set (mb_reauth s2)" using reauth_flags [OF front1 that(1), of "GrantGone m"] that(1) by (simp add: s2_def needsReauth_def)
    then show ?thesis using IH by blast
  qed
  then have flags: "\<forall>x \<in> set (a # accounts). \<forall>m. x \<noteq> active \<longrightarrow> answers env b s x = Inl (GrantGone m) \<longrightarrow> x \<in> set (mb_reauth s')"
    using IH ans res by auto
  have "if active \<in> set (a # accounts) \<and> failed (answers env b s active) then failed r
    else r = Inr (map (\<lambda>a. rows_of a (answers env b s a)) (a # accounts))"
    using conjunct1 [OF IH] conjunct2 [OF res] p unfolding ans
    by (cases "answers env b s a"; cases r2) (auto simp: failed_def rows_of_def split: if_splits)
  then show ?case using flags IH re2 res by auto
qed simp

text \<open>A mailbox that is offline never blanks a merged list: as long as the mailbox in front answers, the list is the rows
  of every mailbox that answered, and each other mailbox whose grant is gone is flagged; when the mailbox in front does
  not answer, the refresh fails and says so.\<close>

theorem offline_mailbox_never_blanks:
  assumes "mb_active s = Some active" and "active \<in> set (mb_sessions s)" and "active \<in> ar_id ` set (mb_accounts s)"
    and "mb_unified s" and "mergesAccounts b" and "active \<in> set (mb_clients s)"
    and "collect env b Refresh s = (r, s')"
  shows "(if failed (answers env b s active) then failed r
     else r = Inr (concat (map (\<lambda>a. rows_of a (answers env b s a)) (mb_clients s))))
    \<and> (\<forall>a \<in> set (mb_clients s). \<forall>m. a \<noteq> active \<and> answers env b s a = Inl (GrantGone m) \<longrightarrow> a \<in> set (mb_reauth s'))"
proof -
  let ?s = "forget_cursors b s"
  have same: "mb_clients ?s = mb_clients s" "mb_unified ?s = mb_unified s" "mb_accounts ?s = mb_accounts s"
    and front: "front_ok active ?s"
    using assms(1-3) by (simp_all add: forget_cursors_def front_ok_def)
  obtain r1 s1 where all: "fetch_all env b Refresh active (mb_clients s) ?s = (r1, s1)" by fastforce
  note F = fetch_all_refresh [OF front all, unfolded answers_accounts [OF same(3)]]
  have "s' = s1 \<and> r = (case r1 of Inl e \<Rightarrow> Inl e | Inr found \<Rightarrow> Inr (concat found))"
    using assms(1,4,5,7) all by (auto simp: collect_def Let_def same split: sum.splits)
  then show ?thesis using F assms(6) by (auto simp: failed_def split: if_splits sum.splits)
qed

definition sample_ref :: "string \<Rightarrow> account_ref" where
  "sample_ref i = \<lparr>ar_id = i, ar_provider = Gmail, ar_email = i, ar_name = None, ar_photo = None, ar_settings = None\<rparr>"

definition sample_mailbox :: mailbox_state where
  "sample_mailbox =
     \<lparr>mb_accounts = [sample_ref ''a'', sample_ref ''b''], mb_active = Some ''a'', mb_unified = True, mb_clients = [''a'', ''b''],
      mb_sessions = [''a'', ''b''], mb_current = Some ''a'', mb_messages = [], mb_boxes = (\<lambda>_. emptyBox), mb_loading = False,
      mb_refreshing = False, mb_loadingMore = False, mb_canLoadMore = False, mb_error = None, mb_cursors = (\<lambda>_. None),
      mb_departed = (\<lambda>_. None), mb_reauth = [], mb_switch_to = None, mb_index = [], mb_labels = emptyLabelState,
      mb_rules = emptyRulesState, disk_labels = emptyLabelState, disk_rules = emptyRulesState, mb_asked = [], mb_told = [],
      mb_refetched = []\<rparr>"

text \<open>Account \<open>a\<close> lists one row, the grant of account \<open>b\<close> is gone.\<close>

definition sample_mail_env :: mailbox_env where
  "sample_mail_env =
     \<lparr>me_list = (\<lambda>account b n token window. if account = ''a'' then Inr ([sample_summary ''m'' ''Hi''], None) else Inl (GrantGone ''expired'')),
      me_update = (\<lambda>account i p. True), me_store_ok = True\<rparr>"

theorem offline_mailbox_never_blanks_witness:
  "\<exists>r s'. collect sample_mail_env InboxMail Refresh sample_mailbox = (r, s')
     \<and> r = Inr (tag [sample_summary ''m'' ''Hi''] ''a'') \<and> ''b'' \<in> set (mb_reauth s')"
proof -
  obtain r s' where c: "collect sample_mail_env InboxMail Refresh sample_mailbox = (r, s')" by fastforce
  have ans: "answers sample_mail_env InboxMail sample_mailbox ''a'' = Inr ([sample_summary ''m'' ''Hi''], None)"
    "answers sample_mail_env InboxMail sample_mailbox ''b'' = Inl (GrantGone ''expired'')"
    by (simp_all add: answers_def sample_mail_env_def)
  have st: "mb_active sample_mailbox = Some ''a''" "''a'' \<in> set (mb_sessions sample_mailbox)" "''a'' \<in> ar_id ` set (mb_accounts sample_mailbox)"
    "mb_unified sample_mailbox" "mb_clients sample_mailbox = [''a'', ''b'']"
    by (simp_all add: sample_mailbox_def sample_ref_def)
  have "mergesAccounts InboxMail" "''a'' \<in> set (mb_clients sample_mailbox)" by (simp_all add: mergesAccounts_def st)
  from offline_mailbox_never_blanks [OF st(1-4) this c]
  have "r = Inr (tag [sample_summary ''m'' ''Hi''] ''a'') \<and> ''b'' \<in> set (mb_reauth s')"
    by (simp add: st(5) ans failed_def rows_of_def)
  then show ?thesis using c by blast
qed

subsection \<open>Cursors\<close>

definition cursor_token :: "mailbox_state \<Rightarrow> mailbox \<Rightarrow> string \<Rightarrow> string option" where
  "cursor_token s b a = (case mb_cursors s (b, a) of Some t \<Rightarrow> t | None \<Rightarrow> None)"

lemma auth_loss_keeps [simp]:
  "mb_cursors (snd (accountAuthLoss e a s)) = mb_cursors s" "mb_asked (snd (accountAuthLoss e a s)) = mb_asked s"
  by (auto simp: accountAuthLoss_def markReauth_def Let_def split: option.splits)

lemma fetch_page_asks:
  assumes "fetch_page env b More a c s = (r, s')"
  shows "mb_asked s' = mb_asked s @ (if exhausted b a s then [] else [(a, b, cursor_token s b a)])"
    and "x \<noteq> (b, a) \<Longrightarrow> mb_cursors s' x = mb_cursors s x"
  using assms by (auto simp: fetch_page_def cursor_token_def Let_def split: if_splits sum.splits option.splits)

lemma fetch_all_asks:
  "distinct accounts \<Longrightarrow> fetch_all env b More active accounts s = (r, s') \<Longrightarrow>
   mb_asked s' = mb_asked s @ concat (map (\<lambda>a. if exhausted b a s then [] else [(a, b, cursor_token s b a)]) accounts)
   \<and> (\<forall>x. x \<notin> Pair b ` set accounts \<longrightarrow> mb_cursors s' x = mb_cursors s x)"
proof (induction accounts arbitrary: s r s')
  case (Cons a accounts)
  obtain p s1 where page: "fetch_page env b More a a s = (p, s1)" by fastforce
  define s2 where "s2 = (case p of Inr _ \<Rightarrow> s1 | Inl e \<Rightarrow> if a = active then s1 else snd (accountAuthLoss e (Some a) s1))"
  have same: "mb_asked s2 = mb_asked s1" "mb_cursors s2 = mb_cursors s1" by (auto simp: s2_def split: sum.splits)
  obtain r2 s3 where rest: "fetch_all env b More active accounts s2 = (r2, s3)" by fastforce
  have s3: "s' = s3" using Cons.prems(2) page rest by (auto simp: s2_def split: sum.splits if_splits prod.splits)
  have dist: "distinct accounts" "a \<notin> set accounts" using Cons.prems(1) by simp_all
  have "exhausted b x s2 = exhausted b x s \<and> cursor_token s2 b x = cursor_token s b x" if "x \<in> set accounts" for x
  proof -
    have "x \<noteq> a" using that dist(2) by blast
    then have "mb_cursors s2 (b, x) = mb_cursors s (b, x)" using fetch_page_asks(2) [OF page, of "(b, x)"] same(2) by simp
    then show ?thesis by (simp add: exhausted_def cursor_token_def)
  qed
  then have "map (\<lambda>a. if exhausted b a s2 then [] else [(a, b, cursor_token s2 b a)]) accounts
      = map (\<lambda>a. if exhausted b a s then [] else [(a, b, cursor_token s b a)]) accounts" by simp
  then have rest_asks: "mb_asked s3 = mb_asked s2 @ concat (map (\<lambda>a. if exhausted b a s then [] else [(a, b, cursor_token s b a)]) accounts)"
    using Cons.IH [OF dist(1) rest] by argo
  then show ?case
    using conjunct2 [OF Cons.IH [OF dist(1) rest]] fetch_page_asks(1) [OF page] fetch_page_asks(2) [OF page] same s3 by auto
qed simp

text \<open>Paging back never starts over: asking for older mail asks each mailbox at most once, with the token its last page
  gave, never a mailbox that has handed over its oldest message, and forgets the place of no other list.\<close>

theorem paging_never_starts_over:
  assumes "distinct (mb_clients s)" and "collect env b More s = (r, s')"
  shows "\<exists>accounts. distinct accounts \<and> mb_asked s' = mb_asked s @ map (\<lambda>a. (a, b, cursor_token s b a)) accounts
      \<and> (\<forall>a \<in> set accounts. \<not> exhausted b a s) \<and> (\<forall>b' a. b' \<noteq> b \<longrightarrow> mb_cursors s' (b', a) = mb_cursors s (b', a))"
proof -
  have one: ?thesis if "fetch_page env b More a c s = (r, s')" for a c
    using fetch_page_asks [OF that]
    by (intro exI [of _ "if exhausted b a s then [] else [a]"]) auto
  have none: ?thesis if "s' = s" using that by (intro exI [of _ "[]"]) simp
  have all: ?thesis if "fetch_all env b More active (mb_clients s) s = (r1, s')" for active r1
  proof -
    let ?as = "filter (\<lambda>a. \<not> exhausted b a s) (mb_clients s)"
    have "concat (map (\<lambda>a. if exhausted b a s then [] else [(a, b, cursor_token s b a)]) as) =
        map (\<lambda>a. (a, b, cursor_token s b a)) (filter (\<lambda>a. \<not> exhausted b a s) as)" for as
      by (induction as) auto
    moreover have "(b', a) \<notin> Pair b ` set (mb_clients s)" if "b' \<noteq> b" for b' a using that by auto
    ultimately show ?thesis
      using fetch_all_asks [OF assms(1) that] assms(1) by (intro exI [of _ ?as]) auto
  qed
  show ?thesis
    using assms(2) one none all
    by (auto simp: collect_def Let_def split: option.splits if_splits sum.splits prod.splits)
qed

theorem paging_never_starts_over_witness:
  "let s = sample_mailbox\<lparr>mb_cursors := (\<lambda>x. if x = (InboxMail, ''a'') then Some (Some ''p2'') else Some None)\<rparr>
   in mb_asked (snd (collect sample_mail_env InboxMail More s)) = [(''a'', InboxMail, Some ''p2'')]"
proof -
  let ?s = "sample_mailbox\<lparr>mb_cursors := (\<lambda>x. if x = (InboxMail, ''a'') then Some (Some ''p2'') else Some None)\<rparr>"
  obtain r s' where c: "collect sample_mail_env InboxMail More ?s = (r, s')" by fastforce
  have "distinct (mb_clients ?s)" by (simp add: sample_mailbox_def)
  from paging_never_starts_over [OF this c] obtain accounts where
    "distinct accounts" "mb_asked s' = mb_asked ?s @ map (\<lambda>a. (a, InboxMail, cursor_token ?s InboxMail a)) accounts"
    "\<forall>a \<in> set accounts. \<not> exhausted InboxMail a ?s" by blast
  then have "distinct accounts" "\<forall>a \<in> set accounts. a = ''a''" "mb_asked s' = map (\<lambda>a. (a, InboxMail, cursor_token ?s InboxMail a)) accounts"
    by (auto simp: exhausted_def sample_mailbox_def split: if_splits)
  moreover have "length (mb_asked s') = 1"
    using arg_cong [OF c, of "\<lambda>x. length (mb_asked (snd x))"]
    by (simp add: collect_def fetch_page_def sample_mailbox_def sample_mail_env_def mergesAccounts_def Let_def exhausted_def
        syncWindowDays_def settingsOf_def DEFAULT_ACCOUNT_SETTINGS_def sample_ref_def)
  ultimately have "accounts = [''a'']" by (cases accounts; cases "tl accounts") auto
  then show ?thesis using \<open>mb_asked s' = map _ accounts\<close> c by (simp add: cursor_token_def)
qed

end
