(* ===== verification/Mailbox_Actions.thy ===== *)
theory Mailbox_Actions
  imports Mailbox_Lists
begin

text \<open>
  What the user and the rules do to rows: the flag updates of \<^verbatim>\<open>state/mailbox.ts\<close>, the rules service
  (\<^verbatim>\<open>state/rules.ts\<close>) and the labels service (\<^verbatim>\<open>state/labels.ts\<close>). Each runs as one action: the source patches
  the store before it first awaits. What is thrown is a \<open>service_error\<close>.
\<close>

subsection \<open>Flags\<close>

definition in_box :: "mailbox_state \<Rightarrow> string \<Rightarrow> box \<Rightarrow> inbox_item option" where
  "in_box s i b = find (\<lambda>m. sm_id m = i) (bx_items (mb_boxes s b))"

fun first_box :: "mailbox_state \<Rightarrow> string \<Rightarrow> box list \<Rightarrow> (inbox_item \<times> box option) option" where
  "first_box s i [] = None"
| "first_box s i (b # bs) = (case in_box s i b of Some r \<Rightarrow> Some (r, Some b) | None \<Rightarrow> first_box s i bs)"

definition locate :: "mailbox_state \<Rightarrow> string \<Rightarrow> (inbox_item \<times> box option) option" where
  "locate s i =
     (case find (\<lambda>m. sm_id m = i) (mb_messages s) of
        Some r \<Rightarrow> Some (r, None)
      | None \<Rightarrow> first_box s i SECONDARY_BOXES)"

definition patchRow :: "(inbox_item \<times> box option) option \<Rightarrow> string \<Rightarrow> flag_patch \<Rightarrow> mailbox_state \<Rightarrow> mailbox_state" where
  "patchRow found i change s =
     (case found of
        None \<Rightarrow> s
      | Some (r, None) \<Rightarrow> s\<lparr>mb_messages := applyFlagPatch (mb_messages s) i change\<rparr>
      | Some (r, Some b) \<Rightarrow> patchBox b (\<lambda>x. x\<lparr>bx_items := applyFlagPatch (bx_items x) i change\<rparr>) s)"

definition client_for :: "mailbox_state \<Rightarrow> string \<Rightarrow> string option" where
  "client_for s i =
     (case (case locate s i of Some (r, b) \<Rightarrow> Some (ii_account r) | None \<Rightarrow> mb_departed s i) of
        Some a \<Rightarrow> if a \<noteq> [] \<and> a \<in> set (mb_clients s) then Some a else mb_current s
      | None \<Rightarrow> mb_current s)"

definition setFlags :: "mailbox_env \<Rightarrow> string \<Rightarrow> flag_patch \<Rightarrow> mailbox_state \<Rightarrow> mailbox_state" where
  "setFlags env i change s =
     (case client_for s i of
        None \<Rightarrow> s
      | Some client \<Rightarrow>
          let found = locate s i;
              s1 = (case found of
                      Some (r, b) \<Rightarrow>
                        if fp_archived change \<noteq> None \<or> fp_trashed change \<noteq> None
                        then s\<lparr>mb_departed := (mb_departed s)(i := Some (ii_account r))\<rparr> else s
                    | None \<Rightarrow> s);
              s2 = patchRow found i change s1;
              s3 = s2\<lparr>mb_told := mb_told s2 @ [(client, i, change)]\<rparr>
          in if me_update env client i change then s3
             else s3\<lparr>mb_refetched := mb_refetched s3 @ [case found of Some (r, b) \<Rightarrow> b | None \<Rightarrow> None]\<rparr>)"

definition toggleStar :: "mailbox_env \<Rightarrow> string \<Rightarrow> mailbox_state \<Rightarrow> mailbox_state" where
  "toggleStar env i s =
     setFlags env i (no_flags\<lparr>fp_starred := Some (\<not> (case locate s i of Some (r, b) \<Rightarrow> sm_starred r | None \<Rightarrow> False))\<rparr>) s"

definition setUnread :: "mailbox_env \<Rightarrow> string \<Rightarrow> bool \<Rightarrow> mailbox_state \<Rightarrow> mailbox_state" where
  "setUnread env i unread = setFlags env i (no_flags\<lparr>fp_unread := Some unread\<rparr>)"

definition archiveMessage :: "mailbox_env \<Rightarrow> string \<Rightarrow> mailbox_state \<Rightarrow> mailbox_state" where
  "archiveMessage env i = setFlags env i (no_flags\<lparr>fp_archived := Some True\<rparr>)"

definition unarchiveMessage :: "mailbox_env \<Rightarrow> string \<Rightarrow> mailbox_state \<Rightarrow> mailbox_state" where
  "unarchiveMessage env i = setFlags env i (no_flags\<lparr>fp_archived := Some False\<rparr>)"

definition trashMessage :: "mailbox_env \<Rightarrow> string \<Rightarrow> mailbox_state \<Rightarrow> mailbox_state" where
  "trashMessage env i = setFlags env i (no_flags\<lparr>fp_trashed := Some True\<rparr>)"

definition restoreMessage :: "mailbox_env \<Rightarrow> string \<Rightarrow> mailbox_state \<Rightarrow> mailbox_state" where
  "restoreMessage env i = setFlags env i (no_flags\<lparr>fp_trashed := Some False\<rparr>)"

subsection \<open>The rules service\<close>

datatype service_error = BadRule rule_problem | BadLabel label_problem | NoActiveAccount | StoreFailed

definition store_rules :: "mailbox_env \<Rightarrow> rules_state \<Rightarrow> mailbox_state \<Rightarrow> mailbox_state" where
  "store_rules env r s = (if me_store_ok env then s\<lparr>disk_rules := r\<rparr> else s)"

definition store_labels :: "mailbox_env \<Rightarrow> label_state \<Rightarrow> mailbox_state \<Rightarrow> mailbox_state" where
  "store_labels env l s = (if me_store_ok env then s\<lparr>disk_labels := l\<rparr> else s)"

definition rule_candidates :: "mail_summary list option \<Rightarrow> mailbox_state \<Rightarrow> string \<Rightarrow> inbox_item list" where
  "rule_candidates rows s account =
     filter (\<lambda>m. ii_account m = account)
       (case rows of
          None \<Rightarrow> mb_messages s
        | Some rs \<Rightarrow> List.map_filter (\<lambda>r. obj_get (foldl put_row [] (mb_messages s)) (sm_id r)) rs)"

definition outcome_labels :: "rule_outcome list \<Rightarrow> label_state \<Rightarrow> label_state" where
  "outcome_labels outs labels =
     foldl (\<lambda>l out. if ro_addLabels out \<noteq> [] then applyLabels l [ro_id out] (Some (ro_addLabels out)) None else l) labels outs"

definition runRules :: "mailbox_env \<Rightarrow> mail_summary list option \<Rightarrow> mailbox_state \<Rightarrow> mailbox_state" where
  "runRules env rows s =
     (case mb_active s of
        None \<Rightarrow> s
      | Some account \<Rightarrow>
          if rst_rules (mb_rules s) = [] \<or> rule_candidates rows s account = [] then s
          else (case applyRules (map (\<lambda>m. (m, is_encrypted_row m)) (rule_candidates rows s account)) (mb_index s) (mb_rules s)
                       (set (obj_keys (ls_labels (mb_labels s)))) (\<lambda>m. \<not> providerFiledAsJunk (sm_labels m)) of
                  (outs, fired) \<Rightarrow>
                    if outs = [] then s
                    else let rules = (mb_rules s)\<lparr>rst_fired := pruneFired fired (sm_id ` set (mb_messages s)) FIRED_CAP\<rparr>;
                             labelled = list_ex (\<lambda>out. ro_addLabels out \<noteq> []) outs;
                             labels = outcome_labels outs (mb_labels s);
                             s1 = (if labelled then s\<lparr>mb_rules := rules, mb_labels := labels\<rparr> else s\<lparr>mb_rules := rules\<rparr>);
                             s2 = store_rules env rules s1;
                             s3 = (if labelled then store_labels env labels s2 else s2)
                         in foldl (\<lambda>s out. setFlags env (ro_id out) (ro_flags out) s) s3 (filter (\<lambda>out. ro_flags out \<noteq> no_flags) outs)))"

definition commit_rules :: "mailbox_env \<Rightarrow> rules_state \<Rightarrow> mailbox_state \<Rightarrow> (service_error, unit) result \<times> mailbox_state" where
  "commit_rules env next s =
     (if mb_active s = None then (Inl NoActiveAccount, s)
      else let s1 = store_rules env next (s\<lparr>mb_rules := next\<rparr>)
           in if me_store_ok env then (Inr (), s1) else (Inl StoreFailed, s1))"

text \<open>What the editor hands over: a rule that may have no id yet.\<close>

record rule_draft =
  rd_id :: "string option"
  rd_name :: string
  rd_enabled :: bool
  rd_conditions :: "rule_condition list"
  rd_actions :: rule_actions

definition saveRule ::
  "mailbox_env \<Rightarrow> string \<Rightarrow> string \<Rightarrow> rule_draft \<Rightarrow> mailbox_state \<Rightarrow> (service_error, rule) result \<times> mailbox_state" where
  "saveRule env new_id now draft s =
     (case ruleProblem (rd_conditions draft) (rd_actions draft) of
        Some p \<Rightarrow> (Inl (BadRule p), s)
      | None \<Rightarrow>
          let existing = (case rd_id draft of
                            None \<Rightarrow> None
                          | Some i \<Rightarrow> if i = [] then None else find (\<lambda>r. rl_id r = i) (rst_rules (mb_rules s)));
              r = \<lparr>rl_id = (case existing of None \<Rightarrow> new_id | Some e \<Rightarrow> rl_id e), rl_name = js_trim (rd_name draft),
                   rl_enabled = rd_enabled draft,
                   rl_conditions = map (\<lambda>c. c\<lparr>rc_contains := js_trim (rc_contains c)\<rparr>) (rd_conditions draft),
                   rl_actions = rd_actions draft,
                   rl_createdAt = (case existing of None \<Rightarrow> now | Some e \<Rightarrow> rl_createdAt e)\<rparr>
          in case commit_rules env (upsertRule (mb_rules s) r) s of
               (Inl e, s) \<Rightarrow> (Inl e, s)
             | (Inr _, s) \<Rightarrow> (Inr r, runRules env None s))"

definition deleteRule :: "mailbox_env \<Rightarrow> string \<Rightarrow> mailbox_state \<Rightarrow> (service_error, unit) result \<times> mailbox_state" where
  "deleteRule env i s = commit_rules env (removeRule (mb_rules s) i) s"

subsection \<open>The labels service\<close>

definition commit_labels :: "mailbox_env \<Rightarrow> label_state \<Rightarrow> mailbox_state \<Rightarrow> (service_error, unit) result \<times> mailbox_state" where
  "commit_labels env next s =
     (if mb_active s = None then (Inl NoActiveAccount, s)
      else let s1 = store_labels env next (s\<lparr>mb_labels := next\<rparr>)
           in if me_store_ok env then (Inr (), s1) else (Inl StoreFailed, s1))"

definition addLabel ::
  "mailbox_env \<Rightarrow> string \<Rightarrow> string \<Rightarrow> string \<Rightarrow> mailbox_state \<Rightarrow> (service_error, label option) result \<times> mailbox_state" where
  "addLabel env new_id now name s =
     (case createLabel (mb_labels s) name new_id now of
        Inl p \<Rightarrow> (Inl (BadLabel p), s)
      | Inr next \<Rightarrow> (case commit_labels env next s of
            (Inl e, s) \<Rightarrow> (Inl e, s) | (Inr _, s) \<Rightarrow> (Inr (obj_get (ls_labels next) new_id), s)))"

definition relabel :: "mailbox_env \<Rightarrow> string \<Rightarrow> string \<Rightarrow> mailbox_state \<Rightarrow> (service_error, unit) result \<times> mailbox_state" where
  "relabel env i name s =
     (case renameLabel (mb_labels s) i name of Inl p \<Rightarrow> (Inl (BadLabel p), s) | Inr next \<Rightarrow> commit_labels env next s)"

definition removeLabel :: "mailbox_env \<Rightarrow> string \<Rightarrow> mailbox_state \<Rightarrow> (service_error, unit) result \<times> mailbox_state" where
  "removeLabel env i s =
     (if mb_active s = None then (Inl NoActiveAccount, s)
      else let rules = dropLabelFromRules (mb_rules s) i;
               labels = deleteLabel (mb_labels s) i;
               s1 = store_rules env rules (store_labels env labels (s\<lparr>mb_labels := labels, mb_rules := rules\<rparr>))
           in if me_store_ok env then (Inr (), s1) else (Inl StoreFailed, s1))"

definition setLabels ::
  "mailbox_env \<Rightarrow> string list \<Rightarrow> string list option \<Rightarrow> string list option \<Rightarrow> mailbox_state \<Rightarrow> (service_error, unit) result \<times> mailbox_state" where
  "setLabels env messageIds add rem s =
     (if messageIds = [] then (Inr (), s) else commit_labels env (applyLabels (mb_labels s) messageIds add rem) s)"

subsection \<open>Facts\<close>





lemma setFlags_same [simp]:
  "mb_clients (setFlags env i p s) = mb_clients s" "mb_active (setFlags env i p s) = mb_active s"
  "mb_rules (setFlags env i p s) = mb_rules s" "mb_index (setFlags env i p s) = mb_index s"
  "mb_labels (setFlags env i p s) = mb_labels s" "mb_current (setFlags env i p s) = mb_current s"
  by (auto simp: setFlags_def patchRow_def patchBox_def Let_def split: option.splits)







subsection \<open>A pass of the rules settles the inbox\<close>

definition same_reading :: "inbox_item \<Rightarrow> inbox_item \<Rightarrow> bool" where
  "same_reading m n \<longleftrightarrow> sm_id m = sm_id n \<and> ii_account m = ii_account n \<and> sm_from_name m = sm_from_name n
     \<and> sm_from_address m = sm_from_address n \<and> sm_subject m = sm_subject n \<and> sm_snippet m = sm_snippet n"

lemma same_reading_refl [simp]: "same_reading m m"
  by (simp add: same_reading_def)

lemma same_reading_patch: "same_reading m n \<Longrightarrow> same_reading m (patch_row n p)"
  by (auto simp: same_reading_def patch_row_def Let_def split: option.splits)

lemma same_reading_matches: "same_reading m n \<Longrightarrow> matchRule cs (m, is_encrypted_row m) index = matchRule cs (n, is_encrypted_row n) index"
proof -
  assume s: "same_reading m n"
  have "readableField f (m, is_encrypted_row m) index = readableField f (n, is_encrypted_row n) index" for f
    using s unfolding same_reading_def readableField_def is_encrypted_row_def by (simp split: option.splits)
  then show ?thesis by (simp add: matchRule_def)
qed

lemma applyFlagPatch_rows:
  "n \<in> set (applyFlagPatch ms i p) \<Longrightarrow> \<exists>m \<in> set ms. n = m \<or> n = patch_row m p"
  by (auto simp: applyFlagPatch_def split: if_splits)

lemma setFlags_rows:
  "n \<in> set (mb_messages (setFlags env i p s)) \<Longrightarrow> \<exists>m \<in> set (mb_messages s). n = m \<or> n = patch_row m p"
proof -
  assume n: "n \<in> set (mb_messages (setFlags env i p s))"
  have "mb_messages (setFlags env i p s) = mb_messages s \<or> mb_messages (setFlags env i p s) = applyFlagPatch (mb_messages s) i p"
    by (auto simp: setFlags_def patchRow_def patchBox_def Let_def split: option.splits)
  then show ?thesis using n applyFlagPatch_rows by metis
qed

lemma flag_all_rows:
  fixes outs :: "rule_outcome list"
  shows "n \<in> set (mb_messages (foldl (\<lambda>s out. setFlags env (ro_id out) (ro_flags out) s) s outs)) \<Longrightarrow>
   \<exists>m \<in> set (mb_messages s). same_reading m n"
proof (induction outs arbitrary: s)
  case Nil
  then show ?case by (auto intro: bexI [of _ n])
next
  case (Cons out outs)
  then obtain m where m: "m \<in> set (mb_messages (setFlags env (ro_id out) (ro_flags out) s))" "same_reading m n" by auto
  then obtain k where k: "k \<in> set (mb_messages s)" "m = k \<or> m = patch_row k (ro_flags out)" using setFlags_rows by blast
  then have "same_reading k n" using m(2) by (auto simp: same_reading_def patch_row_def Let_def split: option.splits)
  then show ?case using k by blast
qed

lemma flag_all_same:
  fixes outs :: "rule_outcome list"
  shows "mb_active (foldl (\<lambda>s out. setFlags env (ro_id out) (ro_flags out) s) s outs) = mb_active s"
   "mb_rules (foldl (\<lambda>s out. setFlags env (ro_id out) (ro_flags out) s) s outs) = mb_rules s"
   "mb_index (foldl (\<lambda>s out. setFlags env (ro_id out) (ro_flags out) s) s outs) = mb_index s"
  by (induction outs arbitrary: s) simp_all

lemma store_same [simp]:
  "mb_active (store_rules env r s) = mb_active s" "mb_rules (store_rules env r s) = mb_rules s"
  "mb_index (store_rules env r s) = mb_index s" "mb_messages (store_rules env r s) = mb_messages s"
  "mb_active (store_labels env l s) = mb_active s" "mb_rules (store_labels env l s) = mb_rules s"
  "mb_index (store_labels env l s) = mb_index s" "mb_messages (store_labels env l s) = mb_messages s"
  by (simp_all add: store_rules_def store_labels_def)

definition settled_inbox :: "mailbox_state \<Rightarrow> bool" where
  "settled_inbox s \<longleftrightarrow> (\<forall>m \<in> set (mb_messages s). Some (ii_account m) = mb_active s \<longrightarrow>
     settled_input (active_rules (rst_rules (mb_rules s))) (mb_index s) (rst_fired (mb_rules s)) (m, is_encrypted_row m))"

lemma settled_run:
  assumes "settled_inbox s" and "set (case mb_active s of None \<Rightarrow> [] | Some a \<Rightarrow> rule_candidates rows s a) \<subseteq> set (mb_messages s)"
  shows "runRules env rows s = s"
proof (cases "mb_active s")
  case (Some a)
  let ?inputs = "map (\<lambda>m. (m, is_encrypted_row m)) (rule_candidates rows s a)"
  have "\<forall>inp \<in> set ?inputs. settled_input (active_rules (rst_rules (mb_rules s))) (mb_index s) (rst_fired (mb_rules s)) inp"
  proof
    fix inp assume "inp \<in> set ?inputs"
    then obtain m where m: "m \<in> set (rule_candidates rows s a)" "inp = (m, is_encrypted_row m)" by auto
    then have "m \<in> set (mb_messages s)" "ii_account m = a" using assms(2) Some by (auto simp: rule_candidates_def)
    then show "settled_input (active_rules (rst_rules (mb_rules s))) (mb_index s) (rst_fired (mb_rules s)) inp"
      using assms(1) Some m(2) unfolding settled_inbox_def by simp
  qed
  then have "fst (applyRules ?inputs (mb_index s) (mb_rules s) L C) = []" for L C
    using settled_pass [of ?inputs] by (simp add: applyRules_def Let_def)
  then show ?thesis by (simp add: runRules_def Some case_prod_beta)
qed (simp add: runRules_def)

lemma run_settles: "settled_inbox (runRules env None s)"
proof (cases "mb_active s")
  case (Some a)
  let ?act = "active_rules (rst_rules (mb_rules s))"
  let ?C = "\<lambda>m :: inbox_item. \<not> providerFiledAsJunk (sm_labels m)" and ?L = "set (obj_keys (ls_labels (mb_labels s)))"
  let ?inputs = "map (\<lambda>m. (m, is_encrypted_row m)) (rule_candidates None s a)"
  obtain outs fired where pass: "applyRules ?inputs (mb_index s) (mb_rules s) ?L ?C = (outs, fired)" by fastforce
  have settled: "settled_input ?act (mb_index s) fired inp" if "inp \<in> set ?inputs" for inp
    using pass_settles [of ?act "mb_index s" ?L ?C "[]" "rst_fired (mb_rules s)" ?inputs outs fired] pass that
    by (auto simp: applyRules_def Let_def settled_input_def split: if_splits)
  have cand: "m \<in> set (rule_candidates None s a) \<longleftrightarrow> m \<in> set (mb_messages s) \<and> ii_account m = a" for m
    by (auto simp: rule_candidates_def)
  show ?thesis
  proof (cases "rst_rules (mb_rules s) = [] \<or> rule_candidates None s a = [] \<or> outs = []")
    case True
    have "settled_input ?act (mb_index s) (rst_fired (mb_rules s)) (m, is_encrypted_row m)"
      if "m \<in> set (mb_messages s)" "ii_account m = a" for m
    proof (cases "rst_rules (mb_rules s) = []")
      case True
      then show ?thesis by (simp add: settled_input_def active_rules_def)
    next
      case False
      have "rule_candidates None s a \<noteq> []" using cand that by force
      then have "outs = []" using True False by simp
      then have "fired = rst_fired (mb_rules s)"
        using pass apply_inputs_no_outcome [of ?act "mb_index s" ?L ?C "[]" "rst_fired (mb_rules s)" ?inputs fired]
        by (auto simp: applyRules_def Let_def split: if_splits)
      then show ?thesis using settled cand that by auto
    qed
    moreover have "runRules env None s = s" using True pass by (auto simp: runRules_def Some)
    ultimately show ?thesis using Some by (simp add: settled_inbox_def)
  next
    case False
    let ?rules = "(mb_rules s)\<lparr>rst_fired := pruneFired fired (sm_id ` set (mb_messages s)) FIRED_CAP\<rparr>"
    let ?flag = "\<lambda>s out. setFlags env (ro_id out) (ro_flags out) s"
    obtain s3 where s3: "runRules env None s = foldl ?flag s3 (filter (\<lambda>out. ro_flags out \<noteq> no_flags) outs)"
      and same: "mb_active s3 = Some a" "mb_rules s3 = ?rules" "mb_index s3 = mb_index s" "mb_messages s3 = mb_messages s"
    proof
      let ?s1 = "if list_ex (\<lambda>out. ro_addLabels out \<noteq> []) outs
        then s\<lparr>mb_rules := ?rules, mb_labels := outcome_labels outs (mb_labels s)\<rparr> else s\<lparr>mb_rules := ?rules\<rparr>"
      let ?s2 = "store_rules env ?rules ?s1"
      let ?s3 = "if list_ex (\<lambda>out. ro_addLabels out \<noteq> []) outs then store_labels env (outcome_labels outs (mb_labels s)) ?s2 else ?s2"
      show "runRules env None s = foldl ?flag ?s3 (filter (\<lambda>out. ro_flags out \<noteq> no_flags) outs)"
        using False pass by (simp add: runRules_def Some Let_def)
      show "mb_active ?s3 = Some a" "mb_rules ?s3 = ?rules" "mb_index ?s3 = mb_index s" "mb_messages ?s3 = mb_messages s"
        using Some by simp_all
    qed
    have "settled_input ?act (mb_index s) (rst_fired ?rules) (n, is_encrypted_row n)"
      if n: "n \<in> set (mb_messages (runRules env None s))" "ii_account n = a" for n
    proof -
      obtain m where m: "m \<in> set (mb_messages s)" "same_reading m n" using flag_all_rows n(1) unfolding s3 same(4) [symmetric] by blast
      then have "settled_input ?act (mb_index s) fired (m, is_encrypted_row m)"
        using settled cand n(2) by (force simp: same_reading_def)
      moreover have "fired_on (rst_fired ?rules) (sm_id n) = fired_on fired (sm_id m)"
      proof -
        have "sm_id n = sm_id m" using m(2) by (simp add: same_reading_def)
        moreover have "sm_id m \<in> sm_id ` set (mb_messages s)" by (rule imageI [OF m(1)])
        ultimately show ?thesis using prune_keeps [of "sm_id m" "sm_id ` set (mb_messages s)" fired FIRED_CAP] by simp
      qed
      ultimately show ?thesis
        using same_reading_matches [OF m(2)] unfolding settled_input_def fst_conv by blast
    qed
    moreover have "mb_active (runRules env None s) = Some a" "mb_rules (runRules env None s) = ?rules" "mb_index (runRules env None s) = mb_index s"
      unfolding s3 flag_all_same same by (rule refl)+
    ultimately show ?thesis by (simp add: settled_inbox_def)
  qed
qed (simp add: settled_inbox_def runRules_def)

text \<open>A run of the service is a pass in the sense of the rules' own laws.\<close>

lemma runRules_is_a_pass:
  assumes "mb_active s = Some account"
  shows "mb_rules (runRules env rows s) =
     snd (rule_pass (set (obj_keys (ls_labels (mb_labels s)))) (map (\<lambda>m. (m, is_encrypted_row m)) (rule_candidates rows s account))
       (mb_index s) (sm_id ` set (mb_messages s)) (mb_rules s))"
proof (cases "rst_rules (mb_rules s) = [] \<or> rule_candidates rows s account = []")
  case True
  then show ?thesis by (auto simp: runRules_def assms rule_pass_def applyRules_def active_rules_def Let_def)
next
  case False
  then show ?thesis by (auto simp: runRules_def assms rule_pass_def Let_def flag_all_same split: prod.split)
qed

text \<open>The rules never fight the user: a pass over the inbox that follows another changes nothing, neither on screen nor at
  the provider, whatever the first one did and although pruning forgets old messages.\<close>

theorem rules_run_settles:
  "runRules env None (runRules env None s) = runRules env None s"
  by (rule settled_run [OF run_settles]) (auto simp: rule_candidates_def split: option.splits)

end
