(* ===== verification/Css_Text.thy ===== *)
theory Css_Text
  imports Complex_Main Js_Text
begin

text \<open>
  Reading CSS text, for the style gate of the HTML reader: words, decimal numbers and how JavaScript rounds and prints
  them. A number is an exact rational; \<open>None\<close> is \<open>NaN\<close>. JavaScript computes in binary floating point, so a result
  can differ from the exact one in the last place of a rounding.
\<close>

definition is_digit :: "char \<Rightarrow> bool" where
  "is_digit c \<longleftrightarrow> 48 \<le> code_unit c \<and> code_unit c \<le> 57"

definition is_lower :: "char \<Rightarrow> bool" where
  "is_lower c \<longleftrightarrow> 97 \<le> code_unit c \<and> code_unit c \<le> 122"

definition is_letter :: "char \<Rightarrow> bool" where
  "is_letter c \<longleftrightarrow> is_lower c \<or> 65 \<le> code_unit c \<and> code_unit c \<le> 90"

text \<open>\<open>s.split(sep).filter(Boolean)\<close> for a separator that is a run of characters of one class.\<close>

function words_by :: "(char \<Rightarrow> bool) \<Rightarrow> string \<Rightarrow> string list" where
  "words_by sep s =
     (case dropWhile sep s of
        [] \<Rightarrow> []
      | c # cs \<Rightarrow> (c # takeWhile (\<lambda>d. \<not> sep d) cs) # words_by sep (dropWhile (\<lambda>d. \<not> sep d) cs))"
  by pat_completeness auto
termination
proof (relation "measure (length \<circ> snd)")
  fix sep :: "char \<Rightarrow> bool" and s c cs
  assume "dropWhile sep s = c # cs"
  then have "length (c # cs) \<le> length s" using length_dropWhile_le [of sep s] by simp
  then show "((sep, dropWhile (\<lambda>d. \<not> sep d) cs), sep, s) \<in> measure (length \<circ> snd)"
    using length_dropWhile_le [of "\<lambda>d. \<not> sep d" cs] by simp
qed simp

declare words_by.simps [simp del]

abbreviation css_words :: "string \<Rightarrow> string list" where
  "css_words \<equiv> words_by js_space"

subsection \<open>Numbers\<close>

definition digit_value :: "char \<Rightarrow> int" where
  "digit_value c = int (code_unit c) - 48"

definition digits_value :: "string \<Rightarrow> int" where
  "digits_value s = foldl (\<lambda>n c. 10 * n + digit_value c) 0 s"

definition numeric :: "char \<Rightarrow> bool" where
  "numeric c \<longleftrightarrow> is_digit c \<or> c = CHR ''.''"

text \<open>The regular expression \<open>[0-9]*\.?[0-9]+\<close>, for a whole text.\<close>

definition number_shape :: "string \<Rightarrow> bool" where
  "number_shape s \<longleftrightarrow>
     (case dropWhile is_digit s of
        [] \<Rightarrow> s \<noteq> []
      | c # r \<Rightarrow> c = CHR ''.'' \<and> r \<noteq> [] \<and> list_all is_digit r)"

definition decimal_value :: "string \<Rightarrow> rat" where
  "decimal_value s =
     (let i = takeWhile is_digit s; f = drop 1 (dropWhile is_digit s)
      in of_int (digits_value i) + of_int (digits_value f) / 10 ^ length f)"

text \<open>\<open>+s\<close> for a text of digits and points, at most one sign in front.\<close>

definition js_number :: "string \<Rightarrow> rat option" where
  "js_number s =
     (let neg = (case s of [] \<Rightarrow> False | c # _ \<Rightarrow> c = CHR ''-''); b = (if neg then tl s else s)
      in if list_all numeric b \<and> list_ex is_digit b \<and> length (filter (\<lambda>c. c = CHR ''.'') b) \<le> 1
         then Some (if neg then - decimal_value b else decimal_value b) else None)"

definition js_round :: "rat \<Rightarrow> int" where
  "js_round x = \<lfloor>x + 1 / 2\<rfloor>"

text \<open>Finite as a double: below the midpoint between the greatest double and the next power of two.\<close>

definition is_finite :: "rat \<Rightarrow> bool" where
  "is_finite x \<longleftrightarrow> \<bar>x\<bar> < 2 ^ 1024 - 2 ^ 970"

fun decimal_digits :: "nat \<Rightarrow> string" where
  "decimal_digits n = (if n < 10 then [char_of (48 + n)] else decimal_digits (n div 10) @ [char_of (48 + n mod 10)])"

declare decimal_digits.simps [simp del]

lemma code_unit_char_of: "n < 256 \<Longrightarrow> code_unit (char_of n) = n"
  by (simp add: code_unit_def)

lemma decimal_digits_are_digits: "list_all is_digit (decimal_digits n)"
proof (induction n rule: decimal_digits.induct)
  case (1 n)
  have digit: "is_digit (char_of (48 + d))" if "d < 10" for d :: nat
    using that by (simp add: is_digit_def code_unit_char_of)
  show ?case
  proof (cases "n < 10")
    case True
    then show ?thesis using digit by (subst decimal_digits.simps) simp
  next
    case False
    then show ?thesis using 1 digit [of "n mod 10"] by (subst decimal_digits.simps) simp
  qed
qed

lemma digits_value_append: "digits_value (s @ [c]) = 10 * digits_value s + digit_value c"
  by (simp add: digits_value_def)

lemma digits_value_decimal: "digits_value (decimal_digits n) = int n"
proof (induction n rule: decimal_digits.induct)
  case (1 n)
  have digit: "digit_value (char_of (48 + d)) = int d" if "d < 10" for d :: nat
    using that by (simp add: digit_value_def code_unit_char_of)
  show ?case
  proof (cases "n < 10")
    case True
    have "digits_value [char_of (48 + n)] = digit_value (char_of (48 + n))" by (simp add: digits_value_def)
    then show ?thesis using True digit by (subst decimal_digits.simps) simp
  next
    case False
    have "10 * int (n div 10) + int (n mod 10) = int n" by presburger
    then show ?thesis using 1 False digit [of "n mod 10"] by (subst decimal_digits.simps) (simp add: digits_value_append)
  qed
qed

lemma decimal_digits_not_Nil: "decimal_digits n \<noteq> []"
  by (subst decimal_digits.simps) simp

text \<open>The text of a number with at most \<open>fuel\<close> decimals, without trailing zeros: what JavaScript prints from a
  millionth up to \<open>10\<^sup>2\<^sup>1\<close> when the number has at most fifteen significant digits.\<close>

fun fraction_digits :: "nat \<Rightarrow> rat \<Rightarrow> string" where
  "fraction_digits 0 f = []"
| "fraction_digits (Suc k) f = (if f = 0 then [] else char_of (nat (48 + \<lfloor>f * 10\<rfloor>)) # fraction_digits k (f * 10 - of_int \<lfloor>f * 10\<rfloor>))"

definition number_text :: "rat \<Rightarrow> string" where
  "number_text x =
     (let i = \<lfloor>\<bar>x\<bar>\<rfloor>; f = fraction_digits 20 (\<bar>x\<bar> - of_int i)
      in (if x < 0 then ''-'' else []) @ decimal_digits (nat i) @ (if f = [] then [] else CHR ''.'' # f))"

text \<open>\<open>`${Math.round(x * 100) / 100}px`\<close>\<close>

definition px_text :: "rat \<Rightarrow> string" where
  "px_text x = number_text (of_int (js_round (x * 100)) / 100) @ ''px''"

end
