(* ===== verification/Css_Colors.thy ===== *)
theory Css_Colors
  imports Css_Text
begin

text \<open>
  Colours of a message and their adaptation to a dark reader (\<^verbatim>\<open>html/colors.ts\<close>). A channel is \<open>NaN\<close> when the text
  of a number has two points.
\<close>

type_synonym num = "rat option"

type_synonym rgb = "num \<times> num \<times> num"

definition KEYWORDS :: "(string \<times> string) list" where
  "KEYWORDS =
    [(''white'', ''#ffffff''), (''ivory'', ''#fffff0''), (''snow'', ''#fffafa''), (''floralwhite'', ''#fffaf0''),
     (''ghostwhite'', ''#f8f8ff''), (''mintcream'', ''#f5fffa''), (''azure'', ''#f0ffff''), (''aliceblue'', ''#f0f8ff''),
     (''seashell'', ''#fff5ee''), (''oldlace'', ''#fdf5e6''), (''linen'', ''#faf0e6''), (''cornsilk'', ''#fff8dc''),
     (''honeydew'', ''#f0fff0''), (''lavender'', ''#e6e6fa''), (''beige'', ''#f5f5dc''), (''whitesmoke'', ''#f5f5f5''),
     (''gainsboro'', ''#dcdcdc''), (''lightgray'', ''#d3d3d3''), (''lightgrey'', ''#d3d3d3''), (''silver'', ''#c0c0c0''),
     (''darkgray'', ''#a9a9a9''), (''darkgrey'', ''#a9a9a9''), (''gray'', ''#808080''), (''grey'', ''#808080''),
     (''dimgray'', ''#696969''), (''dimgrey'', ''#696969''), (''black'', ''#000000'')]"

definition COLOR_NAMES :: "string list" where
  "COLOR_NAMES =
    [''aliceblue'', ''antiquewhite'', ''aqua'', ''aquamarine'', ''azure'', ''beige'', ''bisque'',
     ''black'', ''blanchedalmond'', ''blue'', ''blueviolet'', ''brown'', ''burlywood'', ''cadetblue'',
     ''chartreuse'', ''chocolate'', ''coral'', ''cornflowerblue'', ''cornsilk'', ''crimson'', ''cyan'',
     ''darkblue'', ''darkcyan'', ''darkgoldenrod'', ''darkgray'', ''darkgreen'', ''darkgrey'', ''darkkhaki'',
     ''darkmagenta'', ''darkolivegreen'', ''darkorange'', ''darkorchid'', ''darkred'', ''darksalmon'', ''darkseagreen'',
     ''darkslateblue'', ''darkslategray'', ''darkslategrey'', ''darkturquoise'', ''darkviolet'', ''deeppink'', ''deepskyblue'',
     ''dimgray'', ''dimgrey'', ''dodgerblue'', ''firebrick'', ''floralwhite'', ''forestgreen'', ''fuchsia'',
     ''gainsboro'', ''ghostwhite'', ''gold'', ''goldenrod'', ''gray'', ''green'', ''greenyellow'',
     ''grey'', ''honeydew'', ''hotpink'', ''indianred'', ''indigo'', ''ivory'', ''khaki'',
     ''lavender'', ''lavenderblush'', ''lawngreen'', ''lemonchiffon'', ''lightblue'', ''lightcoral'', ''lightcyan'',
     ''lightgoldenrodyellow'', ''lightgray'', ''lightgreen'', ''lightgrey'', ''lightpink'', ''lightsalmon'', ''lightseagreen'',
     ''lightskyblue'', ''lightslategray'', ''lightslategrey'', ''lightsteelblue'', ''lightyellow'', ''lime'', ''limegreen'',
     ''linen'', ''magenta'', ''maroon'', ''mediumaquamarine'', ''mediumblue'', ''mediumorchid'', ''mediumpurple'',
     ''mediumseagreen'', ''mediumslateblue'', ''mediumspringgreen'', ''mediumturquoise'', ''mediumvioletred'', ''midnightblue'', ''mintcream'',
     ''mistyrose'', ''moccasin'', ''navajowhite'', ''navy'', ''oldlace'', ''olive'', ''olivedrab'',
     ''orange'', ''orangered'', ''orchid'', ''palegoldenrod'', ''palegreen'', ''paleturquoise'', ''palevioletred'',
     ''papayawhip'', ''peachpuff'', ''peru'', ''pink'', ''plum'', ''powderblue'', ''purple'',
     ''rebeccapurple'', ''red'', ''rosybrown'', ''royalblue'', ''saddlebrown'', ''salmon'', ''sandybrown'',
     ''seagreen'', ''seashell'', ''sienna'', ''silver'', ''skyblue'', ''slateblue'', ''slategray'',
     ''slategrey'', ''snow'', ''springgreen'', ''steelblue'', ''tan'', ''teal'', ''thistle'',
     ''tomato'', ''turquoise'', ''violet'', ''wheat'', ''white'', ''whitesmoke'', ''yellow'',
     ''yellowgreen'']"

definition hex_char :: "char \<Rightarrow> bool" where
  "hex_char c \<longleftrightarrow> is_digit c \<or> 97 \<le> code_unit c \<and> code_unit c \<le> 102"

definition hex_value :: "char \<Rightarrow> int" where
  "hex_value c = (if is_digit c then digit_value c else int (code_unit c) - 87)"

definition hex_byte :: "char \<Rightarrow> char \<Rightarrow> num" where
  "hex_byte a b = Some (of_int (16 * hex_value a + hex_value b))"

definition drop_prefix :: "string \<Rightarrow> string \<Rightarrow> string option" where
  "drop_prefix p s = (if take (length p) s = p then Some (drop (length p) s) else None)"

text \<open>One number of a colour function: a run of characters, and what follows it, if there is any.\<close>

definition run_of :: "(char \<Rightarrow> bool) \<Rightarrow> string \<Rightarrow> (string \<times> string) option" where
  "run_of P s = (if takeWhile P s = [] then None else Some (takeWhile P s, dropWhile P s))"

definition separator :: "char \<Rightarrow> bool" where
  "separator c \<longleftrightarrow> js_space c \<or> c = CHR '',''"

text \<open>\<open>/^rgba?\(\s*([0-9.]+)[\s,]+([0-9.]+)[\s,]+([0-9.]+)/\<close>: anchored at the start only.\<close>

definition rgb_function :: "string \<Rightarrow> (string \<times> string \<times> string) option" where
  "rgb_function v =
     Option.bind (case drop_prefix ''rgb('' v of Some r \<Rightarrow> Some r | None \<Rightarrow> drop_prefix ''rgba('' v) (\<lambda>r.
     Option.bind (run_of numeric (dropWhile js_space r)) (\<lambda>(a, r).
     Option.bind (run_of separator r) (\<lambda>(_, r).
     Option.bind (run_of numeric r) (\<lambda>(b, r).
     Option.bind (run_of separator r) (\<lambda>(_, r).
     Option.bind (run_of numeric r) (\<lambda>(c, r). Some (a, b, c)))))))"

text \<open>\<open>/^hsla?\(\s*([0-9.-]+)(?:deg)?[\s,]+([0-9.]+)%[\s,]+([0-9.]+)%/\<close>\<close>

definition hsl_function :: "string \<Rightarrow> (string \<times> string \<times> string) option" where
  "hsl_function v =
     Option.bind (case drop_prefix ''hsl('' v of Some r \<Rightarrow> Some r | None \<Rightarrow> drop_prefix ''hsla('' v) (\<lambda>r.
     Option.bind (run_of (\<lambda>c. numeric c \<or> c = CHR ''-'') (dropWhile js_space r)) (\<lambda>(a, r).
     Option.bind (run_of separator (case drop_prefix ''deg'' r of Some q \<Rightarrow> q | None \<Rightarrow> r)) (\<lambda>(_, r).
     Option.bind (run_of numeric r) (\<lambda>(b, r).
     Option.bind (drop_prefix ''%'' r) (\<lambda>r.
     Option.bind (run_of separator r) (\<lambda>(_, r).
     Option.bind (run_of numeric r) (\<lambda>(c, r).
     Option.bind (drop_prefix ''%'' r) (\<lambda>r. Some (a, b, c)))))))))"

definition lift2 :: "(rat \<Rightarrow> rat \<Rightarrow> 'a) \<Rightarrow> num \<Rightarrow> num \<Rightarrow> 'a option" where
  "lift2 f x y = Option.bind x (\<lambda>a. Option.bind y (\<lambda>b. Some (f a b)))"

definition hsl_channel :: "rat \<Rightarrow> rat \<Rightarrow> rat \<Rightarrow> rat" where
  "hsl_channel p q t =
     (let x = (if t < 0 then t + 1 else t); x = (if 1 < x then x - 1 else x)
      in if x < 1 / 6 then p + (q - p) * 6 * x
         else if x < 1 / 2 then q
         else if x < 2 / 3 then p + (q - p) * (2 / 3 - x) * 6 else p)"

definition fromHsl :: "num \<Rightarrow> num \<Rightarrow> num \<Rightarrow> rgb" where
  "fromHsl hue sat lig =
     (if sat = Some 0 then (let c = map_option (\<lambda>l. l * 255) lig in (c, c, c))
      else case (hue, sat, lig) of
        (Some hue, Some s, Some l) \<Rightarrow>
          (let h = (hue - 360 * of_int \<lfloor>hue / 360\<rfloor>) / 360;
               q = (if l < 1 / 2 then l * (1 + s) else l + s - l * s); p = 2 * l - q;
               ch = (\<lambda>t. Some (of_int (js_round (hsl_channel p q t * 255))))
           in (ch (h + 1 / 3), ch h, ch (h - 1 / 3)))
      | (None, Some s, Some l) \<Rightarrow>
          (let q = (if l < 1 / 2 then l * (1 + s) else l + s - l * s); p = 2 * l - q;
               c = Some (of_int (js_round (p * 255)))
           in (c, c, c))
      | _ \<Rightarrow> (None, None, None))"

definition parseColor :: "string \<Rightarrow> rgb option" where
  "parseColor input =
     (let named = js_lower (js_trim input);
          value = (case map_of KEYWORDS named of Some h \<Rightarrow> h | None \<Rightarrow> named)
      in case value of
           c # d \<Rightarrow>
             (if c = CHR ''#'' \<and> 3 \<le> length d \<and> length d \<le> 8 \<and> list_all hex_char d
              then (if length d = 3 \<or> length d = 4
                    then Some (hex_byte (d ! 0) (d ! 0), hex_byte (d ! 1) (d ! 1), hex_byte (d ! 2) (d ! 2))
                    else if length d = 6 \<or> length d = 8
                    then Some (hex_byte (d ! 0) (d ! 1), hex_byte (d ! 2) (d ! 3), hex_byte (d ! 4) (d ! 5))
                    else None)
              else (case rgb_function value of
                      Some (r, g, b) \<Rightarrow>
                        (let ch = (\<lambda>t. map_option (\<lambda>x. of_int (js_round x)) (js_number t)) in Some (ch r, ch g, ch b))
                    | None \<Rightarrow>
                        (case hsl_function value of
                           Some (h, s, l) \<Rightarrow>
                             Some (fromHsl (js_number h) (map_option (\<lambda>x. x / 100) (js_number s)) (map_option (\<lambda>x. x / 100) (js_number l)))
                         | None \<Rightarrow> None)))
         | [] \<Rightarrow> None)"

subsection \<open>Adapting\<close>

definition hex2 :: "int \<Rightarrow> string" where
  "hex2 n = [''0123456789abcdef'' ! nat (n div 16), ''0123456789abcdef'' ! nat (n mod 16)]"

definition hex_channel :: "num \<Rightarrow> string" where
  "hex_channel n = (case n of None \<Rightarrow> ''NaN'' | Some x \<Rightarrow> hex2 (max 0 (min 255 (js_round x))))"

definition colorHex :: "rgb \<Rightarrow> string" where
  "colorHex = (\<lambda>(r, g, b). ''#'' @ hex_channel r @ hex_channel g @ hex_channel b)"

definition lightness :: "rgb \<Rightarrow> num" where
  "lightness = (\<lambda>(r, g, b).
     Option.bind r (\<lambda>r. Option.bind g (\<lambda>g. Option.bind b (\<lambda>b. Some ((299 / 1000 * r + 587 / 1000 * g + 114 / 1000 * b) / 255)))))"

definition saturation :: "rgb \<Rightarrow> num" where
  "saturation = (\<lambda>(r, g, b).
     Option.bind r (\<lambda>r. Option.bind g (\<lambda>g. Option.bind b (\<lambda>b.
       let hi = max r (max g b); lo = min r (min g b) in Some (if hi = 0 then 0 else (hi - lo) / hi)))))"

definition NEUTRAL_LIMIT :: rat where
  "NEUTRAL_LIMIT = 18 / 100"

text \<open>Comparisons with \<open>NaN\<close> are false.\<close>

definition above :: "num \<Rightarrow> rat \<Rightarrow> bool" where
  "above x y \<longleftrightarrow> (case x of None \<Rightarrow> False | Some a \<Rightarrow> y < a)"

definition below :: "num \<Rightarrow> rat \<Rightarrow> bool" where
  "below x y \<longleftrightarrow> (case x of None \<Rightarrow> False | Some a \<Rightarrow> a < y)"

text \<open>\<open>withLightness\<close> of white, whose own lightness is one.\<close>

definition white_at :: "num \<Rightarrow> rgb" where
  "white_at target = (let c = map_option (\<lambda>t. 255 * t) target in (c, c, c))"

definition adaptBackground :: "string \<Rightarrow> string option" where
  "adaptBackground value =
     (case parseColor value of
        None \<Rightarrow> None
      | Some c \<Rightarrow>
          if above (saturation c) NEUTRAL_LIMIT then None
          else if below (lightness c) (1 / 2) then None
          else Some (colorHex (white_at (map_option (\<lambda>l. max (4 / 100) (16 / 100 - (l - 1 / 2) * (21 / 100))) (lightness c)))))"

definition adaptForeground :: "string \<Rightarrow> string option" where
  "adaptForeground value =
     (case parseColor value of
        None \<Rightarrow> None
      | Some c \<Rightarrow>
          if above (saturation c) NEUTRAL_LIMIT then None
          else if above (lightness c) (72 / 100) then None
          else Some (colorHex (white_at (map_option (\<lambda>l. max (62 / 100) (1 - l)) (lightness c)))))"

definition adaptBorder :: "string \<Rightarrow> string option" where
  "adaptBorder value =
     (case parseColor value of
        None \<Rightarrow> None
      | Some c \<Rightarrow>
          if above (saturation c) NEUTRAL_LIMIT then None
          else if below (lightness c) (1 / 2) then None
          else Some (colorHex (white_at (Some (22 / 100)))))"

end
