(* ===== verification/Css_Values.thy ===== *)
theory Css_Values
  imports Css_Colors
begin

text \<open>
  CSS values, read into what the renderer consumes (\<^verbatim>\<open>html/values.ts\<close>). A reader returns a value, or whole
  declarations when the translation changes the property, or nothing to drop the declaration.
\<close>

record font_faces =
  ff_regular :: string
  ff_medium :: string
  ff_semibold :: string
  ff_bold :: string

record value_context =
  vc_dark :: bool
  vc_faces :: "font_faces option"
  vc_fontSize :: "rat option"

datatype read_value = Value string | Emits "(string \<times> string) list"

type_synonym reader = "string \<Rightarrow> value_context \<Rightarrow> read_value option"

definition UNITS :: "string list" where
  "UNITS = [''px'', ''pt'', ''pc'', ''in'', ''cm'', ''mm'', ''em'', ''rem'', ''ex'']"

definition read_keyword :: "string list \<Rightarrow> reader" where
  "read_keyword allowed raw ctx =
     (let value = js_lower (js_trim raw) in if value \<in> set allowed then Some (Value value) else None)"

datatype sign = AnySign | NonNegative | Positive

text \<open>\<open>^-?(?:[0-9]*\.?[0-9]+)(unit)?$\<close>: sign, number, unit.\<close>

definition split_length :: "string \<Rightarrow> bool \<times> string \<times> string" where
  "split_length value =
     (let neg = (case value of [] \<Rightarrow> False | c # _ \<Rightarrow> c = CHR ''-''); body = (if neg then tl value else value)
      in (neg, takeWhile numeric body, dropWhile numeric body))"

definition length_text :: "bool \<Rightarrow> sign \<Rightarrow> string \<Rightarrow> string option" where
  "length_text percent sign raw =
     (let value = js_lower (js_trim raw)
      in case split_length value of
           (neg, num, u) \<Rightarrow>
             if \<not> number_shape num \<or> \<not> (u = [] \<or> u \<in> set UNITS \<or> percent \<and> u = ''%'') then None
             else let magnitude = (if neg then - decimal_value num else decimal_value num)
                  in if \<not> is_finite magnitude then None
                     else if u = [] \<and> magnitude \<noteq> 0 then None
                     else if sign = Positive \<and> magnitude \<le> 0 then None
                     else if sign = NonNegative \<and> magnitude < 0 then None
                     else Some value)"

definition read_length :: "bool \<Rightarrow> sign \<Rightarrow> reader" where
  "read_length percent sign raw ctx = map_option Value (length_text percent sign raw)"

definition SIDES :: "string list" where
  "SIDES = [''top'', ''right'', ''bottom'', ''left'']"

definition EXPANSION :: "nat \<Rightarrow> nat list option" where
  "EXPANSION n =
     (if n = 1 then Some [0, 0, 0, 0] else if n = 2 then Some [0, 1, 0, 1] else if n = 3 then Some [0, 1, 2, 1]
      else if n = 4 then Some [0, 1, 2, 3] else None)"

definition read_lengths :: "bool \<Rightarrow> sign \<Rightarrow> string option \<Rightarrow> reader" where
  "read_lengths percent sign property raw ctx =
     (let parts = css_words (js_trim raw)
      in case EXPANSION (length parts) of
           None \<Rightarrow> None
         | Some expansion \<Rightarrow>
             let read = map (length_text percent sign) parts
             in if list_all (\<lambda>p. p \<noteq> None) read then Some (Value (js_join '' '' (map the read)))
                else (case property of
                        None \<Rightarrow> None
                      | Some name \<Rightarrow>
                          let out = concat (map (\<lambda>(component, side). case read ! component of
                                                    Some value \<Rightarrow> [(name @ ''-'' @ side, value)] | None \<Rightarrow> []) (zip expansion SIDES))
                          in if out = [] then None else Some (Emits out)))"

datatype color_role = Foreground | Background | Border

definition adapt_for :: "color_role \<Rightarrow> string \<Rightarrow> string option" where
  "adapt_for role = (case role of Foreground \<Rightarrow> adaptForeground | Background \<Rightarrow> adaptBackground | Border \<Rightarrow> adaptBorder)"

definition color_text :: "color_role \<Rightarrow> string \<Rightarrow> value_context \<Rightarrow> string option" where
  "color_text role raw ctx =
     (let value = js_trim raw
      in if ascii_lower value = ''transparent'' then Some ''transparent''
         else if parseColor value = None
         then (if js_lower value \<in> set COLOR_NAMES then Some (js_lower value) else None)
         else Some (case (if vc_dark ctx then adapt_for role value else None) of Some t \<Rightarrow> t | None \<Rightarrow> value))"

definition read_color :: "color_role \<Rightarrow> reader" where
  "read_color role raw ctx = map_option Value (color_text role raw ctx)"

definition family_char :: "char \<Rightarrow> bool" where
  "family_char c \<longleftrightarrow> is_letter c \<or> is_digit c \<or> c \<in> set ''_- ,.'' \<or> code_unit c \<in> {34, 39}"

definition fontFamily :: reader where
  "fontFamily raw ctx =
     (let value = js_trim raw in if value \<noteq> [] \<and> list_all family_char value then Some (Value value) else None)"

definition WEIGHTS :: "string list" where
  "WEIGHTS = [''100'', ''200'', ''300'', ''400'', ''500'', ''600'', ''700'', ''800'', ''900'']"

definition fontWeight :: reader where
  "fontWeight raw ctx =
     (let value = js_lower (js_trim raw)
      in if value \<notin> set [''normal'', ''bold'', ''bolder'', ''lighter''] \<and> value \<notin> set WEIGHTS then None
         else case vc_faces ctx of
           None \<Rightarrow> Some (Emits [(''font-weight'', value)])
         | Some f \<Rightarrow>
             let face = (if value = ''bold'' \<or> value = ''bolder'' then ff_bold f
                         else if value = ''normal'' \<or> value = ''lighter'' then ff_regular f
                         else if 700 \<le> digits_value value then ff_bold f
                         else if 600 \<le> digits_value value then ff_semibold f
                         else if 500 \<le> digits_value value then ff_medium f else ff_regular f)
             in Some (Emits [(''font-family'', face)]))"

definition PX_PER_UNIT :: "string \<Rightarrow> rat" where
  "PX_PER_UNIT u =
     (if u = ''px'' then 1 else if u = ''pt'' then 4 / 3 else if u = ''pc'' then 16 else if u = ''in'' then 96
      else if u = ''cm'' then 9600 / 254 else if u = ''mm'' then 960 / 254 else if u = ''em'' then 16
      else if u = ''rem'' then 16 else if u = ''ex'' then 1008 / 100 else 0)"

definition fontSizePx :: "string \<Rightarrow> rat option" where
  "fontSizePx raw =
     (let value = js_lower (js_trim raw); num = takeWhile numeric value; u = dropWhile numeric value
      in if number_shape num \<and> u \<in> set UNITS
         then (let px = decimal_value num * PX_PER_UNIT u in if is_finite px \<and> 0 < px then Some px else None)
         else None)"

definition ratioLineHeight :: "rat \<Rightarrow> value_context \<Rightarrow> string option" where
  "ratioLineHeight ratio ctx =
     (if \<not> 0 < ratio then None
      else case vc_fontSize ctx of
        None \<Rightarrow> Some (number_text ratio @ ''em'')
      | Some px \<Rightarrow> Some (if px = 0 then number_text ratio @ ''em'' else px_text (ratio * px)))"

definition lineHeight :: reader where
  "lineHeight raw ctx =
     (let value = js_lower (js_trim raw)
      in map_option Value
        (if value = ''normal'' then None
         else if number_shape value then ratioLineHeight (decimal_value value) ctx
         else if value \<noteq> [] \<and> last value = CHR ''%'' \<and> number_shape (butlast value)
         then ratioLineHeight (decimal_value (butlast value) / 100) ctx
         else length_text False Positive value))"

definition BORDER_STYLES :: "string list" where
  "BORDER_STYLES =
     [''none'', ''hidden'', ''solid'', ''dashed'', ''dotted'', ''double'', ''ridge'', ''groove'', ''inset'', ''outset'']"

text \<open>One component of a \<open>border\<close>: what was seen so far (width, style, colour), and what is emitted.\<close>

fun border_parts :: "value_context \<Rightarrow> bool \<Rightarrow> bool \<Rightarrow> bool \<Rightarrow> string list \<Rightarrow> string list option" where
  "border_parts ctx w s c [] = Some []"
| "border_parts ctx w s c (p # ps) =
     (if \<not> w \<and> length_text False NonNegative p \<noteq> None
      then map_option (Cons (js_lower p)) (border_parts ctx True s c ps)
      else if \<not> s \<and> js_lower (js_trim p) \<in> set BORDER_STYLES
      then map_option (Cons (js_lower p)) (border_parts ctx w True c ps)
      else if \<not> c
      then (case color_text Border p ctx of
              Some t \<Rightarrow> map_option (Cons t) (border_parts ctx w s True ps) | None \<Rightarrow> None)
      else None)"

definition read_border :: reader where
  "read_border raw ctx =
     (let parts = css_words (js_trim raw)
      in if parts = [] \<or> 3 < length parts then None
         else (case border_parts ctx False False False parts of
                 None \<Rightarrow> None
               | Some out \<Rightarrow> if out = [] then None else Some (Value (js_join '' '' out))))"

end
