(* ===== verification/Css_Properties.thy ===== *)
theory Css_Properties
  imports Css_Values
begin

text \<open>
  The style gate of the HTML reader (\<^verbatim>\<open>html/properties.ts\<close>): every property it understands, how each is read, and
  the reading of a whole \<open>style\<close> attribute. The tally of dropped declarations, a development aid, is left out.
\<close>

definition value_of :: "read_value option \<Rightarrow> string option" where
  "value_of r = (case r of Some (Value v) \<Rightarrow> Some v | _ \<Rightarrow> None)"

text \<open>\<open>/#[0-9a-fA-F]{3,8}|rgba?\([^)]*\)|hsla?\([^)]*\)/.exec(raw)\<close> at the start of a text, then anywhere.\<close>

definition call_match :: "string \<Rightarrow> string \<Rightarrow> string option" where
  "call_match name s =
     Option.bind (drop_prefix (name @ ''('') s) (\<lambda>r.
       case dropWhile (\<lambda>c. c \<noteq> CHR '')'') r of
         [] \<Rightarrow> None | _ # _ \<Rightarrow> Some (name @ ''('' @ takeWhile (\<lambda>c. c \<noteq> CHR '')'') r @ '')''))"

definition color_match :: "string \<Rightarrow> string option" where
  "color_match s =
     (case s of
        [] \<Rightarrow> None
      | c # r \<Rightarrow>
          (if c = CHR ''#'' \<and> 3 \<le> length (takeWhile (hex_char \<circ> ascii_lower_char) r)
           then Some (c # take 8 (takeWhile (hex_char \<circ> ascii_lower_char) r))
           else (case call_match ''rgba'' s of Some t \<Rightarrow> Some t | None \<Rightarrow>
                (case call_match ''rgb'' s of Some t \<Rightarrow> Some t | None \<Rightarrow>
                (case call_match ''hsla'' s of Some t \<Rightarrow> Some t | None \<Rightarrow> call_match ''hsl'' s)))))"

fun first_color :: "string \<Rightarrow> string option" where
  "first_color [] = None"
| "first_color (c # cs) = (case color_match (c # cs) of Some t \<Rightarrow> Some t | None \<Rightarrow> first_color cs)"

definition firstWord :: "string \<Rightarrow> string option" where
  "firstWord raw =
     find (\<lambda>w. list_all is_lower w \<and> w \<noteq> ''none'' \<and> w \<noteq> ''repeat'')
       (words_by (\<lambda>c. js_space c \<or> c \<in> set '',()'') (js_lower raw))"

definition backgroundShorthand :: reader where
  "backgroundShorthand raw ctx =
     (case (case first_color raw of Some t \<Rightarrow> Some t | None \<Rightarrow> firstWord raw) of
        None \<Rightarrow> None
      | Some candidate \<Rightarrow> map_option Value (value_of (read_color Background candidate ctx)))"

definition widthValue :: reader where
  "widthValue raw ctx =
     (case read_length True NonNegative raw ctx of
        Some (Value v) \<Rightarrow> Some (if v \<noteq> [] \<and> last v = CHR ''%'' then Value v else Emits [(''max-width'', v)])
      | _ \<Rightarrow> None)"

definition autoOr :: "reader \<Rightarrow> reader" where
  "autoOr read raw ctx = (if js_lower (js_trim raw) = ''auto'' then Some (Value ''auto'') else read raw ctx)"

definition obliqueAsItalic :: reader where
  "obliqueAsItalic raw ctx =
     (case value_of (read_keyword [''normal'', ''italic'', ''oblique''] raw ctx) of
        None \<Rightarrow> None | Some v \<Rightarrow> Some (Value (if v = ''oblique'' then ''italic'' else v)))"

definition textAlignValue :: reader where
  "textAlignValue raw ctx =
     (case value_of (read_keyword [''left'', ''right'', ''center'', ''justify'', ''start'', ''end''] raw ctx) of
        None \<Rightarrow> None
      | Some v \<Rightarrow> Some (Value (if v = ''start'' then ''auto'' else if v = ''end'' then ''right'' else v)))"

definition displayValue :: reader where
  "displayValue raw ctx =
     (case value_of (read_keyword [''none'', ''block'', ''inline'', ''inline-block'', ''flex''] raw ctx) of
        None \<Rightarrow> None | Some v \<Rightarrow> Some (Value (if v = ''inline-block'' then ''block'' else v)))"

abbreviation px :: reader where "px \<equiv> read_length False AnySign"
abbreviation pxOrPercent :: reader where "pxOrPercent \<equiv> read_length True AnySign"
abbreviation positivePx :: reader where "positivePx \<equiv> read_length False Positive"
abbreviation sizePx :: reader where "sizePx \<equiv> read_length False NonNegative"
abbreviation sizePxOrPercent :: reader where "sizePxOrPercent \<equiv> read_length True NonNegative"

text \<open>The table: a property, how it is read, and the name it is emitted under when that is another.\<close>

definition PROPERTIES :: "(string \<times> reader \<times> string option) list" where
  "PROPERTIES =
    [(''color'', read_color Foreground, None),
     (''font-family'', fontFamily, None),
     (''font-size'', positivePx, None),
     (''font-style'', obliqueAsItalic, None),
     (''font-weight'', fontWeight, None),
     (''line-height'', lineHeight, None),
     (''letter-spacing'', px, None),
     (''text-align'', textAlignValue, None),
     (''text-decoration'', read_keyword [''none'', ''underline'', ''line-through''], None),
     (''text-transform'', read_keyword [''none'', ''uppercase'', ''lowercase'', ''capitalize''], None),
     (''display'', displayValue, None),
     (''width'', widthValue, None),
     (''max-width'', sizePxOrPercent, None),
     (''height'', autoOr sizePx, None),
     (''max-height'', sizePx, None),
     (''min-width'', sizePxOrPercent, None),
     (''min-height'', sizePx, None),
     (''margin'', read_lengths True AnySign (Some ''margin''), None),
     (''margin-top'', pxOrPercent, None),
     (''margin-right'', pxOrPercent, None),
     (''margin-bottom'', pxOrPercent, None),
     (''margin-left'', pxOrPercent, None),
     (''padding'', read_lengths True NonNegative (Some ''padding''), None),
     (''padding-top'', sizePxOrPercent, None),
     (''padding-right'', sizePxOrPercent, None),
     (''padding-bottom'', sizePxOrPercent, None),
     (''padding-left'', sizePxOrPercent, None),
     (''border'', read_border, None),
     (''border-top'', read_border, None),
     (''border-right'', read_border, None),
     (''border-bottom'', read_border, None),
     (''border-left'', read_border, None),
     (''border-color'', read_color Border, None),
     (''border-top-color'', read_color Border, None),
     (''border-right-color'', read_color Border, None),
     (''border-bottom-color'', read_color Border, None),
     (''border-left-color'', read_color Border, None),
     (''border-width'', sizePx, None),
     (''border-top-width'', sizePx, None),
     (''border-right-width'', sizePx, None),
     (''border-bottom-width'', sizePx, None),
     (''border-left-width'', sizePx, None),
     (''border-style'', read_keyword BORDER_STYLES, None),
     (''border-top-style'', read_keyword BORDER_STYLES, None),
     (''border-right-style'', read_keyword BORDER_STYLES, None),
     (''border-bottom-style'', read_keyword BORDER_STYLES, None),
     (''border-left-style'', read_keyword BORDER_STYLES, None),
     (''border-radius'', sizePx, None),
     (''border-top-left-radius'', sizePx, None),
     (''border-top-right-radius'', sizePx, None),
     (''border-bottom-left-radius'', sizePx, None),
     (''border-bottom-right-radius'', sizePx, None),
     (''background-color'', read_color Background, None),
     (''background'', backgroundShorthand, Some ''background-color'')]"

text \<open>\<open>PROPERTIES[property]\<close>, like any property read of an object literal, looks among the object's own entries, and then among
  those every object inherits from \<open>Object.prototype\<close>. These are the names the language puts there; the value of none of them
  has a member \<open>read\<close>.\<close>

definition OBJECT_PROTOTYPE :: "string list" where
  "OBJECT_PROTOTYPE =
     [''constructor'', ''__proto__'', ''toString'', ''toLocaleString'', ''valueOf'', ''hasOwnProperty'', ''isPrototypeOf'',
      ''propertyIsEnumerable'', ''__defineGetter__'', ''__defineSetter__'', ''__lookupGetter__'', ''__lookupSetter__'']"

datatype 'a member = Own 'a | Inherited | Undefined

definition property_of :: "(string \<times> 'a) list \<Rightarrow> string \<Rightarrow> 'a member" where
  "property_of entries name =
     (case map_of entries name of
        Some x \<Rightarrow> Own x
      | None \<Rightarrow> if name \<in> set OBJECT_PROTOTYPE then Inherited else Undefined)"

subsection \<open>Declarations\<close>

text \<open>\<open>replace(/!\s*important/gi, '')\<close>\<close>

function (sequential) strip_important :: "string \<Rightarrow> string" where
  "strip_important [] = []"
| "strip_important (c # cs) =
     (if c = CHR ''!'' \<and> ascii_lower (take 9 (dropWhile js_space cs)) = ''important''
      then strip_important (drop 9 (dropWhile js_space cs)) else c # strip_important cs)"
  by pat_completeness auto
termination
proof (relation "measure length")
  fix c :: char and cs
  have "length (drop 9 (dropWhile js_space cs)) \<le> length cs"
    using length_dropWhile_le [of js_space cs] by simp
  then show "(drop 9 (dropWhile js_space cs), c # cs) \<in> measure length" by simp
qed auto

text \<open>A declaration as the three loops read it: the property, and its raw value.\<close>

definition split_declaration :: "string \<Rightarrow> (string \<times> string) option" where
  "split_declaration d =
     (case dropWhile (\<lambda>c. c \<noteq> CHR '':'') d of
        [] \<Rightarrow> None
      | _ # r \<Rightarrow> Some (js_lower (js_trim (takeWhile (\<lambda>c. c \<noteq> CHR '':'') d)), js_trim (strip_important r)))"

definition style_declarations :: "string \<Rightarrow> (string \<times> string) list" where
  "style_declarations style = List.map_filter split_declaration (js_split (CHR '';'') style)"

subsection \<open>The size of the box\<close>

text \<open>\<open>Number.parseFloat\<close> on digits and points reads the longest number in front.\<close>

definition parse_float :: "string \<Rightarrow> num" where
  "parse_float s =
     (let i = takeWhile is_digit s; r = dropWhile is_digit s;
          f = (case r of [] \<Rightarrow> [] | c # t \<Rightarrow> if c = CHR ''.'' then takeWhile is_digit t else [])
      in if i = [] \<and> f = [] then None else Some (decimal_value (i @ CHR ''.'' # f)))"

text \<open>\<open>/^([0-9.]+)px$/\<close>\<close>

definition px_value :: "string \<Rightarrow> string option" where
  "px_value s =
     (let n = takeWhile numeric s in if n \<noteq> [] \<and> dropWhile numeric s = ''px'' then Some n else None)"

definition pixels :: "string \<Rightarrow> num" where
  "pixels raw = (case px_value (js_lower (js_trim raw)) of Some n \<Rightarrow> parse_float n | None \<Rightarrow> Some 0)"

text \<open>The four sides, in the order top, right, bottom, left.\<close>

definition pad_step :: "num list \<Rightarrow> string \<times> string \<Rightarrow> num list" where
  "pad_step sides = (\<lambda>(p, raw).
     if p = ''padding'' then (let parts = map pixels (css_words raw) in
       case EXPANSION (length parts) of None \<Rightarrow> sides | Some expansion \<Rightarrow> map (\<lambda>i. parts ! i) expansion)
     else if p = ''padding-top'' then sides[0 := pixels raw]
     else if p = ''padding-right'' then sides[1 := pixels raw]
     else if p = ''padding-bottom'' then sides[2 := pixels raw]
     else if p = ''padding-left'' then sides[3 := pixels raw] else sides)"

text \<open>\<open>/box-sizing\s*:\s*border-box/i\<close> somewhere in the style.\<close>

definition border_box_here :: "string \<Rightarrow> bool" where
  "border_box_here s \<longleftrightarrow>
     (case drop_prefix ''box-sizing'' (ascii_lower s) of
        None \<Rightarrow> False
      | Some r \<Rightarrow> (case drop_prefix '':'' (dropWhile js_space r) of
            None \<Rightarrow> False | Some q \<Rightarrow> drop_prefix ''border-box'' (dropWhile js_space q) \<noteq> None))"

fun somewhere :: "('a list \<Rightarrow> bool) \<Rightarrow> 'a list \<Rightarrow> bool" where
  "somewhere P [] = P []"
| "somewhere P (x # xs) = (P (x # xs) \<or> somewhere P xs)"

definition padded :: "string \<Rightarrow> num \<times> num" where
  "padded style =
     (if somewhere border_box_here style then (Some 0, Some 0)
      else let sides = foldl pad_step [Some 0, Some 0, Some 0, Some 0] (style_declarations style)
           in (lift2 (+) (sides ! 3) (sides ! 1), lift2 (+) (sides ! 0) (sides ! 2)))"

definition HORIZONTAL :: "string list" where
  "HORIZONTAL = [''width'', ''max-width'', ''min-width'']"

definition VERTICAL :: "string list" where
  "VERTICAL = [''height'', ''max-height'', ''min-height'']"

definition borderBox :: "string \<Rightarrow> string \<Rightarrow> num \<times> num \<Rightarrow> string" where
  "borderBox property value inset =
     (let add = (if property \<in> set HORIZONTAL then fst inset else if property \<in> set VERTICAL then snd inset else Some 0)
      in if add = Some 0 then value
         else (case px_value value of
                 None \<Rightarrow> value
               | Some n \<Rightarrow> (case lift2 (+) (parse_float n) add of Some x \<Rightarrow> px_text x | None \<Rightarrow> ''NaNpx'')))"

definition declaredFontSize :: "string \<Rightarrow> rat option" where
  "declaredFontSize style =
     foldl (\<lambda>found (p, raw). if p \<noteq> ''font-size'' then found
              else (case fontSizePx raw of Some x \<Rightarrow> Some x | None \<Rightarrow> found)) None (style_declarations style)"

subsection \<open>A whole style\<close>

text \<open>What one declaration emits; \<open>None\<close> when reading it throws, as the call of an undefined \<open>entry.read\<close> does.\<close>

definition read_declaration :: "value_context \<Rightarrow> string \<times> string \<Rightarrow> (string \<times> string) list option" where
  "read_declaration ctx = (\<lambda>(property, raw).
     if property = [] \<or> raw = [] then Some []
     else (case property_of PROPERTIES property of
             Undefined \<Rightarrow> Some []
           | Inherited \<Rightarrow> None
           | Own (read, emitAs) \<Rightarrow>
               (case read raw ctx of
                  None \<Rightarrow> Some []
                | Some (Value v) \<Rightarrow> Some [(case emitAs of Some n \<Rightarrow> n | None \<Rightarrow> property, v)]
                | Some (Emits ds) \<Rightarrow> Some ds)))"

fun read_all :: "value_context \<Rightarrow> (string \<times> string) list \<Rightarrow> (string \<times> string) list option" where
  "read_all ctx [] = Some []"
| "read_all ctx (d # ds) =
     Option.bind (read_declaration ctx d) (\<lambda>out. map_option (\<lambda>rest. out @ rest) (read_all ctx ds))"

definition readStyle :: "string \<Rightarrow> value_context \<Rightarrow> string option" where
  "readStyle style ctx =
     (let inset = padded style;
          inner = (case declaredFontSize style of None \<Rightarrow> ctx | Some x \<Rightarrow> ctx\<lparr>vc_fontSize := Some x\<rparr>)
      in map_option (\<lambda>out. js_join '';'' (map (\<lambda>(name, value). name @ '':'' @ borderBox name value inset) out))
           (read_all inner (style_declarations style)))"

end
