(* ===== verification/Css_Laws.thy ===== *)
theory Css_Laws
  imports Css_Properties
begin

text \<open>What the style gate lets through, when it throws, and how stable the adaptation of colours is.\<close>

subsection \<open>Plain text\<close>

definition plain_char :: "char \<Rightarrow> bool" where
  "plain_char c \<longleftrightarrow> c \<notin> set '';():''"

abbreviation plain :: "string \<Rightarrow> bool" where
  "plain s \<equiv> list_all plain_char s"

lemma plain_unit: "plain_char c \<longleftrightarrow> code_unit c \<notin> {40, 41, 58, 59}"
proof -
  have u: "code_unit (CHR '';'') = 59" "code_unit (CHR ''('') = 40" "code_unit (CHR '')'') = 41" "code_unit (CHR '':'') = 58"
    by code_simp+
  have "c = CHR '';'' \<longleftrightarrow> code_unit c = 59" "c = CHR ''('' \<longleftrightarrow> code_unit c = 40"
    "c = CHR '')'' \<longleftrightarrow> code_unit c = 41" "c = CHR '':'' \<longleftrightarrow> code_unit c = 58"
    using u code_unit_inject by metis+
  then show ?thesis by (auto simp: plain_char_def)
qed

lemma plain_classes: "is_digit c \<Longrightarrow> plain_char c" "is_letter c \<Longrightarrow> plain_char c" "is_lower c \<Longrightarrow> plain_char c" "numeric c \<Longrightarrow> plain_char c"
proof -
  have "plain_char (CHR ''.'')" by code_simp
  then show "is_digit c \<Longrightarrow> plain_char c" "is_letter c \<Longrightarrow> plain_char c" "is_lower c \<Longrightarrow> plain_char c" "numeric c \<Longrightarrow> plain_char c"
    unfolding numeric_def is_digit_def is_letter_def is_lower_def plain_unit by auto
qed

lemma fraction_digits_plain: "0 \<le> f \<Longrightarrow> f < 1 \<Longrightarrow> list_all is_digit (fraction_digits k f)"
proof (induction k f rule: fraction_digits.induct)
  case (2 k f)
  let ?d = "\<lfloor>f * 10\<rfloor>"
  have d: "0 \<le> ?d" "?d < 10" using 2(2,3) by (simp_all add: floor_less_iff)
  have "0 \<le> f * 10 - of_int ?d" "f * 10 - of_int ?d < 1" by linarith+
  moreover have "is_digit (char_of (nat (48 + ?d)))"
  proof -
    obtain m where m0: "?d = int m" using d(1) nonneg_int_cases by blast
    have "int m < 10" using d(2) unfolding m0 .
    then have m: "?d = int m" "m < 10" using m0 by linarith+
    then have "nat (48 + ?d) = 48 + m" by simp
    then show ?thesis using m(2) by (simp add: is_digit_def code_unit_char_of)
  qed
  ultimately show ?case using 2(1) by simp
qed simp

lemma number_text_plain: "plain (number_text x)"
proof -
  have "list_all is_digit (fraction_digits 20 (\<bar>x\<bar> - of_int \<lfloor>\<bar>x\<bar>\<rfloor>))"
    by (rule fraction_digits_plain) linarith+
  then have "plain (fraction_digits 20 (\<bar>x\<bar> - of_int \<lfloor>\<bar>x\<bar>\<rfloor>))" "plain (decimal_digits n)" for n
    using decimal_digits_are_digits [of n] plain_classes(1) by (auto simp: list_all_iff)
  moreover have "plain_char (CHR ''.'')" "plain ''-''" by code_simp+
  ultimately show ?thesis by (auto simp: number_text_def Let_def)
qed

lemma px_text_plain: "plain (px_text x)"
proof -
  have "plain ''px''" by code_simp
  then show ?thesis using number_text_plain by (simp add: px_text_def)
qed

lemma length_text_plain: "length_text p sg raw = Some v \<Longrightarrow> plain v"
proof -
  assume a: "length_text p sg raw = Some v"
  define w where "w = js_lower (js_trim raw)"
  obtain neg num u where s: "split_length w = (neg, num, u)" by (metis prod_cases3)
  have v: "v = w" and u: "u = [] \<or> u \<in> set UNITS \<or> u = ''%''"
    using a s by (auto simp: length_text_def w_def [symmetric] Let_def split: if_splits)
  have units: "\<forall>u \<in> set UNITS. plain u" "plain ''%''" "plain_char (CHR ''-'')" by code_simp+
  have eqs: "neg = (case w of [] \<Rightarrow> False | c # _ \<Rightarrow> c = CHR ''-'') \<and> num = takeWhile numeric (if neg then tl w else w) \<and>
      u = dropWhile numeric (if neg then tl w else w)"
    using s [symmetric] unfolding split_length_def Let_def prod.inject by (elim conjE) (simp only:)
  have nu: "num = takeWhile numeric (if neg then tl w else w)" "u = dropWhile numeric (if neg then tl w else w)"
    using eqs by blast+
  have "neg = (case w of [] \<Rightarrow> False | c # _ \<Rightarrow> c = CHR ''-'')" using eqs by blast
  then have "w = (if neg then ''-'' else []) @ (if neg then tl w else w)" by (cases w) simp_all
  then have "w = (if neg then ''-'' else []) @ num @ u" unfolding nu by simp
  moreover have "plain num"
    unfolding nu(1) using plain_classes(4) by (auto simp: list_all_iff dest: set_takeWhileD)
  moreover have "plain u" using u units by auto
  ultimately show ?thesis using v units(3) by (cases neg) simp_all
qed

subsection \<open>Colours\<close>

lemma hex_digit_plain: "n < 16 \<Longrightarrow> plain_char (''0123456789abcdef'' ! n)"
proof -
  assume n: "n < 16"
  have "list_all plain_char ''0123456789abcdef''" "length ''0123456789abcdef'' = 16" by code_simp+
  then show ?thesis using n unfolding list_all_length by metis
qed

lemma hex_channel_plain: "plain (hex_channel x)"
proof (cases x)
  case None
  have "plain ''NaN''" by code_simp
  then show ?thesis using None by (simp add: hex_channel_def)
next
  case (Some y)
  let ?n = "max 0 (min 255 (js_round y))"
  have "0 \<le> ?n" "?n \<le> 255" by simp_all
  then have "nat (?n div 16) < 16" "nat (?n mod 16) < 16" by auto
  then show ?thesis using Some hex_digit_plain by (simp add: hex_channel_def hex2_def)
qed

lemma colorHex_plain: "plain (colorHex c)"
proof -
  have "plain ''#''" by code_simp
  then show ?thesis by (cases c) (simp add: colorHex_def hex_channel_plain)
qed

lemma adapt_for_plain: "adapt_for role v = Some t \<Longrightarrow> plain t"
  by (auto simp: adapt_for_def adaptForeground_def adaptBackground_def adaptBorder_def colorHex_plain
      split: color_role.splits option.splits if_splits)

text \<open>A value a colour reader returns: plain, or a text of the message that parses as a colour.\<close>

lemma color_text_cases:
  assumes "color_text role raw ctx = Some t"
  shows "plain t \<or> t = js_trim raw \<and> parseColor t \<noteq> None"
proof -
  have known: "plain ''transparent''" "\<forall>n \<in> set COLOR_NAMES. plain n" by code_simp+
  show ?thesis
  proof (cases "parseColor (js_trim raw)")
    case None
    then have "t = ''transparent'' \<or> t \<in> set COLOR_NAMES"
      using assms unfolding color_text_def Let_def by (metis option.distinct(1) option.inject)
    then show ?thesis using known by blast
  next
    case (Some c)
    then have "t = ''transparent'' \<or> t = js_trim raw \<or> adapt_for role (js_trim raw) = Some t"
      using assms by (auto simp: color_text_def Let_def split: if_splits option.splits)
    moreover have "parseColor (js_trim raw) \<noteq> None" using Some by simp
    ultimately show ?thesis using known(1) adapt_for_plain by metis
  qed
qed

subsection \<open>What each reader returns\<close>

text \<open>Plain around at most one text that parses as a colour, and no semicolon anywhere.\<close>

definition coloured :: "string \<Rightarrow> bool" where
  "coloured v \<longleftrightarrow> CHR '';'' \<notin> set v \<and> (plain v \<or> (\<exists>a t b. v = a @ t @ b \<and> plain a \<and> plain b \<and> parseColor t \<noteq> None))"

lemma plain_no_semicolon: "plain v \<Longrightarrow> CHR '';'' \<notin> set v"
proof -
  assume p: "plain v"
  have "\<not> plain_char (CHR '';'')" by code_simp
  then show ?thesis using p unfolding list_all_iff by blast
qed

lemma coloured_plain: "plain v \<Longrightarrow> coloured v"
  by (simp add: coloured_def plain_no_semicolon)

lemma coloured_color: "color_text role raw ctx = Some t \<Longrightarrow> CHR '';'' \<notin> set raw \<Longrightarrow> coloured t"
proof -
  assume t: "color_text role raw ctx = Some t" and raw: "CHR '';'' \<notin> set raw"
  from color_text_cases [OF t] show ?thesis
  proof
    assume "t = js_trim raw \<and> parseColor t \<noteq> None"
    then have "CHR '';'' \<notin> set t" "t = [] @ t @ []" "plain []" "parseColor t \<noteq> None" using raw js_trim_set by auto
    then show ?thesis unfolding coloured_def by blast
  qed (rule coloured_plain)
qed

lemma plain_join: "(\<forall>p \<in> set ps. plain p) \<Longrightarrow> plain (js_join '' '' ps)"
proof (induction "'' '' :: string" ps rule: js_join.induct)
  case (3 x y ys)
  have "plain '' ''" by code_simp
  then show ?case using 3 by simp
qed simp_all

lemma words_by_set: "w \<in> set (words_by sep s) \<Longrightarrow> set w \<subseteq> set s"
proof (induction sep s rule: words_by.induct)
  case (1 sep s)
  show ?case
  proof (cases "dropWhile sep s")
    case Nil
    have "words_by sep s = []" by (subst words_by.simps) (simp only: Nil list.case)
    then show ?thesis using 1(2) by simp
  next
    case (Cons c cs)
    have s: "set (c # cs) \<subseteq> set s" unfolding Cons [symmetric] using set_dropWhileD by fast
    have "words_by sep s = (c # takeWhile (\<lambda>d. \<not> sep d) cs) # words_by sep (dropWhile (\<lambda>d. \<not> sep d) cs)"
      by (subst words_by.simps) (simp only: Cons list.case)
    then have "w = c # takeWhile (\<lambda>d. \<not> sep d) cs \<or> w \<in> set (words_by sep (dropWhile (\<lambda>d. \<not> sep d) cs))"
      using 1(2) by simp
    then show ?thesis
    proof
      assume "w = c # takeWhile (\<lambda>d. \<not> sep d) cs"
      then have "set w \<subseteq> set (c # cs)" using set_takeWhileD by fastforce
      then show ?thesis using s by blast
    next
      assume "w \<in> set (words_by sep (dropWhile (\<lambda>d. \<not> sep d) cs))"
      then have "set w \<subseteq> set (dropWhile (\<lambda>d. \<not> sep d) cs)" by (rule 1(1) [OF Cons])
      then show ?thesis using s set_dropWhileD by fastforce
    qed
  qed
qed

definition ALLOWED :: "string list" where
  "ALLOWED = filter (\<lambda>n. n \<noteq> ''background'') (map fst PROPERTIES)"

definition COLOURED :: "string list" where
  "COLOURED =
     [''color'', ''background-color'', ''border'', ''border-top'', ''border-right'', ''border-bottom'', ''border-left'', ''border-color'',
      ''border-top-color'', ''border-right-color'', ''border-bottom-color'', ''border-left-color'']"

definition faces_ok :: "value_context \<Rightarrow> bool" where
  "faces_ok ctx \<longleftrightarrow> (case vc_faces ctx of None \<Rightarrow> True
     | Some f \<Rightarrow> plain (ff_regular f) \<and> plain (ff_medium f) \<and> plain (ff_semibold f) \<and> plain (ff_bold f))"

definition reader_ok :: "bool \<Rightarrow> reader \<Rightarrow> bool" where
  "reader_ok colour r \<longleftrightarrow>
     (\<forall>raw ctx. CHR '';'' \<notin> set raw \<longrightarrow> faces_ok ctx \<longrightarrow>
        (case r raw ctx of
           None \<Rightarrow> True
         | Some (Value v) \<Rightarrow> plain v \<or> colour \<and> coloured v
         | Some (Emits ds) \<Rightarrow> (\<forall>(n, v) \<in> set ds. n \<in> set ALLOWED \<and> plain v)))"

lemma reader_ok_plain: "(\<And>raw ctx x. r raw ctx = Some x \<Longrightarrow> \<exists>v. x = Value v \<and> plain v) \<Longrightarrow> reader_ok c r"
  unfolding reader_ok_def by (force split: option.splits read_value.splits)

lemma ok_keyword: "list_all plain ks \<Longrightarrow> reader_ok c (read_keyword ks)"
  by (rule reader_ok_plain) (auto simp: read_keyword_def Let_def list_all_iff split: if_splits)

lemma ok_length: "reader_ok c (read_length p sg)"
  by (rule reader_ok_plain) (auto simp: read_length_def length_text_plain)

lemma ok_family: "reader_ok c fontFamily"
proof (rule reader_ok_plain)
  fix raw ctx x assume "fontFamily raw ctx = Some x"
  then have x: "x = Value (js_trim raw)" "list_all family_char (js_trim raw)" by (auto simp: fontFamily_def Let_def split: if_splits)
  have units: "\<forall>d \<in> set ''_- ,.''. plain_char d" by code_simp
  have "plain_char d" if "family_char d" for d
    using that plain_classes units unfolding family_char_def plain_unit by (auto simp: plain_unit)
  then show "\<exists>v. x = Value v \<and> plain v" using x by (auto simp: list_all_iff)
qed

lemma ok_mapped_keyword:
  assumes "list_all (\<lambda>k. plain (f k)) ks"
  shows "reader_ok c (\<lambda>raw ctx. case value_of (read_keyword ks raw ctx) of None \<Rightarrow> None | Some v \<Rightarrow> Some (Value (f v)))"
  by (rule reader_ok_plain) (use assms in \<open>auto simp: value_of_def read_keyword_def Let_def list_all_iff split: if_splits option.splits\<close>)

lemma ok_style: "reader_ok c obliqueAsItalic"
  unfolding obliqueAsItalic_def [abs_def] by (rule ok_mapped_keyword) code_simp

lemma ok_align: "reader_ok c textAlignValue"
  unfolding textAlignValue_def [abs_def] by (rule ok_mapped_keyword) code_simp

lemma ok_display: "reader_ok c displayValue"
  unfolding displayValue_def [abs_def] by (rule ok_mapped_keyword) code_simp

lemma ok_line_height: "reader_ok c lineHeight"
proof (rule reader_ok_plain)
  have em: "plain ''em''" by code_simp
  fix raw ctx x assume a: "lineHeight raw ctx = Some x"
  have ratio: "plain v" if "ratioLineHeight q ctx = Some v" for q v
    using that em number_text_plain px_text_plain by (auto simp: ratioLineHeight_def split: if_splits option.splits)
  show "\<exists>v. x = Value v \<and> plain v"
    using a ratio length_text_plain unfolding lineHeight_def Let_def by (auto split: if_splits)
qed

lemma ok_auto: "reader_ok c r \<Longrightarrow> reader_ok c (autoOr r)"
proof -
  assume r: "reader_ok c r"
  have "plain ''auto''" by code_simp
  then show ?thesis using r unfolding reader_ok_def autoOr_def by simp
qed

lemma ok_color: "reader_ok True (read_color role)"
  unfolding reader_ok_def read_color_def by (auto split: option.splits dest: coloured_color)

lemma words_by_no_sep: "w \<in> set (words_by sep s) \<Longrightarrow> list_all (\<lambda>c. \<not> sep c) w"
proof (induction sep s rule: words_by.induct)
  case (1 sep s)
  show ?case
  proof (cases "dropWhile sep s")
    case Nil
    have "words_by sep s = []" by (subst words_by.simps) (simp only: Nil list.case)
    then show ?thesis using 1(2) by simp
  next
    case (Cons c cs)
    have c: "\<not> sep c" using Cons dropWhile_eq_Cons_conv by metis
    have "words_by sep s = (c # takeWhile (\<lambda>d. \<not> sep d) cs) # words_by sep (dropWhile (\<lambda>d. \<not> sep d) cs)"
      by (subst words_by.simps) (simp only: Cons list.case)
    then have "w = c # takeWhile (\<lambda>d. \<not> sep d) cs \<or> w \<in> set (words_by sep (dropWhile (\<lambda>d. \<not> sep d) cs))"
      using 1(2) by simp
    then show ?thesis
    proof
      assume "w = c # takeWhile (\<lambda>d. \<not> sep d) cs"
      then show ?thesis using c by (auto simp: list_all_iff dest: set_takeWhileD)
    qed (rule 1(1) [OF Cons])
  qed
qed

lemma js_trim_word: "list_all (\<lambda>c. \<not> js_space c) p \<Longrightarrow> js_trim p = p"
proof -
  assume p: "list_all (\<lambda>c. \<not> js_space c) p"
  then have "list_all (\<lambda>c. \<not> js_space c) (rev p)" by (simp add: list_all_iff)
  then have "dropWhile js_space (rev p) = rev p" by (cases "rev p") simp_all
  moreover have "dropWhile js_space p = p" using p by (cases p) simp_all
  ultimately show ?thesis by (simp add: js_trim_def)
qed
text \<open>The border: at most one of its components is a colour, and the others are plain.\<close>

definition one_coloured :: "bool \<Rightarrow> string list \<Rightarrow> bool" where
  "one_coloured c out \<longleftrightarrow> (\<forall>t \<in> set out. plain t) \<or>
     \<not> c \<and> (\<exists>a t b. out = a @ t # b \<and> (\<forall>x \<in> set a \<union> set b. plain x) \<and> coloured t \<and> parseColor t \<noteq> None)"

lemma one_coloured_Cons:
  assumes "plain x" "one_coloured c out"
  shows "one_coloured c (x # out)"
proof (cases "\<forall>t \<in> set out. plain t")
  case True
  then show ?thesis using assms(1) by (simp add: one_coloured_def)
next
  case False
  then obtain a t b where o: "\<not> c" "out = a @ t # b" "\<forall>x \<in> set a \<union> set b. plain x" "coloured t" "parseColor t \<noteq> None"
    using assms(2) unfolding one_coloured_def by blast
  then have "x # out = (x # a) @ t # b" "\<forall>y \<in> set (x # a) \<union> set b. plain y" using assms(1) by auto
  then show ?thesis using o(1,4,5) unfolding one_coloured_def by blast
qed

lemma border_parts_shape:
  assumes "border_parts ctx w s c ps = Some out" "\<forall>p \<in> set ps. CHR '';'' \<notin> set p \<and> js_trim p = p"
  shows "one_coloured c out"
  using assms
proof (induction ctx w s c ps arbitrary: out rule: border_parts.induct)
  case (1 ctx w s c)
  then show ?case by (simp add: one_coloured_def)
next
  case (2 ctx w s c p ps)
  have p: "js_trim p = p" "CHR '';'' \<notin> set p" and rest: "\<forall>p \<in> set ps. CHR '';'' \<notin> set p \<and> js_trim p = p"
    using 2(5) by simp_all
  let ?W = "\<not> w \<and> length_text False NonNegative p \<noteq> None"
  let ?S = "\<not> s \<and> js_lower (js_trim p) \<in> set BORDER_STYLES"
  have eq: "border_parts ctx w s c (p # ps) =
    (if ?W then map_option (Cons (js_lower p)) (border_parts ctx True s c ps)
     else if ?S then map_option (Cons (js_lower p)) (border_parts ctx w True c ps)
     else if \<not> c then (case color_text Border p ctx of
              Some t \<Rightarrow> map_option (Cons t) (border_parts ctx w s True ps) | None \<Rightarrow> None)
     else None)" by (rule border_parts.simps)
  show ?case
  proof (cases ?W)
    case True
    then obtain o' where o: "border_parts ctx True s c ps = Some o'" "out = js_lower p # o'"
      using 2(4) unfolding eq by auto
    obtain v where v: "length_text False NonNegative p = Some v" using True by blast
    then have "v = js_lower p" using p(1) by (auto simp: length_text_def Let_def split: if_splits prod.splits)
    then have "plain (js_lower p)" using length_text_plain [OF v] by simp
    then show ?thesis unfolding o(2) using 2(1) [OF True o(1) rest] by (rule one_coloured_Cons)
  next
    case W: False
    show ?thesis
    proof (cases ?S)
      case True
      then obtain o' where o: "border_parts ctx w True c ps = Some o'" "out = js_lower p # o'"
        using 2(4) W unfolding eq by auto
      have "\<forall>k \<in> set BORDER_STYLES. plain k" by code_simp
      then have "plain (js_lower p)" using True p(1) by simp
      then show ?thesis unfolding o(2) using 2(2) [OF W True o(1) rest] by (rule one_coloured_Cons)
    next
      case S: False
      have c: "\<not> c" using 2(4) W S unfolding eq by (metis option.distinct(1))
      then obtain t o' where o: "color_text Border p ctx = Some t" "border_parts ctx w s True ps = Some o'" "out = t # o'"
        using 2(4) W S unfolding eq by (auto split: option.splits)
      have o': "\<forall>t \<in> set o'. plain t" using 2(3) [OF W S c o(1) o(2) rest] by (simp add: one_coloured_def)
      show ?thesis
      proof (cases "plain t")
        case True
        then show ?thesis using o' o(3) by (simp add: one_coloured_def)
      next
        case False
        then have "parseColor t \<noteq> None" using color_text_cases [OF o(1)] by blast
        moreover have "coloured t" using coloured_color [OF o(1) p(2)] .
        moreover have "out = [] @ t # o'" "\<forall>x \<in> set [] \<union> set o'. plain x" using o(3) o' by simp_all
        ultimately show ?thesis using c unfolding one_coloured_def by blast
      qed
    qed
  qed
qed
lemma js_join_middle:
  assumes "\<forall>x \<in> set a \<union> set b. plain x"
  shows "\<exists>u v. js_join '' '' (a @ t # b) = u @ t @ v \<and> plain u \<and> plain v"
proof -
  have sp: "plain '' ''" by code_simp
  have tail: "\<exists>v. js_join '' '' (t # b) = t @ v \<and> plain v"
  proof (cases b)
    case (Cons x y)
    then have "js_join '' '' (t # b) = t @ '' '' @ js_join '' '' b" by simp
    moreover have "plain ('' '' @ js_join '' '' b)" using sp plain_join [of b] assms by simp
    ultimately show ?thesis by blast
  qed simp
  show ?thesis using assms
  proof (induction a)
    case Nil
    have "plain []" by simp
    then show ?case using tail by (metis append_Nil)
  next
    case (Cons x a)
    then obtain u v where uv: "js_join '' '' (a @ t # b) = u @ t @ v" "plain u" "plain v" by auto
    have "js_join '' '' ((x # a) @ t # b) = x @ '' '' @ js_join '' '' (a @ t # b)"
      by (cases a) simp_all
    then have "js_join '' '' ((x # a) @ t # b) = (x @ '' '' @ u) @ t @ v" using uv(1) by simp
    moreover have "plain (x @ '' '' @ u)" using Cons(2) sp uv(2) by simp
    ultimately show ?case using uv(3) by blast
  qed
qed

lemma one_coloured_join: "one_coloured c out \<Longrightarrow> coloured (js_join '' '' out)"
proof -
  assume o: "one_coloured c out"
  show ?thesis
  proof (cases "\<forall>t \<in> set out. plain t")
    case True
    then show ?thesis using plain_join coloured_plain by blast
  next
    case False
    then obtain a t b where t: "out = a @ t # b" "\<forall>x \<in> set a \<union> set b. plain x" "coloured t" "parseColor t \<noteq> None"
      using o unfolding one_coloured_def by blast
    obtain u v where uv: "js_join '' '' out = u @ t @ v" "plain u" "plain v" using js_join_middle [OF t(2)] t(1) by blast
    have "CHR '';'' \<notin> set (u @ t @ v)" using t(3) uv(2,3) plain_no_semicolon by (simp add: coloured_def)
    then show ?thesis using uv t(4) unfolding coloured_def by metis
  qed
qed

lemma css_word_parts: "CHR '';'' \<notin> set raw \<Longrightarrow> \<forall>p \<in> set (css_words (js_trim raw)). CHR '';'' \<notin> set p \<and> js_trim p = p"
  using words_by_set js_trim_set js_trim_word words_by_no_sep by blast

lemma ok_border: "reader_ok True read_border"
proof -
  have "coloured v" if raw: "CHR '';'' \<notin> set raw" and v: "read_border raw ctx = Some (Value v)" for raw ctx v
  proof -
    obtain out where "border_parts ctx False False False (css_words (js_trim raw)) = Some out" "v = js_join '' '' out"
      using v by (auto simp: read_border_def Let_def split: if_splits option.splits)
    then show ?thesis using border_parts_shape [OF _ css_word_parts [OF raw]] one_coloured_join by blast
  qed
  moreover have "\<exists>v. x = Value v" if "read_border raw ctx = Some x" for raw ctx x
    using that by (auto simp: read_border_def Let_def split: if_splits option.splits)
  ultimately show ?thesis unfolding reader_ok_def by (force split: option.splits read_value.splits)
qed

lemma ok_weight: "reader_ok c fontWeight"
proof -
  have allowed: "''font-weight'' \<in> set ALLOWED" "''font-family'' \<in> set ALLOWED" by code_simp+
  have words: "\<forall>k \<in> set ([''normal'', ''bold'', ''bolder'', ''lighter''] @ WEIGHTS). plain k" by code_simp
  have "\<exists>n v. x = Emits [(n, v)] \<and> n \<in> set ALLOWED \<and> plain v" if ok: "faces_ok ctx" and x: "fontWeight raw ctx = Some x" for raw ctx x
  proof (cases "vc_faces ctx")
    case None
    then have "x = Emits [(''font-weight'', js_lower (js_trim raw))]"
      "js_lower (js_trim raw) \<in> set ([''normal'', ''bold'', ''bolder'', ''lighter''] @ WEIGHTS)"
      using x by (auto simp: fontWeight_def Let_def split: if_splits)
    then show ?thesis using allowed words by blast
  next
    case (Some f)
    then obtain v where v: "x = Emits [(''font-family'', v)]" "v \<in> {ff_regular f, ff_medium f, ff_semibold f, ff_bold f}"
      using x by (auto simp: fontWeight_def Let_def split: if_splits)
    have "plain v" using v(2) ok Some by (auto simp: faces_ok_def)
    then show ?thesis using allowed v(1) by blast
  qed
  then show ?thesis unfolding reader_ok_def by (force split: option.splits)
qed

lemma ok_width: "reader_ok c widthValue"
proof -
  have allowed: "''max-width'' \<in> set ALLOWED" by code_simp
  have "\<exists>v. plain v \<and> (x = Value v \<or> x = Emits [(''max-width'', v)])" if "widthValue raw ctx = Some x" for raw ctx x
    using that by (auto simp: widthValue_def read_length_def dest: length_text_plain split: if_splits option.splits)
  then show ?thesis using allowed unfolding reader_ok_def by (force split: option.splits)
qed
definition box_names :: "string list" where
  "box_names = [''margin'', ''padding'']"

lemma ok_lengths: "name \<in> set box_names \<Longrightarrow> reader_ok c (read_lengths p sg (Some name))"
proof -
  assume "name \<in> set box_names"
  moreover have "\<forall>n \<in> set box_names. \<forall>side \<in> set SIDES. n @ ''-'' @ side \<in> set ALLOWED" by code_simp
  ultimately have names: "name @ ''-'' @ side \<in> set ALLOWED" if "side \<in> set SIDES" for side using that by blast
  have "case x of Value v \<Rightarrow> plain v | Emits ds \<Rightarrow> (\<forall>(n, v) \<in> set ds. n \<in> set ALLOWED \<and> plain v)"
    if x: "read_lengths p sg (Some name) raw ctx = Some x" for raw ctx x
  proof -
    let ?parts = "css_words (js_trim raw)"
    let ?read = "map (length_text p sg) ?parts"
    obtain ex where ex: "EXPANSION (length ?parts) = Some ex"
      using x by (auto simp: read_lengths_def Let_def split: option.splits)
    have small: "\<forall>i \<in> set ex. i < length ?parts" using ex by (auto simp: EXPANSION_def split: if_splits)
    have read: "plain v" if "?read ! i = Some v" "i < length ?parts" for i v
      using that length_text_plain by simp
    show ?thesis
    proof (cases "list_all (\<lambda>p. p \<noteq> None) ?read")
      case True
      then have "x = Value (js_join '' '' (map the ?read))" using x ex by (simp add: read_lengths_def Let_def)
      moreover have "plain v" if "v \<in> set (map the ?read)" for v
        using that True length_text_plain by (auto simp: list_all_iff)
      ultimately show ?thesis using plain_join by simp
    next
      case False
      let ?out = "concat (map (\<lambda>(i, side). case ?read ! i of Some v \<Rightarrow> [(name @ ''-'' @ side, v)] | None \<Rightarrow> []) (zip ex SIDES))"
      have out: "x = Emits ?out" using x ex False by (auto simp: read_lengths_def Let_def split: if_splits)
      have all: "n \<in> set ALLOWED \<and> plain v" if "(n, v) \<in> set ?out" for n v
      proof -
        obtain i side where i: "(i, side) \<in> set (zip ex SIDES)" "?read ! i = Some v" "n = name @ ''-'' @ side"
          using \<open>(n, v) \<in> set ?out\<close> by (auto split: option.splits)
        then have "i \<in> set ex" "side \<in> set SIDES" by (metis set_zip_leftD set_zip_rightD)+
        then show ?thesis using names small read i(2,3) by blast
      qed
      show ?thesis unfolding out read_value.case
      proof (rule ballI)
        fix d assume "d \<in> set ?out"
        moreover obtain n v where d: "d = (n, v)" by (cases d)
        ultimately have "(n, v) \<in> set ?out" by (simp only:)
        then show "case d of (n, v) \<Rightarrow> n \<in> set ALLOWED \<and> plain v" unfolding d prod.case by (rule all)
      qed
    qed
  qed
  then show ?thesis unfolding reader_ok_def by (force split: option.splits read_value.splits)
qed

lemma call_match_set: "call_match name s = Some t \<Longrightarrow> set t \<subseteq> set s"
proof -
  assume a: "call_match name s = Some t"
  then obtain r where r: "drop_prefix (name @ ''('') s = Some r" by (cases "drop_prefix (name @ ''('') s") (simp_all add: call_match_def)
  then obtain d ds where t: "dropWhile (\<lambda>c. c \<noteq> CHR '')'') r = d # ds" "t = name @ ''('' @ takeWhile (\<lambda>c. c \<noteq> CHR '')'') r @ '')''"
    using a by (auto simp: call_match_def split: list.splits)
  have "take (length (name @ ''('')) s = name @ ''(''" "drop (length (name @ ''('')) s = r"
    using r by (auto simp: drop_prefix_def split: if_splits)
  then have s: "s = (name @ ''('') @ r" using append_take_drop_id by metis
  have "dropWhile (\<lambda>c. c \<noteq> CHR '')'') r \<noteq> []" unfolding t(1) by (rule list.distinct)
  then have "\<exists>x \<in> set r. x = CHR '')''" unfolding dropWhile_eq_Nil_conv by blast
  then have "CHR '')'' \<in> set r" by blast
  then show ?thesis unfolding s t(2) using set_takeWhileD by fastforce
qed

lemma color_match_set: "color_match s = Some t \<Longrightarrow> set t \<subseteq> set s"
proof (cases s)
  case (Cons c r)
  assume a: "color_match s = Some t"
  show ?thesis
  proof (cases "c = CHR ''#'' \<and> 3 \<le> length (takeWhile (hex_char \<circ> ascii_lower_char) r)")
    case True
    then have "t = c # take 8 (takeWhile (hex_char \<circ> ascii_lower_char) r)"
      using a Cons by (simp add: color_match_def)
    then show ?thesis using Cons set_take_subset set_takeWhileD by fastforce
  next
    case False
    then have "call_match ''rgba'' s = Some t \<or> call_match ''rgb'' s = Some t \<or> call_match ''hsla'' s = Some t \<or> call_match ''hsl'' s = Some t"
      using a unfolding Cons color_match_def list.case if_not_P [OF False] by (auto split: option.splits)
    then show ?thesis using call_match_set by blast
  qed
qed (simp add: color_match_def)

lemma first_color_set: "first_color s = Some t \<Longrightarrow> set t \<subseteq> set s"
  by (induction s) (auto split: option.splits dest!: color_match_set)

lemma ok_background: "reader_ok True backgroundShorthand"
proof -
  have "\<exists>v. x = Value v \<and> coloured v" if raw: "CHR '';'' \<notin> set raw" and x: "backgroundShorthand raw ctx = Some x" for raw ctx x
  proof -
    obtain t where t: "first_color raw = Some t \<or> firstWord raw = Some t" "map_option Value (value_of (read_color Background t ctx)) = Some x"
      using x by (auto simp: backgroundShorthand_def split: option.splits)
    have "CHR '';'' \<notin> set t"
      using t(1)
    proof
      assume "firstWord raw = Some t"
      then have "list_all is_lower t" unfolding firstWord_def by (auto simp: find_Some_iff)
      then have "plain t" using plain_classes(3) by (auto simp: list_all_iff)
      then show ?thesis by (rule plain_no_semicolon)
    qed (use raw first_color_set in blast)
    moreover obtain v where "color_text Background t ctx = Some v" "x = Value v"
      using t(2) by (cases "color_text Background t ctx") (simp_all add: read_color_def value_of_def)
    ultimately show ?thesis using coloured_color by blast
  qed
  then show ?thesis unfolding reader_ok_def by (force split: option.splits)
qed

subsection \<open>The table\<close>

definition may_colour :: "string \<Rightarrow> bool" where
  "may_colour n \<longleftrightarrow> n \<in> set COLOURED \<or> n = ''background''"

lemma may_colour_names:
  "may_colour ''color''" "may_colour ''background-color''" "may_colour ''background''" "may_colour ''border''" "may_colour ''border-top''"
  "may_colour ''border-right''" "may_colour ''border-bottom''" "may_colour ''border-left''" "may_colour ''border-color''"
  "may_colour ''border-top-color''" "may_colour ''border-right-color''" "may_colour ''border-bottom-color''" "may_colour ''border-left-color''"
  by code_simp+

lemma ok_words:
  "reader_ok c (read_keyword BORDER_STYLES)" "reader_ok c (read_keyword [''none'', ''underline'', ''line-through''])"
  "reader_ok c (read_keyword [''none'', ''uppercase'', ''lowercase'', ''capitalize''])"
  by (rule ok_keyword; code_simp)+

lemma ok_boxes: "reader_ok c (read_lengths p sg (Some ''margin''))" "reader_ok c (read_lengths p sg (Some ''padding''))"
  by (rule ok_lengths; simp add: box_names_def)+

lemmas readers_ok = ok_words ok_boxes ok_length ok_family ok_style ok_align ok_display ok_line_height ok_auto ok_color ok_border ok_weight
  ok_width ok_background

lemma table_ok: "list_all (\<lambda>(n, r, e). reader_ok (may_colour n) r) PROPERTIES"
  unfolding PROPERTIES_def by (simp only: list.pred_inject prod.case may_colour_names readers_ok simp_thms)

end
