(* ===== verification/Style_Gate.thy ===== *)
theory Style_Gate
  imports Css_Laws
begin

text \<open>The style gate as a whole: what a \<open>style\<close> attribute can come out as, when reading one throws, and how stable the
  adaptation of colours is.\<close>

definition emitted_ok :: "string \<times> string \<Rightarrow> bool" where
  "emitted_ok = (\<lambda>(n, v). n \<in> set ALLOWED \<and> (plain v \<or> n \<in> set COLOURED \<and> coloured v))"

lemma emit_names: "list_all (\<lambda>(n, r, e). e = (if n = ''background'' then Some ''background-color'' else None)) PROPERTIES"
  unfolding PROPERTIES_def by simp

lemma background_color_ok: "''background-color'' \<in> set ALLOWED" "''background-color'' \<in> set COLOURED"
  by code_simp+

lemma read_declaration_ok:
  assumes "read_declaration ctx (p, raw) = Some ds" "CHR '';'' \<notin> set raw" "faces_ok ctx" "d \<in> set ds"
  shows "emitted_ok d"
proof -
  have "p \<noteq> []" "raw \<noteq> []" using assms(1,4) by (auto simp: read_declaration_def)
  moreover have "map_of PROPERTIES p \<noteq> None"
  proof
    assume "map_of PROPERTIES p = None"
    then show False using assms(1,4) \<open>p \<noteq> []\<close> \<open>raw \<noteq> []\<close> by (simp add: read_declaration_def property_of_def split: if_splits)
  qed
  then obtain r e where m: "map_of PROPERTIES p = Some (r, e)" by auto
  ultimately have ds: "Some ds = (case r raw ctx of None \<Rightarrow> Some []
      | Some (Value v) \<Rightarrow> Some [(case e of Some n \<Rightarrow> n | None \<Rightarrow> p, v)] | Some (Emits ds) \<Rightarrow> Some ds)"
    using assms(1) by (simp add: read_declaration_def property_of_def)
  have in_table: "(p, r, e) \<in> set PROPERTIES" using m by (rule map_of_SomeD)
  have ok: "reader_ok (may_colour p) r" and e: "e = (if p = ''background'' then Some ''background-color'' else None)"
    using table_ok emit_names in_table unfolding list_all_iff by auto
  have p: "p = ''background'' \<or> p \<in> set ALLOWED" using in_table by (force simp: ALLOWED_def)
  show ?thesis
  proof (cases "r raw ctx")
    case None
    then show ?thesis using ds assms(4) by simp
  next
    case (Some x)
    show ?thesis
    proof (cases x)
      case (Value v)
      then have d: "d = (if p = ''background'' then ''background-color'' else p, v)" using Some ds assms(4) e by auto
      have "plain v \<or> may_colour p \<and> coloured v" using ok Some Value assms(2,3) unfolding reader_ok_def by fastforce
      then show ?thesis using p background_color_ok unfolding d emitted_ok_def may_colour_def by auto
    next
      case (Emits out)
      have "\<forall>(n, v) \<in> set out. n \<in> set ALLOWED \<and> plain v" using ok Some Emits assms(2,3) unfolding reader_ok_def by fastforce
      moreover have "d \<in> set out" using Some Emits ds assms(4) by simp
      ultimately show ?thesis by (auto simp: emitted_ok_def)
    qed
  qed
qed

lemma strip_important_set: "set (strip_important s) \<subseteq> set s"
proof (induction s rule: strip_important.induct)
  case (2 c cs)
  have "set (drop 9 (dropWhile js_space cs)) \<subseteq> set cs" using set_drop_subset set_dropWhileD by fastforce
  then show ?case using 2 by auto
qed simp

lemma declaration_no_semicolon: "(p, raw) \<in> set (style_declarations style) \<Longrightarrow> CHR '';'' \<notin> set raw"
proof -
  assume "(p, raw) \<in> set (style_declarations style)"
  then obtain d where d: "d \<in> set (js_split (CHR '';'') style)" "split_declaration d = Some (p, raw)"
    by (auto simp: style_declarations_def List.map_filter_def)
  have no: "CHR '';'' \<notin> set d" using d(1) js_split_parts by fast
  obtain c r where r: "dropWhile (\<lambda>c. c \<noteq> CHR '':'') d = c # r" "raw = js_trim (strip_important r)"
    using d(2) by (auto simp: split_declaration_def split: list.splits)
  have "set (c # r) \<subseteq> set d" unfolding r(1) [symmetric] using set_dropWhileD by fast
  then show ?thesis using no r(2) js_trim_set strip_important_set by fastforce
qed

lemma read_all_ok:
  assumes "read_all ctx ds = Some out" "faces_ok ctx" "\<forall>(p, raw) \<in> set ds. CHR '';'' \<notin> set raw"
  shows "\<forall>d \<in> set out. emitted_ok d"
  using assms
proof (induction ds arbitrary: out)
  case (Cons d ds)
  obtain p raw where d: "d = (p, raw)" by (cases d)
  obtain a b where ab: "read_declaration ctx d = Some a" "read_all ctx ds = Some b" "out = a @ b"
    using Cons(2) by (cases "read_declaration ctx d"; cases "read_all ctx ds") simp_all
  have "\<forall>x \<in> set a. emitted_ok x" using read_declaration_ok ab(1) Cons(3,4) unfolding d by auto
  moreover have "\<forall>x \<in> set b. emitted_ok x" using Cons(1) ab(2) Cons(3,4) by simp
  ultimately show ?case using ab(3) by auto
qed simp

lemma borderBox_ok: "emitted_ok (n, v) \<Longrightarrow> emitted_ok (n, borderBox n v inset)"
proof -
  assume ok: "emitted_ok (n, v)"
  have "plain ''NaNpx''" by code_simp
  moreover have "borderBox n v inset = v \<or> (\<exists>x. borderBox n v inset = px_text x) \<or> borderBox n v inset = ''NaNpx''"
    by (auto simp: borderBox_def Let_def split: option.splits)
  ultimately have "borderBox n v inset = v \<or> plain (borderBox n v inset)" using px_text_plain by metis
  then show ?thesis using ok by (auto simp: emitted_ok_def)
qed

definition style_text :: "(string \<times> string) list \<Rightarrow> string" where
  "style_text ds = js_join '';'' (map (\<lambda>(n, v). n @ '':'' @ v) ds)"

text \<open>C5 Whatever the style attribute of a message says, what comes out is a list of declarations, each of a property of the
  table, with a value free of semicolons, and free of parentheses and colons too unless the property is a colour or a
  border; those hold at most one text of the message, one that begins like a colour.\<close>

theorem style_gate:
  assumes "faces_ok ctx" "readStyle style ctx = Some out"
  shows "\<exists>ds. out = style_text ds \<and> list_all emitted_ok ds"
proof -
  define inner where "inner = (case declaredFontSize style of None \<Rightarrow> ctx | Some x \<Rightarrow> ctx\<lparr>vc_fontSize := Some x\<rparr>)"
  obtain ds where ds: "read_all inner (style_declarations style) = Some ds"
    "out = js_join '';'' (map (\<lambda>(n, v). n @ '':'' @ borderBox n v (padded style)) ds)"
    using assms(2) by (auto simp: readStyle_def Let_def inner_def)
  have "faces_ok inner" using assms(1) unfolding inner_def faces_ok_def by (cases "declaredFontSize style") simp_all
  then have "\<forall>d \<in> set ds. emitted_ok d"
    using read_all_ok [OF ds(1)] declaration_no_semicolon by fast
  then have "emitted_ok (n, borderBox n v (padded style))" if "(n, v) \<in> set ds" for n v
    using that borderBox_ok by blast
  then have "list_all emitted_ok (map (\<lambda>(n, v). (n, borderBox n v (padded style))) ds)"
    by (auto simp: list_all_iff)
  moreover have "out = style_text (map (\<lambda>(n, v). (n, borderBox n v (padded style))) ds)"
    unfolding ds(2) style_text_def by (simp add: o_def split_def)
  ultimately show ?thesis by blast
qed

definition light_page :: value_context where
  "light_page = \<lparr>vc_dark = False, vc_faces = None, vc_fontSize = None\<rparr>"

lemma style_gate_witness:
  "\<exists>ds. ''color:#fff;display:block'' = style_text ds \<and> list_all emitted_ok ds"
  by (rule style_gate [where ctx = light_page and style = "''COLOR: #fff; position: fixed; display: inline-block''"]) code_simp+

text \<open>Names in lower case: of what an object inherits only two are.\<close>

lemma lower_inherited:
  assumes "js_lower p = p"
  shows "property_of PROPERTIES p = Inherited \<longleftrightarrow> p = ''constructor'' \<or> p = ''__proto__''"
proof -
  have "list_all (\<lambda>n. js_lower n = n \<longrightarrow> n = ''constructor'' \<or> n = ''__proto__'') OBJECT_PROTOTYPE" by code_simp
  then have "p \<in> set OBJECT_PROTOTYPE \<longrightarrow> p = ''constructor'' \<or> p = ''__proto__''" using assms by (auto simp: list_all_iff)
  moreover have "\<forall>n \<in> set [''constructor'', ''__proto__'']. n \<in> set OBJECT_PROTOTYPE \<and> n \<notin> set (map fst PROPERTIES)" by code_simp
  ultimately show ?thesis
    by (auto simp: property_of_def map_of_eq_None_iff split: option.split) (metis list.set_intros map_of_eq_None_iff option.distinct(1) set_map)+
qed

lemma read_all_throws: "read_all ctx ds = None \<longleftrightarrow> (\<exists>d \<in> set ds. read_declaration ctx d = None)"
proof (induction ds)
  case (Cons d ds)
  then show ?case by (cases "read_declaration ctx d") auto
qed simp

lemma in_declarations:
  "(p, raw) \<in> set (style_declarations style) \<longleftrightarrow> (\<exists>name v. name @ CHR '':'' # v \<in> set (js_split (CHR '';'') style) \<and>
     CHR '':'' \<notin> set name \<and> p = js_lower (js_trim name) \<and> raw = js_trim (strip_important v))"
proof
  assume "(p, raw) \<in> set (style_declarations style)"
  then obtain d where d: "d \<in> set (js_split (CHR '';'') style)" "split_declaration d = Some (p, raw)"
    by (auto simp: style_declarations_def List.map_filter_def)
  obtain c v where v: "dropWhile (\<lambda>c. c \<noteq> CHR '':'') d = c # v" "raw = js_trim (strip_important v)"
    "p = js_lower (js_trim (takeWhile (\<lambda>c. c \<noteq> CHR '':'') d))"
    using d(2) by (auto simp: split_declaration_def split: list.splits)
  have c: "c = CHR '':''" using hd_dropWhile [of "\<lambda>c. c \<noteq> CHR '':''" d] v(1) by auto
  have "d = takeWhile (\<lambda>c. c \<noteq> CHR '':'') d @ c # v" using takeWhile_dropWhile_id [of "\<lambda>c. c \<noteq> CHR '':''" d] v(1) by simp
  moreover have "CHR '':'' \<notin> set (takeWhile (\<lambda>c. c \<noteq> CHR '':'') d)" using set_takeWhileD by fastforce
  ultimately show "\<exists>name v. name @ CHR '':'' # v \<in> set (js_split (CHR '';'') style) \<and>
     CHR '':'' \<notin> set name \<and> p = js_lower (js_trim name) \<and> raw = js_trim (strip_important v)"
    using d(1) v(2,3) unfolding c by metis
next
  assume "\<exists>name v. name @ CHR '':'' # v \<in> set (js_split (CHR '';'') style) \<and>
     CHR '':'' \<notin> set name \<and> p = js_lower (js_trim name) \<and> raw = js_trim (strip_important v)"
  then obtain name v where d: "name @ CHR '':'' # v \<in> set (js_split (CHR '';'') style)" "CHR '':'' \<notin> set name"
    "p = js_lower (js_trim name)" "raw = js_trim (strip_important v)" by blast
  have "\<forall>c \<in> set name. c \<noteq> CHR '':''" using d(2) by auto
  then have "split_declaration (name @ CHR '':'' # v) = Some (p, raw)"
    using d(3,4) by (simp add: split_declaration_def takeWhile_append2 dropWhile_append2)
  then show "(p, raw) \<in> set (style_declarations style)"
    using d(1) by (force simp: style_declarations_def List.map_filter_def)
qed

text \<open>C7 Reading a style throws exactly when one of its declarations, cut at the semicolons and at the first colon, has a value and
  a name that is \<open>constructor\<close> or \<open>__proto__\<close> in whatever case and with whatever blanks around it. Every object inherits ten more
  names (\<open>toString\<close>, \<open>valueOf\<close>, \<open>hasOwnProperty\<close> and others), but those are not in lower case, so a lowered name never is one.\<close>

theorem style_throws_exactly:
  "readStyle style ctx = None \<longleftrightarrow>
     (\<exists>name v. name @ CHR '':'' # v \<in> set (js_split (CHR '';'') style) \<and> CHR '':'' \<notin> set name \<and>
        js_lower (js_trim name) \<in> {''constructor'', ''__proto__''} \<and> js_trim (strip_important v) \<noteq> [])"
proof -
  have one: "read_declaration c (js_lower p, raw) = None \<longleftrightarrow> js_lower p \<in> {''constructor'', ''__proto__''} \<and> raw \<noteq> []" for c p raw
    using lower_inherited [of "js_lower p"]
    by (auto simp: read_declaration_def split: option.splits read_value.splits member.splits)
  have "readStyle style ctx = None \<longleftrightarrow> (\<exists>p raw. (p, raw) \<in> set (style_declarations style) \<and>
      read_declaration (case declaredFontSize style of None \<Rightarrow> ctx | Some x \<Rightarrow> ctx\<lparr>vc_fontSize := Some x\<rparr>) (p, raw) = None)"
    by (auto simp: readStyle_def Let_def read_all_throws)
  then show ?thesis unfolding in_declarations using one by blast
qed

subsection \<open>Adapting twice\<close>

definition grey :: "nat \<Rightarrow> string" where
  "grey n = ''#'' @ hex2 (int n) @ hex2 (int n) @ hex2 (int n)"

definition hex_digit_ok :: "char \<Rightarrow> nat \<Rightarrow> bool" where
  "hex_digit_ok d k \<longleftrightarrow> hex_char d \<and> hex_value d = int k \<and> js_lower [d] = [d] \<and> \<not> js_space d"

lemma hex_digits_ok: "k < 16 \<Longrightarrow> hex_digit_ok (''0123456789abcdef'' ! k) k"
proof -
  assume "k < 16"
  then have "k \<in> set [0..<16]" by simp
  moreover have "\<forall>k \<in> set [0..<16]. hex_digit_ok (''0123456789abcdef'' ! k) k" by code_simp
  ultimately show ?thesis by blast
qed

lemma keywords_plain: "\<forall>(k, v) \<in> set KEYWORDS. hd k \<noteq> CHR ''#''"
  by code_simp

lemma parse_grey:
  assumes "n < 256"
  shows "parseColor (grey n) = Some (Some (of_nat n), Some (of_nat n), Some (of_nat n))"
proof -
  define a b where "a = ''0123456789abcdef'' ! (n div 16)" and "b = ''0123456789abcdef'' ! (n mod 16)"
  have ok: "hex_digit_ok a (n div 16)" "hex_digit_ok b (n mod 16)"
    using assms unfolding a_def b_def by (simp_all add: hex_digits_ok less_mult_imp_div_less)
  have "nat (int n div 16) = n div 16" "nat (int n mod 16) = n mod 16" by (simp_all add: nat_div_distrib nat_mod_distrib)
  then have g: "grey n = [CHR ''#'', a, b, a, b, a, b]" unfolding grey_def hex2_def a_def b_def by simp
  have sp: "\<not> js_space (CHR ''#'')" "js_lower ''#'' = ''#''" by code_simp+
  have low: "js_lower (grey n) = grey n" and trim: "js_trim (grey n) = grey n"
    unfolding g using ok sp by (simp_all add: hex_digit_ok_def js_trim_def js_lower_def)
  have "map_of KEYWORDS (grey n) = None"
  proof -
    have "hd (grey n) = CHR ''#''" unfolding g by simp
    then show ?thesis using keywords_plain by (auto simp: map_of_eq_None_iff)
  qed
  moreover have "hex_byte a b = Some (of_nat n)"
  proof -
    have "16 * (n div 16) + n mod 16 = n" by simp
    then have "16 * int (n div 16) + int (n mod 16) = int n" by presburger
    moreover have "hex_value a = int (n div 16)" "hex_value b = int (n mod 16)" using ok by (simp_all only: hex_digit_ok_def)
    ultimately have "hex_byte a b = Some (of_int (int n))" by (simp only: hex_byte_def)
    then show ?thesis by (simp only: of_int_of_nat_eq)
  qed
  moreover have "grey n = CHR ''#'' # [a, b, a, b, a, b]" "list_all hex_char [a, b, a, b, a, b]" "length [a, b, a, b, a, b] = 6"
    "[a, b, a, b, a, b] ! 0 = a" "[a, b, a, b, a, b] ! 1 = b" "[a, b, a, b, a, b] ! 2 = a" "[a, b, a, b, a, b] ! 3 = b"
    "[a, b, a, b, a, b] ! 4 = a" "[a, b, a, b, a, b] ! 5 = b"
    using ok g by (simp_all add: hex_digit_ok_def)
  moreover define d where "d = [a, b, a, b, a, b]"
  ultimately have d: "map_of KEYWORDS (grey n) = None" "hex_byte a b = Some (of_nat n)" "grey n = CHR ''#'' # d"
    "list_all hex_char d" "length d = 6" "d ! 0 = a" "d ! 1 = b" "d ! 2 = a" "d ! 3 = b" "d ! 4 = a" "d ! 5 = b"
    by (simp_all only:)
  show ?thesis
    unfolding parseColor_def Let_def trim low d(1) option.case unfolding d(3) list.case using d(2,4-) by simp
qed

lemma grey_stays: "n < 42 \<Longrightarrow> adaptBackground (grey n) = None"
proof -
  assume n: "n < 42"
  let ?x = "Some (of_nat n :: rat)"
  have x: "(of_nat n :: rat) < 42" using n by simp
  have "n < 256" using n by simp
  then have "parseColor (grey n) = Some (?x, ?x, ?x)" by (rule parse_grey)
  moreover have "lightness (?x, ?x, ?x) = Some (of_nat n / 255)" by (simp add: lightness_def algebra_simps)
  moreover have "below (Some (of_nat n / 255)) (1 / 2)" using x by (simp add: below_def)
  ultimately show ?thesis unfolding adaptBackground_def by simp
qed

lemma colorHex_white: "colorHex (white_at (Some t)) = grey (nat (max 0 (min 255 (js_round (255 * t)))))"
  by (simp add: colorHex_def white_at_def hex_channel_def grey_def Let_def)

lemma nan_stays: "adaptBackground (colorHex (white_at None)) = None"
  by code_simp

lemma adapted_background_stays: "adaptBackground v = Some w \<Longrightarrow> adaptBackground w = None"
proof -
  assume "adaptBackground v = Some w"
  then obtain c where w: "w = colorHex (white_at (map_option (\<lambda>l. max (4 / 100) (16 / 100 - (l - 1 / 2) * (21 / 100))) (lightness c)))"
    and dark: "\<not> below (lightness c) (1 / 2)"
    by (auto simp: adaptBackground_def split: option.splits if_splits)
  show ?thesis
  proof (cases "lightness c")
    case None
    then show ?thesis using w nan_stays by simp
  next
    case (Some l)
    define t where "t = max (4 / 100) (16 / 100 - (l - 1 / 2) * (21 / 100 :: rat))"
    have "1 / 2 \<le> l" using dark Some by (simp add: below_def)
    then have "16 / 100 - (l - 1 / 2) * (21 / 100) \<le> (16 / 100 :: rat)" by simp
    then have t: "t \<le> 16 / 100" unfolding t_def max.bounded_iff by simp
    define n where "n = nat (max 0 (min 255 (js_round (255 * t))))"
    have "js_round (255 * t) < 42" using t unfolding js_round_def floor_less_iff by simp
    then have "n < 42" unfolding n_def by linarith
    moreover have "w = grey n" using w Some colorHex_white unfolding n_def t_def by simp
    ultimately show ?thesis using grey_stays by simp
  qed
qed

text \<open>A background adapted for the dark reader is left alone by a second pass. A foreground is not: the grey a first pass
  produced can be dark enough to be adapted again.\<close>

theorem adapting_twice:
  "(\<forall>v w. adaptBackground v = Some w \<longrightarrow> adaptBackground w = None) \<and>
   adaptForeground ''#4d4d4d'' = Some ''#b2b2b2'' \<and> adaptForeground ''#b2b2b2'' = Some ''#9e9e9e''"
proof (intro conjI allI impI)
  show "adaptForeground ''#4d4d4d'' = Some ''#b2b2b2''" "adaptForeground ''#b2b2b2'' = Some ''#9e9e9e''" by code_simp+
qed (rule adapted_background_stays)

lemma adapting_twice_witness: "adaptBackground ''#0e0e0e'' = None"
proof -
  have "adaptBackground ''white'' = Some ''#0e0e0e''" by code_simp
  then show ?thesis using adapting_twice by blast
qed

text \<open>The text of a colour is checked at its start only: what follows the first three numbers is kept as the sender wrote it,
  a reference to a remote resource included.\<close>

theorem colour_keeps_its_tail:
  "readStyle ''color:rgb(0,0,0) url(http://a)'' light_page = Some ''color:rgb(0,0,0) url(http://a)''"
  by code_simp

end
