(* ===== verification/Sanitize.thy ===== *)
theory Sanitize
  imports Style_Gate
begin

text \<open>
  The rules of a message's own style sheets (\<^verbatim>\<open>html/css.ts\<close>) and what the HTML reader makes of one element
  (\<^verbatim>\<open>html/sanitize.ts\<close>, the callback that prepares every tag). The HTML parser calls it with a lower-case tag name and
  the attributes; an object is an association list.
\<close>

subsection \<open>Selectors\<close>

record compound =
  cp_tag :: "string option"
  cp_classes :: "string list"
  cp_id :: "string option"
  cp_declarations :: string

record css_rules =
  cr_tags :: "(string \<times> string) list"
  cr_classes :: "(string \<times> string) list"
  cr_ids :: "(string \<times> string) list"
  cr_compounds :: "compound list"

definition emptyRules :: css_rules where
  "emptyRules = \<lparr>cr_tags = [], cr_classes = [], cr_ids = [], cr_compounds = []\<rparr>"

text \<open>\<open>[a-zA-Z][a-zA-Z0-9]*\<close> and \<open>[a-zA-Z_][\w-]*\<close>\<close>

definition word_char :: "char \<Rightarrow> bool" where
  "word_char c \<longleftrightarrow> is_letter c \<or> is_digit c \<or> c = CHR ''_'' \<or> c = CHR ''-''"

definition tag_name :: "string \<Rightarrow> bool" where
  "tag_name s \<longleftrightarrow> (case s of [] \<Rightarrow> False | c # r \<Rightarrow> is_letter c \<and> list_all (\<lambda>d. is_letter d \<or> is_digit d) r)"

definition css_name :: "string \<Rightarrow> bool" where
  "css_name s \<longleftrightarrow> (case s of [] \<Rightarrow> False | c # r \<Rightarrow> (is_letter c \<or> c = CHR ''_'') \<and> list_all word_char r)"

datatype bucket = Tag string | Class string | Id string

definition bucketFor :: "string \<Rightarrow> bucket option" where
  "bucketFor selector =
     (if tag_name selector then Some (Tag (js_lower selector))
      else case selector of
        c # r \<Rightarrow> (if c = CHR ''.'' \<and> css_name r then Some (Class r)
                else if c = CHR ''#'' \<and> css_name r then Some (Id r) else None)
      | [] \<Rightarrow> None)"

text \<open>The \<open>.class\<close> and \<open>#id\<close> parts of a compound selector, after its tag.\<close>

definition part_char :: "char \<Rightarrow> bool" where
  "part_char c \<longleftrightarrow> c = CHR ''.'' \<or> c = CHR ''#''"

function selector_parts :: "string \<Rightarrow> (char \<times> string) list option" where
  "selector_parts s =
     (case s of
        [] \<Rightarrow> Some []
      | c # r \<Rightarrow>
          (let name = takeWhile (\<lambda>d. \<not> part_char d) r
           in if part_char c \<and> css_name name
              then map_option (Cons (c, name)) (selector_parts (dropWhile (\<lambda>d. \<not> part_char d) r)) else None))"
  by pat_completeness auto
termination
proof (relation "measure length")
  fix s :: string and c r name
  assume "s = c # r"
  then show "(dropWhile (\<lambda>d. \<not> part_char d) r, s) \<in> measure length"
    using length_dropWhile_le [of "\<lambda>d. \<not> part_char d" r] by simp
qed simp

declare selector_parts.simps [simp del]

definition parseCompound :: "string \<Rightarrow> string \<Rightarrow> compound option" where
  "parseCompound selector declarations =
     (let tag = takeWhile (\<lambda>d. \<not> part_char d) selector
      in case selector_parts (dropWhile (\<lambda>d. \<not> part_char d) selector) of
           None \<Rightarrow> None
         | Some ps \<Rightarrow>
             if (if tag = [] then 2 \<le> length ps else tag_name tag \<and> ps \<noteq> [])
             then Some \<lparr>cp_tag = (if tag = [] then None else Some (js_lower tag)),
                        cp_classes = map snd (filter (\<lambda>p. fst p = CHR ''.'') ps),
                        cp_id = foldl (\<lambda>i (k, n). if k = CHR ''#'' then Some n else i) None ps,
                        cp_declarations = declarations\<rparr>
             else None)"

text \<open>One selector of a rule, filed with the declarations it carries.\<close>

definition append_rule :: "string \<Rightarrow> (string \<times> string) list \<Rightarrow> string \<Rightarrow> (string \<times> string) list" where
  "append_rule declarations m name =
     obj_set m name (case obj_get m name of
        None \<Rightarrow> declarations | Some e \<Rightarrow> if e = [] then declarations else e @ '';'' @ declarations)"

definition file_selector :: "string \<Rightarrow> css_rules \<Rightarrow> string \<Rightarrow> css_rules" where
  "file_selector declarations rules selector =
     (let trimmed = js_trim selector
      in if trimmed = [] then rules
         else case bucketFor trimmed of
           Some (Tag n) \<Rightarrow> rules\<lparr>cr_tags := append_rule declarations (cr_tags rules) n\<rparr>
         | Some (Class n) \<Rightarrow> rules\<lparr>cr_classes := append_rule declarations (cr_classes rules) n\<rparr>
         | Some (Id n) \<Rightarrow> rules\<lparr>cr_ids := append_rule declarations (cr_ids rules) n\<rparr>
         | None \<Rightarrow> (case parseCompound trimmed declarations of
             None \<Rightarrow> rules | Some c \<Rightarrow> rules\<lparr>cr_compounds := cr_compounds rules @ [c]\<rparr>))"

definition file_rule :: "css_rules \<Rightarrow> string \<times> string \<Rightarrow> css_rules" where
  "file_rule rules = (\<lambda>(selectors, block).
     if js_trim block = [] then rules
     else foldl (file_selector (js_trim block)) rules (js_split (CHR '','') selectors))"

subsection \<open>The declarations of an element\<close>

text \<open>\<open>replace(/;{2,}/g, ';').replace(/^;|;$/g, '')\<close>\<close>

fun squeeze_semicolons :: "string \<Rightarrow> string" where
  "squeeze_semicolons (c # d # cs) =
     (if c = CHR '';'' \<and> d = CHR '';'' then squeeze_semicolons (d # cs) else c # squeeze_semicolons (d # cs))"
| "squeeze_semicolons s = s"

definition trim_semicolons :: "string \<Rightarrow> string" where
  "trim_semicolons s =
     (let t = (case s of [] \<Rightarrow> [] | c # r \<Rightarrow> if c = CHR '';'' then r else s)
      in if t \<noteq> [] \<and> last t = CHR '';'' then butlast t else t)"

definition truthy :: "string option \<Rightarrow> string option" where
  "truthy x = (case x of None \<Rightarrow> None | Some v \<Rightarrow> if v = [] then None else Some v)"

definition own_classes :: "(string \<times> string) list \<Rightarrow> string list" where
  "own_classes attribs =
     (case truthy (obj_get attribs ''class'') of
        None \<Rightarrow> []
      | Some v \<Rightarrow> (if js_trim v = [] then [[]] else css_words v))"

definition compound_matches :: "string \<Rightarrow> string list \<Rightarrow> string option \<Rightarrow> compound \<Rightarrow> bool" where
  "compound_matches tag own elementId rule \<longleftrightarrow>
     (case cp_tag rule of None \<Rightarrow> True | Some t \<Rightarrow> t = js_lower tag) \<and>
     (case cp_id rule of None \<Rightarrow> True | Some i \<Rightarrow> elementId = Some i) \<and>
     list_all (\<lambda>name. name \<in> set own) (cp_classes rule)"

definition mergeDeclarations :: "string \<Rightarrow> (string \<times> string) list \<Rightarrow> css_rules \<Rightarrow> string option" where
  "mergeDeclarations tag attribs rules =
     (let own = own_classes attribs;
          elementId = map_option js_trim (obj_get attribs ''id'');
          opt = (\<lambda>x. case truthy x of None \<Rightarrow> [] | Some v \<Rightarrow> [v]);
          parts = opt (obj_get (cr_tags rules) (js_lower tag))
            @ concat (map (\<lambda>name. opt (obj_get (cr_classes rules) name)) own)
            @ (case truthy elementId of None \<Rightarrow> [] | Some i \<Rightarrow> opt (obj_get (cr_ids rules) i))
            @ map cp_declarations (filter (compound_matches tag own elementId) (cr_compounds rules))
            @ opt (obj_get attribs ''style'')
      in if parts = [] then None
         else Some (js_trim (trim_semicolons (squeeze_semicolons (strip_important (js_join '';'' parts))))))"

subsection \<open>Presentational attributes\<close>

definition face_char :: "char \<Rightarrow> bool" where
  "face_char c \<longleftrightarrow> is_letter c \<or> is_digit c \<or> c \<in> set ''_ ,-'' \<or> code_unit c \<in> {34, 39}"

definition PRESENTATIONAL :: "(string \<times> (string \<Rightarrow> string option)) list" where
  "PRESENTATIONAL =
     [(''align'', \<lambda>value. let v = js_lower (js_trim value)
         in if v \<in> set [''center'', ''left'', ''right''] then Some (''text-align:'' @ v) else None),
      (''bgcolor'', \<lambda>value. if parseColor (js_trim value) \<noteq> None then Some (''background-color:'' @ js_trim value) else None),
      (''color'', \<lambda>value. if parseColor (js_trim value) \<noteq> None then Some (''color:'' @ js_trim value) else None),
      (''face'', \<lambda>value. if value \<noteq> [] \<and> list_all face_char value then Some (''font-family:'' @ js_trim value) else None),
      (''width'', \<lambda>value. let v = js_trim value; n = takeWhile is_digit v; r = dropWhile is_digit v
         in if n = [] then None else if r = ''%'' then Some (''max-width:'' @ v)
            else if r = [] then Some (''max-width:'' @ v @ ''px'') else None)]"

definition presentationalStyle :: "(string \<times> string) list \<Rightarrow> string list" where
  "presentationalStyle attribs =
     List.map_filter (\<lambda>(name, toDeclaration). Option.bind (truthy (obj_get attribs name)) toDeclaration) PRESENTATIONAL"

subsection \<open>What the style says about the element\<close>

definition starts_declaration :: "(string \<Rightarrow> bool) \<Rightarrow> string \<Rightarrow> bool" where
  "starts_declaration P s \<longleftrightarrow>
     P (dropWhile js_space s) \<or>
     somewhere (\<lambda>t. case t of [] \<Rightarrow> False | c # r \<Rightarrow> c = CHR '';'' \<and> P (dropWhile js_space r)) s"

text \<open>\<open>name\s*:\s*word\<close> at the start of a text, whatever its case.\<close>

definition declares :: "string \<Rightarrow> string list \<Rightarrow> string \<Rightarrow> bool" where
  "declares name words s \<longleftrightarrow>
     (case drop_prefix name (ascii_lower s) of
        None \<Rightarrow> False
      | Some r \<Rightarrow> (case drop_prefix '':'' (dropWhile js_space r) of
            None \<Rightarrow> False
          | Some q \<Rightarrow> list_ex (\<lambda>w. drop_prefix w (dropWhile js_space q) \<noteq> None) words))"

definition POSITIONING :: "string \<Rightarrow> bool" where
  "POSITIONING = starts_declaration (\<lambda>s. declares ''position'' [''fixed''] s \<or> declares ''pointer-events'' [''none''] s)"

definition HIDDEN :: "string \<Rightarrow> bool" where
  "HIDDEN = starts_declaration (declares ''display'' [''none''])"

definition BOX_DISPLAY :: "string \<Rightarrow> bool" where
  "BOX_DISPLAY = starts_declaration (declares ''display'' [''inline-block'', ''block'', ''flex''])"

definition EXCLUDED_TAG :: string where
  "EXCLUDED_TAG = ''cryptmail-excluded''"

definition STACK_CLASS :: string where "STACK_CLASS = ''cm-stack''"
definition INLINE_CLASS :: string where "INLINE_CLASS = ''cm-inline''"
definition INLINE_ITEM_CLASS :: string where "INLINE_ITEM_CLASS = ''cm-inline-item''"

definition CONSUMED :: "string list" where
  "CONSUMED =
     [''class'', ''id'', ''data-cm-stack'', ''data-cm-inline'', ''data-cm-inline-item'', ''align'', ''bgcolor'', ''width'',
      ''height'', ''color'', ''face'', ''size'', ''style'']"

text \<open>\<open>/^https?:\/\//i\<close>\<close>

definition fetchable :: "string option \<Rightarrow> bool" where
  "fetchable src \<longleftrightarrow>
     (let s = ascii_lower (case src of None \<Rightarrow> [] | Some v \<Rightarrow> v)
      in drop_prefix ''http://'' s \<noteq> None \<or> drop_prefix ''https://'' s \<noteq> None)"

definition raw_style :: "css_rules \<Rightarrow> string \<Rightarrow> (string \<times> string) list \<Rightarrow> string" where
  "raw_style rules tagName attribs =
     js_join '';'' (filter (\<lambda>s. s \<noteq> []) (presentationalStyle attribs @
        (case mergeDeclarations tagName attribs rules of None \<Rightarrow> [] | Some m \<Rightarrow> [m])))"

text \<open>The callback for one element; \<open>None\<close> when reading its style throws.\<close>

definition transform_tag :: "css_rules \<Rightarrow> value_context \<Rightarrow> string \<Rightarrow> (string \<times> string) list \<Rightarrow> (string \<times> (string \<times> string) list) option" where
  "transform_tag rules ctx tagName attribs =
     (let raw = raw_style rules tagName attribs
      in if POSITIONING raw \<or> HIDDEN raw then Some (EXCLUDED_TAG, [])
         else Option.bind (readStyle raw ctx) (\<lambda>style.
           if tagName = ''img'' \<and> \<not> fetchable (obj_get attribs ''src'') then Some (EXCLUDED_TAG, [])
           else
             (let boxed = (tagName = ''span'' \<and> style \<noteq> [] \<and> BOX_DISPLAY style);
                  given = (\<lambda>name. case truthy (obj_get attribs name) of None \<Rightarrow> [] | Some v \<Rightarrow> [(name, v)]);
                  rest = filter (\<lambda>(name, _). name \<notin> set CONSUMED) attribs;
                  sized = (if tagName = ''img'' then rest @ given ''width'' @ given ''height'' else rest);
                  kept = (if style = [] then sized else sized @ [(''style'', style)]);
                  marked = (if truthy (obj_get attribs ''data-cm-stack'') \<noteq> None then Some STACK_CLASS
                            else if truthy (obj_get attribs ''data-cm-inline'') \<noteq> None then Some INLINE_CLASS
                            else if truthy (obj_get attribs ''data-cm-inline-item'') \<noteq> None then Some INLINE_ITEM_CLASS else None)
              in Some (if boxed then ''div'' else tagName,
                       kept @ (case marked of None \<Rightarrow> [] | Some c \<Rightarrow> [(''class'', c)])))))"

subsection \<open>What is left of an element\<close>

definition attribute_ok :: "string \<Rightarrow> string \<times> string \<Rightarrow> bool" where
  "attribute_ok tag = (\<lambda>(name, value).
     (if name = ''style'' then \<exists>ds. value = style_text ds \<and> list_all emitted_ok ds
      else if name = ''class'' then value \<in> set [STACK_CLASS, INLINE_CLASS, INLINE_ITEM_CLASS]
      else if name = ''width'' \<or> name = ''height'' then tag = ''img''
      else name \<notin> set CONSUMED))"

text \<open>C6 Every element of a prepared message is either excluded whole, or keeps its tag (a span that asked for a box becomes a
  div) and only attributes the reader vouches for: a style that passed the gate, a class of this module's own, a size on
  an image only, and nothing else of what the sender used for styling. An image survives only with an http or https
  source.\<close>

theorem prepared_elements:
  assumes "faces_ok ctx" "transform_tag rules ctx tag attribs = Some (tag', attribs')"
  shows "tag' = EXCLUDED_TAG \<and> attribs' = [] \<or>
    tag' \<in> {tag, ''div''} \<and> list_all (attribute_ok tag) attribs' \<and> (tag = ''img'' \<longrightarrow> fetchable (obj_get attribs ''src''))"
proof (cases "attribs' = [] \<and> tag' = EXCLUDED_TAG")
  case False
  define raw where "raw = raw_style rules tag attribs"
  have keep: "\<not> (POSITIONING raw \<or> HIDDEN raw)"
    using assms(2) False by (auto simp: transform_tag_def Let_def raw_def [symmetric])
  obtain style where style: "readStyle raw ctx = Some style"
    using assms(2) keep by (cases "readStyle raw ctx") (simp_all add: transform_tag_def Let_def raw_def [symmetric])
  have img: "\<not> (tag = ''img'' \<and> \<not> fetchable (obj_get attribs ''src''))"
  proof
    assume i: "tag = ''img'' \<and> \<not> fetchable (obj_get attribs ''src'')"
    have "transform_tag rules ctx tag attribs = Some (EXCLUDED_TAG, [])"
      unfolding transform_tag_def Let_def raw_def [symmetric] if_not_P [OF keep] style bind.bind_lunit if_P [OF i] ..
    then show False using assms(2) False by simp
  qed
  define given where "given = (\<lambda>name. case truthy (obj_get attribs name) of None \<Rightarrow> [] | Some v \<Rightarrow> [(name, v)])"
  define rest where "rest = filter (\<lambda>(name, _). name \<notin> set CONSUMED) attribs"
  define marked where "marked = (if truthy (obj_get attribs ''data-cm-stack'') \<noteq> None then Some STACK_CLASS
      else if truthy (obj_get attribs ''data-cm-inline'') \<noteq> None then Some INLINE_CLASS
      else if truthy (obj_get attribs ''data-cm-inline-item'') \<noteq> None then Some INLINE_ITEM_CLASS else None)"
  have out: "tag' = (if tag = ''span'' \<and> style \<noteq> [] \<and> BOX_DISPLAY style then ''div'' else tag)"
    "attribs' = (if style = [] then (if tag = ''img'' then rest @ given ''width'' @ given ''height'' else rest)
        else (if tag = ''img'' then rest @ given ''width'' @ given ''height'' else rest) @ [(''style'', style)])
      @ (case marked of None \<Rightarrow> [] | Some c \<Rightarrow> [(''class'', c)])"
    using assms(2) keep style img
    unfolding transform_tag_def Let_def raw_def [symmetric] given_def [symmetric] rest_def [symmetric] marked_def [symmetric]
    by (simp_all only: if_False bind.bind_lunit option.inject prod.inject)
  have consumed: "''style'' \<in> set CONSUMED" "''class'' \<in> set CONSUMED" "''width'' \<in> set CONSUMED" "''height'' \<in> set CONSUMED"
    by code_simp+
  have rest: "list_all (attribute_ok tag) rest"
    using consumed by (auto simp: rest_def list_all_iff attribute_ok_def)
  have given: "tag = ''img'' \<Longrightarrow> list_all (attribute_ok tag) (given ''width'' @ given ''height'')"
    by (auto simp: given_def attribute_ok_def split: option.split)
  have marked: "list_all (attribute_ok tag) (case marked of None \<Rightarrow> [] | Some c \<Rightarrow> [(''class'', c)])"
    by (simp add: marked_def attribute_ok_def split: option.split)
  have "attribute_ok tag (''style'', style)" using style_gate [OF assms(1) style] by (simp add: attribute_ok_def)
  then have "list_all (attribute_ok tag) attribs'"
    using rest given marked unfolding out(2) by (cases "tag = ''img''") simp_all
  moreover have "tag' \<in> {tag, ''div''}" using out(1) by simp
  ultimately show ?thesis using img by blast
qed simp

lemma prepared_elements_witness:
  "''div'' = EXCLUDED_TAG \<and> [(''title'', ''x''), (''style'', ''display:block'')] = [] \<or>
    ''div'' \<in> {''span'', ''div''} \<and> list_all (attribute_ok ''span'') [(''title'', ''x''), (''style'', ''display:block'')] \<and>
      (''span'' = ''img'' \<longrightarrow> fetchable (obj_get [(''title'', ''x''), (''id'', ''a'')] ''src''))"
proof (rule prepared_elements [where ctx = light_page and rules = "emptyRules\<lparr>cr_ids := [(''a'', ''display: block; left: 1'')]\<rparr>"])
  show "faces_ok light_page" by code_simp
  show "transform_tag (emptyRules\<lparr>cr_ids := [(''a'', ''display: block; left: 1'')]\<rparr>) light_page ''span''
      [(''title'', ''x''), (''id'', ''a'')] = Some (''div'', [(''title'', ''x''), (''style'', ''display:block'')])"
    by code_simp
qed

end
