(* ===== verification/Byte_Queue.thy ===== *)
theory Byte_Queue
  imports Base64
begin

text \<open>
  The queue of bytes a connection has received (\<^verbatim>\<open>mail/socket.ts\<close>): a growing array with a window. Its contract is that
  of a plain list of bytes, the locale \<open>byte_source\<close>, interpreted here on the array.
\<close>

subsection \<open>Typed arrays\<close>

definition subarray :: "'a list \<Rightarrow> nat \<Rightarrow> nat \<Rightarrow> 'a list" where
  "subarray a i j = take (j - i) (drop i a)"

text \<open>\<open>a.set(xs, at)\<close>, which throws a RangeError when the bytes do not fit; the pushes below always make room first.\<close>

definition array_set :: "'a list \<Rightarrow> nat \<Rightarrow> 'a list \<Rightarrow> 'a list" where
  "array_set a i xs = take i a @ xs @ drop (i + length xs) a"

lemma subarray_simps [simp]:
  "length (subarray a i j) = min (j - i) (length a - i)" "subarray a i i = []"
  by (simp_all add: subarray_def)

lemma length_array_set: "i + length xs \<le> length a \<Longrightarrow> length (array_set a i xs) = length a"
  by (simp add: array_set_def)

lemma subarray_set_behind:
  "i \<le> j \<Longrightarrow> j + length xs \<le> length a \<Longrightarrow> subarray (array_set a j xs) i (j + length xs) = subarray a i j @ xs"
  by (simp add: subarray_def array_set_def drop_take)

lemma subarray_drop: "subarray a (i + n) j = drop n (subarray a i j)"
  by (simp add: subarray_def drop_take ac_simps)

lemma subarray_prefix: "i + n \<le> j \<Longrightarrow> subarray a i (i + n) = take n (subarray a i j)"
  by (simp add: subarray_def min_def)

subsection \<open>The queue\<close>

record byte_queue =
  bq_buf :: "u8 list"
  bq_start :: nat
  bq_end :: nat

definition emptyQueue :: byte_queue where
  "emptyQueue = \<lparr>bq_buf = replicate 4096 0, bq_start = 0, bq_end = 0\<rparr>"

definition bq_push :: "byte_queue \<Rightarrow> u8 list \<Rightarrow> byte_queue" where
  "bq_push q chunk =
     (let q = (if length (bq_buf q) < bq_end q + length chunk
               then let n = bq_end q - bq_start q;
                        next_buf = (if length (bq_buf q) < n + length chunk
                                    then replicate (max (length (bq_buf q) * 2) (n + length chunk)) 0 else bq_buf q)
                    in \<lparr>bq_buf = array_set next_buf 0 (subarray (bq_buf q) (bq_start q) (bq_end q)), bq_start = 0, bq_end = n\<rparr>
               else q)
      in \<lparr>bq_buf = array_set (bq_buf q) (bq_end q) chunk, bq_start = bq_start q, bq_end = bq_end q + length chunk\<rparr>)"

definition bq_length :: "byte_queue \<Rightarrow> nat" where
  "bq_length q = bq_end q - bq_start q"

function crlf_from :: "u8 list \<Rightarrow> nat \<Rightarrow> nat \<Rightarrow> nat option" where
  "crlf_from buf i stop =
     (if i + 1 < stop then (if buf ! i = 13 \<and> buf ! (i + 1) = 10 then Some i else crlf_from buf (i + 1) stop) else None)"
  by pat_completeness auto
termination by (relation "measure (\<lambda>(_, i, stop). stop - i)") simp_all

declare crlf_from.simps [simp del]

definition indexOfCrlf :: "byte_queue \<Rightarrow> nat option" where
  "indexOfCrlf q = map_option (\<lambda>i. i - bq_start q) (crlf_from (bq_buf q) (bq_start q) (bq_end q))"

definition bq_peek :: "byte_queue \<Rightarrow> nat \<Rightarrow> nat \<Rightarrow> u8 list" where
  "bq_peek q i j = subarray (bq_buf q) (bq_start q + i) (bq_start q + j)"

definition bq_take :: "byte_queue \<Rightarrow> nat \<Rightarrow> u8 list \<times> byte_queue" where
  "bq_take q n =
     (let start = bq_start q + n
      in (subarray (bq_buf q) (bq_start q) start,
          if start = bq_end q then q\<lparr>bq_start := 0, bq_end := 0\<rparr> else q\<lparr>bq_start := start\<rparr>))"

subsection \<open>The contract\<close>

fun find_crlf :: "u8 list \<Rightarrow> nat option" where
  "find_crlf (a # b # bs) = (if a = 13 \<and> b = 10 then Some 0 else map_option Suc (find_crlf (b # bs)))"
| "find_crlf _ = None"

lemma find_crlf_bound: "find_crlf bs = Some i \<Longrightarrow> i + 2 \<le> length bs"
  by (induction bs arbitrary: i rule: find_crlf.induct) (auto split: if_splits)

lemma find_crlf_append: "find_crlf bs = Some i \<Longrightarrow> find_crlf (bs @ cs) = Some i"
  by (induction bs arbitrary: i rule: find_crlf.induct) (auto split: if_splits)

locale byte_source =
  fixes empty :: 'q and push :: "'q \<Rightarrow> u8 list \<Rightarrow> 'q" and size_of :: "'q \<Rightarrow> nat" and crlf :: "'q \<Rightarrow> nat option"
    and peek :: "'q \<Rightarrow> nat \<Rightarrow> nat \<Rightarrow> u8 list" and take_front :: "'q \<Rightarrow> nat \<Rightarrow> u8 list \<times> 'q"
    and bytes :: "'q \<Rightarrow> u8 list" and ok :: "'q \<Rightarrow> bool"
  assumes ok_empty: "ok empty" and bytes_empty: "bytes empty = []"
    and ok_push: "ok q \<Longrightarrow> ok (push q c)" and bytes_push: "ok q \<Longrightarrow> bytes (push q c) = bytes q @ c"
    and size_bytes: "ok q \<Longrightarrow> size_of q = length (bytes q)"
    and crlf_bytes: "ok q \<Longrightarrow> crlf q = find_crlf (bytes q)"
    and peek_bytes: "ok q \<Longrightarrow> i \<le> j \<Longrightarrow> j \<le> length (bytes q) \<Longrightarrow> peek q i j = take (j - i) (drop i (bytes q))"
    and take_bytes: "ok q \<Longrightarrow> n \<le> length (bytes q) \<Longrightarrow>
      ok (snd (take_front q n)) \<and> fst (take_front q n) = take n (bytes q) \<and> bytes (snd (take_front q n)) = drop n (bytes q)"
begin

text \<open>However the bytes arrive, the queue holds their concatenation.\<close>

lemma pushes: "ok q \<Longrightarrow> ok (foldl push q cs) \<and> bytes (foldl push q cs) = bytes q @ concat cs"
  by (induction cs arbitrary: q) (simp_all add: ok_push bytes_push)

text \<open>Taking in two steps is taking at once.\<close>

lemma take_twice:
  assumes "ok q" "m + n \<le> length (bytes q)"
  shows "bytes (snd (take_front (snd (take_front q m)) n)) = drop (m + n) (bytes q)"
proof -
  have "m \<le> length (bytes q)" using assms(2) by simp
  note m = take_bytes [OF assms(1) this]
  then have "n \<le> length (bytes (snd (take_front q m)))" using assms(2) by simp
  then show ?thesis using take_bytes [of "snd (take_front q m)" n] m by (simp add: add.commute)
qed

end

subsection \<open>The array meets the contract\<close>

definition bq_bytes :: "byte_queue \<Rightarrow> u8 list" where
  "bq_bytes q = subarray (bq_buf q) (bq_start q) (bq_end q)"

definition bq_ok :: "byte_queue \<Rightarrow> bool" where
  "bq_ok q \<longleftrightarrow> bq_start q \<le> bq_end q \<and> bq_end q \<le> length (bq_buf q)"

lemma length_bq_bytes: "bq_ok q \<Longrightarrow> length (bq_bytes q) = bq_end q - bq_start q"
  unfolding bq_ok_def bq_bytes_def subarray_simps by (rule min_absorb1) (simp add: diff_le_mono)

lemma bq_push_fits: "bq_ok q \<Longrightarrow> bq_ok (bq_push q c) \<and> bq_bytes (bq_push q c) = bq_bytes q @ c"
proof -
  assume ok: "bq_ok q"
  define n where "n = bq_end q - bq_start q"
  define buf where "buf = (if length (bq_buf q) < n + length c
      then replicate (max (length (bq_buf q) * 2) (n + length c)) 0 else bq_buf q)"
  define q' where "q' = (if length (bq_buf q) < bq_end q + length c
      then \<lparr>bq_buf = array_set buf 0 (subarray (bq_buf q) (bq_start q) (bq_end q)), bq_start = 0, bq_end = n\<rparr> else q)"
  have push: "bq_push q c = \<lparr>bq_buf = array_set (bq_buf q') (bq_end q') c, bq_start = bq_start q', bq_end = bq_end q' + length c\<rparr>"
    by (simp add: bq_push_def Let_def q'_def buf_def n_def)
  have len: "length (bq_bytes q) = n" using length_bq_bytes [OF ok] by (simp add: n_def)
  have room: "n + length c \<le> length buf" by (simp add: buf_def)
  have q': "bq_start q' \<le> bq_end q' \<and> bq_end q' + length c \<le> length (bq_buf q') \<and> bq_bytes q' = bq_bytes q"
  proof (cases "length (bq_buf q) < bq_end q + length c")
    case True
    have "bq_bytes q' = take n (bq_bytes q @ drop n buf)"
      using True len by (simp add: q'_def bq_bytes_def subarray_def array_set_def)
    then show ?thesis using True len room by (simp add: q'_def array_set_def bq_bytes_def [of q])
  next
    case False
    then show ?thesis using ok by (simp add: q'_def bq_ok_def)
  qed
  then show ?thesis using subarray_set_behind [of "bq_start q'" "bq_end q'" c "bq_buf q'"]
    by (simp add: push bq_ok_def bq_bytes_def length_array_set)
qed

lemma crlf_from_find:
  "i \<le> stop \<Longrightarrow> stop \<le> length buf \<Longrightarrow> crlf_from buf i stop = map_option (\<lambda>k. i + k) (find_crlf (subarray buf i stop))"
proof (induction buf i stop rule: crlf_from.induct)
  case (1 buf i stop)
  show ?case
  proof (cases "i + 1 < stop")
    case True
    then have s: "subarray buf i stop = buf ! i # subarray buf (i + 1) stop" "subarray buf (i + 1) stop = buf ! (i + 1) # subarray buf (i + 2) stop"
      using 1(3) by (simp_all add: subarray_def Cons_nth_drop_Suc Suc_diff_Suc take_Suc_conv_app_nth flip: Cons_nth_drop_Suc take_Suc_Cons)
    show ?thesis
    proof (cases "buf ! i = 13 \<and> buf ! (i + 1) = 10")
      case True
      then show ?thesis using \<open>i + 1 < stop\<close> s by (subst crlf_from.simps) simp
    next
      case False
      have "find_crlf (subarray buf i stop) = map_option Suc (find_crlf (subarray buf (i + 1) stop))"
        unfolding s(1) unfolding s(2) using False by auto
      moreover have "crlf_from buf i stop = crlf_from buf (i + 1) stop"
        using False \<open>i + 1 < stop\<close> by (subst crlf_from.simps) auto
      ultimately show ?thesis using 1(1) [OF True False] True 1(3) by (simp add: option.map_comp o_def)
    qed
  next
    case False
    then have "length (subarray buf i stop) \<le> 1" by simp
    then have "find_crlf (subarray buf i stop) = None"
      by (cases "subarray buf i stop" rule: find_crlf.cases) simp_all
    then show ?thesis using False by (subst crlf_from.simps) simp
  qed
qed

interpretation bq: byte_source emptyQueue bq_push bq_length indexOfCrlf bq_peek bq_take bq_bytes bq_ok
proof unfold_locales
  show "bq_ok emptyQueue" "bq_bytes emptyQueue = []" by (simp_all add: bq_ok_def bq_bytes_def emptyQueue_def)
next
  fix q :: byte_queue and c
  assume "bq_ok q"
  then show "bq_ok (bq_push q c)" "bq_bytes (bq_push q c) = bq_bytes q @ c" by (simp_all add: bq_push_fits)
next
  fix q :: byte_queue
  assume ok: "bq_ok q"
  then show "bq_length q = length (bq_bytes q)" by (simp add: bq_length_def length_bq_bytes)
  show "indexOfCrlf q = find_crlf (bq_bytes q)"
    using ok crlf_from_find [of "bq_start q" "bq_end q" "bq_buf q"]
    by (simp add: indexOfCrlf_def bq_bytes_def bq_ok_def option.map_comp o_def option.map_ident)
next
  fix q :: byte_queue and i j
  assume ok: "bq_ok q" and ij: "i \<le> j" "j \<le> length (bq_bytes q)"
  then have "j - i \<le> bq_end q - bq_start q - i" by (simp add: length_bq_bytes diff_le_mono)
  then show "bq_peek q i j = take (j - i) (drop i (bq_bytes q))"
    by (simp add: bq_peek_def bq_bytes_def subarray_def drop_take min_absorb1 ac_simps)
next
  fix q :: byte_queue and n
  assume ok: "bq_ok q" and n: "n \<le> length (bq_bytes q)"
  then have len: "bq_start q + n \<le> bq_end q" using n length_bq_bytes [OF ok] unfolding bq_ok_def by linarith
  have "fst (bq_take q n) = take n (bq_bytes q)"
    using len by (simp add: bq_take_def Let_def bq_bytes_def subarray_prefix)
  moreover have "bq_ok (snd (bq_take q n))" using ok len by (simp add: bq_take_def Let_def bq_ok_def)
  moreover have "bq_bytes (snd (bq_take q n)) = drop n (bq_bytes q)"
    using len by (simp add: bq_take_def Let_def bq_bytes_def subarray_drop [symmetric])
  ultimately show "bq_ok (snd (bq_take q n)) \<and> fst (bq_take q n) = take n (bq_bytes q) \<and>
      bq_bytes (snd (bq_take q n)) = drop n (bq_bytes q)" by blast
qed

end
