(* ===== verification/Imap_Wire.thy ===== *)
theory Imap_Wire
  imports Byte_Queue Css_Text Transfer_Encoding
begin

text \<open>
  IMAP on the wire (\<^verbatim>\<open>mail/imapWire.ts\<close>): cutting responses out of a byte stream, their tokens, and writing command
  arguments. A line is read as one character per byte; text decoded from UTF-8 is a list of UTF-16 units.
\<close>

datatype imap_part = Line string | Octets "u8 list"

datatype imap_value = Text "utf16 list" | Bytes "u8 list" | Nil_Value | Items "imap_value list"

record imap_response =
  ir_tag :: string
  ir_kind :: string
  ir_num :: "nat option"
  ir_code :: "string option"
  ir_text :: string
  ir_values :: "imap_value list"

definition STATUS :: "string list" where
  "STATUS = [''OK'', ''NO'', ''BAD'', ''BYE'', ''PREAUTH'']"

definition bytesToLatin1 :: "u8 list \<Rightarrow> string" where
  "bytesToLatin1 bs = map (\<lambda>b. char_of (unat b)) bs"

text \<open>\<open>toUpperCase\<close> within Latin-1; the two letters whose capitals lie outside it are left as they are.\<close>

definition js_upper :: "string \<Rightarrow> string" where
  "js_upper s = concat (map (\<lambda>c. let n = code_unit c in
     if n = 223 then ''SS''
     else if 97 \<le> n \<and> n \<le> 122 \<or> 224 \<le> n \<and> n \<le> 254 \<and> n \<noteq> 247 then [char_of (n - 32)] else [c]) s)"

subsection \<open>Tokens\<close>

text \<open>\<open>/\{(\d+)\+?\}$/\<close>: the size of the literal a line announces at its end; the second variant is anchored at the start too.\<close>

definition literal_size :: "string \<Rightarrow> nat option" where
  "literal_size line =
     (case rev line of
        c # r \<Rightarrow>
          (let r = (case r of d # q \<Rightarrow> if d = CHR ''+'' then q else r | [] \<Rightarrow> []);
               ds = takeWhile is_digit r; q = dropWhile is_digit r
           in if c = CHR ''}'' \<and> ds \<noteq> [] \<and> q \<noteq> [] \<and> hd q = CHR ''{'' then Some (nat (digits_value (rev ds))) else None)
      | [] \<Rightarrow> None)"

definition literal_marker :: "string \<Rightarrow> bool" where
  "literal_marker s \<longleftrightarrow>
     (let ds = takeWhile is_digit (tl s); r = dropWhile is_digit (tl s)
      in s \<noteq> [] \<and> hd s = CHR ''{'' \<and> ds \<noteq> [] \<and> (r = ''}'' \<or> r = ''+}''))"

text \<open>\<open>latin1ToUtf8\<close>\<close>

definition byte_of_char :: "char \<Rightarrow> u8" where
  "byte_of_char c = of_nat (code_unit c)"

definition latin1ToUtf8 :: "string \<Rightarrow> utf16 list" where
  "latin1ToUtf8 raw =
     (if list_all (\<lambda>c. code_unit c < 128) raw then map unit_of_char raw else bytesToUtf8 (map byte_of_char raw))"

text \<open>A quoted string, after its opening quote: its text, and what follows the closing quote.\<close>

fun read_quoted :: "string \<Rightarrow> string \<times> string" where
  "read_quoted [] = ([], [])"
| "read_quoted [c] = (if c = CHR 34 then ([], []) else ([c], []))"
| "read_quoted (c # d # ds) =
     (if c = CHR 34 then ([], d # ds)
      else if c = CHR 92 then (let (raw, rest) = read_quoted ds in (d # raw, rest))
      else (let (raw, rest) = read_quoted (d # ds) in (c # raw, rest)))"

lemma read_quoted_rest: "length (snd (read_quoted s)) \<le> length s"
  by (induction s rule: read_quoted.induct) (auto simp: split_def Let_def)

text \<open>An atom: up to a space or a parenthesis outside brackets.\<close>

fun read_atom :: "nat \<Rightarrow> string \<Rightarrow> string \<times> string" where
  "read_atom depth [] = ([], [])"
| "read_atom depth (c # cs) =
     (if c = CHR ''['' then (let (a, r) = read_atom (depth + 1) cs in (c # a, r))
      else if c = CHR '']'' then (let (a, r) = read_atom (depth - 1) cs in (c # a, r))
      else if depth = 0 \<and> (c = CHR '' '' \<or> c = CHR ''('' \<or> c = CHR '')'') then ([], c # cs)
      else (let (a, r) = read_atom depth cs in (c # a, r)))"

lemma read_atom_rest: "length (snd (read_atom d s)) \<le> length s"
  by (induction d s rule: read_atom.induct) (auto simp: split_def Let_def)

text \<open>The stack of open lists, innermost first, each in reverse; the last is the root. Closing a list puts it into the one
  around it; an unmatched closing parenthesis is skipped.\<close>

type_synonym value_stack = "imap_value list list"

definition push_value :: "imap_value \<Rightarrow> value_stack \<Rightarrow> value_stack" where
  "push_value v stack = (case stack of [] \<Rightarrow> [[v]] | inner # below \<Rightarrow> (v # inner) # below)"

definition close_list :: "value_stack \<Rightarrow> value_stack" where
  "close_list stack = (case stack of inner # outer # below \<Rightarrow> (Items (rev inner) # outer) # below | _ \<Rightarrow> stack)"

fun close_all :: "value_stack \<Rightarrow> imap_value list" where
  "close_all (inner # outer # below) = close_all ((Items (rev inner) # outer) # below)"
| "close_all [vs] = rev vs"
| "close_all [] = []"

definition atom_value :: "string \<Rightarrow> imap_value" where
  "atom_value atom = (if ascii_lower atom = ''nil'' then Nil_Value else Text (map unit_of_char atom))"

function tokenize_line :: "string \<Rightarrow> value_stack \<Rightarrow> value_stack" where
  "tokenize_line s stack =
     (case s of
        [] \<Rightarrow> stack
      | c # cs \<Rightarrow>
          if c = CHR '' '' then tokenize_line cs stack
          else if c = CHR ''('' then tokenize_line cs ([] # stack)
          else if c = CHR '')'' then tokenize_line cs (close_list stack)
          else if c = CHR 34
          then (let (raw, rest) = read_quoted cs in tokenize_line rest (push_value (Text (latin1ToUtf8 raw)) stack))
          else if c = CHR ''{'' \<and> literal_marker s then stack
          else (let (atom, rest) = read_atom 0 s in tokenize_line rest (push_value (atom_value atom) stack)))"
  by pat_completeness auto
termination
proof (relation "measure (length \<circ> fst)")
  fix s c cs and stack :: value_stack and x :: "string \<times> string" and raw rest
  assume s: "s = c # cs" and x: "x = read_quoted cs" "(raw, rest) = x"
  have "length rest \<le> length cs" using read_quoted_rest [of cs] x by (metis snd_conv)
  then show "((rest, push_value (Text (latin1ToUtf8 raw)) stack), s, stack) \<in> measure (length \<circ> fst)" using s by simp
next
  fix s c cs and stack :: value_stack and x :: "string \<times> string" and atom rest
  assume s: "s = c # cs" and c: "c \<noteq> CHR '' ''" "c \<noteq> CHR ''(''" "c \<noteq> CHR '')''" and x: "x = read_atom 0 s" "(atom, rest) = x"
  have "length (snd (read_atom 0 (c # cs))) \<le> length cs"
    using c read_atom_rest by (auto simp: split_def Let_def)
  then have "length rest \<le> length cs" using x s by (metis snd_conv)
  then show "((rest, push_value (atom_value atom) stack), s, stack) \<in> measure (length \<circ> fst)" using s by simp
qed auto

declare tokenize_line.simps [simp del]

fun tokenize_part :: "value_stack \<Rightarrow> imap_part \<Rightarrow> value_stack" where
  "tokenize_part stack (Line s) = tokenize_line s stack"
| "tokenize_part stack (Octets bs) = push_value (Bytes bs) stack"

definition tokenize :: "imap_part list \<Rightarrow> imap_value list" where
  "tokenize parts = close_all (foldl tokenize_part [[]] parts)"

definition asText :: "imap_value option \<Rightarrow> utf16 list" where
  "asText v = (case v of Some (Text t) \<Rightarrow> t | Some (Bytes bs) \<Rightarrow> bytesToUtf8 bs | _ \<Rightarrow> [])"

subsection \<open>Responses\<close>

definition takeWord :: "string \<Rightarrow> string \<times> string" where
  "takeWord s = (takeWhile (\<lambda>c. c \<noteq> CHR '' '') s, drop 1 (dropWhile (\<lambda>c. c \<noteq> CHR '' '') s))"

definition splitCode :: "string \<Rightarrow> string option \<times> string" where
  "splitCode rest =
     (case rest of
        c # r \<Rightarrow>
          (let code = takeWhile (\<lambda>d. d \<noteq> CHR '']'') r; q = dropWhile (\<lambda>d. d \<noteq> CHR '']'') r
           in if c = CHR ''['' \<and> q \<noteq> []
              then (Some code, case tl q of d # t \<Rightarrow> if js_space d then t else d # t | [] \<Rightarrow> [])
              else (None, rest))
      | [] \<Rightarrow> (None, []))"

definition parseResponse :: "imap_part list \<Rightarrow> imap_response" where
  "parseResponse parts =
     (let first = (case parts of Line s # _ \<Rightarrow> s | _ \<Rightarrow> []); (tag, rest) = takeWord first
      in if tag = ''+''
         then (let (code, text) = splitCode rest
               in \<lparr>ir_tag = tag, ir_kind = ''CONTINUE'', ir_num = None, ir_code = code, ir_text = text, ir_values = []\<rparr>)
         else
           (let (w, r) = takeWord rest;
                numbered = (w \<noteq> [] \<and> list_all is_digit w);
                num = (if numbered then Some (nat (digits_value w)) else None);
                (w, r) = (if numbered then takeWord r else (w, r));
                kind = js_upper w
            in if kind \<in> set STATUS
               then (let (code, text) = splitCode r
                     in \<lparr>ir_tag = tag, ir_kind = kind, ir_num = num, ir_code = code, ir_text = text, ir_values = []\<rparr>)
               else \<lparr>ir_tag = tag, ir_kind = kind, ir_num = num, ir_code = None, ir_text = [],
                     ir_values = tokenize (Line r # tl parts)\<rparr>))"

subsection \<open>The reader\<close>

record response_reader =
  rr_queue :: byte_queue
  rr_parts :: "imap_part list"

definition newReader :: response_reader where
  "newReader = \<lparr>rr_queue = emptyQueue, rr_parts = []\<rparr>"

lemma crlf_from_Some: "crlf_from buf i stop = Some k \<Longrightarrow> i \<le> k \<and> k + 1 < stop"
proof (induction buf i stop rule: crlf_from.induct)
  case (1 buf i stop)
  have "crlf_from buf i stop = (if i + 1 < stop then (if buf ! i = 13 \<and> buf ! (i + 1) = 10 then Some i else crlf_from buf (i + 1) stop) else None)"
    by (rule crlf_from.simps)
  then show ?case using 1 by (auto split: if_splits)
qed

lemma take_shorter: "indexOfCrlf q = Some eol \<Longrightarrow> bq_length (snd (bq_take q (eol + 2))) < bq_length q"
proof -
  assume "indexOfCrlf q = Some eol"
  then obtain k where "crlf_from (bq_buf q) (bq_start q) (bq_end q) = Some k" by (auto simp: indexOfCrlf_def)
  then have "bq_start q < bq_end q" using crlf_from_Some by fastforce
  then show ?thesis by (auto simp: bq_take_def bq_length_def Let_def)
qed

lemma take_not_longer: "bq_length (snd (bq_take q n)) \<le> bq_length q"
  by (auto simp: bq_take_def bq_length_def Let_def)

function drain :: "byte_queue \<Rightarrow> imap_part list \<Rightarrow> imap_response list \<times> response_reader" where
  "drain q parts =
     (case indexOfCrlf q of
        None \<Rightarrow> ([], \<lparr>rr_queue = q, rr_parts = parts\<rparr>)
      | Some eol \<Rightarrow>
          let line = bytesToLatin1 (bq_peek q 0 eol)
          in case literal_size line of
               Some n \<Rightarrow>
                 if bq_length q < eol + 2 + n then ([], \<lparr>rr_queue = q, rr_parts = parts\<rparr>)
                 else let (_, q) = bq_take q (eol + 2); (literal, q) = bq_take q n
                      in drain q (parts @ [Line line, Octets literal])
             | None \<Rightarrow>
                 let (_, q) = bq_take q (eol + 2); (done, reader) = drain q []
                 in (parseResponse (parts @ [Line line]) # done, reader))"
  by pat_completeness auto
termination
proof (relation "measure (bq_length \<circ> fst)")
  fix q parts eol line n xa x y xb q' literal
  assume "indexOfCrlf q = Some eol" "xa = bq_take q (eol + 2)" "(x, q') = xa" "xb = bq_take q' n" "(literal, y) = xb"
  then have "bq_length q' < bq_length q" "bq_length y \<le> bq_length q'"
    using take_shorter take_not_longer by (metis snd_conv)+
  then show "((y, parts @ [Line line, Octets literal]), q, parts) \<in> measure (bq_length \<circ> fst)" by simp
next
  fix q parts eol line xa x y
  assume "indexOfCrlf q = Some eol" "xa = bq_take q (eol + 2)" "(x, y) = xa"
  then have "bq_length y < bq_length q" using take_shorter by (metis snd_conv)
  then show "((y, []), q, parts :: imap_part list) \<in> measure (bq_length \<circ> fst)" by simp
qed simp

declare drain.simps [simp del]

definition reader_push :: "response_reader \<Rightarrow> u8 list \<Rightarrow> imap_response list \<times> response_reader" where
  "reader_push r chunk = drain (bq_push (rr_queue r) chunk) (rr_parts r)"

definition reader_buffered :: "response_reader \<Rightarrow> nat" where
  "reader_buffered r = bq_length (rr_queue r)"

fun feed :: "response_reader \<Rightarrow> u8 list list \<Rightarrow> imap_response list \<times> response_reader" where
  "feed r [] = ([], r)"
| "feed r (c # cs) = (let (done, r) = reader_push r c; (later, r) = feed r cs in (done @ later, r))"

subsection \<open>Writing\<close>

datatype command_part = Plain string | Literal "u8 list"

definition quote_char :: "char \<Rightarrow> string" where
  "quote_char c = (if c = CHR 92 \<or> c = CHR 34 then [CHR 92, c] else [c])"

definition astring :: "utf16 list \<Rightarrow> command_part" where
  "astring value =
     (if list_all (\<lambda>u. 0x20 \<le> u \<and> u \<le> 0x7e) value
      then Plain (CHR 34 # concat (map (\<lambda>u. quote_char (char_of (unat u))) value) @ [CHR 34])
      else Literal (utf8ToBytes value))"

text \<open>\<open>uidSet\<close>: the runs of consecutive numbers of the sorted set, then their text.\<close>

fun run_end :: "nat \<Rightarrow> nat list \<Rightarrow> nat \<times> nat list" where
  "run_end a [] = (a, [])"
| "run_end a (b # us) = (if b = a + 1 then run_end b us else (a, b # us))"

lemma run_end_shorter: "length (snd (run_end a us)) \<le> length us"
  by (induction a us rule: run_end.induct) auto

function uid_runs :: "nat list \<Rightarrow> (nat \<times> nat) list" where
  "uid_runs [] = []"
| "uid_runs (a # us) = (let (b, rest) = run_end a us in (a, b) # uid_runs rest)"
  by pat_completeness auto
termination
proof (relation "measure length")
  fix a :: nat and us x b rest
  assume "x = run_end a us" "(b, rest) = x"
  then have "length rest \<le> length us" using run_end_shorter [of a us] by (metis snd_conv)
  then show "(rest, a # us) \<in> measure length" by simp
qed simp

definition run_text :: "nat \<times> nat \<Rightarrow> string" where
  "run_text = (\<lambda>(a, b). if a = b then decimal_digits a else decimal_digits a @ '':'' @ decimal_digits b)"

definition uidSet :: "nat list \<Rightarrow> string" where
  "uidSet uids = js_join '','' (map run_text (uid_runs (sorted_list_of_set (set uids))))"

end
