(* ===== verification/Imap_Laws.thy ===== *)
theory Imap_Laws
  imports Imap_Wire
begin

text \<open>
  What the IMAP reader and writer promise: the reader implements framing of the whole stream, whatever the chunks it
  arrives in; a well-framed stream is read back exactly; arguments and number sets are read back as they were meant.
\<close>

subsection \<open>Framing, as a function of the whole stream\<close>

function frames :: "imap_part list \<Rightarrow> u8 list \<Rightarrow> imap_response list \<times> imap_part list \<times> u8 list" where
  "frames parts bs =
     (case find_crlf bs of
        None \<Rightarrow> ([], parts, bs)
      | Some eol \<Rightarrow>
          let line = bytesToLatin1 (take eol bs)
          in case literal_size line of
               Some n \<Rightarrow>
                 if length bs < eol + 2 + n then ([], parts, bs)
                 else frames (parts @ [Line line, Octets (take n (drop (eol + 2) bs))]) (drop (eol + 2 + n) bs)
             | None \<Rightarrow> (let (done, rest) = frames [] (drop (eol + 2) bs) in (parseResponse (parts @ [Line line]) # done, rest)))"
  by pat_completeness auto
termination
  by (relation "measure (length \<circ> snd)") (auto dest!: find_crlf_bound)

declare frames.simps [simp del]

lemma frames_None: "find_crlf bs = None \<Longrightarrow> frames parts bs = ([], parts, bs)"
  by (subst frames.simps) simp

lemma frames_short:
  "find_crlf bs = Some eol \<Longrightarrow> literal_size (bytesToLatin1 (take eol bs)) = Some n \<Longrightarrow> length bs < eol + 2 + n \<Longrightarrow>
    frames parts bs = ([], parts, bs)"
  by (subst frames.simps) simp

lemma frames_literal:
  "find_crlf bs = Some eol \<Longrightarrow> literal_size (bytesToLatin1 (take eol bs)) = Some n \<Longrightarrow> eol + 2 + n \<le> length bs \<Longrightarrow>
    frames parts bs =
      frames (parts @ [Line (bytesToLatin1 (take eol bs)), Octets (take n (drop (eol + 2) bs))]) (drop (eol + 2 + n) bs)"
  by (subst frames.simps) (simp add: Let_def not_less)

lemma frames_line:
  "find_crlf bs = Some eol \<Longrightarrow> literal_size (bytesToLatin1 (take eol bs)) = None \<Longrightarrow>
    frames parts bs = (parseResponse (parts @ [Line (bytesToLatin1 (take eol bs))]) # fst (frames [] (drop (eol + 2) bs)),
      snd (frames [] (drop (eol + 2) bs)))"
  by (subst frames.simps) (simp add: Let_def split_def)

lemmas frames_steps = frames_None frames_short frames_literal frames_line

subsection \<open>The reader implements it\<close>

definition reader_state :: "response_reader \<Rightarrow> imap_part list \<times> u8 list" where
  "reader_state r = (rr_parts r, bq_bytes (rr_queue r))"

lemma drain_frames:
  "bq_ok q \<Longrightarrow> frames parts (bq_bytes q) = (fst (drain q parts), reader_state (snd (drain q parts))) \<and> bq_ok (rr_queue (snd (drain q parts)))"
proof (induction q parts rule: drain.induct)
  case (1 q parts)
  note ok = \<open>bq_ok q\<close>
  note crlf = bq.crlf_bytes [OF ok]
  show ?case
  proof (cases "indexOfCrlf q")
    case None
    then have "drain q parts = ([], \<lparr>rr_queue = q, rr_parts = parts\<rparr>)" by (subst drain.simps) simp
    then show ?thesis using None crlf ok by (simp add: frames_None reader_state_def)
  next
    case (Some eol)
    then have find: "find_crlf (bq_bytes q) = Some eol" using crlf by simp
    note bound = find_crlf_bound [OF find]
    define line where "line = bytesToLatin1 (bq_peek q 0 eol)"
    have line: "line = bytesToLatin1 (take eol (bq_bytes q))"
      using bq.peek_bytes [OF ok, of 0 eol] bound by (simp add: line_def)
    define q1 where "q1 = snd (bq_take q (eol + 2))"
    have q1: "bq_ok q1" "bq_bytes q1 = drop (eol + 2) (bq_bytes q)" using bq.take_bytes [OF ok bound] by (simp_all add: q1_def)
    show ?thesis
    proof (cases "literal_size line")
      case none: None
      have d: "drain q parts = (parseResponse (parts @ [Line line]) # fst (drain q1 []), snd (drain q1 []))"
        using Some none by (subst drain.simps) (simp add: Let_def split_def line_def q1_def)
      have "bq_ok q1 \<Longrightarrow> frames [] (bq_bytes q1) = (fst (drain q1 []), reader_state (snd (drain q1 []))) \<and> bq_ok (rr_queue (snd (drain q1 [])))"
        using 1(1) [OF Some line_def none, of "bq_take q (eol + 2)" "fst (bq_take q (eol + 2))" q1] by (simp add: q1_def)
      then show ?thesis using q1 frames_line [OF find] none line d by simp
    next
      case literal: (Some n)
      have size: "bq_length q = length (bq_bytes q)" using ok by (rule bq.size_bytes)
      show ?thesis
      proof (cases "bq_length q < eol + 2 + n")
        case True
        then have "drain q parts = ([], \<lparr>rr_queue = q, rr_parts = parts\<rparr>)"
          using Some literal by (subst drain.simps) (simp add: Let_def line_def)
        then show ?thesis using True frames_short [OF find, of n] literal line size ok by (simp add: reader_state_def)
      next
        case False
        define q2 where "q2 = snd (bq_take q1 n)"
        have "n \<le> length (bq_bytes q1)" using False size q1(2) by simp
        note t = bq.take_bytes [OF q1(1) this]
        have q2: "bq_ok q2" "bq_bytes q2 = drop (eol + 2 + n) (bq_bytes q)" "fst (bq_take q1 n) = take n (drop (eol + 2) (bq_bytes q))"
          using t q1(2) by (simp_all add: q2_def add.commute)
        let ?parts = "parts @ [Line line, Octets (fst (bq_take q1 n))]"
        have d: "drain q parts = drain q2 ?parts"
          using Some literal False by (subst drain.simps) (simp add: Let_def split_def line_def q1_def q2_def)
        have "bq_ok q2 \<Longrightarrow> frames ?parts (bq_bytes q2) = (fst (drain q2 ?parts), reader_state (snd (drain q2 ?parts))) \<and>
            bq_ok (rr_queue (snd (drain q2 ?parts)))"
          using 1(2) [OF Some line_def literal False, of "bq_take q (eol + 2)" "fst (bq_take q (eol + 2))" q1 "bq_take q1 n"
            "fst (bq_take q1 n)" q2] by (simp add: q1_def q2_def)
        then show ?thesis using q2 frames_literal [OF find, of n] literal line size False d by simp
      qed
    qed
  qed
qed

text \<open>Framing a stream in two pieces is framing it at once.\<close>

lemma frames_append:
  "frames parts (bs @ cs) =
    (fst (frames parts bs) @ fst (frames (fst (snd (frames parts bs))) (snd (snd (frames parts bs)) @ cs)),
     snd (frames (fst (snd (frames parts bs))) (snd (snd (frames parts bs)) @ cs)))"
proof (induction parts bs rule: frames.induct)
  case (1 parts bs)
  show ?case
  proof (cases "find_crlf bs")
    case None
    then show ?thesis by (simp add: frames_None)
  next
    case (Some eol)
    note bound = find_crlf_bound [OF Some]
    have some: "find_crlf (bs @ cs) = Some eol" using Some by (rule find_crlf_append)
    let ?line = "bytesToLatin1 (take eol bs)"
    have take: "take eol (bs @ cs) = take eol bs" and drop: "drop (eol + 2) (bs @ cs) = drop (eol + 2) bs @ cs"
      using bound by simp_all
    show ?thesis
    proof (cases "literal_size ?line")
      case None
      then have "literal_size (bytesToLatin1 (take eol (bs @ cs))) = None" by (simp only: take)
      note whole = frames_line [OF some this] and front = frames_line [OF Some None]
      show ?thesis unfolding whole front take drop using 1(1) [OF Some refl None] by simp
    next
      case (Some n)
      then have n: "literal_size (bytesToLatin1 (take eol (bs @ cs))) = Some n" by (simp only: take)
      show ?thesis
      proof (cases "length bs < eol + 2 + n")
        case True
        then show ?thesis using frames_short [OF \<open>find_crlf bs = Some eol\<close> Some] by simp
      next
        case False
        then have le: "eol + 2 + n \<le> length bs" by simp
        then have le': "eol + 2 + n \<le> length (bs @ cs)" by simp
        have parts: "take n (drop (eol + 2) (bs @ cs)) = take n (drop (eol + 2) bs)"
          "drop (eol + 2 + n) (bs @ cs) = drop (eol + 2 + n) bs @ cs" using le by simp_all
        show ?thesis
          unfolding frames_literal [OF some n le'] frames_literal [OF \<open>find_crlf bs = Some eol\<close> Some le] take parts
          using 1(2) [OF \<open>find_crlf bs = Some eol\<close> refl Some False] .
      qed
    qed
  qed
qed

lemma frames_settle:
  "frames (fst (snd (frames parts bs))) (snd (snd (frames parts bs))) = ([], snd (frames parts bs))"
proof (induction parts bs rule: frames.induct)
  case (1 parts bs)
  show ?case
  proof (cases "find_crlf bs")
    case None
    then show ?thesis by (simp add: frames_None)
  next
    case (Some eol)
    let ?line = "bytesToLatin1 (take eol bs)"
    show ?thesis
    proof (cases "literal_size ?line")
      case None
      show ?thesis unfolding frames_line [OF Some None] using 1(1) [OF Some refl None] by simp
    next
      case lit: (Some n)
      show ?thesis
      proof (cases "length bs < eol + 2 + n")
        case True
        then show ?thesis using frames_short [OF Some lit] by simp
      next
        case False
        then have le: "eol + 2 + n \<le> length bs" by simp
        show ?thesis unfolding frames_literal [OF Some lit le] using 1(2) [OF Some refl lit False] .
      qed
    qed
  qed
qed

lemma feed_frames:
  assumes "bq_ok (rr_queue r)" "frames (rr_parts r) (bq_bytes (rr_queue r)) = ([], reader_state r)"
  shows "frames (rr_parts r) (bq_bytes (rr_queue r) @ concat pieces) = (fst (feed r pieces), reader_state (snd (feed r pieces)))
    \<and> bq_ok (rr_queue (snd (feed r pieces)))"
  using assms
proof (induction pieces arbitrary: r)
  case Nil
  then show ?case by simp
next
  case (Cons c cs)
  let ?q = "bq_push (rr_queue r) c"
  define found where "found = fst (drain ?q (rr_parts r))"
  define r' where "r' = snd (drain ?q (rr_parts r))"
  have q: "bq_ok ?q" "bq_bytes ?q = bq_bytes (rr_queue r) @ c"
    using Cons(2) bq.ok_push bq.bytes_push by simp_all
  have r': "frames (rr_parts r) (bq_bytes (rr_queue r) @ c) = (found, reader_state r')" "bq_ok (rr_queue r')"
    using drain_frames [OF q(1), of "rr_parts r"] unfolding q(2) found_def r'_def by blast+
  have settled: "frames (rr_parts r') (bq_bytes (rr_queue r')) = ([], reader_state r')"
    using frames_settle [of "rr_parts r" "bq_bytes (rr_queue r) @ c"] unfolding r'(1) by (simp add: reader_state_def)
  note rest = Cons(1) [OF r'(2) settled]
  have feed: "feed r (c # cs) = (found @ fst (feed r' cs), snd (feed r' cs))"
    by (simp add: reader_push_def Let_def split_def found_def r'_def)
  have "frames (rr_parts r) (bq_bytes (rr_queue r) @ concat (c # cs)) =
      (found @ fst (frames (rr_parts r') (bq_bytes (rr_queue r') @ concat cs)),
       snd (frames (rr_parts r') (bq_bytes (rr_queue r') @ concat cs)))"
    using frames_append [of "rr_parts r" "bq_bytes (rr_queue r) @ c" "concat cs"] unfolding r'(1)
    by (simp add: reader_state_def)
  then show ?case using rest unfolding feed by simp
qed

text \<open>C11 However the bytes of a connection are cut into chunks, the reader has returned the responses that framing the whole
  stream yields, and holds the rest of it: the growing array and its window implement the list, and no chunk boundary
  changes anything.\<close>

theorem imap_reader_refines:
  "frames [] (concat pieces) = (fst (feed newReader pieces), reader_state (snd (feed newReader pieces))) \<and>
   reader_buffered (snd (feed newReader pieces)) = length (snd (snd (frames [] (concat pieces))))"
proof -
  have r: "bq_ok (rr_queue newReader)" "rr_parts newReader = []" "bq_bytes (rr_queue newReader) = []"
    using bq.ok_empty bq.bytes_empty by (simp_all add: newReader_def)
  have "frames (rr_parts newReader) (bq_bytes (rr_queue newReader)) = ([], reader_state newReader)"
    unfolding r reader_state_def by (simp add: frames_None)
  note f = feed_frames [OF r(1) this, of pieces, unfolded r append_Nil]
  then show ?thesis using bq.size_bytes by (simp add: reader_buffered_def reader_state_def)
qed
subsection \<open>A well-framed stream\<close>

definition wire_line :: "string \<Rightarrow> u8 list" where
  "wire_line l = map byte_of_char l"

fun wire_part :: "imap_part \<Rightarrow> u8 list" where
  "wire_part (Line l) = wire_line l @ [13, 10]"
| "wire_part (Octets b) = b"

definition wire :: "imap_part list \<Rightarrow> u8 list" where
  "wire ps = concat (map wire_part ps)"

text \<open>Lines without a line end, each followed by exactly the octets it announces; the octets are arbitrary.\<close>

fun well_framed :: "imap_part list \<Rightarrow> bool" where
  "well_framed [Line l] \<longleftrightarrow> literal_size l = None \<and> find_crlf (wire_line l) = None"
| "well_framed (Line l # Octets b # ps) \<longleftrightarrow> literal_size l = Some (length b) \<and> find_crlf (wire_line l) = None \<and> well_framed ps"
| "well_framed _ \<longleftrightarrow> False"

lemma find_crlf_end: "find_crlf bs = None \<Longrightarrow> find_crlf (bs @ 13 # 10 # cs) = Some (length bs)"
  by (induction bs rule: find_crlf.induct) (auto split: if_splits)

lemma byte_char_inverse: "char_of (unat (byte_of_char c)) = c"
proof -
  have "unat (byte_of_char c) = code_unit c"
    unfolding byte_of_char_def using code_unit_less_256 by (simp add: unat_of_nat take_bit_nat_eq_self)
  then show ?thesis by (simp add: code_unit_def)
qed

lemma wire_line_inverse: "bytesToLatin1 (wire_line l) = l"
  by (induction l) (simp_all add: bytesToLatin1_def wire_line_def byte_char_inverse)

lemma frames_wire:
  "well_framed ps \<Longrightarrow> frames pre (wire ps @ rest) = (parseResponse (pre @ ps) # fst (frames [] rest), snd (frames [] rest))"
proof (induction ps arbitrary: pre rule: well_framed.induct)
  case (1 l)
  let ?s = "wire [Line l] @ rest"
  have s: "?s = wire_line l @ 13 # 10 # rest" by (simp add: wire_def)
  have find: "find_crlf ?s = Some (length (wire_line l))" unfolding s using 1 by (simp add: find_crlf_end)
  have line: "bytesToLatin1 (take (length (wire_line l)) ?s) = l" unfolding s by (simp add: wire_line_inverse)
  have rest: "drop (length (wire_line l) + 2) ?s = rest" unfolding s by simp
  have "literal_size (bytesToLatin1 (take (length (wire_line l)) ?s)) = None" unfolding line using 1 by simp
  from frames_line [OF find this] show ?case unfolding line rest .
next
  case (2 l b ps)
  let ?s = "wire (Line l # Octets b # ps) @ rest"
  have s: "?s = wire_line l @ 13 # 10 # b @ wire ps @ rest" by (simp add: wire_def)
  have find: "find_crlf ?s = Some (length (wire_line l))" unfolding s using 2(2) by (simp add: find_crlf_end)
  have line: "bytesToLatin1 (take (length (wire_line l)) ?s) = l" unfolding s by (simp add: wire_line_inverse)
  have octets: "take (length b) (drop (length (wire_line l) + 2) ?s) = b" and
    rest: "drop (length (wire_line l) + 2 + length b) ?s = wire ps @ rest" unfolding s by simp_all
  have lit: "literal_size (bytesToLatin1 (take (length (wire_line l)) ?s)) = Some (length b)" unfolding line using 2(2) by simp
  have "length (wire_line l) + 2 + length b \<le> length ?s" unfolding s by simp
  from frames_literal [OF find lit this]
  have "frames pre ?s = frames (pre @ [Line l, Octets b]) (wire ps @ rest)" unfolding line octets rest .
  then show ?case using 2(1) [of "pre @ [Line l, Octets b]"] 2(2) by simp
qed simp_all

lemma frames_responses: "list_all well_framed rs \<Longrightarrow> frames [] (concat (map wire rs)) = (map parseResponse rs, [], [])"
  by (induction rs) (simp_all add: frames_None frames_wire)

text \<open>C12 A server's responses come out as they were written, each literal whole whatever bytes it holds, in however many
  chunks they arrive, and nothing is left over.\<close>

theorem imap_framing_exact:
  assumes "list_all well_framed rs" "concat pieces = concat (map wire rs)"
  shows "fst (feed newReader pieces) = map parseResponse rs \<and> reader_buffered (snd (feed newReader pieces)) = 0"
  using imap_reader_refines [of pieces] frames_responses [OF assms(1)] unfolding assms(2) by simp

lemma imap_framing_exact_witness:
  "fst (feed newReader [wire_line ''* 1 FETCH (BODY {2}'' @ [13], [10, 13, 10], wire_line '')'' @ [13], [10]]) =
    map parseResponse [[Line ''* 1 FETCH (BODY {2}'', Octets [13, 10], Line '')'']] \<and>
   reader_buffered (snd (feed newReader [wire_line ''* 1 FETCH (BODY {2}'' @ [13], [10, 13, 10], wire_line '')'' @ [13], [10]])) = 0"
  by (rule imap_framing_exact) code_simp+

subsection \<open>Arguments\<close>

text \<open>A command argument as the other side frames it.\<close>

fun argument_parts :: "command_part \<Rightarrow> imap_part list" where
  "argument_parts (Plain s) = [Line s]"
| "argument_parts (Literal b) = [Line (''{'' @ decimal_digits (length b) @ ''}''), Octets b]"

lemma read_quoted_char: "read_quoted (quote_char c @ s) = (let (raw, rest) = read_quoted s in (c # raw, rest))" if "s \<noteq> []"
  using that by (cases s) (auto simp: quote_char_def)

lemma read_quoted_inverse: "read_quoted (concat (map quote_char cs) @ [CHR 34]) = (cs, [])"
proof (induction cs)
  case (Cons c cs)
  then show ?case using read_quoted_char [of "concat (map quote_char cs) @ [CHR 34]" c] by simp
qed simp

lemma tokenize_quoted:
  "tokenize [Line (CHR 34 # concat (map quote_char cs) @ [CHR 34])] = [Text (latin1ToUtf8 cs)]"
proof -
  have "tokenize_line (CHR 34 # concat (map quote_char cs) @ [CHR 34]) [[]] = tokenize_line [] (push_value (Text (latin1ToUtf8 cs)) [[]])"
    by (subst tokenize_line.simps) (simp add: read_quoted_inverse)
  also have "\<dots> = [[Text (latin1ToUtf8 cs)]]" by (subst tokenize_line.simps) (simp add: push_value_def)
  finally show ?thesis by (simp add: tokenize_def)
qed

lemma marker_digits: "list_all is_digit ds \<Longrightarrow> ds \<noteq> [] \<Longrightarrow> literal_marker (''{'' @ ds @ ''}'')"
proof -
  assume ds: "list_all is_digit ds" "ds \<noteq> []"
  have brace: "\<not> is_digit (CHR ''}'')" by code_simp
  have "takeWhile is_digit (ds @ ''}'') = ds" "dropWhile is_digit (ds @ ''}'') = ''}''"
    using ds(1) brace by (induction ds) simp_all
  then show ?thesis using ds(2) by (simp add: literal_marker_def)
qed

lemma tokenize_literal: "tokenize [Line (''{'' @ decimal_digits n @ ''}''), Octets b] = [Bytes b]"
proof -
  have "literal_marker (''{'' @ decimal_digits n @ ''}'')"
    using marker_digits decimal_digits_are_digits decimal_digits_not_Nil by blast
  then have "tokenize_line (''{'' @ decimal_digits n @ ''}'') [[]] = [[]]" by (subst tokenize_line.simps) simp
  then show ?thesis by (simp add: tokenize_def push_value_def)
qed

text \<open>C13 An argument reads back as the text it was, whatever it holds; and what is written outside a literal has no line end,
  so no argument can end its command.\<close>

theorem imap_argument_safe:
  assumes "wf_utf16 v"
  shows "map (\<lambda>x. asText (Some x)) (tokenize (argument_parts (astring v))) = [v] \<and>
    (case astring v of Plain s \<Rightarrow> list_all (\<lambda>c. 32 \<le> code_unit c) s | Literal b \<Rightarrow> True)"
proof (cases "list_all (\<lambda>u. 0x20 \<le> u \<and> u \<le> 0x7e) v")
  case True
  define cs where "cs = map (\<lambda>u. char_of (unat u) :: char) v"
  have unit: "code_unit (char_of (unat u)) = unat u \<and> 32 \<le> unat u \<and> unat u < 128" if "u \<in> set v" for u
  proof -
    have "(0x20 :: utf16) \<le> u" "u \<le> 0x7e" using True that by (auto simp: list_all_iff)
    then have "32 \<le> unat u" "unat u \<le> 126" by (simp_all add: word_le_nat_alt)
    then show ?thesis by (simp add: code_unit_char_of)
  qed
  have a: "astring v = Plain (CHR 34 # concat (map quote_char cs) @ [CHR 34])"
    using True by (simp add: astring_def cs_def o_def)
  have "map unit_of_char cs = v" unfolding cs_def using unit by (induction v) (simp_all add: unit_of_char_def)
  moreover have "list_all (\<lambda>c. code_unit c < 128) cs" using unit by (simp add: cs_def list_all_iff)
  ultimately have latin: "latin1ToUtf8 cs = v" by (simp add: latin1ToUtf8_def)
  have safe: "list_all (\<lambda>c. 32 \<le> code_unit c) (CHR 34 # concat (map quote_char cs) @ [CHR 34])"
  proof -
    have "\<forall>c \<in> set [CHR 34, CHR 92]. 32 \<le> code_unit c" by code_simp
    then show ?thesis using unit by (auto simp: list_all_iff cs_def quote_char_def)
  qed
  have "tokenize (argument_parts (astring v)) = [Text v]" unfolding a argument_parts.simps tokenize_quoted latin ..
  then have "map (\<lambda>x. asText (Some x)) (tokenize (argument_parts (astring v))) = [v]" by (simp add: asText_def)
  then show ?thesis using safe unfolding a by simp
next
  case False
  then have a: "astring v = Literal (utf8ToBytes v)" by (simp add: astring_def)
  have "tokenize (argument_parts (astring v)) = [Bytes (utf8ToBytes v)]"
    unfolding a argument_parts.simps tokenize_literal ..
  then show ?thesis unfolding a using utf8_inverse [OF assms] by (simp add: asText_def)
qed

lemma imap_argument_safe_witness:
  "map (\<lambda>x. asText (Some x)) (tokenize (argument_parts (astring [13, 10, 0x41]))) = [[13, 10, 0x41]] \<and>
    (case astring [13, 10, 0x41] of Plain s \<Rightarrow> list_all (\<lambda>c. 32 \<le> code_unit c) s | Literal b \<Rightarrow> True)"
  by (rule imap_argument_safe) code_simp

subsection \<open>Number sets\<close>

definition read_run :: "string \<Rightarrow> nat list" where
  "read_run r =
     (case js_split (CHR '':'') r of
        [a] \<Rightarrow> [nat (digits_value a)]
      | a # b # _ \<Rightarrow> [nat (digits_value a)..<nat (digits_value b) + 1]
      | [] \<Rightarrow> [])"

definition read_uid_set :: "string \<Rightarrow> nat list" where
  "read_uid_set s = concat (map read_run (js_split (CHR '','') s))"

lemma run_end_covers: "run_end a us = (b, rest) \<Longrightarrow> a \<le> b \<and> a # us = [a..<b + 1] @ rest"
proof (induction a us arbitrary: b rest rule: run_end.induct)
  case (2 a c us)
  show ?case
  proof (cases "c = a + 1")
    case True
    then have "c \<le> b \<and> c # us = [c..<b + 1] @ rest" using 2 by simp
    then show ?thesis using True by (simp add: upt_conv_Cons)
  next
    case False
    then show ?thesis using 2(2) by auto
  qed
qed auto

lemma runs_cover: "concat (map (\<lambda>(a, b). [a..<b + 1]) (uid_runs us)) = us \<and> (\<forall>(a, b) \<in> set (uid_runs us). a \<le> b)"
proof (induction us rule: uid_runs.induct)
  case (2 a us)
  obtain b rest where r: "run_end a us = (b, rest)" by (cases "run_end a us")
  have eq: "uid_runs (a # us) = (a, b) # uid_runs rest" using r by simp
  have ih: "concat (map (\<lambda>(a, b). [a..<b + 1]) (uid_runs rest)) = rest \<and> (\<forall>(a, b) \<in> set (uid_runs rest). a \<le> b)"
    using 2 r by simp
  have "concat (map (\<lambda>(a, b). [a..<b + 1]) (uid_runs (a # us))) = [a..<b + 1] @ rest"
    unfolding eq list.map concat.simps prod.case conjunct1 [OF ih] ..
  also have "\<dots> = a # us" using run_end_covers [OF r] by (rule sym [OF conjunct2])
  finally show ?case using run_end_covers [OF r] ih unfolding eq by simp
qed simp

lemma digits_no_sep: "CHR '','' \<notin> set (decimal_digits n)" "CHR '':'' \<notin> set (decimal_digits n)"
proof -
  have "\<not> is_digit (CHR '','')" "\<not> is_digit (CHR '':'')" by code_simp+
  then show "CHR '','' \<notin> set (decimal_digits n)" "CHR '':'' \<notin> set (decimal_digits n)"
    using decimal_digits_are_digits [of n] unfolding list_all_iff by blast+
qed

lemma read_run_text: "a \<le> b \<Longrightarrow> read_run (run_text (a, b)) = [a..<b + 1]"
  using digits_no_sep by (simp add: read_run_def run_text_def js_split_no js_split_append digits_value_decimal)

text \<open>The compressed set names exactly the numbers it was given, in ascending order and each once.\<close>

theorem uid_set_exact:
  assumes "uids \<noteq> []"
  shows "read_uid_set (uidSet uids) = sorted_list_of_set (set uids)"
proof -
  define rs where "rs = uid_runs (sorted_list_of_set (set uids))"
  have cover: "concat (map (\<lambda>(a, b). [a..<b + 1]) rs) = sorted_list_of_set (set uids)" and le: "\<forall>(a, b) \<in> set rs. a \<le> b"
    using runs_cover unfolding rs_def by blast+
  have "rs \<noteq> []"
  proof
    assume "rs = []"
    then have "set (sorted_list_of_set (set uids)) = {}" using cover by simp
    then show False using assms by simp
  qed
  moreover have "CHR '','' \<notin> set t" if "t \<in> set (map run_text rs)" for t
    using that digits_no_sep by (auto simp: run_text_def split: if_splits)
  ultimately have "js_split (CHR '','') (uidSet uids) = map run_text rs"
    using js_split_join [of "map run_text rs" "CHR '',''"] by (simp add: uidSet_def rs_def)
  then have "read_uid_set (uidSet uids) = concat (map (\<lambda>r. read_run (run_text r)) rs)" by (simp add: read_uid_set_def o_def)
  also have "map (\<lambda>r. read_run (run_text r)) rs = map (\<lambda>(a, b). [a..<b + 1]) rs"
    using le read_run_text by (intro map_cong) auto
  finally show ?thesis using cover by simp
qed

lemma uid_set_exact_witness: "read_uid_set (uidSet [5, 4, 3, 1, 4]) = sorted_list_of_set (set [5, 4, 3, 1, 4])"
  by (rule uid_set_exact) simp

end
