(* ===== verification/Mbox.thy ===== *)
theory Mbox
  imports Js_Text Css_Text
begin

text \<open>
  Exporting a mailbox as an mboxrd file (\<^verbatim>\<open>mail/mbox.ts\<close>), and the reader of the format it is written for: the file
  reads back as exactly the messages that went in. A date is given with its calendar fields; an invalid one is \<open>None\<close>.
\<close>

record utc_time =
  ut_year :: nat
  ut_month :: nat
  ut_day :: nat
  ut_weekday :: nat
  ut_hours :: nat
  ut_minutes :: nat
  ut_seconds :: nat

record mbox_entry =
  mx_from :: "string option"
  mx_date :: "utc_time option"
  mx_raw :: string

definition UNKNOWN_SENDER :: string where
  "UNKNOWN_SENDER = ''MAILER-DAEMON''"

definition DAYS :: "string list" where
  "DAYS = [''Sun'', ''Mon'', ''Tue'', ''Wed'', ''Thu'', ''Fri'', ''Sat'']"

definition MONTHS :: "string list" where
  "MONTHS = [''Jan'', ''Feb'', ''Mar'', ''Apr'', ''May'', ''Jun'', ''Jul'', ''Aug'', ''Sep'', ''Oct'', ''Nov'', ''Dec'']"

definition pad_start :: "nat \<Rightarrow> char \<Rightarrow> string \<Rightarrow> string" where
  "pad_start n c s = replicate (n - length s) c @ s"

text \<open>\<open>replace(/\r\n?/g, '\n')\<close>\<close>

fun normaliseNewlines :: "string \<Rightarrow> string" where
  "normaliseNewlines (c # d # cs) =
     (if c = CR then NL # normaliseNewlines (if d = NL then cs else d # cs) else c # normaliseNewlines (d # cs))"
| "normaliseNewlines [c] = [if c = CR then NL else c]"
| "normaliseNewlines [] = []"

text \<open>\<open>replace(/^(>*From )/gm, '>$1')\<close>, line by line.\<close>

definition from_line :: "string \<Rightarrow> bool" where
  "from_line l \<longleftrightarrow> take 5 (dropWhile (\<lambda>c. c = CHR ''>'') l) = ''From ''"

definition quote_line :: "string \<Rightarrow> string" where
  "quote_line l = (if from_line l then CHR ''>'' # l else l)"

definition quoteFromLines :: "string \<Rightarrow> string" where
  "quoteFromLines body = js_join [NL] (map quote_line (js_split NL body))"

definition asctime :: "utc_time \<Rightarrow> utc_time option \<Rightarrow> string" where
  "asctime now date =
     (let w = (case date of Some d \<Rightarrow> d | None \<Rightarrow> now);
          two = (\<lambda>n. pad_start 2 (CHR ''0'') (decimal_digits n))
      in DAYS ! ut_weekday w @ '' '' @ MONTHS ! ut_month w @ '' '' @ pad_start 2 (CHR '' '') (decimal_digits (ut_day w)) @ '' ''
         @ js_join '':'' [two (ut_hours w), two (ut_minutes w), two (ut_seconds w)] @ '' '' @ decimal_digits (ut_year w))"

definition ends_with_newline :: "string \<Rightarrow> bool" where
  "ends_with_newline s \<longleftrightarrow> s \<noteq> [] \<and> last s = NL"

definition envelope_sender :: "mbox_entry \<Rightarrow> string" where
  "envelope_sender e =
     (case mx_from e of None \<Rightarrow> UNKNOWN_SENDER | Some f \<Rightarrow> if js_trim f = [] then UNKNOWN_SENDER else js_trim f)"

definition entryToMbox :: "utc_time \<Rightarrow> mbox_entry \<Rightarrow> string" where
  "entryToMbox now e =
     (let body = quoteFromLines (normaliseNewlines (mx_raw e));
          trailing = (if ends_with_newline body then [] else [NL])
      in ''From '' @ envelope_sender e @ '' '' @ asctime now (mx_date e) @ [NL] @ body @ trailing @ [NL])"

definition toMbox :: "utc_time \<Rightarrow> mbox_entry list \<Rightarrow> string" where
  "toMbox now entries = concat (map (entryToMbox now) entries)"

subsection \<open>File names\<close>

definition slug_char :: "char \<Rightarrow> bool" where
  "slug_char c \<longleftrightarrow> is_lower c \<or> is_digit c"

text \<open>\<open>replace(/[^a-z0-9]+/g, '-').replace(/^-|-$/g, '')\<close>: the runs of other characters between words become one dash.\<close>

definition slug :: "string \<Rightarrow> string" where
  "slug t = js_join ''-'' (words_by (\<lambda>c. \<not> slug_char c) (js_lower t))"

definition iso_day :: "utc_time \<Rightarrow> string" where
  "iso_day t = pad_start 4 (CHR ''0'') (decimal_digits (ut_year t)) @ ''-'' @ pad_start 2 (CHR ''0'') (decimal_digits (ut_month t + 1)) @ ''-''
     @ pad_start 2 (CHR ''0'') (decimal_digits (ut_day t))"

definition mboxFilename :: "string \<Rightarrow> utc_time \<Rightarrow> string" where
  "mboxFilename address t = slug address @ ''-'' @ iso_day t @ ''.mbox''"

definition emlFilename :: "string \<Rightarrow> utc_time option \<Rightarrow> string option \<Rightarrow> string" where
  "emlFilename ident date subject =
     (let day = (case date of None \<Rightarrow> ''undated'' | Some t \<Rightarrow> iso_day t);
          cut = take 60 (slug (case subject of None \<Rightarrow> [] | Some s \<Rightarrow> s));
          trimmed = (if cut \<noteq> [] \<and> last cut = CHR ''-'' then butlast cut else cut);
          name = (if trimmed = [] then ''message'' else trimmed);
          tail = (let s = slug ident in drop (length s - 8) s)
      in day @ ''-'' @ name @ ''-'' @ (if tail = [] then ''mail'' else tail) @ ''.eml'')"

subsection \<open>Reading the format back\<close>

text \<open>The mboxrd reader: a line starting \<open>From \<close> opens a message; a line of the body that was quoted loses one \<open>>\<close>; the
  blank line that ends a message is not part of it. \<close>

definition envelope_line :: "string \<Rightarrow> bool" where
  "envelope_line l \<longleftrightarrow> take 5 l = ''From ''"

definition unquote_line :: "string \<Rightarrow> string" where
  "unquote_line l = (if l \<noteq> [] \<and> hd l = CHR ''>'' \<and> from_line l then tl l else l)"

fun message_lines :: "string list \<Rightarrow> string list \<times> string list" where
  "message_lines [] = ([], [])"
| "message_lines (l # ls) =
     (if envelope_line l then ([], l # ls) else (let (a, b) = message_lines ls in (unquote_line l # a, b)))"

lemma message_lines_shorter: "length (snd (message_lines ls)) \<le> length ls"
  by (induction ls) (auto simp: split_def Let_def)

function read_messages :: "string list \<Rightarrow> string list list" where
  "read_messages [] = []"
| "read_messages (l # ls) =
     (if envelope_line l then (let (a, b) = message_lines ls in butlast a # read_messages b) else read_messages ls)"
  by pat_completeness auto
termination
proof (relation "measure length")
  fix l :: string and ls x a b
  assume "x = message_lines ls" "(a, b) = x"
  then have "length b \<le> length ls" using message_lines_shorter [of ls] by (metis snd_conv)
  then show "(b, l # ls) \<in> measure length" by simp
qed simp_all

text \<open>The lines of a text all of whose lines are ended, and of a message as the export writes it.\<close>

definition ended_lines :: "string \<Rightarrow> string list" where
  "ended_lines s = butlast (js_split NL s)"

definition read_mbox :: "string \<Rightarrow> string list list" where
  "read_mbox file = read_messages (ended_lines file)"

definition stored_lines :: "string \<Rightarrow> string list" where
  "stored_lines raw =
     (let body = normaliseNewlines raw in if ends_with_newline body then ended_lines body else js_split NL body)"
subsection \<open>The round trip\<close>

definition time_ok :: "utc_time \<Rightarrow> bool" where
  "time_ok t \<longleftrightarrow> ut_weekday t < 7 \<and> ut_month t < 12"

definition entry_ok :: "mbox_entry \<Rightarrow> bool" where
  "entry_ok e \<longleftrightarrow> (case mx_from e of None \<Rightarrow> True | Some f \<Rightarrow> NL \<notin> set f) \<and> (case mx_date e of None \<Rightarrow> True | Some d \<Rightarrow> time_ok d)"

definition unlines :: "string list \<Rightarrow> string" where
  "unlines ls = concat (map (\<lambda>l. l @ [NL]) ls)"

definition no_newline :: "string list \<Rightarrow> bool" where
  "no_newline ls \<longleftrightarrow> list_all (\<lambda>l. NL \<notin> set l) ls"

lemma ended_lines_unlines: "no_newline ls \<Longrightarrow> ended_lines (unlines ls @ s) = ls @ ended_lines s"
  by (induction ls) (simp_all add: unlines_def no_newline_def ended_lines_def js_split_append)

lemma js_join_unlines: "ls \<noteq> [] \<Longrightarrow> js_join [NL] ls @ [NL] = unlines ls"
proof (induction ls rule: list_nonempty_induct)
  case (cons x xs)
  then show ?case by (cases xs) (simp_all add: unlines_def)
qed (simp add: unlines_def)

lemma js_join_snoc_Nil: "js_join [NL] (ls @ [[]]) = (if ls = [] then [] else unlines ls)"
proof (induction ls)
  case (Cons x xs)
  then show ?case by (cases xs) (simp_all add: unlines_def)
qed simp

lemma quote_line_laws: "\<not> envelope_line (quote_line l)" "unquote_line (quote_line l) = l" "NL \<notin> set l \<Longrightarrow> NL \<notin> set (quote_line l)"
proof -
  have gt: "CHR ''>'' \<noteq> NL" "take 1 ''From '' \<noteq> ''>''" by code_simp+
  show "\<not> envelope_line (quote_line l)"
  proof (cases l)
    case (Cons c cs)
    have "c = CHR ''F''" if "envelope_line l" using that Cons by (simp add: envelope_line_def)
    then have "envelope_line l \<Longrightarrow> from_line l" using Cons by (auto simp: envelope_line_def from_line_def)
    then show ?thesis by (auto simp: quote_line_def) (simp add: envelope_line_def)
  qed (simp add: quote_line_def envelope_line_def from_line_def)
  show "unquote_line (quote_line l) = l" by (auto simp: quote_line_def unquote_line_def from_line_def)
  show "NL \<notin> set l \<Longrightarrow> NL \<notin> set (quote_line l)" using gt by (simp add: quote_line_def)
qed

lemma stored_no_newline: "no_newline (stored_lines raw)"
proof -
  have "no_newline (js_split NL b)" "no_newline (ended_lines b)" for b
    using js_split_parts by (force simp: no_newline_def ended_lines_def list_all_iff dest: in_set_butlastD)+
  then show ?thesis by (simp add: stored_lines_def Let_def)
qed

lemma ends_with_newline_split:
  "js_split NL b = ls @ [l] \<Longrightarrow> ends_with_newline b \<longleftrightarrow> l = [] \<and> ls \<noteq> []"
proof -
  assume s: "js_split NL b = ls @ [l]"
  have b: "b = js_join [NL] (ls @ [l])" using js_join_split [of NL b] s by simp
  have "NL \<notin> set l" using s js_split_parts [of l NL b] by simp
  moreover have "l \<noteq> [] \<Longrightarrow> last l \<in> set l" by (rule last_in_set)
  ultimately have l: "l \<noteq> [] \<longrightarrow> last l \<noteq> NL" by metis
  show ?thesis
  proof (cases "ls = []")
    case True
    then have "b = l" using b by simp
    then show ?thesis using True l by (auto simp: ends_with_newline_def)
  next
    case False
    have "js_join [NL] (ls @ [l]) = unlines ls @ l" using False
    proof (induction ls)
      case (Cons x xs)
      then show ?case by (cases xs) (simp_all add: unlines_def)
    qed simp
    moreover have "unlines ls \<noteq> [] \<and> last (unlines ls) = NL" using False by (cases ls rule: rev_cases) (simp_all add: unlines_def)
    ultimately show ?thesis unfolding b using l False by (cases "l = []") (auto simp: ends_with_newline_def)
  qed
qed

lemma quoted_body:
  "quoteFromLines b @ (if ends_with_newline (quoteFromLines b) then [] else [NL]) =
    unlines (map quote_line (if ends_with_newline b then ended_lines b else js_split NL b))"
proof -
  obtain ls l where s: "js_split NL b = ls @ [l]" by (metis js_split_not_Nil rev_exhaust)
  let ?q = "map quote_line ls" and ?ql = "quote_line l"
  have nl: "NL \<notin> set x" if "x \<in> set (ls @ [l])" for x using s js_split_parts that by metis
  have q: "js_split NL (quoteFromLines b) = ?q @ [?ql]"
    unfolding quoteFromLines_def s using nl quote_line_laws(3) js_split_join [of "map quote_line (ls @ [l])" NL] by auto
  have ql: "?ql = [] \<longleftrightarrow> l = []" by (auto simp: quote_line_def from_line_def)
  have ends: "ends_with_newline (quoteFromLines b) \<longleftrightarrow> ends_with_newline b"
    using ends_with_newline_split [OF q] ends_with_newline_split [OF s] ql by simp
  show ?thesis
  proof (cases "ends_with_newline b")
    case True
    then have l: "l = []" "ls \<noteq> []" using ends_with_newline_split [OF s] by simp_all
    then have "?ql = []" using ql by simp
    then have "quoteFromLines b = unlines ?q" unfolding quoteFromLines_def s using js_join_snoc_Nil [of ?q] l by simp
    then show ?thesis using True ends s l by (simp add: ended_lines_def)
  next
    case False
    then show ?thesis using ends js_join_unlines [of "map quote_line (ls @ [l])"] unfolding quoteFromLines_def s by simp
  qed
qed

definition envelope_text :: "utc_time \<Rightarrow> mbox_entry \<Rightarrow> string" where
  "envelope_text now e = ''From '' @ envelope_sender e @ '' '' @ asctime now (mx_date e)"

lemma entry_lines: "entryToMbox now e = unlines (envelope_text now e # map quote_line (stored_lines (mx_raw e)) @ [[]])"
  using quoted_body [of "normaliseNewlines (mx_raw e)"]
  by (simp add: entryToMbox_def Let_def envelope_text_def unlines_def stored_lines_def)

lemma asctime_no_newline: "time_ok now \<Longrightarrow> (case date of None \<Rightarrow> True | Some d \<Rightarrow> time_ok d) \<Longrightarrow> NL \<notin> set (asctime now date)"
proof -
  assume ok: "time_ok now" "case date of None \<Rightarrow> True | Some d \<Rightarrow> time_ok d"
  define w where "w = (case date of Some d \<Rightarrow> d | None \<Rightarrow> now)"
  have "time_ok w" using ok by (auto simp: w_def split: option.splits)
  moreover have "\<forall>d \<in> set DAYS. NL \<notin> set d" "\<forall>m \<in> set MONTHS. NL \<notin> set m" "length DAYS = 7" "length MONTHS = 12" by code_simp+
  ultimately have "NL \<notin> set (DAYS ! ut_weekday w)" "NL \<notin> set (MONTHS ! ut_month w)" by (simp_all add: time_ok_def)
  moreover have "NL \<notin> set (decimal_digits n)" for n
  proof -
    have "\<not> is_digit NL" by code_simp
    then show ?thesis using decimal_digits_are_digits [of n] unfolding list_all_iff by blast
  qed
  moreover have "NL \<notin> set '' ''" "CHR ''0'' \<noteq> NL" "CHR '':'' \<noteq> NL" by code_simp+
  ultimately show ?thesis unfolding asctime_def Let_def w_def [symmetric] pad_start_def by auto
qed

lemma envelope_no_newline: "time_ok now \<Longrightarrow> entry_ok e \<Longrightarrow> NL \<notin> set (envelope_text now e)"
proof -
  assume ok: "time_ok now" "entry_ok e"
  have "NL \<notin> set UNKNOWN_SENDER" "NL \<notin> set ''From ''" by code_simp+
  moreover have "NL \<notin> set (envelope_sender e)"
    using calculation(1) ok(2) js_trim_set by (auto simp: envelope_sender_def entry_ok_def split: option.splits)
  ultimately show ?thesis using asctime_no_newline [OF ok(1), of "mx_date e"] ok(2) by (auto simp: envelope_text_def entry_ok_def)
qed

lemma message_lines_quoted:
  "rest = [] \<or> envelope_line (hd rest) \<Longrightarrow> message_lines (map quote_line ls @ [] # rest) = (ls @ [[]], rest)"
proof (induction ls)
  case Nil
  have "message_lines rest = ([], rest)" using Nil by (cases rest) simp_all
  then show ?case by (simp add: envelope_line_def unquote_line_def)
next
  case (Cons l ls)
  then show ?case by (simp add: quote_line_laws)
qed

text \<open>C14 An exported mailbox reads back as exactly the messages that went in, line for line, whatever their lines start with.
  The senders must be free of line ends, as an address read from a header is.\<close>

theorem mbox_round_trip:
  assumes "time_ok now" "list_all entry_ok entries"
  shows "read_mbox (toMbox now entries) = map (\<lambda>e. stored_lines (mx_raw e)) entries"
proof -
  define of_entry where "of_entry = (\<lambda>e. envelope_text now e # map quote_line (stored_lines (mx_raw e)) @ [[]])"
  have "toMbox now entries = unlines (concat (map of_entry entries)) @ []"
    by (induction entries) (simp_all add: toMbox_def entry_lines of_entry_def unlines_def)
  moreover have "no_newline (concat (map of_entry entries))"
    using assms stored_no_newline quote_line_laws(3) envelope_no_newline
    by (fastforce simp: no_newline_def list_all_iff of_entry_def)
  ultimately have lines: "ended_lines (toMbox now entries) = concat (map of_entry entries)"
    using ended_lines_unlines [of "concat (map of_entry entries)" "[]"] by (simp add: ended_lines_def)
  have "read_messages (concat (map of_entry es)) = map (\<lambda>e. stored_lines (mx_raw e)) es" for es
  proof (induction es)
    case (Cons e es)
    let ?rest = "concat (map of_entry es)"
    have "?rest = [] \<or> envelope_line (hd ?rest)" by (cases es) (simp_all add: of_entry_def envelope_text_def envelope_line_def)
    then have "message_lines (map quote_line (stored_lines (mx_raw e)) @ [] # ?rest) = (stored_lines (mx_raw e) @ [[]], ?rest)"
      by (rule message_lines_quoted)
    moreover have "concat (map of_entry (e # es)) = envelope_text now e # map quote_line (stored_lines (mx_raw e)) @ [] # ?rest"
      by (simp add: of_entry_def)
    moreover have "envelope_line (envelope_text now e)" by (simp add: envelope_text_def envelope_line_def)
    ultimately show ?case using Cons by simp
  qed simp
  then show ?thesis using lines by (simp add: read_mbox_def)
qed

definition sample_time :: utc_time where
  "sample_time = \<lparr>ut_year = 2026, ut_month = 8, ut_day = 6, ut_weekday = 0, ut_hours = 9, ut_minutes = 5, ut_seconds = 7\<rparr>"

definition sample_entries :: "mbox_entry list" where
  "sample_entries =
     [\<lparr>mx_from = Some ''a@b.c'', mx_date = None, mx_raw = ''Subject: x'' @ [CR, NL, CR, NL] @ ''From me'' @ [CR, NL] @ ''>From you''\<rparr>,
      \<lparr>mx_from = None, mx_date = Some sample_time, mx_raw = ''Subject: y'' @ [NL]\<rparr>]"

lemma mbox_round_trip_witness:
  "read_mbox (toMbox sample_time sample_entries) = [[''Subject: x'', [], ''From me'', ''>From you''], [''Subject: y'']]"
proof -
  have "map (\<lambda>e. stored_lines (mx_raw e)) sample_entries = [[''Subject: x'', [], ''From me'', ''>From you''], [''Subject: y'']]"
    by code_simp
  moreover have "time_ok sample_time" "list_all entry_ok sample_entries" by code_simp+
  ultimately show ?thesis using mbox_round_trip by simp
qed

end
