(* ===== verification/Mail_Headers.thy ===== *)
theory Mail_Headers
  imports Mime
begin

text \<open>
  Reading raw headers and address lists (\<^verbatim>\<open>mail/headers.ts\<close>, \<^verbatim>\<open>lib/format.ts\<close>): the addresses a message is from and
  for. Display names and encoded words are not needed for that and are left out.
\<close>

text \<open>\<open>name in headers\<close> holds for what every object inherits, too.\<close>

definition in_object :: "string obj \<Rightarrow> string \<Rightarrow> bool" where
  "in_object hs name \<longleftrightarrow> name \<in> set (obj_keys hs) \<or> name = ''constructor'' \<or> name = ''__proto__''"

definition first_header :: "string obj \<Rightarrow> string \<Rightarrow> string obj" where
  "first_header hs line =
     (case js_index_of line '':'' of
        Some idx \<Rightarrow>
          (let name = js_lower (js_trim (take idx line))
           in if 0 < idx \<and> \<not> in_object hs name then obj_set hs name (js_trim (drop (idx + 1) line)) else hs)
      | None \<Rightarrow> hs)"

definition parseHeaderBlock :: "string \<Rightarrow> string obj" where
  "parseHeaderBlock block = foldl first_header [] (js_split NL (unfold_lines (normalise_newlines block)))"

subsection \<open>Address lists\<close>

text \<open>The scanner's state: the current address in reverse, inside quotes, open angles, open comments.\<close>

fun split_addresses :: "string \<Rightarrow> bool \<Rightarrow> nat \<Rightarrow> nat \<Rightarrow> string \<Rightarrow> string list" where
  "split_addresses current quoted angle comment [] = (if js_trim (rev current) = [] then [] else [js_trim (rev current)])"
| "split_addresses current quoted angle comment (c # cs) =
     (if quoted
      then (if c = CHR 92
            then (case cs of d # ds \<Rightarrow> split_addresses (d # c # current) True angle comment ds
                  | [] \<Rightarrow> split_addresses (c # current) True angle comment [])
            else split_addresses (c # current) (c \<noteq> CHR 34) angle comment cs)
      else if c = CHR 34 then split_addresses (c # current) True angle comment cs
      else if c = CHR ''('' then split_addresses (c # current) False angle (comment + 1) cs
      else if c = CHR '')'' \<and> 0 < comment then split_addresses (c # current) False angle (comment - 1) cs
      else if c = CHR ''<'' then split_addresses (c # current) False (angle + 1) comment cs
      else if c = CHR ''>'' \<and> 0 < angle then split_addresses (c # current) False (angle - 1) comment cs
      else if c = CHR '','' \<and> angle = 0 \<and> comment = 0
      then (if js_trim (rev current) = [] then [] else [js_trim (rev current)]) @ split_addresses [] False 0 0 cs
      else split_addresses (c # current) False angle comment cs)"

definition splitAddressList :: "string \<Rightarrow> string list" where
  "splitAddressList value = split_addresses [] False 0 0 value"

text \<open>\<open>replace(/\([^)]*\)/g, ' ')\<close>\<close>

function strip_comments :: "string \<Rightarrow> string" where
  "strip_comments [] = []"
| "strip_comments (c # cs) =
     (if c = CHR ''('' \<and> CHR '')'' \<in> set cs
      then CHR '' '' # strip_comments (drop 1 (dropWhile (\<lambda>d. d \<noteq> CHR '')'') cs))
      else c # strip_comments cs)"
  by pat_completeness auto
termination
proof (relation "measure length")
  fix c :: char and cs
  have "length (dropWhile (\<lambda>d. d \<noteq> CHR '')'') cs) \<le> length cs" by (rule length_dropWhile_le)
  then have "length (drop 1 (dropWhile (\<lambda>d. d \<noteq> CHR '')'') cs)) < length (c # cs)" by simp
  then show "(drop 1 (dropWhile (\<lambda>d. d \<noteq> CHR '')'') cs), c # cs) \<in> measure length" by simp
qed auto

text \<open>\<open>replace(/^[^"<>@]*:\s*/, '')\<close>: the name of a group goes, up to the last colon before anything that starts an address.\<close>

definition strip_group :: "string \<Rightarrow> string" where
  "strip_group s =
     (let plain = takeWhile (\<lambda>c. c \<noteq> CHR 34 \<and> c \<noteq> CHR ''<'' \<and> c \<noteq> CHR ''>'' \<and> c \<noteq> CHR ''@'') s;
          after = takeWhile (\<lambda>c. c \<noteq> CHR '':'') (rev plain)
      in if CHR '':'' \<in> set plain then dropWhile js_space (drop (length plain - length after) s) else s)"

text \<open>\<open>replace(/;\s*$/, '')\<close>\<close>

definition strip_group_end :: "string \<Rightarrow> string" where
  "strip_group_end s =
     (case dropWhile js_space (rev s) of
        c # r \<Rightarrow> if c = CHR '';'' then rev r else s
      | [] \<Rightarrow> s)"

text \<open>\<open>parseAddress\<close>, the address: \<open>Name <a@b>\<close>, or the whole text.\<close>

definition name_part :: "string \<Rightarrow> bool" where
  "name_part s \<longleftrightarrow>
     (let t = js_trim s; t = (if t \<noteq> [] \<and> hd t = CHR 34 then tl t else t); t = (if t \<noteq> [] \<and> last t = CHR 34 then butlast t else t)
      in CHR 34 \<notin> set t)"

definition parseAddress :: "string \<Rightarrow> string" where
  "parseAddress header =
     (let pre = takeWhile (\<lambda>c. c \<noteq> CHR ''<'') header; rest = drop 1 (dropWhile (\<lambda>c. c \<noteq> CHR ''<'') header);
          inner = takeWhile (\<lambda>c. c \<noteq> CHR ''>'') rest; after = dropWhile (\<lambda>c. c \<noteq> CHR ''>'') rest
      in if CHR ''<'' \<in> set header \<and> name_part pre \<and> inner \<noteq> [] \<and> after \<noteq> [] \<and> list_all js_space (tl after)
         then js_lower (js_trim inner) else js_lower (js_trim header))"

definition decodeAddress :: "string \<Rightarrow> string" where
  "decodeAddress value = parseAddress (js_trim (strip_group_end (strip_group (strip_comments value))))"

definition addressesIn :: "string option \<Rightarrow> string list" where
  "addressesIn value =
     (case value of
        None \<Rightarrow> []
      | Some v \<Rightarrow> filter (\<lambda>a. CHR ''@'' \<in> set a) (map decodeAddress (splitAddressList v)))"

end
