(* ===== verification/Utf16_Text.thy ===== *)
theory Utf16_Text
  imports Mime
begin

text \<open>Text as JavaScript has it, a list of UTF-16 code units: white space, trimming and collapsing it.\<close>

text \<open>\<open>\s\<close>\<close>

definition space_unit :: "utf16 \<Rightarrow> bool" where
  "space_unit u \<longleftrightarrow> 9 \<le> u \<and> u \<le> 13 \<or> u = 0x20 \<or> u = 0xa0 \<or> u = 0x1680 \<or> 0x2000 \<le> u \<and> u \<le> 0x200a
     \<or> u \<in> {0x2028, 0x2029, 0x202f, 0x205f, 0x3000, 0xfeff}"

definition trim_units :: "utf16 list \<Rightarrow> utf16 list" where
  "trim_units s = rev (dropWhile space_unit (rev (dropWhile space_unit s)))"

text \<open>\<open>replace(/\s+/g, ' ')\<close>\<close>

function one_space :: "utf16 list \<Rightarrow> utf16 list" where
  "one_space [] = []"
| "one_space (u # us) = (if space_unit u then 0x20 # one_space (dropWhile space_unit us) else u # one_space us)"
  by pat_completeness auto
termination by (relation "measure length") (auto simp: length_dropWhile_le le_imp_less_Suc)

lemma length_one_space: "length (one_space s) \<le> length s"
proof (induction s rule: one_space.induct)
  case (2 u us)
  then show ?case using length_dropWhile_le [of space_unit us] by auto
qed simp

lemma one_space_units: "u \<in> set (one_space s) \<Longrightarrow> u = 0x20 \<or> \<not> space_unit u"
proof (induction s rule: one_space.induct)
  case (2 v us)
  then show ?case by (cases "space_unit v") auto
qed simp

lemma set_trim_units: "set (trim_units s) \<subseteq> set s"
  unfolding trim_units_def by (auto dest!: set_dropWhileD)

end
