(* ===== verification/Smtp.thy ===== *)
theory Smtp
  imports Mail_Headers Css_Text Utf16_Text
begin

text \<open>
  Submitting a message over SMTP (\<^verbatim>\<open>mail/smtp.ts\<close>). The server and the network are a strategy: given everything that
  happened on the connection so far they answer with a reply, or not at all; they say whether bytes arrived unasked, and
  whether the TLS handshake succeeds. A run is the list of what the client did and what it ended with.
\<close>

record smtp_reply =
  rp_code :: nat
  rp_lines :: "string list"

datatype smtp_event = Opened bool | Said string | Sent_Data string | Tls_Up | Hung_Up

type_synonym smtp_trace = "smtp_event list"

record smtp_server =
  sv_reply :: "smtp_trace \<Rightarrow> smtp_reply option"
  sv_unread :: "smtp_trace \<Rightarrow> bool"
  sv_handshake :: "smtp_trace \<Rightarrow> bool"

datatype smtp_error = Auth | Rejected nat | Closed | Protocol

datatype security = Tls | Starttls

type_synonym 'a smtp = "smtp_trace \<times> (smtp_error + 'a)"

definition bind_smtp :: "'a smtp \<Rightarrow> (smtp_trace \<Rightarrow> 'a \<Rightarrow> 'b smtp) \<Rightarrow> 'b smtp" where
  "bind_smtp m f = (case m of (tr, Inl e) \<Rightarrow> (tr, Inl e) | (tr, Inr x) \<Rightarrow> f tr x)"

definition expect :: "smtp_server \<Rightarrow> nat list \<Rightarrow> smtp_trace \<Rightarrow> smtp_reply smtp" where
  "expect sv codes tr =
     (case sv_reply sv tr of
        None \<Rightarrow> (tr, Inl Closed)
      | Some r \<Rightarrow> if rp_code r \<in> set codes then (tr, Inr r)
                else (tr, Inl (if rp_code r = 535 \<or> rp_code r = 534 then Auth else Rejected (rp_code r))))"

definition command :: "smtp_server \<Rightarrow> string \<Rightarrow> nat list \<Rightarrow> smtp_trace \<Rightarrow> smtp_reply smtp" where
  "command sv line codes tr = expect sv codes (tr @ [Said line])"

subsection \<open>Extensions\<close>

definition ascii_upper :: "string \<Rightarrow> string" where
  "ascii_upper s = map (\<lambda>c. if 97 \<le> code_unit c \<and> code_unit c \<le> 122 then char_of (code_unit c - 32) else c) s"

definition extensionsOf :: "smtp_reply \<Rightarrow> (string \<times> string) list" where
  "extensionsOf reply =
     foldl (\<lambda>m line. case css_words line of [] \<Rightarrow> m | k # rest \<Rightarrow> obj_set m (ascii_upper k) (ascii_upper (js_join '' '' rest)))
       [] (drop 1 (rp_lines reply))"

definition has_extension :: "(string \<times> string) list \<Rightarrow> string \<Rightarrow> bool" where
  "has_extension m k \<longleftrightarrow> obj_get m k \<noteq> None"

definition EHLO :: string where
  "EHLO = ''EHLO [127.0.0.1]''"

subsection \<open>Signing in\<close>

definition authenticate :: "smtp_server \<Rightarrow> string \<Rightarrow> string \<Rightarrow> (string \<times> string) list \<Rightarrow> smtp_trace \<Rightarrow> (string \<times> string) list smtp" where
  "authenticate sv username password extensions tr =
     (let mechanisms = css_words (case obj_get extensions ''AUTH'' of None \<Rightarrow> [] | Some v \<Rightarrow> v);
          b64 = (\<lambda>s. encodeUtf8Base64 (units s)); nul = char_of (0 :: nat)
      in if ''PLAIN'' \<in> set mechanisms
         then bind_smtp (command sv (''AUTH PLAIN '' @ b64 (nul # username @ nul # password)) [235] tr) (\<lambda>tr _. (tr, Inr extensions))
         else if ''LOGIN'' \<in> set mechanisms
         then bind_smtp (command sv ''AUTH LOGIN'' [334] tr) (\<lambda>tr _.
              bind_smtp (command sv (b64 username) [334] tr) (\<lambda>tr _.
              bind_smtp (command sv (b64 password) [235] tr) (\<lambda>tr _. (tr, Inr extensions))))
         else (tr, Inl Protocol))"

definition upgrade :: "smtp_server \<Rightarrow> (string \<times> string) list \<Rightarrow> smtp_trace \<Rightarrow> (string \<times> string) list smtp" where
  "upgrade sv extensions tr =
     (if \<not> has_extension extensions ''STARTTLS'' then (tr, Inl Protocol)
      else bind_smtp (command sv ''STARTTLS'' [220] tr) (\<lambda>tr _.
        if sv_unread sv tr then (tr, Inl Protocol)
        else if \<not> sv_handshake sv tr then (tr, Inl Closed)
        else let tr = tr @ [Tls_Up] in
          if sv_unread sv tr then (tr, Inl Protocol)
          else bind_smtp (command sv EHLO [250] tr) (\<lambda>tr r. (tr, Inr (extensionsOf r)))))"

definition hang_up_on_error :: "'a smtp \<Rightarrow> 'a smtp" where
  "hang_up_on_error m = (case m of (tr, Inl e) \<Rightarrow> (tr @ [Hung_Up], Inl e) | ok \<Rightarrow> ok)"

definition openSession :: "smtp_server \<Rightarrow> security \<Rightarrow> string \<Rightarrow> string \<Rightarrow> (string \<times> string) list smtp" where
  "openSession sv security username password =
     hang_up_on_error
       (bind_smtp (expect sv [220] [Opened (security = Tls)]) (\<lambda>tr _.
        bind_smtp (command sv EHLO [250] tr) (\<lambda>tr r.
        bind_smtp (if security = Starttls then upgrade sv (extensionsOf r) tr else (tr, Inr (extensionsOf r))) (\<lambda>tr extensions.
        authenticate sv username password extensions tr))))"

subsection \<open>The message\<close>

definition headerBlockOf :: "string \<Rightarrow> string" where
  "headerBlockOf rfc822 =
     (let normalized = normalise_newlines rfc822
      in case js_index_of normalized [NL, NL] of None \<Rightarrow> normalized | Some i \<Rightarrow> take i normalized)"

definition envelopeOf :: "string \<Rightarrow> string \<times> string list" where
  "envelopeOf rfc822 =
     (let headers = parseHeaderBlock (headerBlockOf rfc822);
          recipients = addressesIn (obj_get headers ''to'') @ addressesIn (obj_get headers ''cc'') @ addressesIn (obj_get headers ''bcc'');
          from = splitAddressList (case obj_get headers ''from'' of None \<Rightarrow> [] | Some v \<Rightarrow> v)
      in (decodeAddress (case from of [] \<Rightarrow> [] | a # _ \<Rightarrow> a), js_unique recipients))"

text \<open>\<open>/^bcc\s*:/i\<close>\<close>

definition bcc_line :: "string \<Rightarrow> bool" where
  "bcc_line l \<longleftrightarrow> ascii_lower (take 3 l) = ''bcc'' \<and> (case dropWhile js_space (drop 3 l) of c # _ \<Rightarrow> c = CHR '':'' | [] \<Rightarrow> False)"

definition folded :: "string \<Rightarrow> bool" where
  "folded l \<longleftrightarrow> (case l of c # _ \<Rightarrow> folding_space c | [] \<Rightarrow> False)"

fun drop_bcc :: "bool \<Rightarrow> string list \<Rightarrow> string list" where
  "drop_bcc dropping [] = []"
| "drop_bcc dropping (l # ls) =
     (if folded l then (if dropping then drop_bcc dropping ls else l # drop_bcc dropping ls)
      else if bcc_line l then drop_bcc True ls
      else l # drop_bcc False ls)"

definition stuff_dot :: "string \<Rightarrow> string" where
  "stuff_dot l = (case l of c # _ \<Rightarrow> if c = CHR ''.'' then CHR ''.'' # l else l | [] \<Rightarrow> l)"

definition message_without_bcc :: "string \<Rightarrow> string" where
  "message_without_bcc rfc822 =
     (let normalized = normalise_newlines rfc822;
          (head, body) = (case js_index_of normalized [NL, NL] of
             None \<Rightarrow> (normalized, []) | Some i \<Rightarrow> (take i normalized, drop (i + 2) normalized))
      in js_join [NL] (drop_bcc False (js_split NL head)) @ [NL, NL] @ body)"

definition ends_with_crlf :: "string \<Rightarrow> bool" where
  "ends_with_crlf s \<longleftrightarrow> drop (length s - 2) s = [CR, NL]"

definition data_text :: "string \<Rightarrow> string" where
  "data_text rfc822 =
     (let stuffed = js_join [CR, NL] (map stuff_dot (js_split NL (message_without_bcc rfc822)))
      in (if ends_with_crlf stuffed then stuffed else stuffed @ [CR, NL]) @ ''.'' @ [CR, NL])"

definition dataFor :: "string \<Rightarrow> u8 list" where
  "dataFor rfc822 = utf8ToBytes (units (data_text rfc822))"

text \<open>\<open>/^[^\s<>]+@[^\s<>]+$/\<close>\<close>

definition address_char :: "char \<Rightarrow> bool" where
  "address_char c \<longleftrightarrow> \<not> js_space c \<and> c \<noteq> CHR ''<'' \<and> c \<noteq> CHR ''>''"

definition sendable_address :: "string \<Rightarrow> bool" where
  "sendable_address a \<longleftrightarrow> list_all address_char a \<and> CHR ''@'' \<in> set (butlast (drop 1 a))"

definition non_ascii :: "string \<Rightarrow> bool" where
  "non_ascii s \<longleftrightarrow> list_ex (\<lambda>c. 128 \<le> code_unit c) s"

definition mail_params :: "(string \<times> string) list \<Rightarrow> string \<Rightarrow> string list \<Rightarrow> string \<Rightarrow> string list" where
  "mail_params extensions from recipients rfc822 =
     (if list_ex (\<lambda>b. 0x7f < b) (dataFor rfc822) \<and> has_extension extensions ''8BITMIME'' then [''BODY=8BITMIME''] else [])
     @ (if non_ascii (concat (from # recipients)) \<and> has_extension extensions ''SMTPUTF8'' then [''SMTPUTF8''] else [])"

definition mail_from :: "(string \<times> string) list \<Rightarrow> string \<Rightarrow> string list \<Rightarrow> string \<Rightarrow> string" where
  "mail_from extensions from recipients rfc822 =
     (let params = mail_params extensions from recipients rfc822
      in ''MAIL FROM:<'' @ from @ ''>'' @ (if params = [] then [] else '' '' @ js_join '' '' params))"

definition rcpt_to :: "string \<Rightarrow> string" where
  "rcpt_to address = ''RCPT TO:<'' @ address @ ''>''"

fun send_recipients :: "smtp_server \<Rightarrow> string list \<Rightarrow> smtp_trace \<Rightarrow> unit smtp" where
  "send_recipients sv [] tr = (tr, Inr ())"
| "send_recipients sv (a # as) tr = bind_smtp (command sv (rcpt_to a) [250, 251] tr) (\<lambda>tr _. send_recipients sv as tr)"

definition transmit :: "smtp_server \<Rightarrow> (string \<times> string) list \<Rightarrow> string \<Rightarrow> string list \<Rightarrow> string \<Rightarrow> smtp_trace \<Rightarrow> unit smtp" where
  "transmit sv extensions from recipients rfc822 tr =
     bind_smtp (command sv (mail_from extensions from recipients rfc822) [250] tr) (\<lambda>tr _.
     bind_smtp (send_recipients sv recipients tr) (\<lambda>tr _.
     bind_smtp (command sv ''DATA'' [354] tr) (\<lambda>tr _.
     bind_smtp (expect sv [250] (tr @ [Sent_Data (data_text rfc822)])) (\<lambda>tr _. (tr, Inr ())))))"

text \<open>How the goodbye goes changes nothing.\<close>

definition quit :: "smtp_server \<Rightarrow> smtp_trace \<Rightarrow> smtp_trace" where
  "quit sv tr = fst (command sv ''QUIT'' [221] tr) @ [Hung_Up]"

definition sendSmtp :: "smtp_server \<Rightarrow> security \<Rightarrow> string \<Rightarrow> string \<Rightarrow> string \<Rightarrow> unit smtp" where
  "sendSmtp sv security username password rfc822 =
     (case envelopeOf rfc822 of
        (from, recipients) \<Rightarrow>
          if from = [] \<or> recipients = [] \<or> \<not> list_all sendable_address (from # recipients) then ([], Inl Protocol)
          else bind_smtp (openSession sv security username password) (\<lambda>tr extensions.
            bind_smtp (hang_up_on_error (transmit sv extensions from recipients rfc822 tr)) (\<lambda>tr _. (quit sv tr, Inr ()))))"

definition verifySmtp :: "smtp_server \<Rightarrow> security \<Rightarrow> string \<Rightarrow> string \<Rightarrow> unit smtp" where
  "verifySmtp sv security username password =
     bind_smtp (openSession sv security username password) (\<lambda>tr _. (quit sv tr, Inr ()))"
subsection \<open>A command line as bytes\<close>

text \<open>Addresses are UTF-16 text, as JavaScript has them; everything above them in this theory is the part below 256.
  A line is written with one byte per code unit, the low one.\<close>

definition latin1ToBytes :: "utf16 list \<Rightarrow> u8 list" where
  "latin1ToBytes text_units = map (\<lambda>u. ucast (u AND 0xff)) text_units"

definition address_unit :: "utf16 \<Rightarrow> bool" where
  "address_unit u \<longleftrightarrow> \<not> space_unit u \<and> u \<noteq> 0x3c \<and> u \<noteq> 0x3e"

definition sendable_units :: "utf16 list \<Rightarrow> bool" where
  "sendable_units a \<longleftrightarrow> list_all address_unit a \<and> 0x40 \<in> set (butlast (drop 1 a))"

definition command_bytes :: "utf16 list \<Rightarrow> u8 list" where
  "command_bytes line = latin1ToBytes (line @ [13, 10])"

definition rcpt_units :: "utf16 list \<Rightarrow> utf16 list" where
  "rcpt_units address = units ''RCPT TO:<'' @ address @ units ''>''"

end
