(* ===== verification/Smtp_Laws.thy ===== *)
theory Smtp_Laws
  imports Smtp
begin

text \<open>
  What submitting a message promises: nothing but the greeting and the request for TLS is ever said in the clear, success
  means the server took the whole message for every recipient, and the server reads exactly the message, without its Bcc.
\<close>

subsection \<open>Runs only grow\<close>

definition extends :: "'a smtp \<Rightarrow> smtp_trace \<Rightarrow> bool" where
  "extends m tr \<longleftrightarrow> (\<exists>xs. fst m = tr @ xs)"

lemma extends_refl [simp]: "extends (tr, x) tr"
  by (simp add: extends_def)

lemma extends_bind [intro]:
  "extends m tr \<Longrightarrow> (\<And>tr' x. m = (tr', Inr x) \<Longrightarrow> extends (f tr' x) tr') \<Longrightarrow> extends (bind_smtp m f) tr"
  unfolding extends_def bind_smtp_def by (force split: prod.split sum.split)

lemma command_trace: "fst (command sv l codes tr) = tr @ [Said l]"
  by (simp add: command_def expect_def split: option.split)

lemma expect_trace: "fst (expect sv codes tr) = tr"
  by (simp add: expect_def split: option.split)

lemma extends_command [intro, simp]: "extends (command sv l codes tr) tr"
  by (simp add: extends_def command_trace)

lemma extends_expect [intro, simp]: "extends (expect sv codes tr) tr"
  by (simp add: extends_def expect_trace)

lemma extends_hang_up: "extends m tr \<Longrightarrow> extends (hang_up_on_error m) tr"
  unfolding extends_def hang_up_on_error_def by (auto split: prod.split sum.split)

lemma extends_authenticate: "extends (authenticate sv u p ex tr) tr"
  unfolding authenticate_def Let_def by (auto intro!: extends_bind)

lemma extends_recipients: "extends (send_recipients sv as tr) tr"
  by (induction as arbitrary: tr) auto

lemma extends_transmit: "extends (transmit sv ex from rs m tr) tr"
proof -
  have data: "extends (bind_smtp (expect sv [250] (tr @ [Sent_Data d])) (\<lambda>tr _. (tr, Inr ()))) tr" for d tr
    by (simp add: extends_def bind_smtp_def expect_def split: option.split)
  show ?thesis unfolding transmit_def by (intro extends_bind extends_command extends_recipients data)
qed

subsection \<open>What is said in the clear\<close>

definition in_clear :: "smtp_trace \<Rightarrow> smtp_event set" where
  "in_clear tr = set (takeWhile (\<lambda>e. e \<noteq> Tls_Up) tr)"

definition harmless :: "smtp_event set" where
  "harmless = {Opened False, Said EHLO, Said ''STARTTLS'', Hung_Up}"

definition guarded :: "smtp_trace \<Rightarrow> bool" where
  "guarded tr \<longleftrightarrow> in_clear tr \<subseteq> harmless"

definition inside :: "smtp_trace \<Rightarrow> bool" where
  "inside tr \<longleftrightarrow> guarded tr \<and> Tls_Up \<in> set tr"

lemma guarded_snoc: "guarded tr \<Longrightarrow> e \<in> harmless \<or> e = Tls_Up \<Longrightarrow> guarded (tr @ [e])"
proof (cases "Tls_Up \<in> set tr")
  case False
  then have "takeWhile (\<lambda>e. e \<noteq> Tls_Up) tr = tr" by (auto simp: takeWhile_eq_all_conv)
  moreover assume g: "guarded tr" and e: "e \<in> harmless \<or> e = Tls_Up"
  ultimately have "set tr \<subseteq> harmless" by (simp only: guarded_def in_clear_def)
  moreover have "in_clear (tr @ [e]) \<subseteq> set (tr @ [e]) - {Tls_Up}" unfolding in_clear_def by (auto dest: set_takeWhileD)
  ultimately show ?thesis using e unfolding guarded_def by auto
qed (auto simp: guarded_def in_clear_def takeWhile_append)

lemma inside_append: "inside tr \<Longrightarrow> inside (tr @ xs)"
  unfolding inside_def guarded_def in_clear_def by (auto simp: takeWhile_append)

lemma inside_extends: "inside tr \<Longrightarrow> extends m tr \<Longrightarrow> inside (fst m)"
  unfolding extends_def using inside_append by auto

lemma guarded_bind:
  "guarded (fst m) \<Longrightarrow> (\<And>tr' x. m = (tr', Inr x) \<Longrightarrow> guarded (fst (f tr' x))) \<Longrightarrow> guarded (fst (bind_smtp m f))"
  unfolding bind_smtp_def by (auto split: prod.split sum.split)

lemma guarded_hang_up: "guarded (fst m) \<Longrightarrow> guarded (fst (hang_up_on_error m))"
  using guarded_snoc [of "fst m" Hung_Up] unfolding hang_up_on_error_def harmless_def by (auto split: prod.split sum.split)

lemma guarded_upgrade:
  assumes "guarded tr"
  shows "guarded (fst (upgrade sv ex tr)) \<and> (\<forall>tr' x. upgrade sv ex tr = (tr', Inr x) \<longrightarrow> inside tr')"
proof -
  let ?t = "tr @ [Said ''STARTTLS'']"
  have t: "guarded ?t" using assms by (rule guarded_snoc) (simp add: harmless_def)
  have i: "inside (?t @ [Tls_Up])" using guarded_snoc [OF t] by (simp add: inside_def)
  have ii: "inside (?t @ [Tls_Up] @ xs)" for xs using inside_append [OF i] by simp
  then have gg: "guarded (?t @ [Tls_Up] @ xs)" for xs by (simp add: inside_def)
  show ?thesis
  proof (cases "command sv ''STARTTLS'' [220] tr")
    case (Pair t' r)
    then have t': "t' = ?t" using command_trace [of sv "''STARTTLS''" "[220]" tr] by simp
    show ?thesis
    proof (cases "has_extension ex ''STARTTLS'' \<and> \<not> sv_unread sv ?t \<and> sv_handshake sv ?t \<and> (\<exists>x. r = Inr x)")
      case False
      then show ?thesis using assms t unfolding upgrade_def Pair t' bind_smtp_def by (auto split: sum.splits)
    next
      case True
      let ?c = "command sv EHLO [250] (?t @ [Tls_Up])"
      have c: "fst ?c = ?t @ [Tls_Up, Said EHLO]" by (simp add: command_trace)
      have "upgrade sv ex tr = (if sv_unread sv (?t @ [Tls_Up]) then (?t @ [Tls_Up], Inl Protocol)
          else bind_smtp ?c (\<lambda>tr r. (tr, Inr (extensionsOf r))))"
        using True unfolding upgrade_def Pair t' by (auto simp: bind_smtp_def Let_def)
      moreover have "fst (bind_smtp ?c (\<lambda>tr r. (tr, Inr (extensionsOf r)))) = fst ?c"
        by (simp add: bind_smtp_def split: prod.split sum.split)
      ultimately have "fst (upgrade sv ex tr) = ?t @ [Tls_Up] \<or> fst (upgrade sv ex tr) = ?t @ [Tls_Up] @ [Said EHLO]"
        using c by (simp split: if_splits)
      then show ?thesis using ii gg [of "[]"] gg [of "[Said EHLO]"] i by (metis append_Nil2 fst_conv)
    qed
  qed
qed

lemma open_guarded:
  "guarded (fst (openSession sv Starttls u p)) \<and> (\<forall>tr ex. openSession sv Starttls u p = (tr, Inr ex) \<longrightarrow> inside tr)"
proof -
  let ?e = "expect sv [220] [Opened (Starttls = Tls)]"
  have e: "fst ?e = [Opened False]" by (simp add: expect_trace)
  have ge: "guarded (fst ?e)" unfolding e by (simp add: guarded_def in_clear_def harmless_def)
  define after where "after = (\<lambda>tr r. bind_smtp (if Starttls = Starttls then upgrade sv (extensionsOf r) tr else (tr, Inr (extensionsOf r)))
      (\<lambda>tr ex. authenticate sv u p ex tr))"
  have after: "guarded (fst (after tr r)) \<and> (\<forall>tr' ex. after tr r = (tr', Inr ex) \<longrightarrow> inside tr')" if "guarded tr" for tr r
  proof (cases "upgrade sv (extensionsOf r) tr")
    case (Pair t' res)
    show ?thesis
    proof (cases res)
      case (Inl e)
      then show ?thesis using guarded_upgrade [OF that, of sv "extensionsOf r"] unfolding after_def Pair by (simp add: bind_smtp_def)
    next
      case (Inr ex)
      then have "inside t'" using guarded_upgrade [OF that, of sv "extensionsOf r"] Pair by blast
      then have "inside (fst (authenticate sv u p ex t'))" using extends_authenticate by (rule inside_extends)
      then show ?thesis unfolding after_def Pair Inr by (auto simp: bind_smtp_def inside_def)
    qed
  qed
  define whole where "whole = bind_smtp ?e (\<lambda>tr _. bind_smtp (command sv EHLO [250] tr) after)"
  have "guarded (fst whole) \<and> (\<forall>tr' ex. whole = (tr', Inr ex) \<longrightarrow> inside tr')"
  proof (cases ?e)
    case (Pair t r)
    then have t: "t = [Opened False]" using e by simp
    have c: "fst (command sv EHLO [250] t) = [Opened False, Said EHLO]" by (simp add: command_trace t)
    have gc: "guarded [Opened False, Said EHLO]" by (simp add: guarded_def in_clear_def harmless_def)
    show ?thesis
    proof (cases "command sv EHLO [250] t")
      case c': (Pair t2 r2)
      then show ?thesis using ge Pair t c gc after [OF gc] unfolding whole_def
        by (cases r; cases r2) (auto simp: bind_smtp_def)
    qed
  qed
  moreover have "openSession sv Starttls u p = hang_up_on_error whole"
    unfolding openSession_def whole_def after_def by simp
  moreover have "hang_up_on_error whole = (tr', Inr ex) \<Longrightarrow> whole = (tr', Inr ex)" for tr' ex
    by (auto simp: hang_up_on_error_def split: prod.splits sum.splits)
  ultimately show ?thesis using guarded_hang_up by metis
qed

lemma open_tls: "\<exists>xs. fst (openSession sv Tls u p) = Opened True # xs"
proof -
  have "extends (openSession sv Tls u p) [Opened True]"
    unfolding openSession_def
    by (intro extends_hang_up extends_bind) (auto simp: extends_authenticate)
  then show ?thesis by (simp add: extends_def)
qed

text \<open>A session goes on with steps that only add to what was said; then the whole is as safe as its opening.\<close>

definition kept_inside_tls :: "security \<Rightarrow> smtp_trace \<Rightarrow> bool" where
  "kept_inside_tls security tr =
     (case security of Tls \<Rightarrow> tr = [] \<or> hd tr = Opened True | Starttls \<Rightarrow> in_clear tr \<subseteq> harmless)"

lemma session_inside_tls:
  assumes "\<And>tr ex. extends (later tr ex) tr"
  shows "kept_inside_tls security (fst (bind_smtp (openSession sv security username password) later))"
proof (cases security)
  case Tls
  let ?o = "openSession sv security username password"
  obtain xs where "fst ?o = Opened True # xs" using open_tls Tls by metis
  then have "extends ?o [Opened True]" by (simp add: extends_def)
  then have "extends (bind_smtp ?o later) [Opened True]" using assms by blast
  then show ?thesis using Tls by (auto simp: extends_def kept_inside_tls_def)
next
  case Starttls
  let ?o = "openSession sv security username password"
  have "guarded (fst (bind_smtp ?o later))"
  proof (rule guarded_bind)
    show "guarded (fst ?o)" using open_guarded Starttls by simp
    fix tr ex assume "?o = (tr, Inr ex)"
    then have "inside tr" using open_guarded Starttls by blast
    then show "guarded (fst (later tr ex))" using inside_extends [OF _ assms] unfolding inside_def by blast
  qed
  then show ?thesis using Starttls by (auto simp: guarded_def in_clear_def kept_inside_tls_def)
qed

lemma quit_extends: "extends (quit sv tr, Inr ()) tr"
  by (simp add: quit_def extends_def command_trace)

text \<open>C8 Whatever the server answers, credentials and mail only ever travel inside TLS, in submitting a message and in verifying an
  account: a connection is TLS from its first byte, or nothing is said on it but the greeting and the request for TLS until
  the handshake is done.\<close>

theorem smtp_secrets_only_inside_tls:
  "kept_inside_tls security (fst (sendSmtp sv security username password rfc822)) \<and>
   kept_inside_tls security (fst (verifySmtp sv security username password))"
proof
  obtain sender recipients where env: "envelopeOf rfc822 = (sender, recipients)" by (cases "envelopeOf rfc822")
  define later where "later = (\<lambda>tr ex. bind_smtp (hang_up_on_error (transmit sv ex sender recipients rfc822 tr)) (\<lambda>tr _. (quit sv tr, Inr ())))"
  have later: "extends (later tr ex) tr" for tr ex
    unfolding later_def by (intro extends_bind extends_hang_up extends_transmit quit_extends)
  have "sendSmtp sv security username password rfc822 = ([], Inl Protocol) \<or>
      sendSmtp sv security username password rfc822 = bind_smtp (openSession sv security username password) later"
    unfolding sendSmtp_def env later_def by simp
  moreover have "kept_inside_tls security []" by (cases security) (simp_all add: kept_inside_tls_def in_clear_def)
  ultimately show "kept_inside_tls security (fst (sendSmtp sv security username password rfc822))"
    using session_inside_tls [of later, OF later] by auto
  show "kept_inside_tls security (fst (verifySmtp sv security username password))"
    unfolding verifySmtp_def by (rule session_inside_tls) (rule quit_extends)
qed

subsection \<open>What success means\<close>

lemma bind_Inr: "bind_smtp m f = (tr, Inr y) \<Longrightarrow> \<exists>tr' x. m = (tr', Inr x) \<and> f tr' x = (tr, Inr y)"
  by (auto simp: bind_smtp_def split: prod.splits sum.splits)

lemma command_Inr: "command sv l codes tr = (tr', Inr r) \<Longrightarrow> tr' = tr @ [Said l] \<and> sv_reply sv tr' = Some r \<and> rp_code r \<in> set codes"
  by (auto simp: command_def expect_def split: option.splits if_splits)

lemma expect_Inr: "expect sv codes tr = (tr', Inr r) \<Longrightarrow> tr' = tr \<and> sv_reply sv tr' = Some r \<and> rp_code r \<in> set codes"
  by (auto simp: expect_def split: option.splits if_splits)

lemma hang_up_Inr: "hang_up_on_error m = (tr, Inr x) \<Longrightarrow> m = (tr, Inr x)"
  by (auto simp: hang_up_on_error_def split: prod.splits sum.splits)

text \<open>The server's answer after a prefix of the run was one of the given codes.\<close>

definition answered :: "smtp_server \<Rightarrow> smtp_trace \<Rightarrow> nat list \<Rightarrow> bool" where
  "answered sv tr codes \<longleftrightarrow> (case sv_reply sv tr of None \<Rightarrow> False | Some r \<Rightarrow> rp_code r \<in> set codes)"

fun accepted :: "smtp_server \<Rightarrow> smtp_trace \<Rightarrow> string list \<Rightarrow> bool" where
  "accepted sv tr [] \<longleftrightarrow> True"
| "accepted sv tr (a # as) \<longleftrightarrow> answered sv (tr @ [Said (rcpt_to a)]) [250, 251] \<and> accepted sv (tr @ [Said (rcpt_to a)]) as"

lemma recipients_Inr:
  "send_recipients sv as tr = (tr', Inr x) \<Longrightarrow> tr' = tr @ map (\<lambda>a. Said (rcpt_to a)) as \<and> accepted sv tr as"
proof (induction as arbitrary: tr)
  case (Cons a as)
  obtain t r where c: "command sv (rcpt_to a) [250, 251] tr = (t, Inr r)" and rest: "send_recipients sv as t = (tr', Inr x)"
    using bind_Inr [OF Cons(2) [unfolded send_recipients.simps]] by blast
  have t: "t = tr @ [Said (rcpt_to a)]" "answered sv t [250, 251]"
    using command_Inr [OF c] by (auto simp: answered_def)
  then show ?case using Cons(1) [OF rest] by simp
qed simp

text \<open>When the send is reported done, the run is: signing in, the sender, every recipient in order, the message, the goodbye;
  the server accepted each recipient, and answered 250 to the message itself.\<close>

theorem smtp_success_means_accepted:
  assumes "sendSmtp sv security username password rfc822 = (tr, Inr ())"
  shows "\<exists>session ex. openSession sv security username password = (session, Inr ex) \<and>
    (let mail = session @ [Said (mail_from ex (fst (envelopeOf rfc822)) (snd (envelopeOf rfc822)) rfc822)];
         given = mail @ map (\<lambda>a. Said (rcpt_to a)) (snd (envelopeOf rfc822));
         sent = given @ [Said ''DATA'', Sent_Data (data_text rfc822)]
     in tr = sent @ [Said ''QUIT'', Hung_Up] \<and> accepted sv mail (snd (envelopeOf rfc822)) \<and> answered sv sent [250])"
proof -
  obtain sender recipients where env: "envelopeOf rfc822 = (sender, recipients)" by (cases "envelopeOf rfc822")
  have "bind_smtp (openSession sv security username password) (\<lambda>tr ex.
      bind_smtp (hang_up_on_error (transmit sv ex sender recipients rfc822 tr)) (\<lambda>tr _. (quit sv tr, Inr ()))) = (tr, Inr ())"
    using assms unfolding sendSmtp_def env by (auto split: if_splits)
  then obtain s ex where s: "openSession sv security username password = (s, Inr ex)" and
    after: "bind_smtp (hang_up_on_error (transmit sv ex sender recipients rfc822 s)) (\<lambda>tr _. (quit sv tr, Inr ())) = (tr, Inr ())"
    by (blast dest: bind_Inr)
  obtain t x where "hang_up_on_error (transmit sv ex sender recipients rfc822 s) = (t, Inr x)" and
    "(quit sv t, Inr ()) = (tr, Inr () :: smtp_error + unit)"
    using bind_Inr [OF after] by blast
  then have t: "hang_up_on_error (transmit sv ex sender recipients rfc822 s) = (t, Inr ())" and tr: "tr = quit sv t" by simp_all
  have "transmit sv ex sender recipients rfc822 s = (t, Inr ())" using t by (rule hang_up_Inr)
  then obtain t1 r1 t2 x2 t3 r3 t4 r4 where
    c1: "command sv (mail_from ex sender recipients rfc822) [250] s = (t1, Inr r1)" and
    c2: "send_recipients sv recipients t1 = (t2, Inr x2)" and
    c3: "command sv ''DATA'' [354] t2 = (t3, Inr r3)" and
    c4: "expect sv [250] (t3 @ [Sent_Data (data_text rfc822)]) = (t4, Inr r4)" and t4: "t = t4"
    unfolding transmit_def by (fast dest!: bind_Inr)
  note e1 = command_Inr [OF c1] and e2 = recipients_Inr [OF c2] and e3 = command_Inr [OF c3] and e4 = expect_Inr [OF c4]
  have "answered sv t4 [250]" using conjunct2 [OF e4] by (simp add: answered_def)
  then have "answered sv t [250]" unfolding t4 .
  moreover have "t = s @ [Said (mail_from ex sender recipients rfc822)] @ map (\<lambda>a. Said (rcpt_to a)) recipients @
      [Said ''DATA'', Sent_Data (data_text rfc822)]" using e1 e2 e3 e4 t4 by simp
  moreover have "tr = t @ [Said ''QUIT'', Hung_Up]" using tr by (simp add: quit_def command_trace)
  ultimately show ?thesis using s e1 e2 unfolding env Let_def by auto
qed

text \<open>A server that takes everything, and a message to two people, one of them blind.\<close>

definition kind_server :: smtp_server where
  "kind_server =
     \<lparr>sv_reply = (\<lambda>tr. Some (case last tr of
        Opened _ \<Rightarrow> \<lparr>rp_code = 220, rp_lines = [[]]\<rparr>
      | Sent_Data _ \<Rightarrow> \<lparr>rp_code = 250, rp_lines = [[]]\<rparr>
      | Said l \<Rightarrow> (if l = EHLO then \<lparr>rp_code = 250, rp_lines = [''h'', ''auth login plain'']\<rparr>
                   else if take 4 l = ''AUTH'' then \<lparr>rp_code = 235, rp_lines = []\<rparr>
                   else if l = ''DATA'' then \<lparr>rp_code = 354, rp_lines = []\<rparr> else \<lparr>rp_code = 250, rp_lines = []\<rparr>)
      | _ \<Rightarrow> \<lparr>rp_code = 250, rp_lines = []\<rparr>)),
      sv_unread = (\<lambda>_. False), sv_handshake = (\<lambda>_. True)\<rparr>"

definition sample_mail :: string where
  "sample_mail = ''From: A <a@x>'' @ [NL] @ ''To: b@y'' @ [NL] @ ''Bcc: c@z'' @ [NL, NL] @ ''.'' @ [NL]"

lemma smtp_success_means_accepted_witness:
  "\<exists>session ex. openSession kind_server Tls ''u'' ''p'' = (session, Inr ex) \<and>
    (let mail = session @ [Said (mail_from ex (fst (envelopeOf sample_mail)) (snd (envelopeOf sample_mail)) sample_mail)];
         given = mail @ map (\<lambda>a. Said (rcpt_to a)) (snd (envelopeOf sample_mail));
         sent = given @ [Said ''DATA'', Sent_Data (data_text sample_mail)]
     in fst (sendSmtp kind_server Tls ''u'' ''p'' sample_mail) = sent @ [Said ''QUIT'', Hung_Up] \<and>
        accepted kind_server mail (snd (envelopeOf sample_mail)) \<and> answered kind_server sent [250])"
proof (rule smtp_success_means_accepted)
  have "snd (sendSmtp kind_server Tls ''u'' ''p'' sample_mail) = Inr ()" by code_simp
  then show "sendSmtp kind_server Tls ''u'' ''p'' sample_mail = (fst (sendSmtp kind_server Tls ''u'' ''p'' sample_mail), Inr ())"
    by (metis prod.collapse)
qed

subsection \<open>The bytes of the message\<close>

text \<open>How a server reads DATA: lines ended by CRLF, up to a line of one dot, one dot taken off every line that starts with one.\<close>

fun crlf_lines :: "string \<Rightarrow> string list" where
  "crlf_lines (c # d # cs) =
     (if c = CR \<and> d = NL then [] # crlf_lines cs else (case crlf_lines (d # cs) of l # ls \<Rightarrow> (c # l) # ls | [] \<Rightarrow> [[c]]))"
| "crlf_lines [c] = [[c]]"
| "crlf_lines [] = [[]]"

fun read_data :: "string list \<Rightarrow> string list \<times> string list" where
  "read_data [] = ([], [])"
| "read_data (l # ls) =
     (if l = ''.'' then ([], ls)
      else (let (a, b) = read_data ls in ((if take 1 l = ''.'' then tl l else l) # a, b)))"

lemma crlf_lines_not_Nil [simp]: "crlf_lines s \<noteq> []"
  by (induction s rule: crlf_lines.induct) (auto split: list.split)

lemma CR_NL: "CR \<noteq> NL"
  by code_simp

lemma crlf_lines_line: "NL \<notin> set l \<Longrightarrow> crlf_lines (l @ CR # NL # s) = l # crlf_lines s"
proof (induction l)
  case (Cons c l)
  then have ih: "crlf_lines (l @ CR # NL # s) = l # crlf_lines s" by simp
  obtain d ds where d: "l @ CR # NL # s = d # ds" by (cases "l @ CR # NL # s") simp_all
  have "\<not> (c = CR \<and> d = NL)"
  proof
    assume "c = CR \<and> d = NL"
    then show False using d Cons(2) CR_NL by (cases l) auto
  qed
  then show ?case using ih d by (auto split: list.split)
qed simp

definition crlf_text :: "string list \<Rightarrow> string" where
  "crlf_text ls = concat (map (\<lambda>l. l @ [CR, NL]) ls)"

lemma crlf_lines_text: "list_all (\<lambda>l. NL \<notin> set l) ls \<Longrightarrow> crlf_lines (crlf_text ls) = ls @ [[]]"
  by (induction ls) (simp_all add: crlf_text_def crlf_lines_line)

lemma join_crlf: "js_join [CR, NL] (ls @ [l]) = crlf_text ls @ l"
proof (induction ls)
  case (Cons x xs)
  then show ?case by (cases xs) (simp_all add: crlf_text_def)
qed (simp add: crlf_text_def)

lemma stuff_dot_laws: "stuff_dot l \<noteq> ''.''" "(if take 1 (stuff_dot l) = ''.'' then tl (stuff_dot l) else stuff_dot l) = l"
  "NL \<notin> set l \<Longrightarrow> NL \<notin> set (stuff_dot l)"
proof -
  have "CHR ''.'' \<noteq> NL" by code_simp
  then show "stuff_dot l \<noteq> ''.''" "(if take 1 (stuff_dot l) = ''.'' then tl (stuff_dot l) else stuff_dot l) = l"
    "NL \<notin> set l \<Longrightarrow> NL \<notin> set (stuff_dot l)"
    by (cases l; auto simp: stuff_dot_def)+
qed

lemma read_stuffed: "read_data (map stuff_dot ls @ ''.'' # rest) = (ls, rest)"
proof (induction ls)
  case (Cons a ls)
  then show ?case using stuff_dot_laws(1, 2) [of a] by (auto split: if_splits)
qed simp

definition message_lines :: "string \<Rightarrow> string list" where
  "message_lines m = (let ls = js_split NL m in if last ls = [] then butlast ls else ls)"

lemma data_text_lines:
  "data_text m = crlf_text (map stuff_dot (message_lines (message_without_bcc m)) @ [''.''])"
proof -
  let ?ls = "js_split NL (message_without_bcc m)"
  obtain ls l where ls: "?ls = ls @ [l]" by (metis js_split_not_Nil rev_exhaust)
  have "NL \<in> set (message_without_bcc m)" by (simp add: message_without_bcc_def Let_def split_def)
  then have "ls \<noteq> []" using ls js_split_parts [of _ NL "message_without_bcc m"] js_join_split [of NL "message_without_bcc m"]
    by (cases ls) auto
  let ?stuffed = "js_join [CR, NL] (map stuff_dot ?ls)"
  have st: "?stuffed = crlf_text (map stuff_dot ls) @ stuff_dot l" unfolding ls using join_crlf by simp
  have nl: "NL \<notin> set (stuff_dot l)" using ls js_split_parts [of l NL "message_without_bcc m"] stuff_dot_laws(3) by simp
  have ends: "ends_with_crlf ?stuffed \<longleftrightarrow> l = []"
  proof (cases "l = []")
    case True
    obtain ls' x where "ls = ls' @ [x]" using \<open>ls \<noteq> []\<close> by (metis rev_exhaust)
    then have "?stuffed = (crlf_text (map stuff_dot ls') @ stuff_dot x) @ [CR, NL]"
      using True unfolding st by (simp add: crlf_text_def stuff_dot_def)
    then show ?thesis using True by (simp add: ends_with_crlf_def)
  next
    case False
    then have "stuff_dot l \<noteq> []" by (auto simp: stuff_dot_def split: list.split)
    moreover have "last (stuff_dot l) \<noteq> NL" if "stuff_dot l \<noteq> []" using nl last_in_set [OF that] by metis
    ultimately have "last ?stuffed \<noteq> NL" "?stuffed \<noteq> []" unfolding st by simp_all
    then have "\<not> ends_with_crlf ?stuffed"
      unfolding ends_with_crlf_def by (metis append_take_drop_id last_appendR last.simps list.distinct(1))
    then show ?thesis using False by simp
  qed
  show ?thesis
  proof (cases "l = []")
    case True
    then have "data_text m = ?stuffed @ ''.'' @ [CR, NL]" using ends by (simp add: data_text_def Let_def)
    moreover have "message_lines (message_without_bcc m) = ls" using True ls by (simp add: message_lines_def)
    ultimately show ?thesis using True unfolding st by (simp add: crlf_text_def stuff_dot_def)
  next
    case False
    then have "data_text m = (?stuffed @ [CR, NL]) @ ''.'' @ [CR, NL]" using ends by (simp add: data_text_def Let_def)
    moreover have "message_lines (message_without_bcc m) = ls @ [l]" using False ls by (simp add: message_lines_def)
    ultimately show ?thesis unfolding st by (simp add: crlf_text_def)
  qed
qed

lemma no_bcc_left: "\<not> list_ex (\<lambda>l. bcc_line l \<and> \<not> folded l) (drop_bcc d ls)"
  by (induction d ls rule: drop_bcc.induct) auto

text \<open>C9 The server reads back exactly the lines of the message without its Bcc headers, with nothing after the end: no line
  of a body can end the message early, and no header line names a blind copy.\<close>

theorem smtp_data_exact:
  "read_data (crlf_lines (data_text rfc822)) = (message_lines (message_without_bcc rfc822), [[]]) \<and>
   \<not> list_ex (\<lambda>l. bcc_line l \<and> \<not> folded l) (drop_bcc False (js_split NL (headerBlockOf rfc822)))"
proof -
  let ?ls = "message_lines (message_without_bcc rfc822)"
  have "NL \<notin> set l" if "l \<in> set ?ls" for l
    using that js_split_parts by (fastforce simp: message_lines_def Let_def dest: in_set_butlastD split: if_splits)
  then have "list_all (\<lambda>l. NL \<notin> set l) (map stuff_dot ?ls @ [''.''])"
    using stuff_dot_laws(3) by (auto simp: list_all_iff)
  then have "crlf_lines (data_text rfc822) = map stuff_dot ?ls @ ''.'' # [[]]"
    unfolding data_text_lines by (simp add: crlf_lines_text)
  then show ?thesis using read_stuffed [of ?ls "[[]]"] no_bcc_left by simp
qed
subsection \<open>What an address can say\<close>

lemma latin1ToBytes_append: "latin1ToBytes (xs @ ys) = latin1ToBytes xs @ latin1ToBytes ys"
  by (simp add: latin1ToBytes_def)

definition ideograph :: "u8 \<Rightarrow> utf16" where
  "ideograph b = 0x4e00 OR ucast b"

lemma low_bits: "n < 8 \<Longrightarrow> bit (0xff :: int) n" "n < 8 \<Longrightarrow> \<not> bit (0x4e00 :: int) n"
proof -
  assume "n < 8"
  then have n: "n \<in> {0, 1, 2, 3, 4, 5, 6, 7}" by auto
  show "bit (0xff :: int) n" using n by auto
  show "\<not> bit (0x4e00 :: int) n" using n by auto
qed

lemma ideograph_low: "ucast (ideograph b AND 0xff) = b"
  unfolding ideograph_def by (rule bit_word_eqI) (auto simp: bit_simps low_bits)

lemma latin1ToBytes_ideographs: "latin1ToBytes (map ideograph bs) = bs"
  unfolding latin1ToBytes_def by (induction bs) (simp_all add: ideograph_low)

lemma unat_ucast_u8: "unat (ucast (b :: u8) :: utf16) = unat b"
proof -
  have "unat b < 2 ^ 16" using unsigned_less [of b, where ?'a = nat] by simp
  then show ?thesis by (simp add: unsigned_ucast_eq take_bit_nat_eq_self)
qed

lemma ideograph_range: "0x4e00 \<le> ideograph b \<and> ideograph b \<le> 0x4eff"
proof -
  have "ideograph b = 0x4e00 + ucast b" unfolding ideograph_def
    by (rule disjunctive_add [symmetric]) (auto simp: bit_simps low_bits dest: bit_imp_le_length)
  moreover have "unat (ucast b :: utf16) = unat b" by (rule unat_ucast_u8)
  moreover have "unat b < 256" using unsigned_less [of b, where ?'a = nat] by simp
  ultimately show ?thesis by (simp add: word_le_nat_alt unat_word_ariths)
qed

lemma ideograph_address_unit: "address_unit (ideograph b)"
  using ideograph_range [of b] by (auto simp: address_unit_def space_unit_def word_le_nat_alt)

text \<open>C10 The check on the addresses looks at UTF-16 units, the writer keeps their low bytes: whatever bytes one likes can follow
  an address that passes it, the end of the line and a second command included.\<close>

theorem checked_address_smuggles:
  "\<exists>address. sendable_units (units ''a@b'' @ address) \<and>
     command_bytes (rcpt_units (units ''a@b'' @ address)) = latin1ToBytes (units ''RCPT TO:<a@b'') @ bs @ [0x3e, 13, 10]"
proof (rule exI [of _ "map ideograph bs"], intro conjI)
  have "list_all address_unit (units ''a@b'')"
    by (simp add: units_def address_unit_def space_unit_def code_unit_def)
  moreover have "(0x40 :: utf16) \<in> set (butlast (drop 1 (units ''a@b'' @ map ideograph bs)))"
    by (auto simp: units_def code_unit_def butlast_append)
  ultimately show "sendable_units (units ''a@b'' @ map ideograph bs)"
    using ideograph_address_unit unfolding sendable_units_def list_all_append by (auto simp: list_all_iff)
  show "command_bytes (rcpt_units (units ''a@b'' @ map ideograph bs)) = latin1ToBytes (units ''RCPT TO:<a@b'') @ bs @ [0x3e, 13, 10]"
    by (simp add: command_bytes_def rcpt_units_def latin1ToBytes_append latin1ToBytes_ideographs)
      (simp add: latin1ToBytes_def units_def code_unit_def)
qed

end
