(* ===== verification/Json.thy ===== *)
theory Json
  imports Js_Prelude Complex_Main
begin

text \<open>A value read back from JSON text. An object's keys are distinct, in insertion order.\<close>

datatype json = JNull | JBool bool | JNum rat | JStr string | JArr "json list" | JObj "(string \<times> json) list"

text \<open>\<open>value?.key\<close>; what is no object has no such property.\<close>

definition json_field :: "json option \<Rightarrow> string \<Rightarrow> json option" where
  "json_field v k = (case v of Some (JObj kvs) \<Rightarrow> obj_get kvs k | _ \<Rightarrow> None)"

fun json_strings :: "json list \<Rightarrow> string list" where
  "json_strings [] = []"
| "json_strings (v # vs) = (case v of JStr s \<Rightarrow> s # json_strings vs | _ \<Rightarrow> json_strings vs)"

lemma json_strings_map [simp]: "json_strings (map JStr ss) = ss"
  by (induction ss) auto

end
