(* ===== verification/Notify_Policy.thy ===== *)
theory Notify_Policy
  imports Utf16_Text Json Css_Text
begin

text \<open>
  What a new-mail notification may say (\<^verbatim>\<open>notifications/policy.ts\<close>). Texts are lists of UTF-16 code units. A plan carries
  its lock-screen text, and the detailed text if it has one of its own; \<open>visibility\<close> is the same in all of them.
\<close>

datatype preview = PreviewOff | PreviewPrivate | PreviewSender | PreviewFull

definition preview_name :: "preview \<Rightarrow> string" where
  "preview_name p = (case p of PreviewOff \<Rightarrow> ''off'' | PreviewPrivate \<Rightarrow> ''private'' | PreviewSender \<Rightarrow> ''sender'' | PreviewFull \<Rightarrow> ''full'')"

definition NOTIFICATION_PREVIEWS :: "preview list" where
  "NOTIFICATION_PREVIEWS = [PreviewOff, PreviewPrivate, PreviewSender, PreviewFull]"

definition DEFAULT_NOTIFICATION_PREVIEW :: preview where
  "DEFAULT_NOTIFICATION_PREVIEW = PreviewPrivate"

record new_mail =
  nm_from :: "utf16 list"
  nm_fromName :: "utf16 list option"
  nm_subject :: "utf16 list option"
  nm_snippet :: "utf16 list option"
  nm_encrypted :: bool
  nm_decrypted :: bool

record note_text =
  nt_title :: "utf16 list"
  nt_body :: "utf16 list"

datatype note_plan = NoPost | Post note_text "note_text option"

definition plan_content :: "note_text \<Rightarrow> note_text option \<Rightarrow> note_text" where
  "plan_content lock detailed = (case detailed of None \<Rightarrow> lock | Some t \<Rightarrow> t)"

definition GENERIC_TITLE :: "utf16 list" where
  "GENERIC_TITLE = units ''CryptMail''"

definition MAX_PREVIEW_CHARS :: nat where
  "MAX_PREVIEW_CHARS = 120"

definition clip :: "utf16 list option \<Rightarrow> utf16 list" where
  "clip t =
     (let line = trim_units (one_space (case t of None \<Rightarrow> [] | Some s \<Rightarrow> s))
      in if MAX_PREVIEW_CHARS < length line then take (MAX_PREVIEW_CHARS - 1) line @ [0x2026] else line)"

definition or_else :: "'a list \<Rightarrow> 'a list \<Rightarrow> 'a list" where
  "or_else a b = (if a = [] then b else a)"

definition senderOf :: "new_mail \<Rightarrow> utf16 list" where
  "senderOf m = or_else (clip (map_option trim_units (nm_fromName m))) (nm_from m)"

definition isReadable :: "new_mail \<Rightarrow> bool" where
  "isReadable m \<longleftrightarrow> \<not> nm_encrypted m \<or> nm_decrypted m"

definition genericText :: "nat \<Rightarrow> note_text" where
  "genericText n =
     \<lparr>nt_title = GENERIC_TITLE, nt_body = (if n = 1 then units ''New message'' else units (decimal_digits n @ '' new messages''))\<rparr>"

definition one_message :: "preview \<Rightarrow> new_mail \<Rightarrow> note_text" where
  "one_message pv m =
     \<lparr>nt_title = senderOf m,
      nt_body = (if pv = PreviewSender then units ''New message''
                 else or_else (clip (nm_subject m)) (or_else (clip (nm_snippet m)) (units ''New message'')))\<rparr>"

definition many_messages :: "new_mail list \<Rightarrow> note_text" where
  "many_messages mail =
     (let readable = filter isReadable mail;
          hidden = length mail - length readable;
          body = js_join (units '', '') (js_unique (map senderOf readable))
                 @ (if 0 < hidden then units ('' and '' @ decimal_digits hidden @ '' more'') else [])
      in \<lparr>nt_title = units (decimal_digits (length mail) @ '' new messages''), nt_body = clip (Some body)\<rparr>)"

definition planFor :: "new_mail list \<Rightarrow> preview \<Rightarrow> bool \<Rightarrow> note_plan" where
  "planFor mail pv locked =
     (if pv = PreviewOff \<or> mail = [] then NoPost
      else let lock = genericText (length mail); readable = filter isReadable mail
        in if pv = PreviewPrivate \<or> locked then Post lock None
           else if readable = [] then Post lock None
           else if length mail = 1 then Post lock (Some (one_message pv (hd readable)))
           else Post lock (Some (many_messages mail)))"

subsection \<open>The push payload\<close>

definition PAYLOAD_KEYS :: "string list" where
  "PAYLOAD_KEYS = [''a'', ''t'', ''v'']"

definition token_char :: "char \<Rightarrow> bool" where
  "token_char c \<longleftrightarrow> is_letter c \<or> is_digit c \<or> c = CHR ''_'' \<or> c = CHR ''-''"

definition account_token :: "string \<Rightarrow> bool" where
  "account_token s \<longleftrightarrow> 22 \<le> length s \<and> length s \<le> 64 \<and> list_all token_char s"

definition parseRelayPayload :: "json \<Rightarrow> string option" where
  "parseRelayPayload data =
     (case data of
        JObj record \<Rightarrow>
          if js_sort str_cmp (obj_keys record) \<noteq> PAYLOAD_KEYS then None
          else if obj_get record ''v'' \<noteq> Some (JNum 1) \<and> obj_get record ''v'' \<noteq> Some (JStr ''1'') then None
          else if obj_get record ''t'' \<noteq> Some (JStr ''sync'') then None
          else (case obj_get record ''a'' of
                  Some (JStr a) \<Rightarrow> if account_token a then Some a else None
                | _ \<Rightarrow> None)
      | _ \<Rightarrow> None)"
subsection \<open>What a notification reveals\<close>

definition hide :: "new_mail \<Rightarrow> new_mail" where
  "hide m = (if isReadable m then m
     else \<lparr>nm_from = [], nm_fromName = None, nm_subject = None, nm_snippet = None, nm_encrypted = True, nm_decrypted = False\<rparr>)"

definition without_content :: "new_mail \<Rightarrow> new_mail" where
  "without_content m = m\<lparr>nm_subject := None, nm_snippet := None\<rparr>"

lemma readable_hide: "filter isReadable (map hide mail) = filter isReadable mail"
  by (induction mail) (auto simp: hide_def isReadable_def)

lemma readable_without_content: "filter isReadable (map without_content mail) = map without_content (filter isReadable mail)"
  by (induction mail) (auto simp: without_content_def isReadable_def)

lemma sender_without_content: "senderOf (without_content m) = senderOf m"
  by (simp add: without_content_def senderOf_def)

lemma many_messages_hide: "many_messages (map hide mail) = many_messages mail"
  unfolding many_messages_def readable_hide length_map ..

lemma senders_without_content: "map senderOf (map without_content ms) = map senderOf ms"
  by (simp add: sender_without_content)

lemma many_messages_without_content: "many_messages (map without_content mail) = many_messages mail"
  unfolding many_messages_def readable_without_content senders_without_content length_map Let_def ..

lemma one_message_without_content: "one_message PreviewSender (without_content m) = one_message PreviewSender m"
  by (simp add: one_message_def sender_without_content)

text \<open>C15 A notification shows at most: how many messages there are; of the readable ones the senders; and of a single readable
  one, on the full setting, its subject or first words. An encrypted message that was not read here shows nothing, and a
  locked phone or the private setting shows the count alone.\<close>

theorem notification_reveals:
  "(\<forall>lock detail. planFor mail pv locked = Post lock detail \<longrightarrow> lock = genericText (length mail)) \<and>
   (pv = PreviewPrivate \<or> locked \<longrightarrow> planFor mail pv locked = (if pv = PreviewOff \<or> mail = [] then NoPost else Post (genericText (length mail)) None)) \<and>
   planFor (map hide mail) pv locked = planFor mail pv locked \<and>
   (pv = PreviewSender \<or> length mail \<noteq> 1 \<longrightarrow> planFor (map without_content mail) pv locked = planFor mail pv locked)"
proof (intro conjI impI)
  show "\<forall>lock detail. planFor mail pv locked = Post lock detail \<longrightarrow> lock = genericText (length mail)"
    by (auto simp: planFor_def Let_def split: if_splits)
  assume "pv = PreviewPrivate \<or> locked"
  then show "planFor mail pv locked = (if pv = PreviewOff \<or> mail = [] then NoPost else Post (genericText (length mail)) None)"
    by (auto simp: planFor_def Let_def)
next
  show "planFor (map hide mail) pv locked = planFor mail pv locked"
    unfolding planFor_def readable_hide many_messages_hide length_map map_is_Nil_conv ..
next
  assume kind: "pv = PreviewSender \<or> length mail \<noteq> 1"
  show "planFor (map without_content mail) pv locked = planFor mail pv locked"
  proof (cases "filter isReadable mail")
    case Nil
    then show ?thesis unfolding planFor_def readable_without_content by (simp add: Let_def)
  next
    case (Cons m ms)
    then show ?thesis using kind unfolding planFor_def readable_without_content many_messages_without_content
      by (cases pv) (auto simp: one_message_without_content Let_def)
  qed
qed

definition sample_mail_row :: new_mail where
  "sample_mail_row = \<lparr>nm_from = units ''eve@x.org'', nm_fromName = Some (units ''Eve''), nm_subject = Some (units ''hi''),
     nm_snippet = None, nm_encrypted = True, nm_decrypted = False\<rparr>"

theorem notification_reveals_witness:
  "planFor [sample_mail_row] PreviewFull True = Post (genericText 1) None \<and>
   planFor [without_content sample_mail_row] PreviewSender False = planFor [sample_mail_row] PreviewSender False"
  using notification_reveals [of "[sample_mail_row]" PreviewFull True, THEN conjunct2, THEN conjunct1]
    notification_reveals [of "[sample_mail_row]" PreviewSender False, THEN conjunct2, THEN conjunct2, THEN conjunct2]
  by simp

subsection \<open>What a push may say\<close>

lemma three_items: "length xs = 3 \<Longrightarrow> \<exists>x y z. xs = [x, y, z]"
  by (auto simp: numeral_eq_Suc length_Suc_conv)

lemma only_order:
  fixes f :: "'a \<Rightarrow> 'a \<Rightarrow> int"
  assumes "length xs = 3" "set xs = {a, t, v}" "distinct xs" "sorted_wrt (\<lambda>x y. f x y \<le> 0) xs"
    "0 < f t a" "0 < f v a" "0 < f v t"
  shows "xs = [a, t, v]"
proof -
  obtain x y z where xs: "xs = [x, y, z]" using three_items [OF assms(1)] by blast
  then have "x \<in> {a, t, v}" "y \<in> {a, t, v}" "z \<in> {a, t, v}" "x \<noteq> y" "y \<noteq> z" "x \<noteq> z" "f x y \<le> 0" "f y z \<le> 0"
    using assms(2-4) by auto
  then show ?thesis using assms(5-7) unfolding xs by fastforce
qed

lemma payload_order: "js_sort str_cmp ks = PAYLOAD_KEYS \<longleftrightarrow> mset ks = mset PAYLOAD_KEYS"
proof
  assume "js_sort str_cmp ks = PAYLOAD_KEYS"
  then show "mset ks = mset PAYLOAD_KEYS" using mset_js_sort [of str_cmp ks] by simp
next
  assume same: "mset ks = mset PAYLOAD_KEYS"
  show "js_sort str_cmp ks = PAYLOAD_KEYS" unfolding PAYLOAD_KEYS_def
  proof (rule only_order [where f = str_cmp])
    show "length (js_sort str_cmp ks) = 3" "set (js_sort str_cmp ks) = {''a'', ''t'', ''v''}" "distinct (js_sort str_cmp ks)"
      using mset_eq_length [OF same] mset_eq_setD [OF same] mset_eq_imp_distinct_iff [OF same] by (simp_all add: PAYLOAD_KEYS_def)
    show "0 < str_cmp ''t'' ''a''" "0 < str_cmp ''v'' ''a''" "0 < str_cmp ''v'' ''t''" by code_simp+
  qed (rule code_units.sort_sorted)
qed

text \<open>A push is accepted exactly when it is an object with the three fields of the contract and nothing else, the account a
  token of the right length and letters.\<close>

theorem relay_payload_exact:
  assumes "obj_ok record"
  shows "parseRelayPayload (JObj record) = Some a \<longleftrightarrow>
    length record = 3 \<and> obj_get record ''v'' \<in> {Some (JNum 1), Some (JStr ''1'')} \<and>
    obj_get record ''t'' = Some (JStr ''sync'') \<and> obj_get record ''a'' = Some (JStr a) \<and> account_token a"
proof -
  have "mset (obj_keys record) = mset PAYLOAD_KEYS"
    if "length record = 3" "{''a'', ''t'', ''v''} \<subseteq> set (obj_keys record)"
  proof -
    have "card (set (obj_keys record)) = 3" using assms that(1) distinct_card [of "obj_keys record"] by (simp add: obj_ok_def del: set_map)
    then have "{''a'', ''t'', ''v''} = set (obj_keys record)" by (intro card_subset_eq) (use that(2) in simp_all)
    then have "set (obj_keys record) = {''a'', ''t'', ''v''}" by simp
    then show ?thesis using assms set_eq_iff_mset_eq_distinct [of "obj_keys record" PAYLOAD_KEYS]
      by (simp add: obj_ok_def PAYLOAD_KEYS_def)
  qed
  moreover have found: "k \<in> fst ` set record" if "obj_get record k = Some v" for k v
    using that by (metis domI dom_map_of_conv_image_fst)
  moreover have "length record = 3" if "mset (obj_keys record) = mset PAYLOAD_KEYS"
    using mset_eq_length [OF that] by (simp add: PAYLOAD_KEYS_def)
  ultimately show ?thesis
    by (auto simp: parseRelayPayload_def payload_order split: option.splits json.splits if_splits dest!: found)
qed
theorem relay_payload_exact_witness:
  "parseRelayPayload (JObj [(''t'', JStr ''sync''), (''v'', JStr ''1''), (''a'', JStr ''abcdefghijklmnopqrstuv'')]) = Some ''abcdefghijklmnopqrstuv''"
proof -
  have ok: "obj_ok [(''t'', JStr ''sync''), (''v'', JStr ''1''), (''a'', JStr ''abcdefghijklmnopqrstuv'')]" by (simp add: obj_ok_def)
  have "account_token ''abcdefghijklmnopqrstuv''" by code_simp
  then show ?thesis by (simp add: relay_payload_exact [OF ok])
qed

end
