(* ===== verification/Notify_Ledger.thy ===== *)
theory Notify_Ledger
  imports Notify_Policy Provider_Labels Search
begin

text \<open>
  Which rows of a sync are new mail (\<^verbatim>\<open>notifications/newMail.ts\<close>), and the ledger it is worked out against
  (\<^verbatim>\<open>store/notifyStore.ts\<close>). A time is a number of milliseconds; \<open>Date.parse\<close> and \<open>toISOString\<close> are fields of the
  clock, the first undefined on what is no date.
\<close>

datatype notify_scope = ScopePrimary | ScopeAll

definition NOTIFY_SCOPES :: "notify_scope list" where
  "NOTIFY_SCOPES = [ScopePrimary, ScopeAll]"

definition scope_name :: "notify_scope \<Rightarrow> string" where
  "scope_name s = (case s of ScopePrimary \<Rightarrow> ''primary'' | ScopeAll \<Rightarrow> ''all'')"

record ledger =
  lg_since :: "string option"
  lg_seen :: "string list"
  lg_pending :: "string list"

definition EMPTY_LEDGER :: ledger where
  "EMPTY_LEDGER = \<lparr>lg_since = None, lg_seen = [], lg_pending = []\<rparr>"

definition SEEN_CAP :: nat where
  "SEEN_CAP = 500"

definition MAX_AGE_MS :: int where
  "MAX_AGE_MS = 2 * 24 * 60 * 60 * 1000"

definition SINCE_SLACK_MS :: int where
  "SINCE_SLACK_MS = 10 * 60 * 1000"

definition OTHER_TABS :: "string list" where
  "OTHER_TABS = [''CATEGORY_PROMOTIONS'', ''CATEGORY_SOCIAL'', ''CATEGORY_UPDATES'', ''CATEGORY_FORUMS'']"

definition isEncryptedSummary :: "mail_summary \<Rightarrow> bool" where
  "isEncryptedSummary row = hasSealedSubject (sm_subject row)"

record clock =
  ck_now :: int
  ck_parse :: "string \<Rightarrow> int option"
  ck_iso :: "int \<Rightarrow> string"

record observe_options =
  oo_self :: string
  oo_scope :: notify_scope
  oo_clock :: clock

record observation =
  ob_ledger :: ledger
  ob_fresh :: "mail_summary list"
  ob_pending :: "mail_summary list"

definition isNotifiable :: "mail_summary \<Rightarrow> observe_options \<Rightarrow> string \<Rightarrow> bool" where
  "isNotifiable row options since =
     (let encrypted = isEncryptedSummary row; ck = oo_clock options
      in sm_unread row
         \<and> canonical (sm_from_address row) \<noteq> canonical (oo_self options)
         \<and> (encrypted \<or> \<not> providerFiledAsJunk (sm_labels row))
         \<and> (encrypted \<or> oo_scope options \<noteq> ScopePrimary
            \<or> \<not> (case sm_labels row of None \<Rightarrow> False | Some ls \<Rightarrow> list_ex (\<lambda>l. l \<in> set OTHER_TABS) ls))
         \<and> (case ck_parse ck (sm_date row) of
              None \<Rightarrow> False
            | Some t \<Rightarrow> ck_now ck - t \<le> MAX_AGE_MS
                \<and> (case ck_parse ck since of None \<Rightarrow> False | Some s \<Rightarrow> s - SINCE_SLACK_MS \<le> t)))"

definition capSeen :: "string list \<Rightarrow> string list" where
  "capSeen ids = (let unique = js_unique ids in drop (length unique - SEEN_CAP) unique)"

text \<open>The map from an id to its unread row keeps the last of several.\<close>

definition unread_row :: "mail_summary list \<Rightarrow> string \<Rightarrow> mail_summary option" where
  "unread_row rows i = map_of (rev (map (\<lambda>r. (sm_id r, r)) (filter sm_unread rows))) i"

definition observe :: "(string \<Rightarrow> string \<Rightarrow> int) \<Rightarrow> ledger \<Rightarrow> mail_summary list \<Rightarrow> observe_options \<Rightarrow> observation" where
  "observe lc lg rows options =
     (case lg_since lg of
        Some (c # cs) \<Rightarrow>
          let since = c # cs;
              fresh = filter (\<lambda>r. sm_id r \<notin> set (lg_seen lg) \<and> isNotifiable r options since) rows;
              pendingIds = filter (\<lambda>i. unread_row rows i \<noteq> None) (js_unique (lg_pending lg @ map sm_id fresh));
              pending = js_sort (cmp_desc (cmp_by_text lc sm_date)) (map (\<lambda>i. the (unread_row rows i)) pendingIds);
              newlySeen = filter (\<lambda>i. i \<notin> set (lg_seen lg)) (map sm_id rows)
          in \<lparr>ob_ledger = \<lparr>lg_since = Some since, lg_seen = capSeen (lg_seen lg @ newlySeen), lg_pending = pendingIds\<rparr>,
              ob_fresh = fresh, ob_pending = pending\<rparr>
      | _ \<Rightarrow>
          \<lparr>ob_ledger = \<lparr>lg_since = Some (ck_iso (oo_clock options) (ck_now (oo_clock options))),
                        lg_seen = capSeen (map sm_id rows), lg_pending = []\<rparr>,
           ob_fresh = [], ob_pending = []\<rparr>)"

definition clearPending :: "ledger \<Rightarrow> ledger" where
  "clearPending lg = (if lg_pending lg = [] then lg else lg\<lparr>lg_pending := []\<rparr>)"

definition ledgerChanged :: "ledger \<Rightarrow> ledger \<Rightarrow> bool" where
  "ledgerChanged a b \<longleftrightarrow> lg_since a \<noteq> lg_since b \<or> lg_seen a \<noteq> lg_seen b \<or> lg_pending a \<noteq> lg_pending b"

definition toNewMail :: "mail_summary \<Rightarrow> index_entry option \<Rightarrow> new_mail" where
  "toNewMail row readable =
     (if isEncryptedSummary row
      then \<lparr>nm_from = units (sm_from_address row), nm_fromName = map_option units (sm_from_name row),
            nm_subject = map_option (\<lambda>e. units (ie_subject e)) readable, nm_snippet = map_option (\<lambda>e. units (ie_body e)) readable,
            nm_encrypted = True, nm_decrypted = (readable \<noteq> None)\<rparr>
      else \<lparr>nm_from = units (sm_from_address row), nm_fromName = map_option units (sm_from_name row),
            nm_subject = Some (units (sm_subject row)), nm_snippet = Some (units (sm_snippet row)),
            nm_encrypted = False, nm_decrypted = False\<rparr>)"

subsection \<open>On disk\<close>

definition strings_of :: "json option \<Rightarrow> string list" where
  "strings_of v = (case v of Some (JArr vs) \<Rightarrow> json_strings vs | _ \<Rightarrow> [])"

definition read_ledger :: "json option \<Rightarrow> ledger" where
  "read_ledger stored =
     \<lparr>lg_since = (case json_field stored ''since'' of Some (JStr s) \<Rightarrow> Some s | _ \<Rightarrow> None),
      lg_seen = strings_of (json_field stored ''seen''), lg_pending = strings_of (json_field stored ''pending'')\<rparr>"

definition ledger_json :: "ledger \<Rightarrow> json" where
  "ledger_json lg =
     JObj [(''since'', case lg_since lg of None \<Rightarrow> JNull | Some s \<Rightarrow> JStr s),
           (''seen'', JArr (map JStr (lg_seen lg))), (''pending'', JArr (map JStr (lg_pending lg)))]"

record notify_prefs =
  np_preview :: preview
  np_scope :: notify_scope

definition DEFAULT_NOTIFICATION_PREFS :: notify_prefs where
  "DEFAULT_NOTIFICATION_PREFS = \<lparr>np_preview = DEFAULT_NOTIFICATION_PREVIEW, np_scope = ScopePrimary\<rparr>"

definition one_named :: "('a \<Rightarrow> string) \<Rightarrow> 'a list \<Rightarrow> 'a \<Rightarrow> json option \<Rightarrow> 'a" where
  "one_named nm xs fallback v =
     (case v of Some (JStr s) \<Rightarrow> (case find (\<lambda>x. nm x = s) xs of Some x \<Rightarrow> x | None \<Rightarrow> fallback) | _ \<Rightarrow> fallback)"

definition normaliseNotificationPrefs :: "json option \<Rightarrow> notify_prefs" where
  "normaliseNotificationPrefs v =
     \<lparr>np_preview = one_named preview_name NOTIFICATION_PREVIEWS DEFAULT_NOTIFICATION_PREVIEW (json_field v ''preview''),
      np_scope = one_named scope_name NOTIFY_SCOPES ScopePrimary (json_field v ''scope'')\<rparr>"

definition prefs_json :: "notify_prefs \<Rightarrow> json" where
  "prefs_json p = JObj [(''preview'', JStr (preview_name (np_preview p))), (''scope'', JStr (scope_name (np_scope p)))]"
subsection \<open>What an observation is\<close>

lemma find_named: "x \<in> set xs \<Longrightarrow> inj_on nm (set xs) \<Longrightarrow> one_named nm xs d (Some (JStr (nm x))) = x"
  unfolding one_named_def by (induction xs) auto

text \<open>Whatever is on disk is read as preferences and a ledger, and what was saved is read back as it was.\<close>

theorem notify_store_round_trip:
  "read_ledger (Some (ledger_json lg)) = lg \<and> normaliseNotificationPrefs (Some (prefs_json p)) = p \<and>
   normaliseNotificationPrefs (Some (prefs_json (normaliseNotificationPrefs v))) = normaliseNotificationPrefs v"
proof -
  have prefs: "normaliseNotificationPrefs (Some (prefs_json q)) = q" for q
  proof -
    have "one_named preview_name NOTIFICATION_PREVIEWS d (Some (JStr (preview_name (np_preview q)))) = np_preview q" for d
      by (cases "np_preview q") (simp_all add: one_named_def NOTIFICATION_PREVIEWS_def preview_name_def)
    moreover have "one_named scope_name NOTIFY_SCOPES d (Some (JStr (scope_name (np_scope q)))) = np_scope q" for d
      by (cases "np_scope q") (simp_all add: one_named_def NOTIFY_SCOPES_def scope_name_def)
    ultimately show ?thesis by (simp add: normaliseNotificationPrefs_def prefs_json_def json_field_def)
  qed
  moreover have "read_ledger (Some (ledger_json lg)) = lg"
    by (cases "lg_since lg") (simp_all add: read_ledger_def ledger_json_def json_field_def strings_of_def)
  ultimately show ?thesis by simp
qed

lemma unread_row_Some: "unread_row rows i = Some r \<Longrightarrow> r \<in> set rows \<and> sm_unread r \<and> sm_id r = i"
  unfolding unread_row_def by (auto dest!: map_of_SomeD)

lemma unread_row_None: "unread_row rows i = None \<longleftrightarrow> i \<notin> sm_id ` {r \<in> set rows. sm_unread r}"
  unfolding unread_row_def by (auto simp: map_of_eq_None_iff image_image)

lemma notifiable_unread: "isNotifiable r options since \<Longrightarrow> sm_unread r"
  by (simp add: isNotifiable_def Let_def)

text \<open>After the first sync: what is announced was never seen and is news; what the notification counts is unread, was
  counted or announced, is counted once and is listed newest first; and every row was seen.\<close>

theorem observe_counts:
  assumes lc: "comparator lc" and since: "lg_since lg = Some (c # cs)"
  shows "let ob = observe lc lg rows options; counted = set (lg_pending lg) \<union> sm_id ` set (ob_fresh ob) in
    ob_fresh ob = filter (\<lambda>r. sm_id r \<notin> set (lg_seen lg) \<and> isNotifiable r options (c # cs)) rows \<and>
    set (lg_pending (ob_ledger ob)) = {i \<in> counted. \<exists>r \<in> set rows. sm_id r = i \<and> sm_unread r} \<and>
    distinct (lg_pending (ob_ledger ob)) \<and> mset (map sm_id (ob_pending ob)) = mset (lg_pending (ob_ledger ob)) \<and>
    set (ob_pending ob) \<subseteq> set rows \<and> sm_id ` set (ob_fresh ob) \<subseteq> set (lg_pending (ob_ledger ob)) \<and>
    sorted_wrt (\<lambda>a b. lc (sm_date b) (sm_date a) \<le> 0) (ob_pending ob)"
proof -
  let ?ob = "observe lc lg rows options"
  let ?p = "lg_pending (ob_ledger ?ob)"
  have ob: "ob_fresh ?ob = filter (\<lambda>r. sm_id r \<notin> set (lg_seen lg) \<and> isNotifiable r options (c # cs)) rows"
    "?p = filter (\<lambda>i. unread_row rows i \<noteq> None) (js_unique (lg_pending lg @ map sm_id (ob_fresh ?ob)))"
    "ob_pending ?ob = js_sort (cmp_desc (cmp_by_text lc sm_date)) (map (\<lambda>i. the (unread_row rows i)) ?p)"
    using since by (simp_all add: observe_def Let_def)
  have some: "unread_row rows i = Some (the (unread_row rows i))" if "i \<in> set ?p" for i
    using that unfolding ob(2) by simp
  have ids: "sm_id (the (unread_row rows i)) = i \<and> the (unread_row rows i) \<in> set rows" if "i \<in> set ?p" for i
    using unread_row_Some [OF some [OF that]] by simp
  have "mset (map sm_id (ob_pending ?ob)) = image_mset sm_id (mset (map (\<lambda>i. the (unread_row rows i)) ?p))"
    unfolding ob(3) by (metis mset_js_sort mset_map)
  also have "\<dots> = mset (map (\<lambda>i. sm_id (the (unread_row rows i))) ?p)" by (simp add: multiset.map_comp comp_def)
  also have "\<dots> = mset ?p" using ids by (simp cong: map_cong)
  finally have counts: "mset (map sm_id (ob_pending ?ob)) = mset ?p" .
  have sorted: "sorted_wrt (\<lambda>a b. lc (sm_date b) (sm_date a) \<le> 0) (ob_pending ?ob)"
    using comparator.sort_sorted [OF comparator_desc [OF comparator_by_text [OF lc, of sm_date]]]
    unfolding ob(3) by (simp add: cmp_desc_def cmp_by_text_def)
  have shown: "set ?p = {i \<in> set (lg_pending lg) \<union> sm_id ` set (ob_fresh ?ob). \<exists>r \<in> set rows. sm_id r = i \<and> sm_unread r}"
    unfolding ob(2) by (auto simp: unread_row_None)
  have fresh: "sm_id ` set (ob_fresh ?ob) \<subseteq> set ?p"
    unfolding shown using notifiable_unread by (auto simp: ob(1))
  have once: "distinct ?p" unfolding ob(2) by (intro distinct_filter) simp
  have rows: "set (ob_pending ?ob) \<subseteq> set rows"
    unfolding ob(3) set_js_sort set_map using ids by blast
  show ?thesis unfolding Let_def
    using ob(1) shown once counts rows fresh sorted by (intro conjI)
qed
subsection \<open>No message is announced twice\<close>

type_synonym sync = "mail_summary list \<times> observe_options"

fun announced :: "(string \<Rightarrow> string \<Rightarrow> int) \<Rightarrow> ledger \<Rightarrow> sync list \<Rightarrow> string list" where
  "announced lc lg [] = []"
| "announced lc lg ((rows, options) # syncs) =
     (let ob = observe lc lg rows options in map sm_id (ob_fresh ob) @ announced lc (ob_ledger ob) syncs)"

definition listed :: "sync list \<Rightarrow> string set" where
  "listed syncs = (\<Union>(rows, options) \<in> set syncs. sm_id ` set rows)"

lemma listed_simps: "listed [] = {}" "listed ((rows, options) # syncs) = sm_id ` set rows \<union> listed syncs"
  by (simp_all add: listed_def)

lemma finite_listed: "finite (listed syncs)"
  by (auto simp: listed_def)

lemma js_unique_append: "js_unique (xs @ ys) = js_unique xs @ filter (\<lambda>y. y \<notin> set xs) (js_unique ys)"
  by (induction xs) (auto simp: filter_id_conv intro!: filter_cong)

lemma cap_keeps_new:
  assumes "distinct (old @ app)" and "length (app @ new) \<le> SEEN_CAP" and "distinct new" and "set new \<inter> set (old @ app) = {}"
  shows "\<exists>old'. capSeen ((old @ app) @ new) = old' @ app @ new \<and> set old' \<subseteq> set old"
proof -
  have "js_unique ((old @ app) @ new) = old @ app @ new"
    using assms by (intro trans [OF js_unique_distinct]) auto
  moreover have "length (old @ app @ new) - SEEN_CAP \<le> length old" using assms(2) by simp
  ultimately have "capSeen ((old @ app) @ new) = drop (length (old @ app @ new) - SEEN_CAP) old @ app @ new"
    by (simp add: capSeen_def Let_def)
  then show ?thesis using set_drop_subset by fast
qed

text \<open>The ids the syncs so far put at the end of the ledger are what may not be announced again.\<close>

lemma announced_fresh:
  assumes "lg_since lg = Some (c # cs)" "lg_seen lg = old @ app" "distinct (old @ app)" "card (set app \<union> listed syncs) \<le> SEEN_CAP"
    "\<forall>(rows, options) \<in> set syncs. distinct (map sm_id rows)"
  shows "distinct (announced lc lg syncs) \<and> set (announced lc lg syncs) \<inter> set app = {}"
  using assms
proof (induction syncs arbitrary: lg old app)
  case (Cons s syncs)
  obtain rows options where s: "s = (rows, options)" by (cases s)
  let ?ob = "observe lc lg rows options"
  define new where "new = filter (\<lambda>i. i \<notin> set (lg_seen lg)) (map sm_id rows)"
  have rows: "distinct (map sm_id rows)" using Cons.prems(5) unfolding s by simp
  have new: "distinct new" "set new \<subseteq> sm_id ` set rows" "set new \<inter> set (old @ app) = {}"
    using rows Cons.prems(2) by (auto simp: new_def)
  have fin: "finite (set app \<union> listed (s # syncs))" using finite_listed by blast
  have sub: "set (app @ new) \<subseteq> set app \<union> listed (s # syncs)" using new(2) unfolding s listed_simps by auto
  have "distinct (app @ new)" using Cons.prems(3) new by auto
  then have "length (app @ new) = card (set (app @ new))" by (rule distinct_card [symmetric])
  also have "\<dots> \<le> SEEN_CAP" using card_mono [OF fin sub] Cons.prems(4) by (rule le_trans)
  finally have len: "length (app @ new) \<le> SEEN_CAP" .
  obtain old' where seen: "capSeen ((old @ app) @ new) = old' @ app @ new" and old': "set old' \<subseteq> set old"
    using cap_keeps_new [OF Cons.prems(3) len new(1) new(3)] by blast
  have led: "lg_since (ob_ledger ?ob) = Some (c # cs)" "lg_seen (ob_ledger ?ob) = old' @ app @ new"
    using Cons.prems(1,2) seen by (simp_all add: observe_def Let_def new_def)
  have "distinct (old' @ app @ new)" unfolding seen [symmetric] by (simp add: capSeen_def Let_def)
  moreover have "card (set (app @ new) \<union> listed syncs) \<le> SEEN_CAP"
  proof -
    have "set (app @ new) \<union> listed syncs \<subseteq> set app \<union> listed (s # syncs)" using sub unfolding s listed_simps by auto
    then show ?thesis using card_mono [OF fin] Cons.prems(4) le_trans by blast
  qed
  moreover have "\<forall>(rows, options) \<in> set syncs. distinct (map sm_id rows)" using Cons.prems(5) by simp
  ultimately have IH: "distinct (announced lc (ob_ledger ?ob) syncs)" "set (announced lc (ob_ledger ?ob) syncs) \<inter> set (app @ new) = {}"
    using Cons.IH [OF led(1) led(2)] by blast+
  have fresh: "ob_fresh ?ob = filter (\<lambda>r. sm_id r \<notin> set (lg_seen lg) \<and> isNotifiable r options (c # cs)) rows"
    using Cons.prems(1) by (simp add: observe_def Let_def)
  have "set (map sm_id (ob_fresh ?ob)) \<subseteq> set new" unfolding fresh new_def by auto
  moreover have "distinct (map sm_id (ob_fresh ?ob))" unfolding fresh by (rule distinct_map_filter [OF rows])
  ultimately show ?case using IH new(3) unfolding s by (auto simp: Let_def)
qed simp

text \<open>C17 Among any syncs that list at most five hundred messages between them, whatever the ledger held before, no message is
  announced twice; the first sync of a mailbox announces nothing.\<close>

theorem announced_once:
  assumes "distinct (lg_seen lg)" and "card (listed syncs) \<le> SEEN_CAP" and "\<forall>(rows, options) \<in> set syncs. distinct (map sm_id rows)"
  shows "distinct (announced lc lg syncs) \<and>
    (lg_since lg = None \<longrightarrow> announced lc lg (take 1 syncs) = [])"
proof -
  have primed: "distinct (announced lc l ss)"
    if "lg_since l = Some (c # cs)" "distinct (lg_seen l)" "card (listed ss) \<le> SEEN_CAP" "\<forall>(rows, options) \<in> set ss. distinct (map sm_id rows)"
    for l c cs ss
    using announced_fresh [OF that(1), where old = "lg_seen l" and app = "[]" and syncs = ss] that by simp
  have "distinct (announced lc l ss)"
    if "distinct (lg_seen l)" "card (listed ss) \<le> SEEN_CAP" "\<forall>(rows, options) \<in> set ss. distinct (map sm_id rows)" for l ss
    using that
  proof (induction ss arbitrary: l)
    case (Cons s ss)
    obtain rows options where s: "s = (rows, options)" by (cases s)
    show ?case
    proof (cases "\<exists>c cs. lg_since l = Some (c # cs)")
      case True
      then show ?thesis using primed Cons.prems by blast
    next
      case False
      then have none: "lg_since l = None \<or> lg_since l = Some []" by (metis list.exhaust option.exhaust)
      let ?ob = "observe lc l rows options"
      have "ob_fresh ?ob = []" "distinct (lg_seen (ob_ledger ?ob))"
        using none by (auto simp: observe_def capSeen_def Let_def)
      moreover have "card (listed ss) \<le> SEEN_CAP"
        using Cons.prems(2) card_mono [OF finite_listed, of "listed ss" "s # ss"] unfolding s listed_simps by simp
      ultimately show ?thesis using Cons.IH [of "ob_ledger ?ob"] Cons.prems(3) unfolding s by (simp add: Let_def)
    qed
  qed simp
  then have "distinct (announced lc lg syncs)" using assms by blast
  moreover have "announced lc lg (take 1 syncs) = []" if "lg_since lg = None"
    using that by (cases syncs) (auto simp: observe_def Let_def split: prod.splits)
  ultimately show ?thesis by blast
qed
definition sample_news :: mail_summary where
  "sample_news = \<lparr>sm_id = ''m1'', sm_threadId = None, sm_from_address = ''eve@x.org'', sm_from_name = None, sm_to = [], sm_date = ''d'',
     sm_subject = ''hi'', sm_snippet = [], sm_unread = True, sm_starred = False, sm_messageId = None, sm_references = None,
     sm_autocrypt = None, sm_replyTo = None, sm_authenticationResults = None, sm_listUnsubscribe = None, sm_returnPath = None,
     sm_labels = None\<rparr>"

definition sample_options :: observe_options where
  "sample_options = \<lparr>oo_self = ''me@x.org'', oo_scope = ScopePrimary, oo_clock = \<lparr>ck_now = 7, ck_parse = (\<lambda>_. Some 5), ck_iso = (\<lambda>_. ''t'')\<rparr>\<rparr>"

definition watching :: ledger where
  "watching = \<lparr>lg_since = Some ''t'', lg_seen = [], lg_pending = []\<rparr>"

lemma sample_is_news: "isNotifiable sample_news sample_options ''t''"
  by code_simp

theorem observe_counts_witness:
  "set (lg_pending (ob_ledger (observe str_cmp watching [sample_news] sample_options))) = {''m1''} \<and>
   sm_id ` set (ob_fresh (observe str_cmp watching [sample_news] sample_options)) = {''m1''}"
  using observe_counts [OF code_units.comparator_axioms, of watching "CHR ''t''" "[]" "[sample_news]" sample_options] sample_is_news
  by (auto simp: watching_def Let_def) (auto simp: sample_news_def)

theorem announced_once_witness:
  "distinct (announced str_cmp watching [([sample_news], sample_options), ([sample_news], sample_options)])"
  using announced_once [of watching "[([sample_news], sample_options), ([sample_news], sample_options)]" str_cmp]
  by (simp add: watching_def listed_def SEEN_CAP_def)

end
