(* ===== verification/Notify_Service.thy ===== *)
theory Notify_Service
  imports Notify_Ledger Mailbox_State
begin

text \<open>
  The service that notices new mail and posts (\<^verbatim>\<open>state/notify.ts\<close>), on a state of its own: the ledgers held in memory and
  on disk, the shade with at most one notification per mailbox, and what of the app's state the service reads. Work on a
  mailbox is queued, so each fold, clearing and marking is one action. \<open>os.post\<close> and \<open>os.dismiss\<close> never fail
  (\<^verbatim>\<open>notifications/os.ts\<close> catches what the platform throws).
\<close>

record posted_note =
  no_text :: note_text
  no_detailed :: bool
  no_ids :: "string list"

record notify_state =
  ns_ledgers :: "string \<Rightarrow> ledger option"
  ns_disk :: "string \<Rightarrow> json option"
  ns_shade :: "string \<Rightarrow> posted_note option"
  ns_prefs :: notify_prefs
  ns_disk_prefs :: "json option"
  ns_accounts :: "account_ref list"
  ns_active :: "string option"
  ns_unified :: bool
  ns_clients :: "string list"
  ns_index :: search_index
  ns_messages :: "inbox_item list"
  ns_told :: "(string \<times> string) list"

text \<open>\<open>ne_readable\<close> tells whether a stored ledger can be decrypted, \<open>ne_saved\<close> whether one can be written, \<open>ne_list\<close> is the
  newest page of an inbox or a failure, \<open>ne_update\<close> whether a provider takes a flag change, \<open>ne_restored\<close> the mailboxes
  connected once the others have been restored.\<close>

record notify_env =
  ne_supported :: bool
  ne_foreground :: bool
  ne_locked :: bool
  ne_clock :: clock
  ne_readable :: "string \<Rightarrow> bool"
  ne_saved :: bool
  ne_list :: "string \<Rightarrow> mail_summary list option"
  ne_update :: "string \<Rightarrow> string \<Rightarrow> bool"
  ne_restored :: "string list"

definition account_of :: "notify_state \<Rightarrow> string \<Rightarrow> account_ref option" where
  "account_of s account = find (\<lambda>a. ar_id a = account) (ns_accounts s)"

definition ledgerFor :: "notify_env \<Rightarrow> string \<Rightarrow> notify_state \<Rightarrow> ledger \<times> notify_state" where
  "ledgerFor e account s =
     (case ns_ledgers s account of
        Some lg \<Rightarrow> (lg, s)
      | None \<Rightarrow>
          let lg = (if ne_readable e account then read_ledger (Some (case ns_disk s account of Some v \<Rightarrow> v | None \<Rightarrow> ledger_json EMPTY_LEDGER))
                    else EMPTY_LEDGER)
          in (lg, s\<lparr>ns_ledgers := (ns_ledgers s)(account := Some lg)\<rparr>))"

definition commit_ledger :: "notify_env \<Rightarrow> string \<Rightarrow> ledger \<Rightarrow> ledger \<Rightarrow> notify_state \<Rightarrow> notify_state" where
  "commit_ledger e account before after s =
     (let s = s\<lparr>ns_ledgers := (ns_ledgers s)(account := Some after)\<rparr>
      in if ledgerChanged before after \<and> ne_saved e then s\<lparr>ns_disk := (ns_disk s)(account := Some (ledger_json after))\<rparr> else s)"

definition notifies :: "account_ref \<Rightarrow> bool" where
  "notifies ref \<longleftrightarrow> as_notify (settingsOf (Some ref)) \<and> \<not> as_paused (settingsOf (Some ref))"

definition enabledFor :: "notify_env \<Rightarrow> notify_state \<Rightarrow> string \<Rightarrow> bool" where
  "enabledFor e s account =
     (if \<not> ne_supported e \<or> np_preview (ns_prefs s) = PreviewOff then False
      else (case account_of s account of None \<Rightarrow> False | Some ref \<Rightarrow> notifies ref))"

definition inView :: "notify_env \<Rightarrow> notify_state \<Rightarrow> string \<Rightarrow> bool" where
  "inView e s account \<longleftrightarrow>
     ne_foreground e \<and> (if ns_unified s then account \<in> set (ns_clients s) else ns_active s = Some account)"

definition readableOf :: "notify_state \<Rightarrow> string \<Rightarrow> mail_summary \<Rightarrow> index_entry option" where
  "readableOf s account row = (if ns_active s = Some account then obj_get (ns_index s) (sm_id row) else None)"

definition dismiss :: "string \<Rightarrow> notify_state \<Rightarrow> notify_state" where
  "dismiss account s = s\<lparr>ns_shade := (ns_shade s)(account := None)\<rparr>"

definition post_note :: "string \<Rightarrow> note_plan \<Rightarrow> mail_summary list \<Rightarrow> notify_state \<Rightarrow> notify_state" where
  "post_note account plan pending s =
     (case plan of
        NoPost \<Rightarrow> s
      | Post lock detail \<Rightarrow>
          s\<lparr>ns_shade := (ns_shade s)(account := Some \<lparr>no_text = plan_content lock detail, no_detailed = (detail \<noteq> None),
                                                       no_ids = map sm_id pending\<rparr>)\<rparr>)"

definition plan_now :: "notify_env \<Rightarrow> notify_state \<Rightarrow> string \<Rightarrow> mail_summary list \<Rightarrow> note_plan" where
  "plan_now e s account pending =
     planFor (map (\<lambda>row. toNewMail row (readableOf s account row)) pending) (np_preview (ns_prefs s)) (ne_locked e)"

definition fold_rows :: "(string \<Rightarrow> string \<Rightarrow> int) \<Rightarrow> notify_env \<Rightarrow> string \<Rightarrow> mail_summary list \<Rightarrow> notify_state \<Rightarrow> notify_state" where
  "fold_rows lc e account rows s =
     (let self = (case account_of s account of None \<Rightarrow> [] | Some ref \<Rightarrow> ar_email ref);
          (before, s) = ledgerFor e account s;
          ob = observe lc before rows \<lparr>oo_self = self, oo_scope = np_scope (ns_prefs s), oo_clock = ne_clock e\<rparr>;
          after = ob_ledger ob
      in if \<not> enabledFor e s account \<or> inView e s account
         then commit_ledger e account before (clearPending after) (if lg_pending before \<noteq> [] then dismiss account s else s)
         else if ob_fresh ob \<noteq> []
         then commit_ledger e account before after (post_note account (plan_now e s account (ob_pending ob)) (ob_pending ob) s)
         else commit_ledger e account before after (if lg_pending after = [] \<and> lg_pending before \<noteq> [] then dismiss account s else s))"

text \<open>Rows grouped by their account, in the order accounts first occur.\<close>

definition observe_rows :: "(string \<Rightarrow> string \<Rightarrow> int) \<Rightarrow> notify_env \<Rightarrow> inbox_item list \<Rightarrow> notify_state \<Rightarrow> notify_state" where
  "observe_rows lc e rows s =
     foldl (\<lambda>s account. fold_rows lc e account (map mail_summary.truncate (filter (\<lambda>r. ii_account r = account) rows)) s) s
       (js_unique (map ii_account rows))"

definition checkAll :: "(string \<Rightarrow> string \<Rightarrow> int) \<Rightarrow> notify_env \<Rightarrow> notify_state \<Rightarrow> notify_state" where
  "checkAll lc e s =
     foldl (\<lambda>s account. if \<not> enabledFor e s account then s
        else (case ne_list e account of None \<Rightarrow> s | Some rows \<Rightarrow> fold_rows lc e account rows s)) s (ns_clients s)"

definition clear_one :: "notify_env \<Rightarrow> string \<Rightarrow> notify_state \<Rightarrow> notify_state" where
  "clear_one e account s =
     (let (before, s) = ledgerFor e account s
      in if lg_pending before = [] then s else commit_ledger e account before (clearPending before) (dismiss account s))"

definition clear_notes :: "notify_env \<Rightarrow> string list option \<Rightarrow> notify_state \<Rightarrow> notify_state" where
  "clear_notes e accounts s =
     foldl (\<lambda>s account. clear_one e account s) s (case accounts of Some as \<Rightarrow> as | None \<Rightarrow> ns_clients s)"

definition loadPrefs :: "notify_state \<Rightarrow> notify_state" where
  "loadPrefs s = s\<lparr>ns_prefs := normaliseNotificationPrefs
     (Some (case ns_disk_prefs s of Some v \<Rightarrow> v | None \<Rightarrow> prefs_json DEFAULT_NOTIFICATION_PREFS))\<rparr>"

definition setPrefs :: "notify_env \<Rightarrow> (notify_prefs \<Rightarrow> notify_prefs) \<Rightarrow> notify_state \<Rightarrow> notify_state" where
  "setPrefs e patch s =
     (let p = patch (ns_prefs s); s = s\<lparr>ns_prefs := p\<rparr>
      in if \<not> ne_saved e then s
         else let s = s\<lparr>ns_prefs := p, ns_disk_prefs := Some (prefs_json p)\<rparr>
              in if np_preview p = PreviewOff then clear_notes e (Some (map ar_id (ns_accounts s))) s else s)"

definition forget_account :: "string \<Rightarrow> notify_state \<Rightarrow> notify_state" where
  "forget_account account s = dismiss account (s\<lparr>ns_ledgers := (ns_ledgers s)(account := None)\<rparr>)"

definition wanted :: "notify_env \<Rightarrow> notify_state \<Rightarrow> bool" where
  "wanted e s = (if \<not> ne_supported e \<or> np_preview (ns_prefs s) = PreviewOff then False else list_ex notifies (ns_accounts s))"

text \<open>A row that is listed goes through \<open>mailbox.setFlags\<close>, which returns whether or not the provider took the change.\<close>

definition mark_one :: "notify_env \<Rightarrow> string \<Rightarrow> string list \<Rightarrow> string \<Rightarrow> bool" where
  "mark_one e account listed_ids i \<longleftrightarrow> i \<in> set listed_ids \<or> ne_update e account i"

definition markRead :: "notify_env \<Rightarrow> string \<Rightarrow> string list \<Rightarrow> notify_state \<Rightarrow> notify_state" where
  "markRead e account ids s =
     (if ids = [] then s
      else let s = (if account \<in> set (ns_clients s) then s else s\<lparr>ns_clients := ne_restored e\<rparr>)
        in if account \<notin> set (ns_clients s) then s
           else let listed_ids = map sm_id (filter (\<lambda>m. ii_account m = account) (ns_messages s));
                    marked = filter (mark_one e account listed_ids) ids;
                    s = s\<lparr>ns_told := ns_told s @ map (Pair account) ids\<rparr>;
                    (before, s) = ledgerFor e account s;
                    after = before\<lparr>lg_pending := filter (\<lambda>i. i \<notin> set marked) (lg_pending before)\<rparr>
                in commit_ledger e account before after
                     (if lg_pending after = [] \<and> length marked = length ids then dismiss account s else s))"
subsection \<open>What is posted\<close>

lemma reads_no_ledger [simp]:
  "account_of (s\<lparr>ns_ledgers := x\<rparr>) = account_of s" "readableOf (s\<lparr>ns_ledgers := x\<rparr>) = readableOf s"
  "enabledFor e (s\<lparr>ns_ledgers := x\<rparr>) = enabledFor e s" "inView e (s\<lparr>ns_ledgers := x\<rparr>) = inView e s"
  "plan_now e (s\<lparr>ns_ledgers := x\<rparr>) = plan_now e s"
proof -
  show "account_of (s\<lparr>ns_ledgers := x\<rparr>) = account_of s" by (simp add: fun_eq_iff account_of_def)
  then show "enabledFor e (s\<lparr>ns_ledgers := x\<rparr>) = enabledFor e s" by (simp add: fun_eq_iff enabledFor_def)
  show "inView e (s\<lparr>ns_ledgers := x\<rparr>) = inView e s" by (simp add: fun_eq_iff inView_def)
  show read: "readableOf (s\<lparr>ns_ledgers := x\<rparr>) = readableOf s" by (intro ext) (simp add: readableOf_def)
  show "plan_now e (s\<lparr>ns_ledgers := x\<rparr>) = plan_now e s" unfolding plan_now_def read by simp
qed

lemma ledgerFor_laws:
  assumes "ledgerFor e account s = (lg, s')"
  shows "ns_ledgers s' account = Some lg" "ns_shade s' = ns_shade s" "ns_prefs s' = ns_prefs s" "ns_index s' = ns_index s"
    "enabledFor e' s' = enabledFor e' s" "inView e' s' = inView e' s" "plan_now e' s' = plan_now e' s"
    "\<And>a. a \<noteq> account \<Longrightarrow> ns_ledgers s' a = ns_ledgers s a" "\<And>lg'. ns_ledgers s account = Some lg' \<Longrightarrow> lg = lg'"
    "ns_clients s' = ns_clients s"
  using assms by (auto simp: ledgerFor_def Let_def split: option.splits)

lemma commit_laws [simp]:
  "ns_ledgers (commit_ledger e account before after s) = (ns_ledgers s)(account := Some after)"
  "ns_shade (commit_ledger e account before after s) = ns_shade s"
  "ns_clients (commit_ledger e account before after s) = ns_clients s"
  by (simp_all add: commit_ledger_def Let_def)

lemma dismiss_laws [simp]:
  "ns_shade (dismiss account s) = (ns_shade s)(account := None)" "ns_ledgers (dismiss account s) = ns_ledgers s"
  "ns_clients (dismiss account s) = ns_clients s"
  by (simp_all add: dismiss_def)

lemma post_laws:
  "ns_ledgers (post_note account plan rows s) = ns_ledgers s"
  "a \<noteq> account \<Longrightarrow> ns_shade (post_note account plan rows s) a = ns_shade s a"
  "ns_shade (post_note account NoPost rows s) = ns_shade s"
  "ns_shade (post_note account (Post lock detail) rows s) account =
     Some \<lparr>no_text = plan_content lock detail, no_detailed = (detail \<noteq> None), no_ids = map sm_id rows\<rparr>"
  by (cases plan; simp add: post_note_def)+

lemma planFor_detail: "planFor mail pv locked = Post lock (Some t) \<Longrightarrow> \<not> locked \<and> pv \<in> {PreviewSender, PreviewFull}"
  by (cases pv) (auto simp: planFor_def Let_def split: if_splits)

text \<open>C16 A sync touches no other mailbox's notification. A new one is posted only for a mailbox that is to notify and is not on
  screen; it counts what the ledger counts; and unless the phone is unlocked and the user asked for more, it says only how
  many messages there are.\<close>

theorem posts_only_what_is_allowed:
  assumes lc: "comparator lc" and fold: "s' = fold_rows lc e account rows s"
    and new: "ns_shade s' a \<noteq> ns_shade s a" and shown: "ns_shade s' a = Some n"
  shows "a = account \<and> enabledFor e s account \<and> \<not> inView e s account \<and>
    (\<exists>lg. ns_ledgers s' account = Some lg \<and> mset (no_ids n) = mset (lg_pending lg)) \<and>
    (no_detailed n \<longrightarrow> \<not> ne_locked e \<and> np_preview (ns_prefs s) \<in> {PreviewSender, PreviewFull}) \<and>
    (\<not> no_detailed n \<longrightarrow> no_text n = genericText (length (no_ids n)))"
proof -
  define options where "options =
    \<lparr>oo_self = (case account_of s account of None \<Rightarrow> [] | Some ref \<Rightarrow> ar_email ref), oo_scope = np_scope (ns_prefs s), oo_clock = ne_clock e\<rparr>"
  obtain before s1 where l: "ledgerFor e account s = (before, s1)" by (cases "ledgerFor e account s")
  note laws = ledgerFor_laws [OF l]
  define ob where "ob = observe lc before rows options"
  have s': "s' = (if \<not> enabledFor e s account \<or> inView e s account
     then commit_ledger e account before (clearPending (ob_ledger ob)) (if lg_pending before \<noteq> [] then dismiss account s1 else s1)
     else if ob_fresh ob \<noteq> []
     then commit_ledger e account before (ob_ledger ob) (post_note account (plan_now e s account (ob_pending ob)) (ob_pending ob) s1)
     else commit_ledger e account before (ob_ledger ob) (if lg_pending (ob_ledger ob) = [] \<and> lg_pending before \<noteq> [] then dismiss account s1 else s1))"
    unfolding fold fold_rows_def l ob_def options_def Let_def prod.case laws(3,5,6,7) ..
  have on: "enabledFor e s account" "\<not> inView e s account" and fresh: "ob_fresh ob \<noteq> []"
    using new shown unfolding s' by (auto simp: laws split: if_splits)
  have sh: "ns_shade s' = ns_shade (post_note account (plan_now e s account (ob_pending ob)) (ob_pending ob) s1)"
    and led: "ns_ledgers s' account = Some (ob_ledger ob)"
    using on fresh unfolding s' by simp_all
  have a: "a = account" using new unfolding sh using post_laws(2) laws(2) by metis
  obtain c cs where since: "lg_since before = Some (c # cs)"
    using fresh by (auto simp: ob_def observe_def split: option.splits list.splits)
  have ids: "mset (map sm_id (ob_pending ob)) = mset (lg_pending (ob_ledger ob))"
    using observe_counts [OF lc since, of rows options] unfolding ob_def Let_def by blast
  obtain lock detail where plan: "plan_now e s account (ob_pending ob) = Post lock detail"
    using new unfolding sh a by (cases "plan_now e s account (ob_pending ob)") (simp_all add: post_laws laws)
  have n: "n = \<lparr>no_text = plan_content lock detail, no_detailed = (detail \<noteq> None), no_ids = map sm_id (ob_pending ob)\<rparr>"
    using shown unfolding sh a plan by (simp add: post_laws)
  have "lock = genericText (length (ob_pending ob))"
    using notification_reveals [THEN conjunct1, rule_format, OF plan [unfolded plan_now_def]] by simp
  moreover have "\<not> ne_locked e \<and> np_preview (ns_prefs s) \<in> {PreviewSender, PreviewFull}" if "detail \<noteq> None"
    using that planFor_detail plan unfolding plan_now_def by blast
  ultimately show ?thesis using a on led ids unfolding n by (auto simp: plan_content_def)
qed
subsection \<open>The shade and the ledger\<close>

definition stored_ledger :: "notify_state \<Rightarrow> string \<Rightarrow> ledger" where
  "stored_ledger s account = read_ledger (Some (case ns_disk s account of Some v \<Rightarrow> v | None \<Rightarrow> ledger_json EMPTY_LEDGER))"

text \<open>The ledger the service goes by: the one in memory, and before a mailbox was first looked at the one on disk.\<close>

definition ledger_now :: "notify_state \<Rightarrow> string \<Rightarrow> ledger" where
  "ledger_now s account = (case ns_ledgers s account of Some lg \<Rightarrow> lg | None \<Rightarrow> stored_ledger s account)"

definition shade_ok :: "notify_state \<Rightarrow> bool" where
  "shade_ok s \<longleftrightarrow> (\<forall>a. ns_shade s a \<noteq> None \<longrightarrow> lg_pending (ledger_now s a) \<noteq> [])"

text \<open>A ledger that still has to be read, of a mailbox with a notification, can be; and every ledger of a mailbox with a
  notification has reached the disk.\<close>

definition reads :: "notify_env \<Rightarrow> notify_state \<Rightarrow> bool" where
  "reads e s \<longleftrightarrow> (\<forall>a. ns_shade s a \<noteq> None \<longrightarrow> ns_ledgers s a = None \<longrightarrow> ne_readable e a)"

definition saved :: "notify_state \<Rightarrow> bool" where
  "saved s \<longleftrightarrow> (\<forall>a lg. ns_shade s a \<noteq> None \<longrightarrow> ns_ledgers s a = Some lg \<longrightarrow> stored_ledger s a = lg)"

lemma ledger_now_simps [simp]:
  "ledger_now (s\<lparr>ns_shade := y\<rparr>) = ledger_now s" "ledger_now (s\<lparr>ns_prefs := p\<rparr>) = ledger_now s"
  "ledger_now (s\<lparr>ns_disk_prefs := d\<rparr>) = ledger_now s" "ledger_now (s\<lparr>ns_told := t\<rparr>) = ledger_now s"
  "ledger_now (s\<lparr>ns_clients := cl\<rparr>) = ledger_now s" "ledger_now (dismiss a s) = ledger_now s"
  "ledger_now (post_note a plan rows s) = ledger_now s"
  by (auto simp: ledger_now_def stored_ledger_def fun_eq_iff dismiss_def post_note_def split: note_plan.splits option.split)

lemma ledgerFor_now:
  assumes "ledgerFor e account s = (lg, s')"
  shows "ledger_now s' a = (if a = account then lg else ledger_now s a)"
    and "reads e s \<Longrightarrow> ns_shade s account \<noteq> None \<Longrightarrow> lg = ledger_now s account"
    and "reads e s \<Longrightarrow> reads e s'"
  using assms
  by (auto simp: ledgerFor_def ledger_now_def stored_ledger_def reads_def Let_def split: option.splits if_splits)

lemma commit_now: "ledger_now (commit_ledger e account before after s) a = (if a = account then after else ledger_now s a)"
  by (simp add: ledger_now_def stored_ledger_def commit_ledger_def Let_def split: option.split)

text \<open>A step on one mailbox: its ledger is fetched, its notification may change, its ledger is put back.\<close>

lemma step_keeps:
  assumes "shade_ok s" "reads e s" "ledgerFor e account s = (before, s1)"
    and "\<And>a. a \<noteq> account \<Longrightarrow> ns_shade t a = ns_shade s1 a" and "ns_ledgers t = ns_ledgers s1" and "ledger_now t = ledger_now s1"
    and "ns_shade t account \<noteq> None \<Longrightarrow> lg_pending after \<noteq> []"
  shows "shade_ok (commit_ledger e account before after t) \<and> reads e (commit_ledger e account before after t)"
proof -
  note laws = ledgerFor_laws [OF assms(3)] and now = ledgerFor_now [OF assms(3)]
  have "reads e s1" using now(3) assms(2) by simp
  then have "reads e (commit_ledger e account before after t)"
    using assms(4,5) by (auto simp: reads_def)
  moreover have "lg_pending (ledger_now (commit_ledger e account before after t) a) \<noteq> []"
    if "ns_shade (commit_ledger e account before after t) a \<noteq> None" for a
  proof (cases "a = account")
    case True
    then show ?thesis using that assms(7) by (simp add: commit_now)
  next
    case False
    then have "ns_shade s a \<noteq> None" using that assms(4) laws(2) by simp
    then show ?thesis using False assms(1,6) now(1) by (simp add: commit_now shade_ok_def)
  qed
  ultimately show ?thesis by (simp add: shade_ok_def)
qed

lemma fresh_are_pending: "ob_fresh (observe lc lg rows options) \<noteq> [] \<Longrightarrow> lg_pending (ob_ledger (observe lc lg rows options)) \<noteq> []"
proof -
  assume fresh: "ob_fresh (observe lc lg rows options) \<noteq> []"
  then obtain c cs where since: "lg_since lg = Some (c # cs)" by (auto simp: observe_def split: option.splits list.splits)
  obtain r where r: "r \<in> set (ob_fresh (observe lc lg rows options))" using fresh by (metis list.set_intros(1) neq_Nil_conv)
  then have "r \<in> set rows" "sm_unread r" using since notifiable_unread by (auto simp: observe_def Let_def)
  then have "unread_row rows (sm_id r) \<noteq> None" unfolding unread_row_None by auto
  then have "sm_id r \<in> set (lg_pending (ob_ledger (observe lc lg rows options)))"
    using r since by (auto simp: observe_def Let_def)
  then show ?thesis by auto
qed

text \<open>What every action keeps, whatever the storage does with the writes.\<close>

definition sound_for :: "notify_env \<Rightarrow> notify_state \<Rightarrow> bool" where
  "sound_for e s \<longleftrightarrow> shade_ok s \<and> reads e s"

lemma fold_keeps_shade:
  assumes "sound_for e s"
  shows "sound_for e (fold_rows lc e account rows s)"
proof -
  obtain before s1 where l: "ledgerFor e account s = (before, s1)" by (cases "ledgerFor e account s")
  note laws = ledgerFor_laws [OF l]
  have ok: "shade_ok s" "reads e s" using assms by (simp_all add: sound_for_def)
  note step = step_keeps [OF ok l, folded sound_for_def]
  have dismissed: "sound_for e (commit_ledger e account before after (dismiss account s1))" for after
    by (rule step) simp_all
  have posted: "sound_for e (commit_ledger e account before after (post_note account plan ps s1))" if "lg_pending after \<noteq> []" for after plan ps
    by (rule step) (use that in \<open>simp_all add: post_laws\<close>)
  have left: "sound_for e (commit_ledger e account before after s1)" if "lg_pending before = [] \<or> lg_pending after \<noteq> []" for after
    by (rule step) (use that ok ledgerFor_now(2) [OF l ok(2)] laws(2) in \<open>auto simp: shade_ok_def\<close>)
  show ?thesis unfolding fold_rows_def l Let_def prod.case
    using fresh_are_pending by (simp add: dismissed posted left)
qed

lemma clear_one_keeps:
  assumes "sound_for e s"
  shows "sound_for e (clear_one e account s)" "ns_shade (clear_one e account s) = (ns_shade s)(account := None)"
proof -
  obtain before s1 where l: "ledgerFor e account s = (before, s1)" by (cases "ledgerFor e account s")
  note laws = ledgerFor_laws [OF l]
  have ok: "shade_ok s" "reads e s" using assms by (simp_all add: sound_for_def)
  have none: "ns_shade s account = None" if "lg_pending before = []"
    using that ok(1) ledgerFor_now(2) [OF l ok(2)] unfolding shade_ok_def by (cases "ns_shade s account") fastforce+
  have "sound_for e (commit_ledger e account before (clearPending before) (dismiss account s1))"
    unfolding sound_for_def by (rule step_keeps [OF ok l]) simp_all
  moreover have "sound_for e s1" if "lg_pending before = []"
    using ok laws(2) none [OF that] ledgerFor_now(1,3) [OF l] by (auto simp: sound_for_def shade_ok_def)
  ultimately show "sound_for e (clear_one e account s)" by (simp add: clear_one_def l)
  show "ns_shade (clear_one e account s) = (ns_shade s)(account := None)"
    using none by (auto simp: clear_one_def l laws fun_upd_idem)
qed
definition listed_ids :: "notify_state \<Rightarrow> string \<Rightarrow> string list" where
  "listed_ids s account = map sm_id (filter (\<lambda>m. ii_account m = account) (ns_messages s))"

text \<open>Whatever happens to the service: syncs and checks, clearings, settings, marks the provider takes, the rest of the app
  changing what the service reads, and the process starting anew. A write may fail at any step, but the process starts
  anew only when the ledgers of the notifications shown have reached the disk.\<close>

inductive notify_run :: "(string \<Rightarrow> string \<Rightarrow> int) \<Rightarrow> notify_state \<Rightarrow> bool" for lc where
  start: "ns_ledgers s = (\<lambda>_. None) \<Longrightarrow> ns_shade s = (\<lambda>_. None) \<Longrightarrow> notify_run lc s"
| sync: "notify_run lc s \<Longrightarrow> reads e s \<Longrightarrow> notify_run lc (observe_rows lc e rows s)"
| check: "notify_run lc s \<Longrightarrow> reads e s \<Longrightarrow> notify_run lc (checkAll lc e s)"
| clear: "notify_run lc s \<Longrightarrow> reads e s \<Longrightarrow> notify_run lc (clear_notes e accounts s)"
| load: "notify_run lc s \<Longrightarrow> notify_run lc (loadPrefs s)"
| prefs: "notify_run lc s \<Longrightarrow> reads e s \<Longrightarrow> notify_run lc (setPrefs e patch s)"
| forget: "notify_run lc s \<Longrightarrow> notify_run lc (forget_account account s)"
| mark: "notify_run lc s \<Longrightarrow> reads e s \<Longrightarrow> list_all (mark_one e account (listed_ids s account)) ids \<Longrightarrow>
    notify_run lc (markRead e account ids s)"
| app: "notify_run lc s \<Longrightarrow> ns_ledgers s' = ns_ledgers s \<Longrightarrow> ns_disk s' = ns_disk s \<Longrightarrow> ns_shade s' = ns_shade s \<Longrightarrow> notify_run lc s'"
| restart: "notify_run lc s \<Longrightarrow> saved s \<Longrightarrow> notify_run lc (s\<lparr>ns_ledgers := (\<lambda>_. None)\<rparr>)"

lemma foldl_keeps: "P s \<Longrightarrow> (\<And>s x. P s \<Longrightarrow> P (f s x)) \<Longrightarrow> P (foldl f s xs)"
  by (induction xs arbitrary: s) auto

lemma clear_notes_keeps: "sound_for e s \<Longrightarrow> sound_for e (clear_notes e accounts s)"
  unfolding clear_notes_def by (rule foldl_keeps) (auto intro: clear_one_keeps)

lemma clear_all_shade:
  assumes "sound_for e s"
  shows "ns_shade (foldl (\<lambda>s account. clear_one e account s) s accounts) a = (if a \<in> set accounts then None else ns_shade s a)"
  using assms
proof (induction accounts arbitrary: s)
  case (Cons x xs)
  then show ?case using clear_one_keeps [OF Cons.prems, of x] by auto
qed simp

lemma mark_keeps:
  assumes "sound_for e s" "list_all (mark_one e account (listed_ids s account)) ids"
  shows "sound_for e (markRead e account ids s)"
proof -
  define s0 where "s0 = (if account \<in> set (ns_clients s) then s else s\<lparr>ns_clients := ne_restored e\<rparr>)"
  define s2 where "s2 = s0\<lparr>ns_told := ns_told s0 @ map (Pair account) ids\<rparr>"
  obtain before s1 where l: "ledgerFor e account s2 = (before, s1)" by (cases "ledgerFor e account s2")
  have ok: "sound_for e s0" "shade_ok s2" "reads e s2" using assms(1) by (auto simp: s0_def s2_def sound_for_def shade_ok_def reads_def)
  have same: "ns_messages s0 = ns_messages s" by (simp add: s0_def)
  have marked: "filter (mark_one e account (map sm_id (filter (\<lambda>m. ii_account m = account) (ns_messages s0)))) ids = ids"
    using assms(2) unfolding same listed_ids_def by (simp add: list_all_iff filter_id_conv)
  define after where "after = before\<lparr>lg_pending := filter (\<lambda>i. i \<notin> set ids) (lg_pending before)\<rparr>"
  have "sound_for e (commit_ledger e account before after (if lg_pending after = [] then dismiss account s1 else s1))"
    unfolding sound_for_def by (rule step_keeps [OF ok(2,3) l]) (auto split: if_splits)
  then show ?thesis
    using ok(1) assms(1) unfolding markRead_def s0_def [symmetric] Let_def marked s2_def [symmetric] l prod.case after_def [symmetric] by simp
qed

lemma fields_keep_shade: "sound_for e s \<Longrightarrow> sound_for e (s\<lparr>ns_prefs := p\<rparr>)" "sound_for e s \<Longrightarrow> sound_for e (s\<lparr>ns_disk_prefs := d\<rparr>)"
  by (simp_all add: sound_for_def shade_ok_def reads_def)

lemma setPrefs_keeps: "sound_for e s \<Longrightarrow> sound_for e (setPrefs e patch s)"
  unfolding setPrefs_def Let_def using clear_notes_keeps fields_keep_shade by simp

lemma observe_rows_keeps: "sound_for e s \<Longrightarrow> sound_for e (observe_rows lc e rows s)"
  unfolding observe_rows_def by (rule foldl_keeps) (auto intro: fold_keeps_shade)

lemma checkAll_keeps: "sound_for e s \<Longrightarrow> sound_for e (checkAll lc e s)"
  unfolding checkAll_def by (rule foldl_keeps) (auto intro: fold_keeps_shade split: option.splits)

lemma run_keeps_shade: "notify_run lc s \<Longrightarrow> shade_ok s"
proof (induction rule: notify_run.induct)
  case (app s s')
  then have "ledger_now s' = ledger_now s" by (auto simp: ledger_now_def stored_ledger_def fun_eq_iff split: option.split)
  then show ?case using app by (simp add: shade_ok_def)
next
  case (restart s)
  then have "ns_shade s a \<noteq> None \<Longrightarrow> stored_ledger s a = ledger_now s a" for a
    by (cases "ns_ledgers s a") (auto simp: ledger_now_def saved_def)
  then show ?case using restart by (simp add: shade_ok_def ledger_now_def stored_ledger_def)
next
  case (sync s e rows)
  then show ?case using observe_rows_keeps unfolding sound_for_def by blast
next
  case (check s e)
  then show ?case using checkAll_keeps unfolding sound_for_def by blast
next
  case (clear s e accounts)
  then show ?case using clear_notes_keeps unfolding sound_for_def by blast
next
  case (prefs s e patch)
  then show ?case using setPrefs_keeps unfolding sound_for_def by blast
next
  case (mark s e account ids)
  then show ?case using mark_keeps unfolding sound_for_def by blast
next
  case (forget s account)
  have "ledger_now (forget_account account s) a = ledger_now s a" "ns_shade (forget_account account s) a = ns_shade s a"
    if "a \<noteq> account" for a
    using that by (simp_all add: forget_account_def ledger_now_def stored_ledger_def split: option.split)
  moreover have "ns_shade (forget_account account s) account = None" by (simp add: forget_account_def)
  ultimately show ?case using forget by (metis shade_ok_def)
qed (auto simp: shade_ok_def loadPrefs_def)

text \<open>C18 A notification on the shade always counts at least one message of its mailbox's ledger, and coming back to a mailbox
  takes its notification off the shade and leaves the others. This holds in every history of the service in which every
  mark pressed on a notification succeeds, a stored ledger that has to be read for a mailbox with a notification can be
  read, and the process ends only once the ledgers of the notifications shown are on disk; any other write of a ledger or
  of the settings may fail.\<close>

theorem shade_counts_ledger:
  assumes "notify_run lc s" and "reads e s"
  shows "(\<forall>a. ns_shade s a \<noteq> None \<longrightarrow> lg_pending (fst (ledgerFor e a s)) \<noteq> []) \<and>
    ns_shade (clear_notes e (Some accounts) s) a = (if a \<in> set accounts then None else ns_shade s a)"
proof -
  have ok: "sound_for e s" using run_keeps_shade [OF assms(1)] assms(2) by (simp add: sound_for_def)
  have "fst (ledgerFor e a s) = ledger_now s a" if "ns_shade s a \<noteq> None" for a
    using ledgerFor_now(2) [OF _ assms(2) that] by (metis prod.collapse)
  then show ?thesis using ok clear_all_shade [OF ok] by (simp add: shade_ok_def sound_for_def clear_notes_def)
qed

definition sample_inbox :: "string \<Rightarrow> inbox_item" where
  "sample_inbox i = mail_summary.extend (sample_news\<lparr>sm_id := i\<rparr>) \<lparr>ii_account = ''gmail:me@x.org''\<rparr>"

definition watched :: notify_state where
  "watched = \<lparr>ns_ledgers = (\<lambda>_. None), ns_disk = (\<lambda>_. Some (ledger_json watching)), ns_shade = (\<lambda>_. None),
     ns_prefs = DEFAULT_NOTIFICATION_PREFS, ns_disk_prefs = None, ns_accounts = [accountRefFor Gmail ''me@x.org'' None None],
     ns_active = Some ''gmail:me@x.org'', ns_unified = False, ns_clients = [''gmail:me@x.org''], ns_index = [], ns_messages = [], ns_told = []\<rparr>"

definition sample_phone :: "(string \<Rightarrow> string \<Rightarrow> bool) \<Rightarrow> notify_env" where
  "sample_phone takes = \<lparr>ne_supported = True, ne_foreground = False, ne_locked = True,
     ne_clock = \<lparr>ck_now = 7, ck_parse = (\<lambda>_. Some 5), ck_iso = (\<lambda>_. ''t'')\<rparr>, ne_readable = (\<lambda>_. True), ne_saved = True,
     ne_list = (\<lambda>_. None), ne_update = takes, ne_restored = []\<rparr>"

definition two_arrived :: notify_state where
  "two_arrived = observe_rows str_cmp (sample_phone (\<lambda>_ _. True)) [sample_inbox ''m1'', sample_inbox ''m2''] watched"

lemma sample_phone_works: "reads (sample_phone takes) s"
  by (simp add: reads_def sample_phone_def)

theorem shade_counts_ledger_witness:
  "ns_shade two_arrived ''gmail:me@x.org'' \<noteq> None \<and>
   ns_shade (clear_notes (sample_phone (\<lambda>_ _. True)) (Some [''gmail:me@x.org'']) two_arrived) ''gmail:me@x.org'' = None"
proof -
  have "notify_run str_cmp watched" by (rule notify_run.start) (simp_all add: watched_def)
  then have run: "notify_run str_cmp two_arrived"
    unfolding two_arrived_def by (rule notify_run.sync [OF _ sample_phone_works])
  have "ns_shade two_arrived ''gmail:me@x.org'' \<noteq> None" by code_simp
  then show ?thesis
    using shade_counts_ledger [OF run sample_phone_works [of "\<lambda>_ _. True"], where accounts = "[''gmail:me@x.org'']" and a = "''gmail:me@x.org''"]
    by simp
qed

theorem posts_only_what_is_allowed_witness:
  "map_option no_text (ns_shade (fold_rows str_cmp (sample_phone (\<lambda>_ _. True)) ''gmail:me@x.org'' [sample_news] watched) ''gmail:me@x.org'') =
   Some (genericText 1)"
proof -
  let ?s = "fold_rows str_cmp (sample_phone (\<lambda>_ _. True)) ''gmail:me@x.org'' [sample_news] watched"
  obtain n where n: "ns_shade ?s ''gmail:me@x.org'' = Some n" and ids: "length (no_ids n) = 1"
  proof -
    have "map_option (\<lambda>n. length (no_ids n)) (ns_shade ?s ''gmail:me@x.org'') = Some 1" by code_simp
    then show ?thesis using that by auto
  qed
  have "ns_shade ?s ''gmail:me@x.org'' \<noteq> ns_shade watched ''gmail:me@x.org''" using n by (simp add: watched_def)
  then have "\<not> no_detailed n \<and> no_text n = genericText 1"
    using posts_only_what_is_allowed [OF code_units.comparator_axioms refl _ n] ids by (auto simp: sample_phone_def)
  then show ?thesis using n by simp
qed

text \<open>Marks that fail. First: two messages were announced, one was read elsewhere; marking both, with the provider refusing the
  second, leaves a notification that counts nothing, which neither coming back nor marking again takes away. Second: a row
  on screen is given up as read although the provider refused.\<close>

theorem failed_marks_lose_track:
  "(let refuses = sample_phone (\<lambda>_ i. i \<noteq> ''m2'');
        s = markRead refuses ''gmail:me@x.org'' [''m1'', ''m2''] (observe_rows str_cmp refuses [sample_inbox ''m1''] two_arrived)
    in map_option no_ids (ns_shade s ''gmail:me@x.org'') = Some [''m1'', ''m2''] \<and>
       map_option lg_pending (ns_ledgers s ''gmail:me@x.org'') = Some [] \<and>
       ns_shade (clear_notes refuses None s) ''gmail:me@x.org'' = ns_shade s ''gmail:me@x.org'' \<and>
       ns_shade (markRead refuses ''gmail:me@x.org'' [''m1'', ''m2''] s) ''gmail:me@x.org'' = ns_shade s ''gmail:me@x.org'') \<and>
   (let refuses = sample_phone (\<lambda>_ _. False);
        s = markRead refuses ''gmail:me@x.org'' [''m1'', ''m2''] (two_arrived\<lparr>ns_messages := [sample_inbox ''m1'', sample_inbox ''m2'']\<rparr>)
    in ns_shade s ''gmail:me@x.org'' = None \<and> map_option lg_pending (ns_ledgers s ''gmail:me@x.org'') = Some [])"
  by code_simp

end
