(* ===== verification/Accounts_Store.thy ===== *)
theory Accounts_Store
  imports Json Account_Scope
begin

text \<open>
  Which mailboxes this device holds and which one is in front (\<^verbatim>\<open>store/accountsStore.ts\<close>). The settings on a stored
  account can be anything, so they are read from JSON; what is read is complete.
\<close>

record accounts_state =
  ac_accounts :: "account_ref list"
  ac_active :: "string option"
  ac_unified :: bool

definition NO_ACCOUNTS :: accounts_state where
  "NO_ACCOUNTS = \<lparr>ac_accounts = [], ac_active = None, ac_unified = False\<rparr>"

definition MAX_SIGNATURE_LENGTH :: nat where
  "MAX_SIGNATURE_LENGTH = 2000"

definition avatar_name :: "avatar_mode \<Rightarrow> string" where
  "avatar_name m = (case m of AvatarPhoto \<Rightarrow> ''photo'' | AvatarInitials \<Rightarrow> ''initials'' | AvatarProvider \<Rightarrow> ''provider'')"

definition AVATAR_MODES :: "avatar_mode list" where
  "AVATAR_MODES = [AvatarPhoto, AvatarInitials, AvatarProvider]"

definition window_json :: "sync_window \<Rightarrow> json" where
  "window_json w = JStr (case w of WindowAll \<Rightarrow> ''all'' | Window7 \<Rightarrow> ''7'' | Window30 \<Rightarrow> ''30'' | Window90 \<Rightarrow> ''90'')"

definition settings_json :: "account_settings \<Rightarrow> json" where
  "settings_json st =
     JObj [(''displayName'', JStr (as_displayName st)), (''avatar'', JStr (avatar_name (as_avatar st))),
           (''blockRemoteImages'', JBool (as_blockRemoteImages st)), (''syncWindow'', window_json (as_syncWindow st)),
           (''paused'', JBool (as_paused st)), (''signature'', JStr (as_signature st)), (''notify'', JBool (as_notify st))]"

definition string_field :: "json option \<Rightarrow> string \<Rightarrow> string" where
  "string_field v k = (case json_field v k of Some (JStr s) \<Rightarrow> s | _ \<Rightarrow> [])"

definition settingsFrom :: "json option \<Rightarrow> account_settings" where
  "settingsFrom stored =
     \<lparr>as_displayName = string_field stored ''displayName'',
      as_avatar = (case find (\<lambda>m. json_field stored ''avatar'' = Some (JStr (avatar_name m))) AVATAR_MODES of
                     Some m \<Rightarrow> m | None \<Rightarrow> as_avatar DEFAULT_ACCOUNT_SETTINGS),
      as_blockRemoteImages = (json_field stored ''blockRemoteImages'' = Some (JBool True)),
      as_syncWindow = (case find (\<lambda>w. json_field stored ''syncWindow'' = Some (window_json w)) SYNC_WINDOWS of
                         Some w \<Rightarrow> w | None \<Rightarrow> as_syncWindow DEFAULT_ACCOUNT_SETTINGS),
      as_paused = (json_field stored ''paused'' = Some (JBool True)),
      as_signature = take MAX_SIGNATURE_LENGTH (string_field stored ''signature''),
      as_notify = (json_field stored ''notify'' \<noteq> Some (JBool False))\<rparr>"

text \<open>The settings of a ref in memory, as the same reader sees them.\<close>

definition settings_of_ref :: "account_ref \<Rightarrow> account_settings" where
  "settings_of_ref a = settingsFrom (map_option settings_json (ar_settings a))"

text \<open>A stored list: the refs, each with whatever is under its \<open>settings\<close>.\<close>

definition normalise_stored :: "(account_ref \<times> json option) list \<Rightarrow> string option \<Rightarrow> bool \<Rightarrow> accounts_state" where
  "normalise_stored stored act merged =
     (let accounts = map (\<lambda>(a, v). a\<lparr>ar_settings := Some (settingsFrom v)\<rparr>) stored;
          active = (if list_ex (\<lambda>a. Some (ar_id a) = act) accounts then act
                    else (case accounts of a # _ \<Rightarrow> Some (ar_id a) | [] \<Rightarrow> None))
      in \<lparr>ac_accounts = accounts, ac_active = active, ac_unified = (1 < length accounts \<and> merged)\<rparr>)"

definition normalise_accounts :: "accounts_state \<Rightarrow> accounts_state" where
  "normalise_accounts st =
     normalise_stored (map (\<lambda>a. (a, map_option settings_json (ar_settings a))) (ac_accounts st)) (ac_active st) (ac_unified st)"

text \<open>\<open>{ ...a, ...ref, settings: ... }\<close>: a ref built from a sign-in has every property but \<open>settings\<close>.\<close>

definition refreshed_ref :: "account_ref \<Rightarrow> account_ref \<Rightarrow> account_ref" where
  "refreshed_ref a ref = ref\<lparr>ar_settings := Some (case ar_settings ref of Some st \<Rightarrow> st | None \<Rightarrow> settings_of_ref a)\<rparr>"

definition upsertAccount :: "accounts_state \<Rightarrow> account_ref \<Rightarrow> bool \<Rightarrow> accounts_state" where
  "upsertAccount st ref activate =
     normalise_accounts
       (st\<lparr>ac_accounts := (if list_ex (\<lambda>a. ar_id a = ar_id ref) (ac_accounts st)
                          then map (\<lambda>a. if ar_id a = ar_id ref then refreshed_ref a ref else a) (ac_accounts st)
                          else ac_accounts st @ [ref]),
           ac_active := (if activate then Some (ar_id ref) else ac_active st)\<rparr>)"

definition setAccountSettings :: "accounts_state \<Rightarrow> string \<Rightarrow> (account_settings \<Rightarrow> account_settings) \<Rightarrow> accounts_state" where
  "setAccountSettings st i patch =
     normalise_accounts
       (st\<lparr>ac_accounts := map (\<lambda>a. if ar_id a = i then a\<lparr>ar_settings := Some (patch (settings_of_ref a))\<rparr> else a) (ac_accounts st)\<rparr>)"

definition removeAccount :: "accounts_state \<Rightarrow> string \<Rightarrow> accounts_state" where
  "removeAccount st i =
     (let accounts = filter (\<lambda>a. ar_id a \<noteq> i) (ac_accounts st);
          active = (if ac_active st = Some i then (case accounts of a # _ \<Rightarrow> Some (ar_id a) | [] \<Rightarrow> None) else ac_active st)
      in normalise_accounts (st\<lparr>ac_accounts := accounts, ac_active := active\<rparr>))"

subsection \<open>Every account list a screen is given\<close>

definition settings_ok :: "account_settings \<Rightarrow> bool" where
  "settings_ok st \<longleftrightarrow> length (as_signature st) \<le> MAX_SIGNATURE_LENGTH"

definition accounts_ok :: "accounts_state \<Rightarrow> bool" where
  "accounts_ok st \<longleftrightarrow>
     (case ac_active st of None \<Rightarrow> ac_accounts st = [] | Some i \<Rightarrow> i \<in> set (map ar_id (ac_accounts st))) \<and>
     (ac_unified st \<longrightarrow> 1 < length (ac_accounts st)) \<and>
     list_all (\<lambda>a. case ar_settings a of None \<Rightarrow> False | Some s \<Rightarrow> settings_ok s) (ac_accounts st)"

lemma settingsFrom_ok: "settings_ok (settingsFrom v)"
  by (simp add: settings_ok_def settingsFrom_def)

lemma settings_read_back: "settingsFrom (Some (settings_json st)) = st\<lparr>as_signature := take MAX_SIGNATURE_LENGTH (as_signature st)\<rparr>"
proof -
  have avatar: "find (\<lambda>m. avatar_name a = avatar_name m) AVATAR_MODES = Some a" for a
    by (cases a) (simp_all add: AVATAR_MODES_def avatar_name_def)
  have window: "find (\<lambda>w. window_json v = window_json w) SYNC_WINDOWS = Some v" for v
    by (cases v) (simp_all add: SYNC_WINDOWS_def window_json_def)
  show ?thesis
    by (simp add: settingsFrom_def settings_json_def json_field_def string_field_def avatar window)
qed

lemma settings_kept: "ar_settings a = Some st \<Longrightarrow> settings_ok st \<Longrightarrow> settings_of_ref a = st"
  by (simp add: settings_of_ref_def settings_read_back settings_ok_def)

lemma normalise_ids: "map ar_id (ac_accounts (normalise_accounts st)) = map ar_id (ac_accounts st)"
  by (simp add: normalise_accounts_def normalise_stored_def Let_def comp_def)

lemma normalise_stored_ok: "accounts_ok (normalise_stored stored act merged)"
proof -
  have "case ac_active (normalise_stored stored act merged) of None \<Rightarrow> ac_accounts (normalise_stored stored act merged) = []
      | Some i \<Rightarrow> i \<in> set (map ar_id (ac_accounts (normalise_stored stored act merged)))"
    unfolding normalise_stored_def Let_def by (auto simp: list_ex_iff split: list.splits option.splits) force
  then show ?thesis using settingsFrom_ok unfolding accounts_ok_def
    by (simp add: normalise_stored_def Let_def list_all_iff split: prod.splits)
qed

lemma normalise_unchanged:
  assumes "accounts_ok st"
  shows "normalise_accounts st = st"
proof -
  have settings: "a\<lparr>ar_settings := Some (settings_of_ref a)\<rparr> = a" if "a \<in> set (ac_accounts st)" for a
    using that assms settings_kept by (cases "ar_settings a") (auto simp: accounts_ok_def list_all_iff)
  have accounts: "map (\<lambda>(a, v). a\<lparr>ar_settings := Some (settingsFrom v)\<rparr>) (map (\<lambda>a. (a, map_option settings_json (ar_settings a))) (ac_accounts st)) = ac_accounts st"
    using settings by (simp add: comp_def settings_of_ref_def [symmetric] map_idI)
  show ?thesis using assms unfolding normalise_accounts_def normalise_stored_def accounts Let_def
    by (cases st) (auto simp: accounts_ok_def list_ex_iff split: option.splits)
qed

text \<open>C19 Whatever is on disk is read as a list some screen can show: the account in front is listed unless there is none, the
  merged inbox needs two, and every account has complete settings. Every operation gives such a list with no id twice, and
  one that is as it should be is left alone.\<close>

theorem accounts_always_renderable:
  assumes "distinct (map ar_id (ac_accounts st))"
  shows "accounts_ok (normalise_stored stored act merged) \<and> (accounts_ok st \<longrightarrow> normalise_accounts st = st) \<and>
    (\<forall>st' \<in> {upsertAccount st ref activate, setAccountSettings st i patch, removeAccount st i}.
       accounts_ok st' \<and> distinct (map ar_id (ac_accounts st')))"
proof -
  have ok: "accounts_ok (normalise_accounts x)" for x by (simp add: normalise_accounts_def normalise_stored_ok)
  have same_ids: "map ar_id (map (\<lambda>a. if ar_id a = ar_id ref then refreshed_ref a ref else a) (ac_accounts st)) = map ar_id (ac_accounts st)"
    "map ar_id (map (\<lambda>a. if ar_id a = i then a\<lparr>ar_settings := Some (patch (settings_of_ref a))\<rparr> else a) (ac_accounts st)) = map ar_id (ac_accounts st)"
    by (auto simp: refreshed_ref_def)
  have "distinct (map ar_id (ac_accounts (upsertAccount st ref activate)))"
  proof (cases "list_ex (\<lambda>a. ar_id a = ar_id ref) (ac_accounts st)")
    case True
    then show ?thesis using assms same_ids(1) unfolding upsertAccount_def normalise_ids by (simp del: map_map)
  next
    case False
    then have "ar_id ref \<notin> set (map ar_id (ac_accounts st))" by (auto simp: list_ex_iff)
    then show ?thesis using assms False unfolding upsertAccount_def normalise_ids by simp
  qed
  moreover have "distinct (map ar_id (ac_accounts (setAccountSettings st i patch)))"
    unfolding setAccountSettings_def normalise_ids using assms same_ids(2) by (simp del: map_map)
  moreover have "distinct (map ar_id (ac_accounts (removeAccount st i)))"
    unfolding removeAccount_def Let_def normalise_ids using assms by (simp add: distinct_map_filter)
  ultimately show ?thesis using ok normalise_stored_ok normalise_unchanged by (simp add: upsertAccount_def setAccountSettings_def removeAccount_def Let_def)
qed

text \<open>Signing in again in the background refreshes what the provider says of an account and nothing else: not the settings, not
  the account in front, not the order.\<close>

theorem signing_in_again_keeps_settings:
  assumes ok: "accounts_ok st" "distinct (map ar_id (ac_accounts st))" and known: "ar_id ref \<in> set (map ar_id (ac_accounts st))"
    and plain: "ar_settings ref = None"
  shows "ac_active (upsertAccount st ref False) = ac_active st \<and> ac_unified (upsertAccount st ref False) = ac_unified st \<and>
    map (\<lambda>a. (ar_id a, ar_settings a)) (ac_accounts (upsertAccount st ref False)) = map (\<lambda>a. (ar_id a, ar_settings a)) (ac_accounts st) \<and>
    (\<forall>a \<in> set (ac_accounts (upsertAccount st ref False)). ar_id a = ar_id ref \<longrightarrow> ar_name a = ar_name ref \<and> ar_photo a = ar_photo ref \<and> ar_email a = ar_email ref)"
proof -
  let ?st = "st\<lparr>ac_accounts := map (\<lambda>a. if ar_id a = ar_id ref then refreshed_ref a ref else a) (ac_accounts st)\<rparr>"
  have settings: "ar_settings (refreshed_ref a ref) = ar_settings a" if "a \<in> set (ac_accounts st)" for a
    using that ok(1) settings_kept plain by (cases "ar_settings a") (auto simp: refreshed_ref_def accounts_ok_def list_all_iff)
  have ids: "map ar_id (ac_accounts ?st) = map ar_id (ac_accounts st)" by (auto simp: refreshed_ref_def)
  have "accounts_ok ?st"
    using ok(1) settings ids unfolding accounts_ok_def by (auto simp: list_all_iff split: option.splits)
  then have "upsertAccount st ref False = ?st"
    using known normalise_unchanged by (auto simp: upsertAccount_def list_ex_iff)
  then show ?thesis using settings ids by (auto simp: refreshed_ref_def)
qed
definition two_mailboxes :: accounts_state where
  "two_mailboxes = normalise_stored
     [(accountRefFor Gmail ''me@x.org'' None None, Some (JObj [(''displayName'', JStr ''Work''), (''avatar'', JNum 3)])),
      (accountRefFor Imap ''me@y.org'' None None, None)] None True"

lemma two_mailboxes_ok: "accounts_ok two_mailboxes" "distinct (map ar_id (ac_accounts two_mailboxes))"
  unfolding two_mailboxes_def by (rule normalise_stored_ok) code_simp

theorem accounts_always_renderable_witness:
  "accounts_ok (removeAccount two_mailboxes ''gmail:me@x.org'') \<and> normalise_accounts two_mailboxes = two_mailboxes"
  using accounts_always_renderable [OF two_mailboxes_ok(2), where i = "''gmail:me@x.org''"] two_mailboxes_ok(1) by blast

theorem signing_in_again_keeps_settings_witness:
  "map (\<lambda>a. map_option as_displayName (ar_settings a)) (ac_accounts (upsertAccount two_mailboxes (accountRefFor Gmail ''me@x.org'' (Some ''Me'') None) False)) =
   [Some ''Work'', Some '''']"
proof -
  let ?ref = "accountRefFor Gmail ''me@x.org'' (Some ''Me'') None"
  have known: "ar_id ?ref \<in> set (map ar_id (ac_accounts two_mailboxes))" by code_simp
  have plain: "ar_settings ?ref = None" by (simp add: accountRefFor_def)
  have same: "map (\<lambda>a. (ar_id a, ar_settings a)) (ac_accounts (upsertAccount two_mailboxes ?ref False)) =
    map (\<lambda>a. (ar_id a, ar_settings a)) (ac_accounts two_mailboxes)"
    by (rule signing_in_again_keeps_settings [OF two_mailboxes_ok known plain, THEN conjunct2, THEN conjunct2, THEN conjunct1])
  have picked: "map (\<lambda>a. map_option as_displayName (ar_settings a)) xs = map (map_option as_displayName \<circ> snd) (map (\<lambda>a. (ar_id a, ar_settings a)) xs)"
    for xs :: "account_ref list" by simp
  have "map (\<lambda>a. map_option as_displayName (ar_settings a)) (ac_accounts two_mailboxes) = [Some ''Work'', Some '''']" by code_simp
  then show ?thesis unfolding picked same .
qed

end
