(* ===== verification/Secure_Store.thy ===== *)
theory Secure_Store
  imports Json Mime Account_Scope
begin

text \<open>
  Local storage: the envelope every stored value is sealed in (\<^verbatim>\<open>store/localCrypto.ts\<close>), the migration from the app's
  former key prefix (\<^verbatim>\<open>lib/legacyStorageKey.ts\<close>) and the reads and writes of the stores (\<^verbatim>\<open>store/secureJson.ts\<close>).
  Storage is a map from keys to texts. The cipher, random bytes and the JSON codec are fields of the platform, as is
  whether an entry can be deleted.
\<close>

type_synonym utf16_text = "utf16 list"

type_synonym storage = "string \<Rightarrow> utf16_text option"

record platform =
  pf_encrypt :: "u8 list \<Rightarrow> u8 list \<Rightarrow> u8 list \<Rightarrow> u8 list"
  pf_decrypt :: "u8 list \<Rightarrow> u8 list \<Rightarrow> u8 list \<Rightarrow> u8 list option"
  pf_stringify :: "json \<Rightarrow> utf16_text"
  pf_parse :: "utf16_text \<Rightarrow> json option"
  pf_removes :: bool

text \<open>What the model relies on: the cipher opens what it sealed, and only that, and adds to what it seals; JSON text reads
  back, is well-formed UTF-16 and is not empty.\<close>

definition platform_laws :: "platform \<Rightarrow> bool" where
  "platform_laws p \<longleftrightarrow>
     (\<forall>k n m. pf_decrypt p k n (pf_encrypt p k n m) = Some m) \<and>
     (\<forall>k n c m. pf_decrypt p k n c = Some m \<longrightarrow> c = pf_encrypt p k n m) \<and>
     (\<forall>k n m. pf_encrypt p k n m \<noteq> []) \<and>
     (\<forall>v. pf_parse p (pf_stringify p v) = Some v) \<and> (\<forall>v. wf_utf16 (pf_stringify p v) \<and> pf_stringify p v \<noteq> [])"

datatype storage_error = Malformed | Unauthentic | CorruptKey | KeyNotKept

subsection \<open>The key and the envelope\<close>

definition ENVELOPE_PREFIX :: string where
  "ENVELOPE_PREFIX = ''CMSEAL1.''"

definition DEK_STORE_KEY :: string where
  "DEK_STORE_KEY = ''cryptmail.dek.v1''"

definition KEY_BYTES :: nat where
  "KEY_BYTES = 32"

datatype protection_level = Keystore | Weak | UnknownProtection

text \<open>The module's state, and the secret store the key is kept in, which takes it or refuses.\<close>

record crypto_state =
  cr_dek :: "u8 list option"
  cr_protection :: protection_level

type_synonym secrets = "string \<Rightarrow> string option"

definition initLocalCrypto :: "u8 list \<Rightarrow> bool \<Rightarrow> protection_level \<Rightarrow> crypto_state \<Rightarrow> secrets \<Rightarrow> (storage_error + unit) \<times> crypto_state \<times> secrets" where
  "initLocalCrypto random keeps level cr secrets =
     (case cr_dek cr of
        Some _ \<Rightarrow> (Inr (), cr, secrets)
      | None \<Rightarrow>
          (case secrets DEK_STORE_KEY of
             Some (c # cs) \<Rightarrow>
               let bytes = base64ToBytes (c # cs)
               in if length bytes \<noteq> KEY_BYTES then (Inl CorruptKey, cr, secrets)
                  else (Inr (), \<lparr>cr_dek = Some bytes, cr_protection = level\<rparr>, secrets)
           | _ \<Rightarrow>
               let cr = cr\<lparr>cr_dek := Some random\<rparr>
               in if keeps then (Inr (), cr\<lparr>cr_protection := level\<rparr>, secrets(DEK_STORE_KEY := Some (bytesToBase64 random)))
                  else (Inl KeyNotKept, cr, secrets)))"

definition sealed_text :: "u8 list \<Rightarrow> u8 list \<Rightarrow> utf16_text" where
  "sealed_text nonce cipher = units (ENVELOPE_PREFIX @ bytesToBase64 nonce @ ''.'' @ bytesToBase64 cipher)"

definition seal :: "platform \<Rightarrow> u8 list \<Rightarrow> u8 list \<Rightarrow> utf16_text \<Rightarrow> utf16_text" where
  "seal p dek nonce plaintext = sealed_text nonce (pf_encrypt p dek nonce (utf8ToBytes plaintext))"

definition isSealed :: "utf16_text \<Rightarrow> bool" where
  "isSealed v \<longleftrightarrow> take (length ENVELOPE_PREFIX) v = units ENVELOPE_PREFIX"

text \<open>The base64 reader skips what is not of its alphabet, so only the low half of a unit matters to it.\<close>

definition unit_char :: "utf16 \<Rightarrow> char" where
  "unit_char u = (if unat u < 256 then char_of (unat u) else CHR ''?'')"

definition unseal :: "platform \<Rightarrow> u8 list \<Rightarrow> utf16_text \<Rightarrow> storage_error + utf16_text" where
  "unseal p dek stored =
     (if \<not> isSealed stored then Inr stored
      else (case js_split 0x2e (drop (length ENVELOPE_PREFIX) stored) of
              nonceB64 # cipherB64 # _ \<Rightarrow>
                if nonceB64 = [] \<or> cipherB64 = [] then Inl Malformed
                else (case pf_decrypt p dek (base64ToBytes (map unit_char nonceB64)) (base64ToBytes (map unit_char cipherB64)) of
                        None \<Rightarrow> Inl Unauthentic
                      | Some bytes \<Rightarrow> Inr (bytesToUtf8 bytes))
            | _ \<Rightarrow> Inl Malformed))"

subsection \<open>The former prefix\<close>

definition LEGACY_PREFIX :: string where
  "LEGACY_PREFIX = ''ciphermail.''"

definition CURRENT_PREFIX :: string where
  "CURRENT_PREFIX = ''cryptmail.''"

definition legacyKeyFor :: "string \<Rightarrow> string" where
  "legacyKeyFor k = (if take (length CURRENT_PREFIX) k = CURRENT_PREFIX then LEGACY_PREFIX @ drop (length CURRENT_PREFIX) k else k)"

definition removeItem :: "platform \<Rightarrow> string \<Rightarrow> storage \<Rightarrow> storage" where
  "removeItem p k s = (if pf_removes p then s(k := None) else s)"

definition getItemMigrating :: "platform \<Rightarrow> string \<Rightarrow> storage \<Rightarrow> utf16_text option \<times> storage" where
  "getItemMigrating p k s =
     (case s k of
        Some v \<Rightarrow> (Some v, s)
      | None \<Rightarrow>
          if legacyKeyFor k = k then (None, s)
          else (case s (legacyKeyFor k) of
                  None \<Rightarrow> (None, s)
                | Some carried \<Rightarrow> (Some carried, removeItem p (legacyKeyFor k) (s(k := Some carried)))))"

subsection \<open>Reading and writing\<close>

definition parseOr :: "platform \<Rightarrow> u8 list \<Rightarrow> utf16_text \<Rightarrow> json \<Rightarrow> storage_error + json" where
  "parseOr p dek stored fallback =
     (case unseal p dek stored of
        Inl e \<Rightarrow> Inl e
      | Inr text_json \<Rightarrow> (case pf_parse p text_json of None \<Rightarrow> Inr fallback | Some v \<Rightarrow> Inr v))"

definition loadJson :: "platform \<Rightarrow> u8 list \<Rightarrow> string \<Rightarrow> json \<Rightarrow> storage \<Rightarrow> (storage_error + json) \<times> storage" where
  "loadJson p dek storeKey fallback s =
     (case getItemMigrating p storeKey s of
        (None, s) \<Rightarrow> (Inr fallback, s)
      | (Some stored, s) \<Rightarrow> (parseOr p dek stored fallback, s))"

definition saveJson :: "platform \<Rightarrow> u8 list \<Rightarrow> u8 list \<Rightarrow> string \<Rightarrow> json \<Rightarrow> storage \<Rightarrow> storage" where
  "saveJson p dek nonce storeKey v s = s(storeKey := Some (seal p dek nonce (pf_stringify p v)))"

definition isStoredPlaintext :: "platform \<Rightarrow> string \<Rightarrow> storage \<Rightarrow> bool \<times> storage" where
  "isStoredPlaintext p storeKey s =
     (case getItemMigrating p storeKey s of (None, s) \<Rightarrow> (False, s) | (Some stored, s) \<Rightarrow> (\<not> isSealed stored, s))"

definition reseal_one :: "platform \<Rightarrow> u8 list \<Rightarrow> (string \<Rightarrow> u8 list) \<Rightarrow> string \<Rightarrow> storage \<Rightarrow> bool \<times> storage" where
  "reseal_one p dek nonces k s =
     (case getItemMigrating p k s of
        (None, s) \<Rightarrow> (False, s)
      | (Some stored, s) \<Rightarrow> if isSealed stored then (False, s) else (True, s(k := Some (seal p dek (nonces k) stored))))"

fun resealPlaintext :: "platform \<Rightarrow> u8 list \<Rightarrow> (string \<Rightarrow> u8 list) \<Rightarrow> string list \<Rightarrow> storage \<Rightarrow> string list \<times> storage" where
  "resealPlaintext p dek nonces [] s = ([], s)"
| "resealPlaintext p dek nonces (k # ks) s =
     (case reseal_one p dek nonces k s of (hit, s) \<Rightarrow>
        (case resealPlaintext p dek nonces ks s of (ups, s) \<Rightarrow> (if hit then k # ups else ups, s)))"

definition loadScopedJson :: "platform \<Rightarrow> u8 list \<Rightarrow> u8 list \<Rightarrow> string \<Rightarrow> string \<Rightarrow> json \<Rightarrow> storage \<Rightarrow> (storage_error + json) \<times> storage" where
  "loadScopedJson p dek nonce base account fallback s =
     (case getItemMigrating p (scopedKey base account) s of
        (Some stored, s) \<Rightarrow> (parseOr p dek stored fallback, s)
      | (None, s) \<Rightarrow>
          (case getItemMigrating p base s of
             (None, s) \<Rightarrow> (Inr fallback, s)
           | (Some unscoped, s) \<Rightarrow>
               (parseOr p dek unscoped fallback,
                removeItem p base (s(scopedKey base account := Some (if isSealed unscoped then unscoped else seal p dek nonce unscoped))))))"

definition saveScopedJson :: "platform \<Rightarrow> u8 list \<Rightarrow> u8 list \<Rightarrow> string \<Rightarrow> string \<Rightarrow> json \<Rightarrow> storage \<Rightarrow> storage" where
  "saveScopedJson p dek nonce base account v s = saveJson p dek nonce (scopedKey base account) v s"

definition removeScoped :: "string list \<Rightarrow> string \<Rightarrow> storage \<Rightarrow> storage" where
  "removeScoped bases account s = (\<lambda>k. if k \<in> set (map (\<lambda>b. scopedKey b account) bases) then None else s k)"

subsection \<open>Launch\<close>

definition PER_ACCOUNT_STORE_KEYS :: "string list" where
  "PER_ACCOUNT_STORE_KEYS =
     [''cryptmail.keyring.v1'', ''cryptmail.drafts.v1'', ''cryptmail.outbox.v1'', ''cryptmail.searchindex.v1'', ''cryptmail.recovery.v1'',
      ''cryptmail.publish.v1'', ''cryptmail.invites.v1'', ''cryptmail.handshakes.v1'', ''cryptmail.quantumlinks.v1'', ''cryptmail.spam.v1'',
      ''cryptmail.snooze.v1'', ''cryptmail.mailcache.v1'', ''cryptmail.labels.v1'', ''cryptmail.rules.v1'', ''cryptmail.notify.v1'']"

definition SEALED_STORE_KEYS :: "string list" where
  "SEALED_STORE_KEYS = PER_ACCOUNT_STORE_KEYS @
     [''cryptmail.accounts.v1'', ''cryptmail.prefs.v1'', ''cryptmail.mailprefs.v1'', ''cryptmail.notifyprefs.v1'', ''cryptmail.cannedreplies.v1'',
      ''cryptmail.applock.v1'']"

definition chooseSecretStore :: "bool \<Rightarrow> bool \<Rightarrow> protection_level" where
  "chooseSecretStore web available = (if \<not> web \<and> available then Keystore else Weak)"

text \<open>The secret store is the keystore, or the entry of that key in the same storage, which no other store uses.\<close>

record launch =
  la_crypto :: crypto_state
  la_secrets :: secrets
  la_storage :: storage
  la_ready :: "(storage_error + protection_level \<times> string list) option"

definition doInitStorage :: "platform \<Rightarrow> u8 list \<Rightarrow> bool \<Rightarrow> protection_level \<Rightarrow> (string \<Rightarrow> u8 list) \<Rightarrow> launch \<Rightarrow>
    (storage_error + protection_level \<times> string list) \<times> launch" where
  "doInitStorage p random keeps level nonces l =
     (case initLocalCrypto random keeps level (la_crypto l) (la_secrets l) of
        (Inl e, cr, secrets) \<Rightarrow> (Inl e, l\<lparr>la_crypto := cr, la_secrets := secrets\<rparr>)
      | (Inr _, cr, secrets) \<Rightarrow>
          (case resealPlaintext p (the (cr_dek cr)) nonces SEALED_STORE_KEYS (la_storage l) of
             (upgraded, s) \<Rightarrow> (Inr (level, upgraded), l\<lparr>la_crypto := cr, la_secrets := secrets, la_storage := s\<rparr>)))"

definition initStorage :: "platform \<Rightarrow> u8 list \<Rightarrow> bool \<Rightarrow> protection_level \<Rightarrow> (string \<Rightarrow> u8 list) \<Rightarrow> launch \<Rightarrow>
    (storage_error + protection_level \<times> string list) \<times> launch" where
  "initStorage p random keeps level nonces l =
     (case la_ready l of
        Some r \<Rightarrow> (r, l)
      | None \<Rightarrow> (case doInitStorage p random keeps level nonces l of (r, l) \<Rightarrow> (r, l\<lparr>la_ready := Some r\<rparr>)))"

text \<open>What is left of all this in memory when the app is started again.\<close>

definition relaunched :: "launch \<Rightarrow> launch" where
  "relaunched l = l\<lparr>la_crypto := \<lparr>cr_dek = None, cr_protection = UnknownProtection\<rparr>, la_ready := None\<rparr>"

end
