(* ===== verification/Secure_Store_Laws.thy ===== *)
theory Secure_Store_Laws
  imports Secure_Store "HOL-Library.Countable"
begin

text \<open>
  What local storage promises: what was sealed opens again and nothing else does, an old value is adopted by one account,
  and after the sweep at launch no store is readable on disk.
\<close>

subsection \<open>The envelope\<close>

lemma unit_char_units [simp]: "map unit_char (units s) = s"
proof -
  have "unit_char (of_nat (code_unit c)) = c" for c
  proof -
    have "unat (of_nat (code_unit c) :: utf16) = code_unit c"
      using code_unit_less_256 [of c] by (simp add: unat_of_nat take_bit_nat_eq_self_iff unsigned_of_nat)
    then show ?thesis using code_unit_less_256 [of c] by (simp add: unit_char_def code_unit_def)
  qed
  then show ?thesis by (simp add: units_def comp_def map_idI)
qed

lemma unit_of_char_inject: "(of_nat (code_unit c) :: utf16) = of_nat (code_unit d) \<longleftrightarrow> c = d"
  by (metis unit_char_units units_def list.simps(8,9) list.inject)

lemma units_append [simp]: "units (a @ b) = units a @ units b"
  by (simp add: units_def)

lemma units_eq_Nil [simp]: "units s = [] \<longleftrightarrow> s = []"
  by (simp add: units_def)

lemma length_units [simp]: "length (units s) = length s"
  by (simp add: units_def)

lemma dot_in_units: "0x2e \<in> set (units s) \<longleftrightarrow> CHR ''.'' \<in> set s"
proof -
  have dot: "(0x2e :: utf16) = of_nat (code_unit (CHR ''.''))" by (simp add: code_unit_def)
  show ?thesis unfolding dot units_def by (auto simp: unit_of_char_inject image_iff)
qed

lemma base64_no_dot: "CHR ''.'' \<notin> set (bytesToBase64 bs)"
proof -
  have "CHR ''.'' \<notin> insert (CHR ''='') (set b64_alphabet)" by code_simp
  then show ?thesis using bytesToBase64_chars by blast
qed

lemma bytesToBase64_empty: "bytesToBase64 bs = [] \<longleftrightarrow> bs = []"
proof -
  have "bytesToBase64 bs = [] \<longleftrightarrow> (length bs + 2) div 3 = 0"
    using bytesToBase64_length [of bs] by (metis length_0_conv mult_eq_0_iff zero_neq_numeral)
  also have "\<dots> \<longleftrightarrow> bs = []" by (cases bs) (simp_all add: div_eq_0_iff)
  finally show ?thesis .
qed

lemma sealed_text_parts:
  "isSealed (sealed_text n c)"
  "js_split 0x2e (drop (length ENVELOPE_PREFIX) (sealed_text n c)) = [units (bytesToBase64 n), units (bytesToBase64 c)]"
proof -
  have t: "sealed_text n c = units ENVELOPE_PREFIX @ units (bytesToBase64 n) @ 0x2e # units (bytesToBase64 c)"
    by (simp add: sealed_text_def) (simp add: units_def code_unit_def)
  show "isSealed (sealed_text n c)" unfolding t isSealed_def by simp
  show "js_split 0x2e (drop (length ENVELOPE_PREFIX) (sealed_text n c)) = [units (bytesToBase64 n), units (bytesToBase64 c)]"
    unfolding t using base64_no_dot by (simp add: js_split_append js_split_no dot_in_units)
qed

lemma seal_isSealed: "isSealed (seal p dek nonce t)"
  by (simp add: seal_def sealed_text_parts)

lemma unseal_seal:
  assumes "platform_laws p" "nonce \<noteq> []" "wf_utf16 t"
  shows "unseal p dek (seal p dek nonce t) = Inr t"
proof -
  have "pf_encrypt p dek nonce (utf8ToBytes t) \<noteq> []" "pf_decrypt p dek nonce (pf_encrypt p dek nonce (utf8ToBytes t)) = Some (utf8ToBytes t)"
    using assms(1) by (simp_all add: platform_laws_def)
  then show ?thesis using assms(2,3)
    by (simp add: unseal_def seal_def sealed_text_parts bytesToBase64_empty base64_inverse utf8_inverse)
qed

text \<open>A stored value is read back; a sealed value that opens was sealed under this key, so nothing else is ever read as one;
  and without a prefix a value is taken as it is.\<close>

theorem sealed_values:
  assumes "platform_laws p" and "nonce \<noteq> []"
  shows "loadJson p dek k fallback (saveJson p dek nonce k v s) = (Inr v, saveJson p dek nonce k v s) \<and>
    isSealed (the (saveJson p dek nonce k v s k)) \<and>
    (isSealed stored \<and> unseal p dek stored = Inr t \<longrightarrow>
      (\<exists>n c rest m. js_split 0x2e (drop (length ENVELOPE_PREFIX) stored) = n # c # rest \<and>
         base64ToBytes (map unit_char c) = pf_encrypt p dek (base64ToBytes (map unit_char n)) m \<and> t = bytesToUtf8 m)) \<and>
    (\<not> isSealed stored \<longrightarrow> unseal p dek stored = Inr stored)"
proof (intro conjI impI)
  have "unseal p dek (seal p dek nonce (pf_stringify p v)) = Inr (pf_stringify p v)"
    using unseal_seal assms by (simp add: platform_laws_def)
  then show "loadJson p dek k fallback (saveJson p dek nonce k v s) = (Inr v, saveJson p dek nonce k v s)"
    using assms(1) by (simp add: loadJson_def saveJson_def getItemMigrating_def parseOr_def platform_laws_def)
  show "isSealed (the (saveJson p dek nonce k v s k))" by (simp add: saveJson_def seal_isSealed)
  show "unseal p dek stored = Inr stored" if "\<not> isSealed stored" using that by (simp add: unseal_def)
  assume opened: "isSealed stored \<and> unseal p dek stored = Inr t"
  then obtain n c rest m where parts: "js_split 0x2e (drop (length ENVELOPE_PREFIX) stored) = n # c # rest"
    "pf_decrypt p dek (base64ToBytes (map unit_char n)) (base64ToBytes (map unit_char c)) = Some m" "t = bytesToUtf8 m"
    by (auto simp: unseal_def split: list.splits option.splits if_splits)
  then have "base64ToBytes (map unit_char c) = pf_encrypt p dek (base64ToBytes (map unit_char n)) m"
    using assms(1) by (simp add: platform_laws_def)
  then show "\<exists>n c rest m. js_split 0x2e (drop (length ENVELOPE_PREFIX) stored) = n # c # rest \<and>
      base64ToBytes (map unit_char c) = pf_encrypt p dek (base64ToBytes (map unit_char n)) m \<and> t = bytesToUtf8 m"
    using parts by blast
qed
subsection \<open>Keys\<close>

definition store_base :: "string \<Rightarrow> bool" where
  "store_base base \<longleftrightarrow> take (length CURRENT_PREFIX) base = CURRENT_PREFIX \<and> CHR ''@'' \<notin> set base"

lemma legacy_current: "take (length CURRENT_PREFIX) k = CURRENT_PREFIX \<Longrightarrow> legacyKeyFor k = LEGACY_PREFIX @ drop (length CURRENT_PREFIX) k"
  by (simp add: legacyKeyFor_def)

lemma prefixes_differ: "LEGACY_PREFIX @ x \<noteq> CURRENT_PREFIX @ y"
  by (simp add: LEGACY_PREFIX_def CURRENT_PREFIX_def)

lemma current_split: "take (length CURRENT_PREFIX) k = CURRENT_PREFIX \<Longrightarrow> k = CURRENT_PREFIX @ drop (length CURRENT_PREFIX) k"
  by (metis append_take_drop_id)

lemma legacy_not_current:
  assumes "take (length CURRENT_PREFIX) k = CURRENT_PREFIX" "take (length CURRENT_PREFIX) k' = CURRENT_PREFIX"
  shows "legacyKeyFor k \<noteq> k'"
  using prefixes_differ current_split [OF assms(2)] unfolding legacy_current [OF assms(1)] by metis

lemma legacy_inject:
  assumes "take (length CURRENT_PREFIX) k = CURRENT_PREFIX" "take (length CURRENT_PREFIX) k' = CURRENT_PREFIX"
  shows "legacyKeyFor k = legacyKeyFor k' \<longleftrightarrow> k = k'"
  using current_split [OF assms(1)] current_split [OF assms(2)] unfolding legacy_current [OF assms(1)] legacy_current [OF assms(2)]
  by (metis same_append_eq)

lemma scoped_current: "store_base base \<Longrightarrow> take (length CURRENT_PREFIX) (scopedKey base a) = CURRENT_PREFIX"
proof -
  assume "store_base base"
  then have "take (length CURRENT_PREFIX) base = CURRENT_PREFIX" by (simp add: store_base_def)
  moreover from this have "length CURRENT_PREFIX \<le> length base" by (metis length_take min.absorb_iff2 min.commute)
  ultimately show ?thesis by (simp add: scopedKey_def)
qed

lemma scoped_not_base: "scopedKey base a \<noteq> base"
  by (simp add: scopedKey_def)

lemma getItemMigrating_current: "s k = Some v \<Longrightarrow> getItemMigrating p k s = (Some v, s)"
  by (simp add: getItemMigrating_def)

lemma getItemMigrating_nothing: "s k = None \<Longrightarrow> s (legacyKeyFor k) = None \<Longrightarrow> getItemMigrating p k s = (None, s)"
  by (simp add: getItemMigrating_def)

lemma reads_adopted:
  assumes "platform_laws p" "nonce \<noteq> []" "wf_utf16 v"
  shows "parseOr p dek (if isSealed v then v else seal p dek nonce v) fallback = parseOr p dek v fallback"
proof (cases "isSealed v")
  case False
  then have "unseal p dek v = Inr v" by (simp add: unseal_def)
  then show ?thesis using False unseal_seal [OF assms] by (simp add: parseOr_def)
qed simp

text \<open>C20 A value written before accounts existed goes to the account that reads it first, which finds it again, sealed; the second
  account starts with nothing. That holds when the old entry can be deleted: when deleting it fails, the second account is
  given the first one's data.\<close>

theorem first_account_adopts:
  assumes laws: "platform_laws p" "nonce \<noteq> []" "wf_utf16 v" and base: "store_base base" and ab: "a \<noteq> b"
    and old: "s base = Some v"
    and fresh: "\<forall>x \<in> {a, b}. s (scopedKey base x) = None \<and> s (legacyKeyFor (scopedKey base x)) = None" "s (legacyKeyFor base) = None"
    and first: "loadScopedJson p dek nonce base a fallback s = (r1, s1)"
    and second: "loadScopedJson p dek nonce base b fallback s1 = (r2, s2)"
    and again: "loadScopedJson p dek nonce base a fallback s2 = (r3, s3)"
  shows "r1 = parseOr p dek v fallback \<and> r3 = r1 \<and> isSealed (the (s2 (scopedKey base a))) \<and>
    r2 = (if pf_removes p then Inr fallback else r1)"
proof -
  let ?w = "if isSealed v then v else seal p dek nonce v"
  have cur: "take (length CURRENT_PREFIX) base = CURRENT_PREFIX" using base by (simp add: store_base_def)
  note sc = scoped_current [OF base]
  have apart: "scopedKey base a \<noteq> scopedKey base b" using ab by (simp add: scopedKey_def)
  have current: "take (length CURRENT_PREFIX) k = CURRENT_PREFIX" if "k \<in> {base, scopedKey base a, scopedKey base b}" for k
    using that cur sc by auto
  have legacy: "legacyKeyFor k \<noteq> k'" if "k \<in> {base, scopedKey base a, scopedKey base b}" "k' \<in> {base, scopedKey base a, scopedKey base b}" for k k'
    using legacy_not_current [OF current [OF that(1)] current [OF that(2)]] .
  have a_free: "s (scopedKey base a) = None" "s (legacyKeyFor (scopedKey base a)) = None" using fresh(1) by simp_all
  have s1: "r1 = parseOr p dek v fallback" "s1 = removeItem p base (s(scopedKey base a := Some ?w))"
    using first by (simp_all add: loadScopedJson_def getItemMigrating_nothing [OF a_free] getItemMigrating_current [where k = base and s = s, OF old])
  have s1b: "s1 (scopedKey base b) = None" "s1 (legacyKeyFor (scopedKey base b)) = None" "s1 (legacyKeyFor base) = None"
    "s1 base = (if pf_removes p then None else Some v)"
    using fresh apart legacy [of "scopedKey base b"] legacy [of base] scoped_not_base [of base a] scoped_not_base [of base b] old
    unfolding s1(2) by (simp_all add: removeItem_def)
  have s2: "r2 = (if pf_removes p then Inr fallback else r1)"
    "s2 = (if pf_removes p then s1 else s1(scopedKey base b := Some ?w))"
  proof -
    have b: "getItemMigrating p (scopedKey base b) s1 = (None, s1)" by (rule getItemMigrating_nothing [OF s1b(1,2)])
    have base1: "getItemMigrating p base s1 = (if pf_removes p then None else Some v, s1)"
      using s1b(3,4) by (simp add: getItemMigrating_def)
    show "r2 = (if pf_removes p then Inr fallback else r1)"
      using second s1(1) by (simp add: loadScopedJson_def b base1 split: if_splits)
    show "s2 = (if pf_removes p then s1 else s1(scopedKey base b := Some ?w))"
      using second by (cases "pf_removes p") (simp_all add: loadScopedJson_def b base1 removeItem_def)
  qed
  have kept: "s2 (scopedKey base a) = Some ?w"
    unfolding s2(2) s1(2) using apart scoped_not_base [of base a] by (simp add: removeItem_def)
  have "r3 = parseOr p dek ?w fallback"
    using again kept by (simp add: loadScopedJson_def getItemMigrating_current)
  then have "r3 = r1" using reads_adopted [OF laws] s1(1) by simp
  moreover have "isSealed ?w" by (simp add: seal_isSealed)
  ultimately show ?thesis using s1(1) s2(1) kept by simp
qed

subsection \<open>The sweep at launch\<close>

definition found_value :: "storage \<Rightarrow> string \<Rightarrow> utf16_text option" where
  "found_value s k = (case s k of Some v \<Rightarrow> Some v | None \<Rightarrow> s (legacyKeyFor k))"

lemma getItemMigrating_laws:
  assumes "take (length CURRENT_PREFIX) k = CURRENT_PREFIX"
  shows "fst (getItemMigrating p k s) = found_value s k"
    "snd (getItemMigrating p k s) k = fst (getItemMigrating p k s)"
    "k' \<noteq> k \<Longrightarrow> k' \<noteq> legacyKeyFor k \<Longrightarrow> snd (getItemMigrating p k s) k' = s k'"
    "snd (getItemMigrating p k s) (legacyKeyFor k) = (if s k = None \<and> pf_removes p then None else s (legacyKeyFor k))"
  using legacy_not_current [OF assms assms] by (auto simp: getItemMigrating_def removeItem_def found_value_def split: option.splits)

lemma reseal_one_laws:
  assumes "take (length CURRENT_PREFIX) k = CURRENT_PREFIX"
    and kept_def: "kept = found_value s k"
  shows "snd (reseal_one p dek nonces k s) k = map_option (\<lambda>v. if isSealed v then v else seal p dek (nonces k) v) kept"
    "k' \<noteq> k \<Longrightarrow> k' \<noteq> legacyKeyFor k \<Longrightarrow> snd (reseal_one p dek nonces k s) k' = s k'"
    "snd (reseal_one p dek nonces k s) (legacyKeyFor k) = (if s k = None \<and> pf_removes p then None else s (legacyKeyFor k))"
proof -
  obtain got s1 where g: "getItemMigrating p k s = (got, s1)" by (cases "getItemMigrating p k s")
  note laws = getItemMigrating_laws [OF assms(1), where p = p and s = s, unfolded g fst_conv snd_conv]
  show "snd (reseal_one p dek nonces k s) k = map_option (\<lambda>v. if isSealed v then v else seal p dek (nonces k) v) kept"
    using laws(1,2) by (auto simp: reseal_one_def g kept_def split: option.splits)
  show "snd (reseal_one p dek nonces k s) k' = s k'" if "k' \<noteq> k" "k' \<noteq> legacyKeyFor k"
    using that laws(3) by (auto simp: reseal_one_def g split: option.splits)
  show "snd (reseal_one p dek nonces k s) (legacyKeyFor k) = (if s k = None \<and> pf_removes p then None else s (legacyKeyFor k))"
    using laws(4) legacy_not_current [OF assms(1) assms(1)] by (auto simp: reseal_one_def g split: option.splits)
qed

text \<open>After the sweep every store is sealed, with its value, wherever it was found. The copy under the former name goes with
  it if it can be deleted; one that is left stays in the clear, in this sweep and in every later one.\<close>

lemma sweep_seals_stores:
  assumes "distinct keys" and "\<forall>k \<in> set keys. take (length CURRENT_PREFIX) k = CURRENT_PREFIX" and "k \<in> set keys"
  shows "snd (resealPlaintext p dek nonces keys s) k =
      map_option (\<lambda>v. if isSealed v then v else seal p dek (nonces k) v) (found_value s k) \<and>
    snd (resealPlaintext p dek nonces keys s) (legacyKeyFor k) = (if s k = None \<and> pf_removes p then None else s (legacyKeyFor k))"
  using assms
proof (induction keys arbitrary: s)
  case (Cons x keys)
  let ?s = "snd (reseal_one p dek nonces x s)"
  have step: "snd (resealPlaintext p dek nonces (x # keys) s) = snd (resealPlaintext p dek nonces keys ?s)"
    by (simp split: prod.splits)
  have untouched: "snd (resealPlaintext p dek nonces ks t) k' = t k'"
    if "\<forall>x \<in> set ks. take (length CURRENT_PREFIX) x = CURRENT_PREFIX" "k' \<notin> set ks" "k' \<notin> legacyKeyFor ` set ks" for ks t k'
    using that
  proof (induction ks arbitrary: t)
    case (Cons y ks)
    have "snd (resealPlaintext p dek nonces (y # ks) t) = snd (resealPlaintext p dek nonces ks (snd (reseal_one p dek nonces y t)))"
      by (simp split: prod.splits)
    then show ?case using Cons reseal_one_laws(2) [OF _ refl, where k = y and k' = k' and s = t] by simp
  qed simp
  have x: "take (length CURRENT_PREFIX) x = CURRENT_PREFIX" using Cons.prems(2) by simp
  show ?case
  proof (cases "k = x")
    case True
    have "x \<notin> set keys" "x \<notin> legacyKeyFor ` set keys" "legacyKeyFor x \<notin> set keys" "legacyKeyFor x \<notin> legacyKeyFor ` set keys"
      using Cons.prems(1,2) x legacy_not_current legacy_inject by (auto; blast)+
    then show ?thesis unfolding step True using untouched [of keys] Cons.prems(2) reseal_one_laws(1,3) [OF x refl] by simp
  next
    case False
    then have k: "k \<in> set keys" "take (length CURRENT_PREFIX) k = CURRENT_PREFIX" using Cons.prems by auto
    have "?s k = s k" "?s (legacyKeyFor k) = s (legacyKeyFor k)"
      using False k(2) x legacy_not_current legacy_inject by (auto intro!: reseal_one_laws(2) [OF _ refl])
    then have "found_value ?s k = found_value s k" "?s k = s k" "?s (legacyKeyFor k) = s (legacyKeyFor k)" by (cases "s k"; simp add: found_value_def)+
    then show ?thesis using Cons.IH [of ?s] Cons.prems(1,2) k(1) unfolding step by simp
  qed
qed simp
subsection \<open>A platform\<close>

instance json :: countable
  by countable_datatype

definition sample_platform :: "bool \<Rightarrow> platform" where
  "sample_platform removes =
     \<lparr>pf_encrypt = (\<lambda>_ _ m. 0 # m), pf_decrypt = (\<lambda>_ _ c. case c of x # m \<Rightarrow> if x = 0 then Some m else None | [] \<Rightarrow> None),
      pf_stringify = (\<lambda>v. replicate (Suc (to_nat v)) 0x20), pf_parse = (\<lambda>t. Some (from_nat (length t - 1))), pf_removes = removes\<rparr>"

lemma wf_spaces: "wf_utf16 (replicate n 0x20)"
proof (induction n)
  case (Suc n)
  then show ?case by (cases n) (simp_all add: high_surrogate_def)
qed simp

lemma sample_platform_laws: "platform_laws (sample_platform removes)"
  using wf_spaces by (auto simp: platform_laws_def sample_platform_def simp del: replicate.simps split: list.splits if_splits)

theorem sealed_values_witness:
  "fst (loadJson (sample_platform True) [] ''cryptmail.labels.v1'' JNull (saveJson (sample_platform True) [] [7] ''cryptmail.labels.v1'' (JStr ''x'') (\<lambda>_. None))) = Inr (JStr ''x'')"
proof -
  have "[7 :: u8] \<noteq> []" by simp
  from sealed_values [OF sample_platform_laws [of True] this, THEN conjunct1] show ?thesis by simp
qed

definition old_install :: storage where
  "old_install = (\<lambda>k. if k = ''cryptmail.keyring.v1'' then Some [0x20, 0x20] else None)"

theorem first_account_adopts_witness:
  "let p = sample_platform False; load = (\<lambda>a. loadScopedJson p [] [7] ''cryptmail.keyring.v1'' a JNull)
   in fst (load ''gmail:b'' (snd (load ''gmail:a'' old_install))) = fst (load ''gmail:a'' old_install)"
proof -
  let ?load = "\<lambda>a. loadScopedJson (sample_platform False) [] [7] ''cryptmail.keyring.v1'' a JNull"
  let ?one = "?load ''gmail:a'' old_install"
  let ?two = "?load ''gmail:b'' (snd ?one)"
  let ?three = "?load ''gmail:a'' (snd ?two)"
  have base: "store_base ''cryptmail.keyring.v1''" by code_simp
  have fresh: "\<forall>x \<in> {''gmail:a'', ''gmail:b''}. old_install (scopedKey ''cryptmail.keyring.v1'' x) = None \<and>
      old_install (legacyKeyFor (scopedKey ''cryptmail.keyring.v1'' x)) = None"
    "old_install (legacyKeyFor ''cryptmail.keyring.v1'') = None" by code_simp+
  have old: "old_install ''cryptmail.keyring.v1'' = Some [0x20, 0x20]" "wf_utf16 [0x20, 0x20]" by code_simp+
  have "fst ?two = (if pf_removes (sample_platform False) then Inr JNull else fst ?one)"
    using first_account_adopts [OF sample_platform_laws _ old(2) base _ old(1) fresh, of "[7]" False "[]" JNull "fst ?one" "snd ?one" "fst ?two" "snd ?two" "fst ?three" "snd ?three"]
    by simp
  then show ?thesis by (simp add: sample_platform_def Let_def)
qed

end
