(* ===== verification/Launch.thy ===== *)
theory Launch
  imports Secure_Store_Laws
begin

text \<open>What a launch leaves on disk, what the next one finds, and what removing a mailbox removes.\<close>

definition in_the_clear :: "storage \<Rightarrow> string \<Rightarrow> bool" where
  "in_the_clear s k = (case found_value s k of None \<Rightarrow> False | Some v \<Rightarrow> \<not> isSealed v)"

lemma found_value_apart:
  assumes "take (length CURRENT_PREFIX) x = CURRENT_PREFIX" "take (length CURRENT_PREFIX) k = CURRENT_PREFIX" "k \<noteq> x"
  shows "found_value (snd (reseal_one p dek nonces x s)) k = found_value s k"
proof -
  have "snd (reseal_one p dek nonces x s) k = s k" "snd (reseal_one p dek nonces x s) (legacyKeyFor k) = s (legacyKeyFor k)"
    using assms legacy_not_current legacy_inject by (auto intro!: reseal_one_laws(2) [OF _ refl])
  then show ?thesis by (simp add: found_value_def split: option.splits)
qed

lemma reseal_one_hit: "take (length CURRENT_PREFIX) x = CURRENT_PREFIX \<Longrightarrow> fst (reseal_one p dek nonces x s) = in_the_clear s x"
  using getItemMigrating_laws(1) [of x p s]
  by (cases "getItemMigrating p x s") (auto simp: reseal_one_def in_the_clear_def split: option.splits)

lemma sweep_reports:
  assumes "distinct keys" "\<forall>k \<in> set keys. take (length CURRENT_PREFIX) k = CURRENT_PREFIX"
  shows "fst (resealPlaintext p dek nonces keys s) = filter (in_the_clear s) keys"
  using assms
proof (induction keys arbitrary: s)
  case (Cons x keys)
  let ?s = "snd (reseal_one p dek nonces x s)"
  have "in_the_clear ?s k = in_the_clear s k" if "k \<in> set keys" for k

  proof -
    have "k \<noteq> x" "take (length CURRENT_PREFIX) k = CURRENT_PREFIX" using that Cons.prems by auto
    then show ?thesis using Cons.prems(2) found_value_apart [of x k p dek nonces s] by (simp add: in_the_clear_def)
  qed
  then have "filter (in_the_clear ?s) keys = filter (in_the_clear s) keys" by (intro filter_cong) auto
  moreover have "fst (resealPlaintext p dek nonces keys ?s) = filter (in_the_clear ?s) keys" using Cons by simp
  ultimately show ?case using Cons.prems reseal_one_hit [of x p dek nonces s]
    by (cases "reseal_one p dek nonces x s"; cases "resealPlaintext p dek nonces keys ?s") simp
qed simp

lemma sweep_again:
  assumes "\<forall>k \<in> set keys. found_value s k = s k \<and> (case s k of None \<Rightarrow> True | Some v \<Rightarrow> isSealed v)"
  shows "resealPlaintext p dek nonces keys s = ([], s)"
  using assms
proof (induction keys)
  case (Cons x keys)
  have "reseal_one p dek nonces x s = (False, s)"
    using Cons.prems by (auto simp: reseal_one_def getItemMigrating_def found_value_def split: option.splits)
  then show ?case using Cons by simp
qed simp

lemma sealed_keys: "distinct SEALED_STORE_KEYS" "\<forall>k \<in> set SEALED_STORE_KEYS. take (length CURRENT_PREFIX) k = CURRENT_PREFIX"
  by code_simp+

lemma key_found_again:
  assumes "initLocalCrypto random keeps level cr secrets = (Inr (), cr', secrets')" "cr_dek cr = None" "length random = KEY_BYTES"
  shows "cr_dek cr' \<noteq> None" "cr_protection cr' = level"
    "cr_dek cr2 = None \<Longrightarrow> initLocalCrypto random' keeps' level cr2 secrets' = (Inr (), cr', secrets')"
proof -
  have ne: "bytesToBase64 random \<noteq> []" using assms(3) by (auto simp: bytesToBase64_empty KEY_BYTES_def)
  then obtain c cs where b: "bytesToBase64 random = c # cs" by (meson neq_Nil_conv)
  then have read: "base64ToBytes (c # cs) = random" using base64_inverse [of random] by simp
  show "cr_dek cr' \<noteq> None" using assms(1,2) by (auto simp: initLocalCrypto_def Let_def split: option.splits list.splits if_splits)
  show "cr_protection cr' = level" using assms(1,2) by (auto simp: initLocalCrypto_def Let_def split: option.splits list.splits if_splits)
  show "initLocalCrypto random' keeps' level cr2 secrets' = (Inr (), cr', secrets')" if "cr_dek cr2 = None"
    using that assms b read by (auto simp: initLocalCrypto_def Let_def split: option.splits list.splits if_splits)
qed

text \<open>C21 After a launch every store that had a value, under either name, holds it sealed under the key; the launch reports
  exactly the stores that were in the clear; and the next launch finds the same key and has nothing left to do.\<close>

theorem launch_seals_everything:
  assumes laws: "platform_laws p" "\<forall>k. nonces k \<noteq> []" and key: "length random = KEY_BYTES"
    and wf: "\<forall>k v. found_value (la_storage l) k = Some v \<longrightarrow> wf_utf16 v"
    and fresh: "la_ready l = None" "cr_dek (la_crypto l) = None"
    and launched: "initStorage p random keeps level nonces l = (Inr (lv, upgraded), l')"
  shows "lv = level \<and> upgraded = filter (in_the_clear (la_storage l)) SEALED_STORE_KEYS \<and>
    (\<exists>dek. cr_dek (la_crypto l') = Some dek \<and>
      (\<forall>k \<in> set SEALED_STORE_KEYS.
        case found_value (la_storage l) k of
          None \<Rightarrow> la_storage l' k = None
        | Some v \<Rightarrow> \<exists>w. la_storage l' k = Some w \<and> isSealed w \<and> unseal p dek w = unseal p dek v)) \<and>
    initStorage p random' keeps' level nonces' (relaunched l') =
      (Inr (level, []), l'\<lparr>la_ready := Some (Inr (level, []))\<rparr>)"
proof -
  obtain cr' secrets' where init: "initLocalCrypto random keeps level (la_crypto l) (la_secrets l) = (Inr (), cr', secrets')"
    and swept: "resealPlaintext p (the (cr_dek cr')) nonces SEALED_STORE_KEYS (la_storage l) = (upgraded, la_storage l')"
    and l': "lv = level" "la_crypto l' = cr'" "la_secrets l' = secrets'"
    using launched fresh(1) by (auto simp: initStorage_def doInitStorage_def split: prod.splits sum.splits)
  note found = key_found_again [OF init fresh(2) key]
  obtain dek where dek: "cr_dek cr' = Some dek" using found(1) by blast
  have all: "la_storage l' k = map_option (\<lambda>v. if isSealed v then v else seal p dek (nonces k) v) (found_value (la_storage l) k)"
    "la_storage l' (legacyKeyFor k) = (if la_storage l k = None \<and> pf_removes p then None else la_storage l (legacyKeyFor k))"
    if "k \<in> set SEALED_STORE_KEYS" for k
    using sweep_seals_stores [OF sealed_keys that, where p = p and dek = dek and nonces = nonces and s = "la_storage l"] swept dek by simp_all
  have reported: "upgraded = filter (in_the_clear (la_storage l)) SEALED_STORE_KEYS"
    using sweep_reports [OF sealed_keys, of p dek nonces "la_storage l"] swept dek by simp
  have sealed_now: "case found_value (la_storage l) k of None \<Rightarrow> la_storage l' k = None
      | Some v \<Rightarrow> \<exists>w. la_storage l' k = Some w \<and> isSealed w \<and> unseal p dek w = unseal p dek v" if "k \<in> set SEALED_STORE_KEYS" for k
  proof (cases "found_value (la_storage l) k")
    case (Some v)
    then have "wf_utf16 v" using wf by blast
    then have "unseal p dek (seal p dek (nonces k) v) = Inr v" using laws by (intro unseal_seal) auto
    then show ?thesis using all(1) [OF that] Some seal_isSealed by (auto simp: unseal_def)
  qed (use all(1) [OF that] in simp)
  have again: "found_value (la_storage l') k = la_storage l' k \<and> (case la_storage l' k of None \<Rightarrow> True | Some v \<Rightarrow> isSealed v)"
    if "k \<in> set SEALED_STORE_KEYS" for k
    using all [OF that] seal_isSealed by (auto simp: found_value_def split: option.splits)
  have "initStorage p random' keeps' level nonces' (relaunched l') = (Inr (level, []), l'\<lparr>la_ready := Some (Inr (level, []))\<rparr>)"
    using found(3) [of "la_crypto (relaunched l')"] again sweep_again [of SEALED_STORE_KEYS "la_storage l'"] l'
    by (simp add: initStorage_def doInitStorage_def relaunched_def)
  then show ?thesis using l'(1,2) dek reported sealed_now by auto
qed

definition first_launch :: launch where
  "first_launch = \<lparr>la_crypto = \<lparr>cr_dek = None, cr_protection = UnknownProtection\<rparr>, la_secrets = (\<lambda>_. None), la_storage = old_install, la_ready = None\<rparr>"

theorem launch_seals_everything_witness:
  "snd (fst (map_prod projr id (initStorage (sample_platform True) (replicate 32 7) True Keystore (\<lambda>_. [7]) first_launch))) = [''cryptmail.keyring.v1'']"
proof -
  let ?start = "initStorage (sample_platform True) (replicate 32 7) True Keystore (\<lambda>_. [7]) first_launch"
  have fresh: "la_ready first_launch = None" "cr_dek (la_crypto first_launch) = None" by (simp_all add: first_launch_def)
  have key: "length (replicate 32 (7 :: u8)) = KEY_BYTES" by (simp add: KEY_BYTES_def)
  have nonces: "\<forall>k :: string. [7 :: u8] \<noteq> []" by simp
  have wf: "\<forall>k v. found_value (la_storage first_launch) k = Some v \<longrightarrow> wf_utf16 v"
    using wf_spaces [of 2] by (auto simp: found_value_def first_launch_def old_install_def numeral_2_eq_2 split: if_splits)
  obtain upgraded l' where launched: "?start = (Inr (Keystore, upgraded), l')"
    by (cases "resealPlaintext (sample_platform True) (replicate 32 7) (\<lambda>_. [7]) SEALED_STORE_KEYS old_install")
      (simp add: initStorage_def doInitStorage_def initLocalCrypto_def first_launch_def Let_def)
  have "filter (in_the_clear (la_storage first_launch)) SEALED_STORE_KEYS = [''cryptmail.keyring.v1'']" by code_simp
  then show ?thesis
    using launch_seals_everything [OF sample_platform_laws nonces key wf fresh launched] launched by simp
qed

subsection \<open>Removing a mailbox\<close>

lemma account_keys_at: "b \<in> set PER_ACCOUNT_STORE_KEYS \<Longrightarrow> CHR ''@'' \<notin> set b"
proof -
  have "list_all (\<lambda>b. CHR ''@'' \<notin> set b) PER_ACCOUNT_STORE_KEYS" by code_simp
  then show "b \<in> set PER_ACCOUNT_STORE_KEYS \<Longrightarrow> CHR ''@'' \<notin> set b" by (simp add: list_all_iff)
qed

text \<open>Removing an account removes every store it owns, and no store of another account and none that is shared.\<close>

theorem removal_is_exact:
  assumes "b \<in> set PER_ACCOUNT_STORE_KEYS" and "a \<noteq> a'"
  shows "removeScoped PER_ACCOUNT_STORE_KEYS a s (scopedKey b a) = None \<and>
    removeScoped PER_ACCOUNT_STORE_KEYS a s (scopedKey b a') = s (scopedKey b a') \<and>
    (\<forall>k. CHR ''@'' \<notin> set k \<longrightarrow> removeScoped PER_ACCOUNT_STORE_KEYS a s k = s k) \<and>
    loadScopedJson p dek nonce b a fallback (removeScoped PER_ACCOUNT_STORE_KEYS a (s(b := None, legacyKeyFor b := None, legacyKeyFor (scopedKey b a) := None))) =
      (Inr fallback, removeScoped PER_ACCOUNT_STORE_KEYS a (s(b := None, legacyKeyFor b := None, legacyKeyFor (scopedKey b a) := None)))"
proof -
  have gone: "removeScoped PER_ACCOUNT_STORE_KEYS a t (scopedKey b a) = None" for t using assms(1) by (simp add: removeScoped_def)
  have kept: "removeScoped PER_ACCOUNT_STORE_KEYS a s (scopedKey b a') = s (scopedKey b a')"
    using assms account_keys_at scopedKey_inject by (auto simp: removeScoped_def)
  have shared: "removeScoped PER_ACCOUNT_STORE_KEYS a s k = s k" if "CHR ''@'' \<notin> set k" for k
    using that by (auto simp: removeScoped_def scopedKey_def)
  have none: "removeScoped PER_ACCOUNT_STORE_KEYS a t k = None" if "t k = None" for t k using that by (simp add: removeScoped_def)
  show ?thesis using gone kept shared by (simp add: loadScopedJson_def getItemMigrating_def none)
qed

theorem removal_is_exact_witness:
  "removeScoped PER_ACCOUNT_STORE_KEYS ''gmail:a'' (\<lambda>_. Some []) (scopedKey ''cryptmail.keyring.v1'' ''gmail:b'') = Some []"
proof -
  have "''cryptmail.keyring.v1'' \<in> set PER_ACCOUNT_STORE_KEYS" "''gmail:a'' \<noteq> ''gmail:b''" by code_simp+
  from removal_is_exact [OF this, of "\<lambda>_. Some []"] show ?thesis by simp
qed

end
