(* ===== verification/Mail_Files.thy ===== *)
theory Mail_Files
  imports Secure_Store Qkd Utf16_Text Css_Text
begin

text \<open>
  Messages kept as files: the provider's ciphertext, a bounded cache (\<^verbatim>\<open>store/rawCache.ts\<close>), and the decrypted copies of mail
  that opens once (\<^verbatim>\<open>store/archiveStore.ts\<close>), with their journey to another device. A file system is, per directory, the
  files with their text, size and time of writing; SHA-256 in hex is a parameter.
\<close>

record stored_file =
  fl_name :: string
  fl_text :: utf16_text
  fl_bytes :: nat
  fl_written :: nat

type_synonym files = "string \<Rightarrow> stored_file list"

definition file_named :: "stored_file list \<Rightarrow> string \<Rightarrow> stored_file option" where
  "file_named fs n = find (\<lambda>f. fl_name f = n) fs"

definition write_file :: "string \<Rightarrow> stored_file \<Rightarrow> files \<Rightarrow> files" where
  "write_file dir f fs = fs(dir := filter (\<lambda>g. fl_name g \<noteq> fl_name f) (fs dir) @ [f])"

definition remove_file :: "string \<Rightarrow> string \<Rightarrow> files \<Rightarrow> files" where
  "remove_file dir n fs = fs(dir := filter (\<lambda>g. fl_name g \<noteq> n) (fs dir))"

subsection \<open>The cache of ciphertext\<close>

definition RAW_CACHE_MAX_ENTRY_BYTES :: nat where
  "RAW_CACHE_MAX_ENTRY_BYTES = 1500000"

definition RAW_CACHE_MAX_BYTES :: nat where
  "RAW_CACHE_MAX_BYTES = 25000000"

fun evict_oldest :: "nat \<Rightarrow> nat \<Rightarrow> stored_file list \<Rightarrow> string list" where
  "evict_oldest maxBytes held [] = []"
| "evict_oldest maxBytes held (f # fs) =
     (if held \<le> maxBytes then [] else fl_name f # evict_oldest maxBytes (held - fl_bytes f) fs)"

definition evictionFor :: "stored_file list \<Rightarrow> nat \<Rightarrow> string list" where
  "evictionFor entries maxBytes =
     evict_oldest maxBytes (sum_list (map fl_bytes entries)) (js_sort (cmp_by_number (\<lambda>f. int (fl_written f))) entries)"

definition readCachedRaw :: "platform \<Rightarrow> u8 list \<Rightarrow> (utf16_text \<Rightarrow> string) \<Rightarrow> string \<Rightarrow> string \<Rightarrow> files \<Rightarrow> utf16_text option \<times> files" where
  "readCachedRaw p dek hash account i fs =
     (let dir = hash (units account); n = hash (units i)
      in case file_named (fs dir) n of
           None \<Rightarrow> (None, fs)
         | Some f \<Rightarrow>
             if \<not> isSealed (fl_text f) then (None, remove_file dir n fs)
             else (case unseal p dek (fl_text f) of Inr raw \<Rightarrow> (Some raw, fs) | Inl _ \<Rightarrow> (None, remove_file dir n fs)))"

text \<open>What the file system does with one write: it gives the time of writing, or refuses it; it lists the directory or fails; it
  deletes a file or fails. The first failure ends the call, which reports nothing. A file's size is that of its text, all of
  it ASCII.\<close>

record cache_disk =
  cd_written :: "nat option"
  cd_lists :: bool
  cd_removes :: "string \<Rightarrow> bool"

definition writeCachedRaw :: "platform \<Rightarrow> u8 list \<Rightarrow> u8 list \<Rightarrow> (utf16_text \<Rightarrow> string) \<Rightarrow> cache_disk \<Rightarrow> string \<Rightarrow> string \<Rightarrow> utf16_text \<Rightarrow> files \<Rightarrow> files" where
  "writeCachedRaw p dek nonce hash disk account i raw fs =
     (if RAW_CACHE_MAX_ENTRY_BYTES < utf8ByteLength raw then fs
      else case cd_written disk of
        None \<Rightarrow> fs
      | Some t \<Rightarrow>
          let dir = hash (units account); sealed_raw = seal p dek nonce raw;
              fs = write_file dir \<lparr>fl_name = hash (units i), fl_text = sealed_raw, fl_bytes = length sealed_raw, fl_written = t\<rparr> fs
          in if \<not> cd_lists disk then fs
             else foldl (\<lambda>fs stale. remove_file dir stale fs) fs
               (takeWhile (cd_removes disk) (evictionFor (fs dir) RAW_CACHE_MAX_BYTES)))"

definition rawCacheBytes :: "(utf16_text \<Rightarrow> string) \<Rightarrow> string \<Rightarrow> files \<Rightarrow> nat" where
  "rawCacheBytes hash account fs = sum_list (map fl_bytes (fs (hash (units account))))"

definition clear_dir :: "(utf16_text \<Rightarrow> string) \<Rightarrow> string \<Rightarrow> files \<Rightarrow> files" where
  "clear_dir hash account fs = fs(hash (units account) := [])"
subsection \<open>Copies of mail that opens once\<close>

datatype archive_error = NoStorage | NoBlock | Damaged | NewerVersion | NotAnEntry | WriteFailed

definition strip_space_units :: "utf16_text \<Rightarrow> utf16_text" where
  "strip_space_units t = filter (\<lambda>u. \<not> space_unit u) t"

definition archiveKeyFor :: "(utf16_text \<Rightarrow> string) \<Rightarrow> string \<Rightarrow> string option" where
  "archiveKeyFor hash rfc822 =
     (case (case extractArmor rfc822 of Some a \<Rightarrow> Some (units a) | None \<Rightarrow> extractQkdArmor rfc822) of
        None \<Rightarrow> None
      | Some armored \<Rightarrow> if armored = [] then None else Some (hash (strip_space_units armored)))"

definition open_entry :: "platform \<Rightarrow> u8 list \<Rightarrow> stored_file \<Rightarrow> json option" where
  "open_entry p dek f =
     (if \<not> isSealed (fl_text f) then None
      else (case unseal p dek (fl_text f) of Inl _ \<Rightarrow> None | Inr t \<Rightarrow> pf_parse p t))"

definition readArchived :: "platform \<Rightarrow> u8 list \<Rightarrow> (utf16_text \<Rightarrow> string) \<Rightarrow> string \<Rightarrow> string \<Rightarrow> files \<Rightarrow> json option" where
  "readArchived p dek hash account rfc822 fs =
     (case archiveKeyFor hash rfc822 of
        None \<Rightarrow> None
      | Some k \<Rightarrow> Option.bind (file_named (fs (hash (units account))) k) (open_entry p dek))"

definition entry_file :: "platform \<Rightarrow> u8 list \<Rightarrow> u8 list \<Rightarrow> string \<Rightarrow> json \<Rightarrow> stored_file" where
  "entry_file p dek nonce n message =
     (let t = seal p dek nonce (pf_stringify p message) in \<lparr>fl_name = n, fl_text = t, fl_bytes = length t, fl_written = 0\<rparr>)"

text \<open>\<open>writes\<close> tells whether the file system takes a file of that name.\<close>

definition archive :: "platform \<Rightarrow> u8 list \<Rightarrow> u8 list \<Rightarrow> (utf16_text \<Rightarrow> string) \<Rightarrow> (string \<Rightarrow> bool) \<Rightarrow> bool \<Rightarrow> string \<Rightarrow> string \<Rightarrow> json \<Rightarrow> files \<Rightarrow>
    (archive_error + unit) \<times> files" where
  "archive p dek nonce hash writes backend account rfc822 decrypted fs =
     (if \<not> backend then (Inl NoStorage, fs) else case archiveKeyFor hash rfc822 of
        None \<Rightarrow> (Inl NoBlock, fs)
      | Some k \<Rightarrow>
          if \<not> writes k then (Inl WriteFailed, fs)
          else (Inr (), write_file (hash (units account)) (entry_file p dek nonce k decrypted) fs))"

subsection \<open>Moving the copies to another device\<close>

definition entry_name :: "string \<Rightarrow> bool" where
  "entry_name n \<longleftrightarrow> length n = 64 \<and> list_all (\<lambda>c. is_digit c \<or> c \<in> {CHR ''a'', CHR ''b'', CHR ''c'', CHR ''d'', CHR ''e'', CHR ''f''}) n"

definition exportable :: "stored_file list \<Rightarrow> stored_file list" where
  "exportable fs = filter (\<lambda>f. entry_name (fl_name f)) fs"

definition export_entries :: "platform \<Rightarrow> u8 list \<Rightarrow> stored_file list \<Rightarrow> (string \<times> json) list" where
  "export_entries p dek fs = List.map_filter (\<lambda>f. map_option (Pair (fl_name f)) (open_entry p dek f)) (exportable fs)"

definition exportArchive :: "platform \<Rightarrow> u8 list \<Rightarrow> (utf16_text \<Rightarrow> string) \<Rightarrow> string \<Rightarrow> files \<Rightarrow> utf16_text \<times> nat \<times> nat" where
  "exportArchive p dek hash account fs =
     (let dir = fs (hash (units account)); entries = export_entries p dek dir
      in (pf_stringify p (JObj [(''v'', JNum 1), (''entries'', JArr (map (\<lambda>(n, m). JArr [JStr n, m]) entries))]),
          length entries, length (exportable dir) - length entries))"

fun import_entries :: "platform \<Rightarrow> u8 list \<Rightarrow> (string \<Rightarrow> u8 list) \<Rightarrow> (string \<Rightarrow> bool) \<Rightarrow> string \<Rightarrow> json list \<Rightarrow> files \<Rightarrow>
    archive_error option \<times> files" where
  "import_entries p dek nonces writes dir [] fs = (None, fs)"
| "import_entries p dek nonces writes dir (v # vs) fs =
     (case v of
        JArr (JStr n # more_items) \<Rightarrow>
          if \<not> entry_name n then (Some Damaged, fs)
          else (case more_items of
                  [] \<Rightarrow> (Some NotAnEntry, fs)
                | message # _ \<Rightarrow>
                    if \<not> writes n then (Some WriteFailed, fs)
                    else import_entries p dek nonces writes dir vs (write_file dir (entry_file p dek (nonces n) n message) fs))
      | JArr _ \<Rightarrow> (Some Damaged, fs)
      | JStr _ \<Rightarrow> (Some Damaged, fs)
      | _ \<Rightarrow> (Some NotAnEntry, fs))"

definition importArchive :: "platform \<Rightarrow> u8 list \<Rightarrow> (string \<Rightarrow> u8 list) \<Rightarrow> (utf16_text \<Rightarrow> string) \<Rightarrow> (string \<Rightarrow> bool) \<Rightarrow> bool \<Rightarrow> string \<Rightarrow>
    utf16_text \<Rightarrow> files \<Rightarrow> (archive_error + nat) \<times> files" where
  "importArchive p dek nonces hash writes backend account archived fs =
     (if archived = [] then (Inr 0, fs)
      else (case pf_parse p archived of
              None \<Rightarrow> (Inl Damaged, fs)
            | Some v \<Rightarrow>
                (case json_field (Some v) ''entries'' of
                   Some (JArr entries) \<Rightarrow>
                     if json_field (Some v) ''v'' \<noteq> Some (JNum 1) then (Inl NewerVersion, fs)
                     else if entries = [] then (Inr 0, fs)
                     else if \<not> backend then (Inl NoStorage, fs)
                     else (case import_entries p dek nonces writes (hash (units account)) entries fs of
                             (Some e, fs) \<Rightarrow> (Inl e, fs)
                           | (None, fs) \<Rightarrow> (Inr (length entries), fs))
                 | _ \<Rightarrow> (Inl NewerVersion, fs))))"

end
