(* ===== verification/Mail_Files_Laws.thy ===== *)
theory Mail_Files_Laws
  imports Mail_Files Secure_Store_Laws
begin

text \<open>The cache of ciphertext stays within its bound and gives back what it kept; the copies survive the journey.\<close>

subsection \<open>Eviction\<close>

lemma evict_oldest_prefix:
  "\<exists>k \<le> length fs. evict_oldest m (sum_list (map fl_bytes fs)) fs = map fl_name (take k fs) \<and>
     sum_list (map fl_bytes (drop k fs)) \<le> m \<and> (0 < k \<longrightarrow> m < sum_list (map fl_bytes (drop (k - 1) fs)))"
proof (induction fs)
  case (Cons f fs)
  show ?case
  proof (cases "sum_list (map fl_bytes (f # fs)) \<le> m")
    case True
    then show ?thesis by (intro exI [of _ 0]) simp
  next
    case False
    obtain k where k: "k \<le> length fs" "evict_oldest m (sum_list (map fl_bytes fs)) fs = map fl_name (take k fs)"
      "sum_list (map fl_bytes (drop k fs)) \<le> m" "0 < k \<longrightarrow> m < sum_list (map fl_bytes (drop (k - 1) fs))" using Cons.IH by blast
    have "m < sum_list (map fl_bytes (drop k (f # fs)))" using k(4) False by (cases k) simp_all
    then show ?thesis using k False by (intro exI [of _ "Suc k"]) simp
  qed
qed simp

lemma mset_filter_names:
  assumes "distinct (map fl_name fs)"
  shows "filter (\<lambda>f. fl_name f \<notin> set (map fl_name (take k fs))) fs = drop k fs"
proof -
  have "fl_name f \<in> set (map fl_name (take k fs))" if "f \<in> set (take k fs)" for f using that by auto
  then have "filter (\<lambda>f. fl_name f \<notin> set (map fl_name (take k fs))) (take k fs) = []" by (simp add: filter_empty_conv)
  moreover have "filter (\<lambda>f. fl_name f \<notin> set (map fl_name (take k fs))) (drop k fs) = drop k fs"
  proof -
    have "distinct (map fl_name (take k fs) @ map fl_name (drop k fs))" using assms by (simp flip: map_append)
    then have "set (map fl_name (take k fs)) \<inter> set (map fl_name (drop k fs)) = {}" by simp
    then show ?thesis by (intro filter_True) auto
  qed
  ultimately show ?thesis by (metis append_Nil append_take_drop_id filter_append)
qed

lemma sum_bytes_mset: "mset xs = mset ys \<Longrightarrow> sum_list (map fl_bytes xs) = sum_list (map fl_bytes ys)"
proof -
  assume "mset xs = mset ys"
  then have "sum_mset (mset (map fl_bytes xs)) = sum_mset (mset (map fl_bytes ys))" by simp
  then show ?thesis unfolding sum_mset_sum_list .
qed

definition kept_files :: "stored_file list \<Rightarrow> nat \<Rightarrow> stored_file list" where
  "kept_files fs m = filter (\<lambda>f. fl_name f \<notin> set (evictionFor fs m)) fs"

abbreviation by_age :: "stored_file list \<Rightarrow> stored_file list" where
  "by_age fs \<equiv> js_sort (cmp_by_number (\<lambda>f. int (fl_written f))) fs"

lemma by_age_sorted: "sorted_wrt (\<lambda>a b. fl_written a \<le> fl_written b) (by_age fs)"
  by (rule sorted_wrt_mono_rel [OF _ by_number.sort_sorted]) (simp add: cmp_by_number_def)

lemma eviction_split:
  assumes "distinct (map fl_name fs)"
  obtains k where "k \<le> length (by_age fs)" "evictionFor fs m = map fl_name (take k (by_age fs))"
    "mset (kept_files fs m) = mset (drop k (by_age fs))" "sum_list (map fl_bytes (drop k (by_age fs))) \<le> m"
    "0 < k \<longrightarrow> m < sum_list (map fl_bytes (drop (k - 1) (by_age fs)))"
proof -
  let ?s = "by_age fs"
  have perm: "mset ?s = mset fs" "distinct (map fl_name ?s)"
    using assms by (simp_all only: mset_js_sort distinct_map_js_sort)
  have sum: "sum_list (map fl_bytes ?s) = sum_list (map fl_bytes fs)"
    by (rule sum_bytes_mset [OF perm(1)])
  obtain k where k: "k \<le> length ?s" "evictionFor fs m = map fl_name (take k ?s)" "sum_list (map fl_bytes (drop k ?s)) \<le> m"
    "0 < k \<longrightarrow> m < sum_list (map fl_bytes (drop (k - 1) ?s))"
    using evict_oldest_prefix [of ?s m] unfolding evictionFor_def sum by blast
  have "mset (kept_files fs m) = mset (filter (\<lambda>f. fl_name f \<notin> set (evictionFor fs m)) ?s)"
    unfolding kept_files_def mset_filter perm(1) ..
  then have "mset (kept_files fs m) = mset (drop k ?s)" unfolding k(2) mset_filter_names [OF perm(2)] .
  then show ?thesis using that k by blast
qed

text \<open>The oldest files go, as many as are needed and no more.\<close>

theorem eviction_exact:
  assumes "distinct (map fl_name fs)"
  shows "sum_list (map fl_bytes (kept_files fs m)) \<le> m \<and>
    (\<forall>f \<in> set fs. \<forall>g \<in> set (kept_files fs m). fl_name f \<in> set (evictionFor fs m) \<longrightarrow> fl_written f \<le> fl_written g) \<and>
    (evictionFor fs m \<noteq> [] \<longrightarrow> (\<exists>f \<in> set fs. fl_name f = last (evictionFor fs m) \<and> m < fl_bytes f + sum_list (map fl_bytes (kept_files fs m))))"
proof -
  let ?s = "by_age fs"
  have perm: "set ?s = set fs" "distinct (map fl_name ?s)"
    using assms by (simp_all only: set_js_sort distinct_map_js_sort)
  obtain k where k: "k \<le> length ?s" "evictionFor fs m = map fl_name (take k ?s)" "mset (kept_files fs m) = mset (drop k ?s)"
    "sum_list (map fl_bytes (drop k ?s)) \<le> m" "0 < k \<longrightarrow> m < sum_list (map fl_bytes (drop (k - 1) ?s))"
    using eviction_split [OF assms] by blast
  have bytes: "sum_list (map fl_bytes (kept_files fs m)) = sum_list (map fl_bytes (drop k ?s))"
    by (rule sum_bytes_mset [OF k(3)])
  have old: "fl_written f \<le> fl_written g" if "f \<in> set fs" "fl_name f \<in> set (evictionFor fs m)" "g \<in> set (kept_files fs m)" for f g
  proof -
    have "f \<in> set (take k ?s)"
    proof -
      obtain f' where "f' \<in> set (take k ?s)" "fl_name f' = fl_name f"
        using \<open>fl_name f \<in> set (evictionFor fs m)\<close> unfolding k(2) by auto
      moreover have "f \<in> set ?s" using \<open>f \<in> set fs\<close> unfolding perm(1) .
      ultimately have "f' = f" using perm(2) in_set_takeD by (metis distinct_map inj_onD)
      then show ?thesis using \<open>f' \<in> set (take k ?s)\<close> by simp
    qed
    moreover have "g \<in> set (drop k ?s)" using that(3) mset_eq_setD [OF k(3)] by simp
    moreover have "sorted_wrt (\<lambda>a b. fl_written a \<le> fl_written b) (take k ?s @ drop k ?s)" using by_age_sorted [of fs] by simp
    ultimately show ?thesis by (auto simp only: sorted_wrt_append)
  qed
  have "\<exists>f \<in> set fs. fl_name f = last (evictionFor fs m) \<and> m < fl_bytes f + sum_list (map fl_bytes (kept_files fs m))" if "evictionFor fs m \<noteq> []"
  proof -
    have "0 < k" using that unfolding k(2) by auto
    then have split: "drop (k - 1) ?s = ?s ! (k - 1) # drop k ?s"
      using k(1) Cons_nth_drop_Suc [of "k - 1" ?s] by simp
    have final: "last (take k ?s) = ?s ! (k - 1)"
      using \<open>0 < k\<close> k(1) by (subst last_conv_nth) auto
    have "fl_name (?s ! (k - 1)) = last (evictionFor fs m)"
      using that unfolding k(2) by (simp add: last_map final)
    moreover have "?s ! (k - 1) \<in> set fs"
    proof -
      have "k - 1 < length ?s" using \<open>0 < k\<close> k(1) by linarith
      then have "?s ! (k - 1) \<in> set ?s" by (rule nth_mem)
      then show ?thesis unfolding perm(1) .
    qed
    moreover have "m < fl_bytes (?s ! (k - 1)) + sum_list (map fl_bytes (kept_files fs m))"
      using k(5) \<open>0 < k\<close> unfolding bytes split by simp
    ultimately show ?thesis by blast
  qed
  moreover have "sum_list (map fl_bytes (kept_files fs m)) \<le> m" unfolding bytes by (rule k(4))
  ultimately show ?thesis using old by (intro conjI ballI impI)
qed
subsection \<open>The cache\<close>

lemma remove_all: "foldl (\<lambda>fs n. remove_file dir n fs) fs ns = fs(dir := filter (\<lambda>f. fl_name f \<notin> set ns) (fs dir))"
proof (induction ns arbitrary: fs)
  case (Cons n ns)
  show ?case unfolding foldl_Cons Cons.IH by (auto simp: remove_file_def fun_eq_iff intro: filter_cong)
qed simp

lemma names_after_write: "distinct (map fl_name (fs dir)) \<Longrightarrow> distinct (map fl_name (write_file dir f fs dir))"
  by (auto simp: write_file_def distinct_map_filter)

lemma file_named_write: "file_named (write_file dir f fs dir) n = (if n = fl_name f then Some f else file_named (fs dir) n)"
proof -
  have found: "find (\<lambda>g. fl_name g = n) (filter (\<lambda>g. fl_name g \<noteq> fl_name f) gs @ [f]) = (if n = fl_name f then Some f else find (\<lambda>g. fl_name g = n) gs)" for gs
    by (induction gs) auto
  show ?thesis by (simp add: file_named_def write_file_def found)
qed
lemma find_distinct: "distinct (map fl_name fs) \<Longrightarrow> f \<in> set fs \<Longrightarrow> find (\<lambda>g. fl_name g = fl_name f) fs = Some f"
  by (induction fs) auto

lemma kept_after_write:
  assumes "distinct (map fl_name fs)" "f \<in> set fs" "\<forall>g \<in> set fs. g \<noteq> f \<longrightarrow> fl_written g < fl_written f" "fl_bytes f \<le> m"
  shows "f \<in> set (kept_files fs m)"
proof -
  let ?s = "by_age fs"
  obtain k where k: "k \<le> length ?s" "evictionFor fs m = map fl_name (take k ?s)" "mset (kept_files fs m) = mset (drop k ?s)"
    "0 < k \<longrightarrow> m < sum_list (map fl_bytes (drop (k - 1) ?s))"
    using eviction_split [OF assms(1)] by blast
  have ne: "?s \<noteq> []" using assms(2) by auto
  have l: "last ?s \<in> set ?s" using ne by (rule last_in_set)
  have newest: "last ?s = f"
  proof (rule ccontr)
    assume other: "last ?s \<noteq> f"
    have "f \<in> set (butlast ?s @ [last ?s])" unfolding append_butlast_last_id [OF ne] using assms(2) by simp
    then have "f \<in> set (butlast ?s)" using other by auto
    moreover have "sorted_wrt (\<lambda>a b. fl_written a \<le> fl_written b) (butlast ?s @ [last ?s])"
      unfolding append_butlast_last_id [OF ne] by (rule by_age_sorted)
    ultimately have "fl_written f \<le> fl_written (last ?s)" by (auto simp: sorted_wrt_append)
    moreover have "fl_written (last ?s) < fl_written f" using l other assms(3) by simp
    ultimately show False by simp
  qed
  have "k < length ?s"
  proof (rule ccontr)
    assume "\<not> k < length ?s"
    then have k_len: "k = length ?s" using k(1) by simp
    then have "0 < k" using ne by simp
    moreover have "drop (k - 1) ?s = [last ?s]" using ne unfolding k_len
      by (metis append_butlast_last_id append_eq_conv_conj length_butlast)
    ultimately show False using k(4) assms(4) newest by simp
  qed
  then have "drop k ?s \<noteq> []" "last (drop k ?s) = f" using newest by simp_all
  then have "f \<in> set (drop k ?s)" using last_in_set by metis
  then show ?thesis using mset_eq_setD [OF k(3)] by simp
qed

text \<open>What is left in the directory when deletions stop at the first that fails.\<close>

lemma partly_removed:
  "set (kept_files fs m) \<subseteq> set (filter (\<lambda>f. fl_name f \<notin> set (takeWhile P (evictionFor fs m))) fs)"
  "\<forall>n. P n \<Longrightarrow> takeWhile P (evictionFor fs m) = evictionFor fs m"
  by (auto simp: kept_files_def takeWhile_eq_all_conv dest: set_takeWhileD)

text \<open>C22 The cache of ciphertext. A write that the file system carries out to its end, listing and deletions included, leaves
  the mailbox's cache within its bound, even if earlier failures had left it over; a write it refuses, or a message too
  large to keep, changes nothing; and one whose listing or deletion fails leaves it larger by at most the new file. No other
  mailbox is touched. A message that was written and is the newest file of its mailbox is read back, whatever becomes of the
  deletions, if its sealed text fits the bound.\<close>

theorem raw_cache_bounded:
  assumes "platform_laws p" and "nonce \<noteq> []" and "wf_utf16 raw" and names: "distinct (map fl_name (fs (hash (units account))))"
    and written: "fs' = writeCachedRaw p dek nonce hash disk account i raw fs"
  shows "(cd_lists disk \<and> (\<forall>n. cd_removes disk n) \<and> cd_written disk \<noteq> None \<and> utf8ByteLength raw \<le> RAW_CACHE_MAX_ENTRY_BYTES \<longrightarrow>
      rawCacheBytes hash account fs' \<le> RAW_CACHE_MAX_BYTES) \<and>
    (cd_written disk = None \<or> RAW_CACHE_MAX_ENTRY_BYTES < utf8ByteLength raw \<longrightarrow> fs' = fs) \<and>
    rawCacheBytes hash account fs' \<le> rawCacheBytes hash account fs + length (seal p dek nonce raw) \<and>
    distinct (map fl_name (fs' (hash (units account)))) \<and>
    (\<forall>dir. dir \<noteq> hash (units account) \<longrightarrow> fs' dir = fs dir) \<and>
    ((\<exists>now. cd_written disk = Some now \<and> (\<forall>g \<in> set (fs (hash (units account))). fl_written g < now)) \<and>
     utf8ByteLength raw \<le> RAW_CACHE_MAX_ENTRY_BYTES \<and> length (seal p dek nonce raw) \<le> RAW_CACHE_MAX_BYTES \<longrightarrow>
     readCachedRaw p dek hash account i fs' = (Some raw, fs'))"
proof (cases "cd_written disk = None \<or> RAW_CACHE_MAX_ENTRY_BYTES < utf8ByteLength raw")
  case True
  then have "fs' = fs" using written by (auto simp: writeCachedRaw_def split: option.splits)
  then show ?thesis using True names by auto
next
  case False
  then obtain now where now: "cd_written disk = Some now" by auto
  define dir where "dir = hash (units account)"
  define f where "f = \<lparr>fl_name = hash (units i), fl_text = seal p dek nonce raw, fl_bytes = length (seal p dek nonce raw), fl_written = now\<rparr>"
  define held where "held = write_file dir f fs dir"
  define gone where "gone = (if cd_lists disk then takeWhile (cd_removes disk) (evictionFor held RAW_CACHE_MAX_BYTES) else [])"
  define left where "left = filter (\<lambda>g. fl_name g \<notin> set gone) held"
  have fs': "fs' = (write_file dir f fs)(dir := left)"
    using written False now unfolding writeCachedRaw_def dir_def held_def f_def gone_def left_def by (simp add: remove_all Let_def)
  have here: "fs' dir = left" by (simp add: fs')
  have held: "distinct (map fl_name held)" unfolding held_def using names by (intro names_after_write) (simp add: dir_def)
  have kept: "set (kept_files held RAW_CACHE_MAX_BYTES) \<subseteq> set left"
    using partly_removed(1) [of held RAW_CACHE_MAX_BYTES "cd_removes disk"] by (auto simp: left_def gone_def kept_files_def)
  have left_names: "distinct (map fl_name left)" unfolding left_def by (rule distinct_map_filter [OF held])
  have bound: "rawCacheBytes hash account fs' \<le> RAW_CACHE_MAX_BYTES" if "cd_lists disk" "\<forall>n. cd_removes disk n"
  proof -
    have "left = kept_files held RAW_CACHE_MAX_BYTES" using that by (simp add: left_def gone_def partly_removed(2) kept_files_def)
    then show ?thesis using eviction_exact [OF held, of RAW_CACHE_MAX_BYTES] here by (simp add: rawCacheBytes_def dir_def)
  qed
  have "sum_list (map fl_bytes left) \<le> sum_list (map fl_bytes held)" unfolding left_def by (rule sum_list_filter_le_nat)
  also have "\<dots> \<le> sum_list (map fl_bytes (fs dir)) + fl_bytes f"
    using sum_list_filter_le_nat [of fl_bytes "\<lambda>g. fl_name g \<noteq> fl_name f" "fs dir"] by (simp add: held_def write_file_def)
  finally have grows: "rawCacheBytes hash account fs' \<le> rawCacheBytes hash account fs + length (seal p dek nonce raw)"
    using here by (simp add: rawCacheBytes_def dir_def f_def)
  have others: "fs' d = fs d" if "d \<noteq> dir" for d using that by (simp add: fs' write_file_def)
  have "readCachedRaw p dek hash account i fs' = (Some raw, fs')"
    if newest: "\<forall>g \<in> set (fs dir). fl_written g < now" and fits: "length (seal p dek nonce raw) \<le> RAW_CACHE_MAX_BYTES"
  proof -
    have "f \<in> set (kept_files held RAW_CACHE_MAX_BYTES)"
      by (rule kept_after_write [OF held]) (use newest fits in \<open>auto simp: held_def write_file_def f_def\<close>)
    then have "file_named (fs' dir) (hash (units i)) = Some f"
      using find_distinct [OF left_names, of f] kept unfolding f_def by (auto simp: here file_named_def)
    then show ?thesis using unseal_seal [OF assms(1-3)] by (simp add: readCachedRaw_def dir_def [symmetric] f_def seal_isSealed Let_def)
  qed
  then show ?thesis using False now bound grows others left_names here by (auto simp: dir_def)
qed

definition sample_files :: "stored_file list" where
  "sample_files = map (\<lambda>n. \<lparr>fl_name = decimal_digits n, fl_text = [], fl_bytes = 10, fl_written = n\<rparr>) [3, 1, 2]"

theorem eviction_exact_witness:
  "evictionFor sample_files 15 = [''1'', ''2''] \<and> sum_list (map fl_bytes (kept_files sample_files 15)) \<le> 15"
proof -
  have "distinct (map fl_name sample_files)" by code_simp
  moreover have "evictionFor sample_files 15 = [''1'', ''2'']" by code_simp
  ultimately show ?thesis using eviction_exact [of sample_files 15] by blast
qed

theorem raw_cache_bounded_witness:
  "fst (readCachedRaw (sample_platform True) [] (\<lambda>t. map unit_char t) ''a'' ''m''
     (writeCachedRaw (sample_platform True) [] [7] (\<lambda>t. map unit_char t) \<lparr>cd_written = Some 1, cd_lists = True, cd_removes = (\<lambda>_. True)\<rparr>
       ''a'' ''m'' [0x68] (\<lambda>_. []))) = Some [0x68]"
proof -
  have wf: "wf_utf16 [0x68]" by code_simp
  have nonce: "[7 :: u8] \<noteq> []" by simp
  have names: "distinct (map fl_name ((\<lambda>_. [] :: stored_file list) (map unit_char (units ''a''))))" by simp
  have "utf8ByteLength [0x68] = 1" by code_simp
  then have fits: "utf8ByteLength [0x68] \<le> RAW_CACHE_MAX_ENTRY_BYTES" by (simp add: RAW_CACHE_MAX_ENTRY_BYTES_def)
  have "bytesToBase64 (0 # utf8ToBytes [0x68]) = ''AGg=''" "bytesToBase64 [7] = ''Bw==''" by code_simp+
  then have fits': "length (seal (sample_platform True) [] [7] [0x68]) \<le> RAW_CACHE_MAX_BYTES"
    by (simp add: seal_def sealed_text_def sample_platform_def units_def ENVELOPE_PREFIX_def RAW_CACHE_MAX_BYTES_def)
  show ?thesis
    using raw_cache_bounded [OF sample_platform_laws [of True] nonce wf names refl, where dek = "[]" and disk = "\<lparr>cd_written = Some 1, cd_lists = True, cd_removes = (\<lambda>_. True)\<rparr>" and i = "''m''"] fits fits'
    by simp
qed

subsection \<open>The journey\<close>

lemma export_entries_simps:
  "export_entries p dek [] = []"
  "export_entries p dek (f # fs) =
     (if entry_name (fl_name f) then case open_entry p dek f of Some v \<Rightarrow> (fl_name f, v) # export_entries p dek fs | None \<Rightarrow> export_entries p dek fs
      else export_entries p dek fs)"
  by (simp_all add: export_entries_def exportable_def List.map_filter_def split: option.splits)

lemma export_entries_mem:
  "(n, v) \<in> set (export_entries p dek fs) \<longleftrightarrow> (\<exists>f \<in> set fs. fl_name f = n \<and> entry_name n \<and> open_entry p dek f = Some v)"
  by (induction fs) (auto simp: export_entries_simps split: option.splits)

lemma export_entries_count: "length (export_entries p dek fs) = length (filter (\<lambda>f. open_entry p dek f \<noteq> None) (exportable fs))"
  by (induction fs) (auto simp: export_entries_simps exportable_def split: option.splits)

lemma export_entries_distinct: "distinct (map fl_name fs) \<Longrightarrow> distinct (map fst (export_entries p dek fs))"
proof (induction fs)
  case (Cons f fs)
  have "fl_name f \<notin> fst ` set (export_entries p dek fs)" 
  proof
    assume "fl_name f \<in> fst ` set (export_entries p dek fs)"
    then obtain v where "(fl_name f, v) \<in> set (export_entries p dek fs)" by auto
    then obtain g where "g \<in> set fs" "fl_name g = fl_name f" unfolding export_entries_mem by blast
    then have "fl_name f \<in> set (map fl_name fs)" by (simp flip: \<open>fl_name g = fl_name f\<close>)
    then show False using Cons.prems by simp
  qed
  then show ?case using Cons by (auto simp: export_entries_simps split: option.splits)
qed (simp add: export_entries_simps)

text \<open>What a sequence of valid entries does to a directory.\<close>

lemma import_entries_valid:
  assumes "list_all (\<lambda>(n, v). entry_name n \<and> writes n) es" "distinct (map fst es)"
  shows "\<exists>fs'. import_entries p dek nonces writes dir (map (\<lambda>(n, v). JArr [JStr n, v]) es) fs = (None, fs') \<and>
    (\<forall>n. file_named (fs' dir) n = (case map_of es n of Some v \<Rightarrow> Some (entry_file p dek (nonces n) n v) | None \<Rightarrow> file_named (fs dir) n))"
  using assms
proof (induction es arbitrary: fs)
  case (Cons e es)
  obtain n v where e: "e = (n, v)" by (cases e)
  let ?fs = "write_file dir (entry_file p dek (nonces n) n v) fs"
  have "list_all (\<lambda>(n, v). entry_name n \<and> writes n) es" "distinct (map fst es)" using Cons.prems by simp_all
  from Cons.IH [OF this, of ?fs] obtain fs' where fs': "import_entries p dek nonces writes dir (map (\<lambda>(n, v). JArr [JStr n, v]) es) ?fs = (None, fs')"
    "\<forall>k. file_named (fs' dir) k = (case map_of es k of Some v \<Rightarrow> Some (entry_file p dek (nonces k) k v) | None \<Rightarrow> file_named (?fs dir) k)" by blast
  have name: "fl_name (entry_file p dek (nonces n) n v) = n" by (simp add: entry_file_def Let_def)
  have fresh: "map_of es n = None" using Cons.prems(2) unfolding e by (simp add: map_of_eq_None_iff)
  have "file_named (fs' dir) k = (case map_of (e # es) k of Some v \<Rightarrow> Some (entry_file p dek (nonces k) k v) | None \<Rightarrow> file_named (fs dir) k)" for k
    using fs'(2) fresh unfolding e file_named_write name by (auto split: option.splits)
  then show ?case using fs'(1) Cons.prems(1) unfolding e by simp
qed simp

lemma open_entry_file:
  assumes "platform_laws p" "nonce \<noteq> []"
  shows "open_entry p dek (entry_file p dek nonce n v) = Some v"
proof -
  have "unseal p dek (seal p dek nonce (pf_stringify p v)) = Inr (pf_stringify p v)"
    using unseal_seal assms by (simp add: platform_laws_def)
  then show ?thesis using assms(1) by (simp add: open_entry_def entry_file_def seal_isSealed platform_laws_def Let_def)
qed

text \<open>C23 A transfer to a device with another key: everything that opens here opens there, under the same name, and every entry
  that does not is counted.\<close>

theorem archive_transfer:
  assumes laws: "platform_laws p" and nonces: "\<forall>n. nonces n \<noteq> []" and names: "distinct (map fl_name (old (hash (units account))))"
    and accepts: "\<forall>n. writes n"
    and export: "exportArchive p dek hash account old = (sent, sent_count, unreadable)"
    and import: "importArchive p dek' nonces hash writes True account sent new = (r, new')"
  shows "r = Inr sent_count \<and> sent_count + unreadable = length (exportable (old (hash (units account)))) \<and>
    (\<forall>f \<in> set (old (hash (units account))). entry_name (fl_name f) \<and> open_entry p dek f \<noteq> None \<longrightarrow>
      Option.bind (file_named (new' (hash (units account))) (fl_name f)) (open_entry p dek') = open_entry p dek f)"
proof -
  let ?dir = "hash (units account)"
  let ?es = "export_entries p dek (old ?dir)"
  note es = export_entries_distinct [OF names, where p = p and dek = dek] export_entries_mem [of _ _ p dek "old ?dir"] export_entries_count [of p dek "old ?dir"]
  have valid: "list_all (\<lambda>(n, v). entry_name n \<and> writes n) ?es" using es(2) accepts by (auto simp: list_all_iff)
  obtain fs' where fs': "import_entries p dek' nonces writes ?dir (map (\<lambda>(n, v). JArr [JStr n, v]) ?es) new = (None, fs')"
    "\<forall>n. file_named (fs' ?dir) n = (case map_of ?es n of Some v \<Rightarrow> Some (entry_file p dek' (nonces n) n v) | None \<Rightarrow> file_named (new ?dir) n)"
    using import_entries_valid [OF valid es(1)] by blast
  have sent: "sent = pf_stringify p (JObj [(''v'', JNum 1), (''entries'', JArr (map (\<lambda>(n, v). JArr [JStr n, v]) ?es))])"
    "sent_count = length ?es" "unreadable = length (exportable (old ?dir)) - length ?es"
    using export by (auto simp: exportArchive_def Let_def)
  have text_ok: "sent \<noteq> []" "pf_parse p sent = Some (JObj [(''v'', JNum 1), (''entries'', JArr (map (\<lambda>(n, v). JArr [JStr n, v]) ?es))])"
    using laws unfolding sent(1) by (simp_all add: platform_laws_def)
  have result: "r = Inr sent_count" "?es \<noteq> [] \<Longrightarrow> new' = fs'"
    using import fs'(1) text_ok unfolding sent(2) by (auto simp: importArchive_def json_field_def split: if_splits)
  have "length ?es \<le> length (exportable (old ?dir))" unfolding es(3) by (rule length_filter_le)
  then have "sent_count + unreadable = length (exportable (old ?dir))" using sent by simp
  moreover have "Option.bind (file_named (new' ?dir) (fl_name f)) (open_entry p dek') = open_entry p dek f"
    if "f \<in> set (old ?dir)" "entry_name (fl_name f)" "open_entry p dek f = Some v" for f v
  proof -
    have mem: "(fl_name f, v) \<in> set ?es" using es(2) that by blast
    then have "map_of ?es (fl_name f) = Some v" using es(1) by (simp add: map_of_eq_Some_iff)
    moreover have "new' = fs'" using length_pos_if_in_set [OF mem] by (intro result(2)) simp
    ultimately show ?thesis using fs'(2) that(3) open_entry_file [OF laws, where nonce = "nonces (fl_name f)" and dek = dek' and n = "fl_name f" and v = v] nonces by simp
  qed
  ultimately show ?thesis using result(1) by auto
qed

theorem archive_transfer_witness:
  "let p = sample_platform True; h = map unit_char; n = replicate 64 (CHR ''a'');
       sent = fst (exportArchive p [] h ''a'' (\<lambda>_. [entry_file p [] [7] n (JStr ''x'')]));
       there = snd (importArchive p [1] (\<lambda>_. [7]) h (\<lambda>_. True) True ''a'' sent (\<lambda>_. []))
   in Option.bind (file_named (there (h (units ''a''))) n) (open_entry p [1]) = Some (JStr ''x'')"
proof -
  let ?p = "sample_platform True"
  let ?h = "map unit_char"
  let ?n = "replicate 64 (CHR ''a'')"
  let ?old = "(\<lambda>_. [entry_file ?p [] [7] ?n (JStr ''x'')]) :: files"
  obtain sent sent_count unreadable where out: "exportArchive ?p [] ?h ''a'' ?old = (sent, sent_count, unreadable)" by (cases "exportArchive ?p [] ?h ''a'' ?old") auto
  obtain r there where got: "importArchive ?p [1] (\<lambda>_. [7]) ?h (\<lambda>_. True) True ''a'' sent (\<lambda>_. []) = (r, there)"
    by (cases "importArchive ?p [1] (\<lambda>_. [7]) ?h (\<lambda>_. True) True ''a'' sent (\<lambda>_. [])") auto
  have nonces: "\<forall>n :: string. [7 :: u8] \<noteq> []" by simp
  have names: "distinct (map fl_name (?old (?h (units ''a''))))" by simp
  have accepts: "\<forall>n :: string. True" by simp
  have named: "fl_name (entry_file ?p [] [7] ?n (JStr ''x'')) = ?n" "entry_name ?n" by (simp add: entry_file_def Let_def) code_simp
  have opens: "open_entry ?p [] (entry_file ?p [] [7] ?n (JStr ''x'')) = Some (JStr ''x'')"
    by (rule open_entry_file [OF sample_platform_laws]) simp
  have "Option.bind (file_named (there (?h (units ''a''))) ?n) (open_entry ?p [1]) = Some (JStr ''x'')"
    using archive_transfer [OF sample_platform_laws nonces names accepts out got] named opens by simp
  then show ?thesis using out got by (simp add: Let_def)
qed

end
