(* ===== verification/Account_Service.thy ===== *)
theory Account_Service
  imports Accounts_Store Launch
begin

text \<open>
  Which mailbox is in front, what else is connected, and what belongs to it in memory (\<^verbatim>\<open>state/accounts.ts\<close>,
  \<^verbatim>\<open>state/session.ts\<close>). The store's fields, the sessions and connectors held beside it, the registry and the values of
  each account's stores on disk, and what was asked of the other services. The sign-in providers and the native core answer
  from the world. Each call runs alone: the source awaits between reading the registry, writing it and patching the store, and
  calls that overlap there are not modelled here. The tokens of a session are left out.
\<close>

record session =
  se_provider :: provider
  se_email :: string
  se_name :: "string option"
  se_photo :: "string option"

datatype service_event =
  Refreshed "string option" | AuthSignedOut "(string \<times> provider) option" | CacheCleared string | ArchiveCleared string
| NotifyForgot string

text \<open>\<open>sv_memory\<close> is the value of every store read at the last \<open>load\<close>, with the account they were read for, which the
  source does not keep.\<close>

record service_state =
  sv_sessions :: "string \<Rightarrow> session option"
  sv_clients :: "string \<Rightarrow> session option"
  sv_current :: "session option"
  sv_session :: "session option"
  sv_accounts :: "account_ref list"
  sv_active :: "string option"
  sv_unified :: bool
  sv_reauth :: "string list"
  sv_error :: "string option"
  sv_switching :: bool
  sv_adding :: bool
  sv_booting :: bool
  sv_identity :: "json option"
  sv_memory :: "(string \<times> (string \<Rightarrow> json)) option"
  sv_listed :: "json option"
  sv_registry :: accounts_state
  sv_disk :: "string \<Rightarrow> string \<Rightarrow> json option"
  sv_events :: "service_event list"

text \<open>What the outside answers in one call. \<open>w_identity\<close> is \<open>core.loadIdentity\<close>, \<open>w_unreadable\<close> tells which stores fail to
  authenticate, \<open>w_fallback\<close> and \<open>w_reader\<close> are what each store's own module does with a missing and a stored value.\<close>

record world =
  w_saves :: bool
  w_identity :: "string \<Rightarrow> string + json option"
  w_unreadable :: "string \<Rightarrow> string \<Rightarrow> bool"
  w_fallback :: "string \<Rightarrow> json"
  w_reader :: "string \<Rightarrow> json \<Rightarrow> json"
  w_restore :: "string \<Rightarrow> provider \<Rightarrow> string + session option"
  w_restore_any :: "string + session option"
  w_signIn :: "string + session"
  w_signOut :: "(string \<times> provider) option \<Rightarrow> string option"
  w_storage :: "string option"

type_synonym 'a step = "service_state \<Rightarrow> (string + 'a) \<times> service_state"

definition LOADED_STORES :: "string list" where
  "LOADED_STORES =
     [''cryptmail.keyring.v1'', ''cryptmail.recovery.v1'', ''cryptmail.publish.v1'', ''cryptmail.invites.v1'', ''cryptmail.searchindex.v1'',
      ''cryptmail.drafts.v1'', ''cryptmail.outbox.v1'', ''cryptmail.spam.v1'', ''cryptmail.snooze.v1'', ''cryptmail.labels.v1'',
      ''cryptmail.rules.v1'', ''cryptmail.mailcache.v1'']"

definition note_event :: "service_event \<Rightarrow> service_state \<Rightarrow> service_state" where
  "note_event e s = s\<lparr>sv_events := sv_events s @ [e]\<rparr>"

definition refreshInbox :: "service_state \<Rightarrow> service_state" where
  "refreshInbox s = note_event (Refreshed (sv_active s)) s"

definition ref_of :: "string \<Rightarrow> service_state \<Rightarrow> account_ref option" where
  "ref_of i s = find (\<lambda>a. ar_id a = i) (sv_accounts s)"

definition paused :: "account_ref option \<Rightarrow> bool" where
  "paused ref = as_paused (settingsOf ref)"

subsection \<open>The registry\<close>

definition loadAccounts :: "service_state \<Rightarrow> accounts_state" where
  "loadAccounts s = normalise_accounts (sv_registry s)"

definition persist :: "world \<Rightarrow> accounts_state \<Rightarrow> accounts_state step" where
  "persist w ac s =
     (if \<not> w_saves w then (Inl ''storage'', s)
      else let saved = normalise_accounts ac
           in (Inr saved, s\<lparr>sv_registry := saved, sv_accounts := ac_accounts saved, sv_active := ac_active saved, sv_unified := ac_unified saved\<rparr>))"

definition register :: "world \<Rightarrow> session \<Rightarrow> bool \<Rightarrow> string step" where
  "register w session activate s =
     (let ref = accountRefFor (se_provider session) (se_email session) (se_name session) (se_photo session);
          s = s\<lparr>sv_sessions := (sv_sessions s)(ar_id ref \<mapsto> session), sv_reauth := filter (\<lambda>i. i \<noteq> ar_id ref) (sv_reauth s)\<rparr>
      in case persist w (upsertAccount (loadAccounts s) ref activate) s of
           (Inl e, s) \<Rightarrow> (Inl e, s)
         | (Inr saved, s) \<Rightarrow> (Inr (if \<not> activate then ar_id ref else case ac_active saved of Some i \<Rightarrow> i | None \<Rightarrow> ar_id ref), s))"

subsection \<open>Loading an account\<close>

definition clientFor :: "session \<Rightarrow> string \<Rightarrow> service_state \<Rightarrow> session \<times> service_state" where
  "clientFor session account s =
     (case sv_clients s account of Some c \<Rightarrow> (c, s) | None \<Rightarrow> (session, s\<lparr>sv_clients := (sv_clients s)(account \<mapsto> session)\<rparr>))"

definition stored_value :: "world \<Rightarrow> service_state \<Rightarrow> string \<Rightarrow> string \<Rightarrow> json" where
  "stored_value w s account base = (case sv_disk s account base of None \<Rightarrow> w_fallback w base | Some v \<Rightarrow> w_reader w base v)"

definition load :: "world \<Rightarrow> session \<Rightarrow> string \<Rightarrow> (json option \<times> (string \<Rightarrow> json)) step" where
  "load w session account s =
     (case clientFor session account s of
        (c, s) \<Rightarrow>
          let s = s\<lparr>sv_current := Some c\<rparr>
          in case w_identity w (se_email session) of
               Inl e \<Rightarrow> (Inl e, s)
             | Inr identity \<Rightarrow>
                 if list_ex (w_unreadable w account) LOADED_STORES then (Inl ''unauthentic'', s)
                 else (Inr (identity, stored_value w s account), s))"

definition arrive :: "session \<Rightarrow> string \<Rightarrow> json option \<times> (string \<Rightarrow> json) \<Rightarrow> service_state \<Rightarrow> service_state" where
  "arrive session account loaded s =
     s\<lparr>sv_session := Some session, sv_identity := fst loaded, sv_memory := Some (account, snd loaded),
       sv_listed := Some (snd loaded ''cryptmail.mailcache.v1'')\<rparr>"

definition attach :: "world \<Rightarrow> session \<Rightarrow> unit step" where
  "attach w session s =
     (case register w session True s of
        (Inl e, s) \<Rightarrow> (Inl e, s)
      | (Inr account, s) \<Rightarrow>
          (case load w session account s of
             (Inl e, s) \<Rightarrow> (Inl e, s)
           | (Inr loaded, s) \<Rightarrow> (Inr (), arrive session account loaded s)))"

text \<open>A later write of a store that is in memory: like every service, under \<open>requireActive()\<close>, the account in front.\<close>

definition save_store :: "string \<Rightarrow> json \<Rightarrow> unit step" where
  "save_store base v s =
     (case sv_active s of
        None \<Rightarrow> (Inl ''No account is connected.'', s)
      | Some a \<Rightarrow> (Inr (), s\<lparr>sv_disk := (sv_disk s)(a := (sv_disk s a)(base \<mapsto> v)),
                             sv_memory := map_option (\<lambda>(b, m). (b, m(base := v))) (sv_memory s)\<rparr>))"

subsection \<open>Switching, resuming, losing a grant\<close>

definition caught :: "(string + unit) \<times> service_state \<Rightarrow> service_state" where
  "caught r = (case r of (Inl e, s) \<Rightarrow> s\<lparr>sv_error := Some e, sv_switching := False\<rparr> | (Inr _, s) \<Rightarrow> s\<lparr>sv_switching := False\<rparr>)"

definition bring_front :: "world \<Rightarrow> string \<Rightarrow> bool \<Rightarrow> session \<Rightarrow> service_state \<Rightarrow> service_state" where
  "bring_front w i unified session s =
     (let s = s\<lparr>sv_switching := True, sv_error := None\<rparr>
      in refreshInbox (caught
           (case persist w ((loadAccounts s)\<lparr>ac_active := Some i, ac_unified := unified\<rparr>) s of
              (Inl e, s) \<Rightarrow> (Inl e, s) | (Inr _, s) \<Rightarrow> attach w session s)))"

definition drop_grant :: "string \<Rightarrow> string option \<Rightarrow> service_state \<Rightarrow> service_state" where
  "drop_grant i reason s =
     s\<lparr>sv_sessions := (sv_sessions s)(i := None), sv_clients := (sv_clients s)(i := None),
       sv_reauth := (if i \<in> set (sv_reauth s) then sv_reauth s else sv_reauth s @ [i]),
       sv_error := (case reason of None \<Rightarrow> sv_error s | Some m \<Rightarrow> if m = [] then sv_error s else Some m)\<rparr>"

text \<open>The three call each other. A mailbox whose session is gone costs a call more than one whose session is held.\<close>

function (sequential) switchAccount :: "world \<Rightarrow> string \<Rightarrow> bool option \<Rightarrow> unit step"
  and resumeAccount :: "world \<Rightarrow> string \<Rightarrow> unit step"
  and mark_reauth :: "world \<Rightarrow> string \<Rightarrow> string option \<Rightarrow> unit step" where
  "switchAccount w i u s =
     (let unified = (case u of Some b \<Rightarrow> b | None \<Rightarrow> sv_unified s); moving = (Some i \<noteq> sv_active s)
      in if \<not> moving \<and> unified = sv_unified s then (Inr (), s)
         else if \<not> moving then
           (case persist w ((loadAccounts s)\<lparr>ac_unified := unified\<rparr>) s of (Inl e, s) \<Rightarrow> (Inl e, s) | (Inr _, s) \<Rightarrow> (Inr (), refreshInbox s))
         else if paused (ref_of i s) then resumeAccount w i s
         else (case sv_sessions s i of
                 None \<Rightarrow> (Inr (), s\<lparr>sv_error := Some (if i \<in> set (sv_reauth s) then ''That mailbox needs you to sign in again.''
                                                     else ''That account is not connected.'')\<rparr>)
               | Some session \<Rightarrow> (Inr (), bring_front w i unified session s)))"
| "resumeAccount w i s =
     (case ref_of i s of
        None \<Rightarrow> (Inr (), s)
      | Some ref \<Rightarrow>
          (case persist w (setAccountSettings (loadAccounts s) i (\<lambda>st. st\<lparr>as_paused := False\<rparr>)) s of
             (Inl e, s1) \<Rightarrow> (Inl e, s1)
           | (Inr _, s1) \<Rightarrow>
               (case (case sv_sessions s i of
                        Some session \<Rightarrow> Some session
                      | None \<Rightarrow> (case w_restore w (ar_email ref) (ar_provider ref) of Inl _ \<Rightarrow> None | Inr session \<Rightarrow> session)) of
                  None \<Rightarrow> mark_reauth w i (Some ''That mailbox needs you to sign in again.'') s1
                | Some session \<Rightarrow> (Inr (), refreshInbox (caught (attach w session (s1\<lparr>sv_switching := True, sv_error := None\<rparr>)))))))"
| "mark_reauth w i reason s =
     (let s1 = drop_grant i reason s
      in if Some i \<noteq> sv_active s then (Inr (), s1)
         else (case find (\<lambda>a. ar_id a \<noteq> i \<and> sv_sessions s1 (ar_id a) \<noteq> None \<and> \<not> paused (Some a)) (sv_accounts s) of
                 None \<Rightarrow> (Inr (), s1)
               | Some a \<Rightarrow> switchAccount w (ar_id a) None s1))"
  by pat_completeness auto

termination
  by (relation "measure (\<lambda>x. case x of
        Inl (w, i, u, s) \<Rightarrow> if sv_sessions s i = None then 5 else 2
      | Inr (Inl (w, i, s)) \<Rightarrow> if sv_sessions s i = None then 4 else 1
      | Inr (Inr (w, i, reason, s)) \<Rightarrow> (3 :: nat))")
    (auto simp: find_Some_iff split: option.splits)

declare switchAccount.simps [simp del] resumeAccount.simps [simp del] mark_reauth.simps [simp del]
subsection \<open>The rest of the accounts service\<close>

definition requireActive :: "service_state \<Rightarrow> string + string" where
  "requireActive s = (case sv_active s of None \<Rightarrow> Inl ''No account is connected.'' | Some i \<Rightarrow> Inr i)"

definition pauseAccount :: "world \<Rightarrow> string \<Rightarrow> unit step" where
  "pauseAccount w i s =
     (case filter (\<lambda>a. ar_id a \<noteq> i \<and> \<not> paused (Some a) \<and> sv_sessions s (ar_id a) \<noteq> None) (sv_accounts s) of
        [] \<Rightarrow> (Inr (), s\<lparr>sv_error := Some ''This is the only mailbox still syncing. Sign out instead of pausing it.''\<rparr>)
      | other # _ \<Rightarrow>
          let front = sv_active s; s = s\<lparr>sv_clients := (sv_clients s)(i := None)\<rparr>
          in case persist w (setAccountSettings (loadAccounts s) i (\<lambda>st. st\<lparr>as_paused := True\<rparr>)) s of
               (Inl e, s) \<Rightarrow> (Inl e, s)
             | (Inr _, s) \<Rightarrow> if Some i \<noteq> front then (Inr (), s) else switchAccount w (ar_id other) None s)"

definition setUnified :: "world \<Rightarrow> bool \<Rightarrow> unit step" where
  "setUnified w b s =
     (case persist w ((loadAccounts s)\<lparr>ac_unified := b\<rparr>) s of (Inl e, s) \<Rightarrow> (Inl e, s) | (Inr _, s) \<Rightarrow> (Inr (), refreshInbox s))"

text \<open>The patch, and the sync window it sets, if it sets one.\<close>

definition updateAccount :: "world \<Rightarrow> string \<Rightarrow> (account_settings \<Rightarrow> account_settings) \<Rightarrow> sync_window option \<Rightarrow> unit step" where
  "updateAccount w i patch window s =
     (let before = Option.bind (ref_of i s) (\<lambda>a. map_option as_syncWindow (ar_settings a))
      in case persist w (setAccountSettings (loadAccounts s) i patch) s of
           (Inl e, s) \<Rightarrow> (Inl e, s)
         | (Inr _, s) \<Rightarrow>
             if window \<noteq> None \<and> window \<noteq> before \<and> (Some i = sv_active s \<or> sv_unified s) then (Inr (), refreshInbox s) else (Inr (), s))"

definition forget_stores :: "string list \<Rightarrow> string \<Rightarrow> service_state \<Rightarrow> service_state" where
  "forget_stores bases i s = s\<lparr>sv_disk := (sv_disk s)(i := (\<lambda>b. if b \<in> set bases then None else sv_disk s i b))\<rparr>"

datatype reset_scope = ResetContent | ResetAll

definition resetAccount :: "world \<Rightarrow> string \<Rightarrow> reset_scope \<Rightarrow> service_state \<Rightarrow> service_state" where
  "resetAccount w i scope s =
     (let bases = (case scope of ResetContent \<Rightarrow> [''cryptmail.searchindex.v1'', ''cryptmail.mailcache.v1'']
                   | ResetAll \<Rightarrow> [''cryptmail.searchindex.v1'', ''cryptmail.spam.v1'', ''cryptmail.snooze.v1'', ''cryptmail.mailcache.v1'']);
          cleared = (case scope of ResetContent \<Rightarrow> [''cryptmail.searchindex.v1'']
                     | ResetAll \<Rightarrow> [''cryptmail.searchindex.v1'', ''cryptmail.spam.v1'', ''cryptmail.snooze.v1'']);
          s = note_event (CacheCleared i) (forget_stores bases i s)
      in if Some i \<noteq> sv_active s then s
         else refreshInbox (s\<lparr>sv_memory := map_option (\<lambda>(a, m). (a, \<lambda>b. if b \<in> set cleared then w_fallback w b else m b)) (sv_memory s)\<rparr>))"

definition signOut :: "world \<Rightarrow> unit step" where
  "signOut w s =
     (let s = note_event (AuthSignedOut None) s
      in case w_signOut w None of
           Some e \<Rightarrow> (Inl e, s)
         | None \<Rightarrow>
             let s = s\<lparr>sv_current := None, sv_clients := (\<lambda>_. None)\<rparr>
             in if \<not> w_saves w then (Inl ''storage'', s)
                else (Inr (), s\<lparr>sv_registry := normalise_accounts NO_ACCOUNTS, sv_session := None, sv_accounts := [], sv_active := None,
                               sv_unified := False, sv_identity := None, sv_listed := None\<rparr>))"

text \<open>What \<open>removeAccount\<close> does once the provider has dropped the grant.\<close>

definition erase_account :: "string \<Rightarrow> service_state \<Rightarrow> service_state" where
  "erase_account i s =
     (let s = s\<lparr>sv_sessions := (sv_sessions s)(i := None), sv_clients := (sv_clients s)(i := None)\<rparr>;
          s = note_event (NotifyForgot i) (note_event (ArchiveCleared i) (note_event (CacheCleared i) (forget_stores PER_ACCOUNT_STORE_KEYS i s)))
      in s\<lparr>sv_reauth := filter (\<lambda>x. x \<noteq> i) (sv_reauth s)\<rparr>)"

definition move_on :: "world \<Rightarrow> string \<Rightarrow> unit step" where
  "move_on w i s =
     (case persist w (removeAccount (loadAccounts s) i) s of
        (Inl e, s) \<Rightarrow> (Inl e, s)
      | (Inr saved, s) \<Rightarrow>
          (case Option.bind (ac_active saved) (sv_sessions s) of
             None \<Rightarrow> signOut w s
           | Some session \<Rightarrow>
               (case attach w session s of (Inl e, s) \<Rightarrow> (Inl e, s) | (Inr _, s) \<Rightarrow> (Inr (), refreshInbox s))))"

definition grant_of :: "string \<Rightarrow> service_state \<Rightarrow> (string \<times> provider) option" where
  "grant_of i s =
     (case (case sv_sessions s i of
              Some session \<Rightarrow> Some (se_email session, se_provider session)
            | None \<Rightarrow> map_option (\<lambda>r. (ar_email r, ar_provider r)) (ref_of i s)) of
        Some (c # cs, p) \<Rightarrow> Some (c # cs, p) | _ \<Rightarrow> None)"

definition remove_account :: "world \<Rightarrow> string \<Rightarrow> unit step" where
  "remove_account w i s =
     (case grant_of i s of
        None \<Rightarrow> move_on w i (erase_account i s)
      | Some g \<Rightarrow>
          let s = note_event (AuthSignedOut (Some g)) s
          in (case w_signOut w (Some g) of Some e \<Rightarrow> (Inl e, s) | None \<Rightarrow> move_on w i (erase_account i s)))"

subsection \<open>The session service\<close>

definition signIn :: "world \<Rightarrow> unit step" where
  "signIn w s =
     (let s = s\<lparr>sv_error := None, sv_adding := True\<rparr>
      in case (case w_signIn w of Inl e \<Rightarrow> (Inl e, s) | Inr session \<Rightarrow> attach w session s) of
           (Inl e, s) \<Rightarrow> (Inl e, s\<lparr>sv_adding := False\<rparr>)
         | (Inr _, s) \<Rightarrow> (Inr (), refreshInbox (s\<lparr>sv_adding := False\<rparr>)))"

text \<open>A dead grant, of one mailbox or of the only one. The message is never empty.\<close>

definition lose_grant :: "world \<Rightarrow> string \<Rightarrow> string option \<Rightarrow> service_state \<Rightarrow> service_state" where
  "lose_grant w reason account s =
     (case (case account of Some a \<Rightarrow> Some a | None \<Rightarrow> sv_active s) of
        Some failed \<Rightarrow>
          if list_ex (\<lambda>a. ar_id a \<noteq> failed \<and> sv_sessions s (ar_id a) \<noteq> None) (sv_accounts s)
          then snd (mark_reauth w failed (Some reason) s)
          else s\<lparr>sv_current := None, sv_clients := (\<lambda>_. None), sv_session := None, sv_accounts := [], sv_active := None,
                 sv_unified := False, sv_identity := None, sv_listed := None, sv_error := Some reason\<rparr>
      | None \<Rightarrow> s\<lparr>sv_current := None, sv_clients := (\<lambda>_. None), sv_session := None, sv_accounts := [], sv_active := None,
                 sv_unified := False, sv_identity := None, sv_listed := None, sv_error := Some reason\<rparr>)"

fun firstRestorable :: "world \<Rightarrow> string option \<Rightarrow> account_ref list \<Rightarrow> session option \<times> string option" where
  "firstRestorable w err [] = (None, err)"
| "firstRestorable w err (ref # refs) =
     (case w_restore w (ar_email ref) (ar_provider ref) of
        Inr (Some session) \<Rightarrow> (Some session, None)
      | Inr None \<Rightarrow> firstRestorable w err refs
      | Inl e \<Rightarrow> firstRestorable w (if err = None then Some e else err) refs)"

text \<open>One mailbox after another, until cancelled; a failure to register counts as not reachable, one of \<open>markReauth\<close> ends it.\<close>

fun restore_each :: "world \<Rightarrow> (nat \<Rightarrow> bool) \<Rightarrow> bool \<Rightarrow> account_ref list \<Rightarrow> service_state \<Rightarrow> (string + bool) \<times> service_state" where
  "restore_each w cancelled arrived [] s = (Inr arrived, s)"
| "restore_each w cancelled arrived (ref # refs) s =
     (let gone = (\<lambda>s. case mark_reauth w (ar_id ref) None s of
                        (Inl e, s) \<Rightarrow> (Inl e, s) | (Inr _, s) \<Rightarrow> restore_each w cancelled arrived refs s)
      in if cancelled (Suc (length refs)) then (Inr False, s)
         else (case w_restore w (ar_email ref) (ar_provider ref) of
                 Inr (Some session) \<Rightarrow>
                   (case register w session False s of
                      (Inl _, s) \<Rightarrow> gone s
                    | (Inr _, s) \<Rightarrow> restore_each w cancelled True refs (snd (clientFor session (ar_id ref) s)))
               | _ \<Rightarrow> gone s))"

definition restoreRest :: "world \<Rightarrow> (nat \<Rightarrow> bool) \<Rightarrow> account_ref list \<Rightarrow> unit step" where
  "restoreRest w cancelled refs s =
     (case restore_each w cancelled False refs s of
        (Inl e, s) \<Rightarrow> (Inl e, s)
      | (Inr arrived, s) \<Rightarrow> (Inr (), if arrived \<and> \<not> cancelled 0 \<and> sv_unified s then refreshInbox s else s))"

definition restoreOthers :: "world \<Rightarrow> unit step" where
  "restoreOthers w s =
     (case filter (\<lambda>a. \<not> paused (Some a) \<and> sv_clients s (ar_id a) = None) (sv_accounts s) of
        [] \<Rightarrow> (Inr (), s)
      | missing \<Rightarrow> restoreRest w (\<lambda>_. False) missing s)"

definition boot_order :: "accounts_state \<Rightarrow> account_ref list" where
  "boot_order stored =
     (let syncing = filter (\<lambda>a. \<not> paused (Some a)) (ac_accounts stored)
      in filter (\<lambda>a. Some (ar_id a) = ac_active stored) syncing @ filter (\<lambda>a. Some (ar_id a) \<noteq> ac_active stored) syncing)"

text \<open>\<open>cancelled n\<close> is asked when \<open>n\<close> mailboxes are left to restore, \<open>unmounted\<close> before the first paint.\<close>

definition boot_failed :: "bool \<Rightarrow> string \<Rightarrow> service_state \<Rightarrow> service_state" where
  "boot_failed unmounted e s = (if unmounted then s else s\<lparr>sv_booting := False, sv_session := None, sv_error := Some e\<rparr>)"

definition open_first :: "world \<Rightarrow> bool \<Rightarrow> (nat \<Rightarrow> bool) \<Rightarrow> bool \<Rightarrow> account_ref list \<Rightarrow> session \<Rightarrow> service_state \<Rightarrow> service_state" where
  "open_first w unmounted cancelled others ordered wanted s =
     (case register w wanted True s of
        (Inl e, s) \<Rightarrow> boot_failed unmounted e s
      | (Inr account, s) \<Rightarrow>
          (case load w wanted account (snd (clientFor wanted account s)) of
             (Inl e, s) \<Rightarrow> boot_failed unmounted e s
           | (Inr loaded, s) \<Rightarrow>
               if unmounted then s
               else let s = arrive wanted account loaded (s\<lparr>sv_booting := False\<rparr>)
                    in if \<not> others then s
                       else snd (restoreRest w cancelled (filter (\<lambda>a. ar_id a \<noteq> account) ordered) s)))"

definition boot :: "world \<Rightarrow> bool \<Rightarrow> (nat \<Rightarrow> bool) \<Rightarrow> bool \<Rightarrow> service_state \<Rightarrow> service_state" where
  "boot w unmounted cancelled others s =
     (let ordered = boot_order (loadAccounts s)
      in case w_storage w of
           Some e \<Rightarrow> boot_failed unmounted e s
         | None \<Rightarrow>
             (case (if ordered \<noteq> [] then Inr (firstRestorable w None ordered)
                    else (case w_restore_any w of Inl e \<Rightarrow> Inl e | Inr session \<Rightarrow> Inr (session, None))) of
                Inl e \<Rightarrow> boot_failed unmounted e s
              | Inr (None, err) \<Rightarrow> if unmounted then s else s\<lparr>sv_booting := False, sv_error := err\<rparr>
              | Inr (Some wanted, _) \<Rightarrow> open_first w unmounted cancelled others ordered wanted s))"

end
