(* ===== verification/Account_Service_Laws.thy ===== *)
theory Account_Service_Laws
  imports Account_Service
begin

text \<open>
  What is in memory belongs to the mailbox in front, in every state the services can reach while nothing fails to load;
  what a failed load and the removal of a mailbox do; where the front goes when a grant is lost.
\<close>

subsection \<open>The registry\<close>

lemma normalise_is_ok: "accounts_ok (normalise_accounts st)"
  unfolding normalise_accounts_def by (rule normalise_stored_ok)

lemma normalise_fields:
  "map ar_id (ac_accounts (normalise_accounts st)) = map ar_id (ac_accounts st)"
  "ac_active (normalise_accounts st) =
     (if list_ex (\<lambda>a. Some (ar_id a) = ac_active st) (ac_accounts st) then ac_active st
      else (case ac_accounts st of a # _ \<Rightarrow> Some (ar_id a) | [] \<Rightarrow> None))"
  by (simp_all add: normalise_accounts_def normalise_stored_def Let_def comp_def list_ex_iff list.case_eq_if hd_map)

lemma normalise_active_listed: "ac_active st = Some i \<Longrightarrow> i \<in> set (map ar_id (ac_accounts st)) \<Longrightarrow> ac_active (normalise_accounts st) = Some i"
  by (auto simp: normalise_fields list_ex_iff)

lemma accounts_ok_active: "accounts_ok st \<Longrightarrow> ac_active st = Some i \<Longrightarrow> i \<in> set (map ar_id (ac_accounts st))"
  by (simp add: accounts_ok_def)

lemma upsert_ids:
  "set (map ar_id (ac_accounts (upsertAccount st ref activate))) = insert (ar_id ref) (set (map ar_id (ac_accounts st)))"
proof -
  have same: "map ar_id (map (\<lambda>a. if ar_id a = ar_id ref then refreshed_ref a ref else a) xs) = map ar_id xs" for xs
    by (auto simp: refreshed_ref_def)
  show ?thesis
  proof (cases "list_ex (\<lambda>a. ar_id a = ar_id ref) (ac_accounts st)")
    case True
    then have "set (map ar_id (ac_accounts (upsertAccount st ref activate))) = set (map ar_id (ac_accounts st))"
      unfolding upsertAccount_def normalise_ids using same by (simp del: map_map)
    moreover have "ar_id ref \<in> set (map ar_id (ac_accounts st))" using True by (auto simp: list_ex_iff intro: rev_image_eqI)
    ultimately show ?thesis by (simp add: insert_absorb)
  next
    case False
    then show ?thesis unfolding upsertAccount_def normalise_ids by simp
  qed
qed

lemma upsert_active: "ac_active (upsertAccount st ref True) = Some (ar_id ref)"
proof -
  have "ar_id ref \<in> set (map ar_id (ac_accounts (upsertAccount st ref True)))" unfolding upsert_ids by simp
  then show ?thesis unfolding upsertAccount_def normalise_ids by (intro normalise_active_listed) simp_all
qed

lemma upsert_keeps_active:
  assumes "ac_active st = Some i" "i \<in> set (map ar_id (ac_accounts st))"
  shows "ac_active (upsertAccount st ref False) = Some i"
proof -
  have "i \<in> set (map ar_id (ac_accounts (upsertAccount st ref False)))" unfolding upsert_ids using assms(2) by simp
  then show ?thesis unfolding upsertAccount_def normalise_ids using assms(1) by (intro normalise_active_listed) simp_all
qed

lemma settings_keep_active:
  assumes "ac_active st = Some i" "i \<in> set (map ar_id (ac_accounts st))"
  shows "ac_active (setAccountSettings st x patch) = Some i"
proof -
  have "map ar_id (map (\<lambda>a. if ar_id a = x then a\<lparr>ar_settings := Some (patch (settings_of_ref a))\<rparr> else a) (ac_accounts st)) = map ar_id (ac_accounts st)"
    by auto
  then show ?thesis using assms unfolding setAccountSettings_def by (intro normalise_active_listed) (simp_all del: map_map)
qed

subsection \<open>The state the screens see\<close>

definition front_loaded :: "service_state \<Rightarrow> bool" where
  "front_loaded s \<longleftrightarrow> (sv_active s = None \<longrightarrow> sv_accounts s = []) \<and> (\<forall>a. sv_active s = Some a \<longrightarrow> map_option fst (sv_memory s) = Some a)"

definition registry_shown :: "service_state \<Rightarrow> bool" where
  "registry_shown s \<longleftrightarrow> (sv_active s \<noteq> None \<longrightarrow> accounts_ok (sv_registry s) \<and> sv_accounts s = ac_accounts (sv_registry s) \<and>
     sv_active s = ac_active (sv_registry s) \<and> sv_unified s = ac_unified (sv_registry s))"

definition sound :: "service_state \<Rightarrow> bool" where
  "sound s \<longleftrightarrow> front_loaded s \<and> registry_shown s"

definition world_ok :: "world \<Rightarrow> bool" where
  "world_ok w \<longleftrightarrow> w_saves w \<and> (\<forall>e. \<exists>v. w_identity w e = Inr v) \<and> (\<forall>a b. \<not> w_unreadable w a b) \<and> w_signOut w None = None"

lemma loadAccounts_shown: "registry_shown s \<Longrightarrow> sv_active s \<noteq> None \<Longrightarrow> loadAccounts s = sv_registry s"
  by (simp add: loadAccounts_def registry_shown_def normalise_unchanged)

lemma persist_ok:
  assumes "w_saves w"
  shows "persist w ac s = (Inr (normalise_accounts ac), s\<lparr>sv_registry := normalise_accounts ac, sv_accounts := ac_accounts (normalise_accounts ac),
     sv_active := ac_active (normalise_accounts ac), sv_unified := ac_unified (normalise_accounts ac)\<rparr>)"
  using assms by (simp add: persist_def Let_def)

lemma persisted_shown: "w_saves w \<Longrightarrow> registry_shown (snd (persist w ac s))"
  by (simp add: persist_ok registry_shown_def normalise_is_ok)

lemma normalise_upsert: "normalise_accounts (upsertAccount st ref activate) = upsertAccount st ref activate"
  by (simp add: upsertAccount_def normalise_unchanged normalise_is_ok)

abbreviation session_id :: "session \<Rightarrow> string" where
  "session_id session \<equiv> accountIdFor (se_provider session) (se_email session)"

lemma register_saved:
  fixes session :: session and activate :: bool and s :: service_state
  assumes "w_saves w"
  defines "ref \<equiv> accountRefFor (se_provider session) (se_email session) (se_name session) (se_photo session)"
  defines "saved \<equiv> upsertAccount (loadAccounts s) ref activate"
  shows "register w session activate s =
    (Inr (session_id session),
     s\<lparr>sv_sessions := (sv_sessions s)(session_id session \<mapsto> session), sv_reauth := filter (\<lambda>i. i \<noteq> session_id session) (sv_reauth s),
       sv_registry := saved, sv_accounts := ac_accounts saved, sv_active := ac_active saved, sv_unified := ac_unified saved\<rparr>)"
proof -
  have i: "ar_id ref = session_id session" by (simp add: ref_def accountRefFor_def)
  have loads: "loadAccounts (s\<lparr>sv_sessions := x, sv_reauth := y\<rparr>) = loadAccounts s" for x y by (simp add: loadAccounts_def)
  have front: "ac_active (upsertAccount (loadAccounts s) ref True) = Some (session_id session)" using upsert_active i by simp
  show ?thesis using assms(1)
    by (cases activate) (simp_all add: register_def Let_def loads persist_ok normalise_upsert saved_def i front flip: ref_def)
qed

lemma upsert_is_ok: "accounts_ok (upsertAccount st ref activate)"
  by (simp add: upsertAccount_def normalise_is_ok)
text \<open>What arrives when everything can be read.\<close>

lemma attach_ok:
  assumes "world_ok w"
  obtains s' where "attach w session s = (Inr (), s')" "sound s'" "sv_active s' = Some (session_id session)"
    "sv_memory s' = Some (session_id session, stored_value w s (session_id session))" "sv_session s' = Some session"
    "sv_sessions s' = (sv_sessions s)(session_id session \<mapsto> session)" "sv_clients s' (session_id session) \<noteq> None"
    "sv_current s' = sv_clients s' (session_id session)" "sv_error s' = sv_error s" "sv_reauth s' = filter (\<lambda>i. i \<noteq> session_id session) (sv_reauth s)" "sv_disk s' = sv_disk s"
    "map ar_id (sv_accounts s') = map ar_id (ac_accounts (upsertAccount (loadAccounts s) (accountRefFor (se_provider session) (se_email session) (se_name session) (se_photo session)) True))"
proof -
  let ?ref = "accountRefFor (se_provider session) (se_email session) (se_name session) (se_photo session)"
  obtain identity where identity: "w_identity w (se_email session) = Inr identity" using assms unfolding world_ok_def by blast
  have ok: "w_saves w" "\<not> list_ex (w_unreadable w (session_id session)) LOADED_STORES"
    using assms by (simp_all add: world_ok_def list_ex_iff)
  have i: "ar_id ?ref = session_id session" by (simp add: accountRefFor_def)
  have front: "ac_active (upsertAccount (loadAccounts s) ?ref True) = Some (session_id session)" using upsert_active [of _ ?ref] i by simp
  note steps = Let_def attach_def register_saved [OF ok(1)] load_def clientFor_def identity ok(2) arrive_def front
  show ?thesis
    by (rule that [of "snd (attach w session s)"]; cases "sv_clients s (session_id session)")
      (simp_all add: steps sound_def front_loaded_def registry_shown_def upsert_is_ok stored_value_def fun_eq_iff)
qed

lemma refresh_sound [simp]: "sound (refreshInbox s) = sound s"
  by (simp add: sound_def front_loaded_def registry_shown_def refreshInbox_def note_event_def)

lemma refresh_fields [simp]:
  "sv_active (refreshInbox s) = sv_active s" "sv_sessions (refreshInbox s) = sv_sessions s" "sv_clients (refreshInbox s) = sv_clients s"
  "sv_memory (refreshInbox s) = sv_memory s" "sv_accounts (refreshInbox s) = sv_accounts s" "sv_error (refreshInbox s) = sv_error s"
  "sv_registry (refreshInbox s) = sv_registry s" "sv_unified (refreshInbox s) = sv_unified s" "sv_disk (refreshInbox s) = sv_disk s"
  "sv_current (refreshInbox s) = sv_current s" "sv_reauth (refreshInbox s) = sv_reauth s"
  by (simp_all add: refreshInbox_def note_event_def)

text \<open>A change of the registry that keeps the front keeps the screens right.\<close>

lemma sound_update:
  "sound s \<Longrightarrow> sv_accounts s' = sv_accounts s \<Longrightarrow> sv_active s' = sv_active s \<Longrightarrow> sv_unified s' = sv_unified s \<Longrightarrow> sv_registry s' = sv_registry s \<Longrightarrow>
    map_option fst (sv_memory s') = map_option fst (sv_memory s) \<Longrightarrow> sound s'"
  by (simp add: sound_def front_loaded_def registry_shown_def)

lemma sound_persist:
  assumes "sound s" "sv_active s = Some a" "w_saves w" "ac_active (normalise_accounts ac) = Some a"
  shows "sound (snd (persist w ac s))"
  using assms by (auto simp: persist_ok sound_def front_loaded_def registry_shown_def normalise_is_ok)

lemma sound_front:
  assumes "sound s" "sv_active s = Some a"
  shows "loadAccounts s = sv_registry s" "ac_active (sv_registry s) = Some a" "a \<in> set (map ar_id (ac_accounts (sv_registry s)))"
    "ac_accounts (sv_registry s) = sv_accounts s" "accounts_ok (sv_registry s)"
proof -
  have shown: "registry_shown s" "sv_active s \<noteq> None" using assms by (simp_all add: sound_def)
  show "loadAccounts s = sv_registry s" by (rule loadAccounts_shown [OF shown])
  show front: "ac_active (sv_registry s) = Some a" and ok: "accounts_ok (sv_registry s)" and "ac_accounts (sv_registry s) = sv_accounts s"
    using shown assms(2) by (simp_all add: registry_shown_def)
  show "a \<in> set (map ar_id (ac_accounts (sv_registry s)))" by (rule accounts_ok_active [OF ok front])
qed

lemma bring_front_sound:
  assumes "world_ok w"
  shows "sound (bring_front w i unified session s)"
proof -
  let ?ac = "(loadAccounts s)\<lparr>ac_active := Some i, ac_unified := unified\<rparr>"
  let ?s = "snd (persist w ?ac (s\<lparr>sv_switching := True, sv_error := None\<rparr>))"
  have saves: "w_saves w" using assms by (simp add: world_ok_def)
  obtain s' where s': "attach w session ?s = (Inr (), s')" "sound s'" using attach_ok [OF assms] by metis
  then have "sound (s'\<lparr>sv_switching := False\<rparr>)" by (auto intro: sound_update)
  then show ?thesis using s'(1) saves by (simp add: bring_front_def Let_def loadAccounts_def persist_ok caught_def)
qed

lemma settings_sound:
  assumes "sound s" "w_saves w" "sv_active s \<noteq> None"
  shows "sound (snd (persist w (setAccountSettings (loadAccounts s) i patch) s))"
proof -
  obtain a where a: "sv_active s = Some a" using assms(3) by blast
  note front = sound_front [OF assms(1) a]
  have "ac_active (setAccountSettings (loadAccounts s) i patch) = Some a" unfolding front(1) by (rule settings_keep_active [OF front(2,3)])
  then show ?thesis using assms(1,2) a by (intro sound_persist) (simp_all add: setAccountSettings_def normalise_unchanged normalise_is_ok)
qed

lemma unified_sound:
  assumes "sound s" "w_saves w" "sv_active s = Some a"
  shows "sound (snd (persist w ((loadAccounts s)\<lparr>ac_unified := b\<rparr>) s))"
  using assms sound_front [OF assms(1,3)] by (intro sound_persist [OF assms(1,3,2)] normalise_active_listed) simp_all

text \<open>The three that call each other keep the screens right, together.\<close>

lemma switching_sound:
  assumes "world_ok w"
  shows "sound s \<Longrightarrow> sound (snd (switchAccount w i u s))" "sound s \<Longrightarrow> sound (snd (resumeAccount w i s))"
    "sound s \<Longrightarrow> sound (snd (mark_reauth w i reason s))"
  using assms
proof (induction w i u s and w i s and w i reason s rule: switchAccount_resumeAccount_mark_reauth.induct)
  case (1 w i u s)
  have saves: "w_saves w" using 1 by (simp add: world_ok_def)
  show ?case
  proof (cases "Some i \<noteq> sv_active s")
    case True
    then show ?thesis using 1 bring_front_sound [of w] saves
      by (auto simp: switchAccount.simps Let_def intro: sound_update split: option.splits)
  next
    case False
    then have "sound (snd (persist w ((loadAccounts s)\<lparr>ac_unified := b\<rparr>) s))" for b
      using 1(2) saves unified_sound [of s w i b] by simp
    then show ?thesis using False 1(2) saves by (simp add: switchAccount.simps Let_def persist_ok)
  qed
next
  case (2 w i s)
  have saves: "w_saves w" using 2 by (simp add: world_ok_def)
  let ?ac = "setAccountSettings (loadAccounts s) i (\<lambda>st. st\<lparr>as_paused := False\<rparr>)"
  show ?case
  proof (cases "ref_of i s")
    case None
    then show ?thesis using 2(2) by (simp add: resumeAccount.simps)
  next
    case (Some ref)
    then have "sv_accounts s \<noteq> []" by (auto simp: ref_of_def)
    then have "sv_active s \<noteq> None" using 2(2) by (auto simp: sound_def front_loaded_def)
    then have sound1: "sound (snd (persist w ?ac s))" using 2(2) saves by (intro settings_sound)
    let ?got = "case sv_sessions s i of Some session \<Rightarrow> Some session | None \<Rightarrow> (case w_restore w (ar_email ref) (ar_provider ref) of Inl _ \<Rightarrow> None | Inr session \<Rightarrow> session)"
    show ?thesis
    proof (cases ?got)
      case None
      then show ?thesis using Some 2 sound1 saves by (simp add: resumeAccount.simps persist_ok)
    next
      case session: (Some session)
      obtain s' where s': "attach w session ((snd (persist w ?ac s))\<lparr>sv_switching := True, sv_error := None\<rparr>) = (Inr (), s')" "sound s'"
        using attach_ok [OF 2(3)] by metis
      then have "sound (s'\<lparr>sv_switching := False\<rparr>)" by (auto intro: sound_update)
      then show ?thesis using s'(1) Some session saves by (simp add: resumeAccount.simps persist_ok caught_def)
    qed
  qed
next
  case (3 w i reason s)
  have dropped: "sound (drop_grant i reason s)" using 3(2) by (auto simp: drop_grant_def intro: sound_update)
  then show ?case using 3(1) [OF refl] 3(3) by (auto simp: mark_reauth.simps Let_def split: option.splits)
qed
subsection \<open>The other calls\<close>

lemma nothing_open_sound: "sv_active s = None \<Longrightarrow> sv_accounts s = [] \<Longrightarrow> sound s"
  by (simp add: sound_def front_loaded_def registry_shown_def)

lemma pause_sound:
  assumes "world_ok w" "sound s"
  shows "sound (snd (pauseAccount w i s))"
proof (cases "filter (\<lambda>a. ar_id a \<noteq> i \<and> \<not> paused (Some a) \<and> sv_sessions s (ar_id a) \<noteq> None) (sv_accounts s)")
  case Nil
  then show ?thesis using assms(2) by (auto simp: pauseAccount_def intro: sound_update)
next
  case (Cons other others)
  have saves: "w_saves w" using assms(1) by (simp add: world_ok_def)
  let ?s = "s\<lparr>sv_clients := (sv_clients s)(i := None)\<rparr>"
  have "sv_accounts s \<noteq> []" using Cons by auto
  then have "sv_active ?s \<noteq> None" using assms(2) by (auto simp: sound_def front_loaded_def)
  moreover have "sound ?s" using assms(2) by (auto intro: sound_update)
  ultimately have "sound (snd (persist w (setAccountSettings (loadAccounts ?s) i (\<lambda>st. st\<lparr>as_paused := True\<rparr>)) ?s))"
    using saves by (intro settings_sound)
  then show ?thesis using Cons saves switching_sound(1) [OF assms(1)] by (simp add: pauseAccount_def Let_def persist_ok)
qed

lemma unified_set_sound: "world_ok w \<Longrightarrow> sound s \<Longrightarrow> sv_active s = Some a \<Longrightarrow> sound (snd (setUnified w b s))"
  using unified_sound [of s w a b] by (simp add: setUnified_def world_ok_def persist_ok)

lemma update_sound: "world_ok w \<Longrightarrow> sound s \<Longrightarrow> sv_active s \<noteq> None \<Longrightarrow> sound (snd (updateAccount w i patch window s))"
  using settings_sound [of s w i patch] by (simp add: updateAccount_def world_ok_def persist_ok)

lemma event_sound [simp]: "sound (note_event e s) = sound s"
  by (simp add: sound_def front_loaded_def registry_shown_def note_event_def)

lemma reset_sound: "sound s \<Longrightarrow> sound (resetAccount w i scope s)"
proof -
  assume s: "sound s"
  have "sound (forget_stores bases i s)" for bases using s by (auto simp: forget_stores_def intro: sound_update)
  then have noted: "sound (note_event e (forget_stores bases i s))" for e bases by simp
  have "sound (t\<lparr>sv_memory := map_option (\<lambda>(a, m). (a, f m)) (sv_memory t)\<rparr>)" if "sound t" for t f
    by (rule sound_update [OF that]) (simp_all add: option.map_comp comp_def case_prod_beta)
  then show ?thesis using noted by (simp add: resetAccount_def Let_def)
qed

lemma signOut_sound: "world_ok w \<Longrightarrow> sound (snd (signOut w s))"
  by (simp add: signOut_def Let_def world_ok_def nothing_open_sound)

lemma move_on_sound:
  assumes "world_ok w"
  shows "sound (snd (move_on w i s))"
proof -
  let ?saved = "normalise_accounts (removeAccount (loadAccounts s) i)"
  let ?s = "snd (persist w (removeAccount (loadAccounts s) i) s)"
  have saves: "w_saves w" using assms by (simp add: world_ok_def)
  show ?thesis
  proof (cases "Option.bind (ac_active ?saved) (sv_sessions ?s)")
    case None
    then show ?thesis using signOut_sound [OF assms] saves by (simp add: move_on_def persist_ok)
  next
    case (Some session)
    obtain s' where "attach w session ?s = (Inr (), s')" "sound s'" using attach_ok [OF assms] by metis
    then show ?thesis using Some saves by (simp add: move_on_def persist_ok)
  qed
qed

lemma remove_sound: "world_ok w \<Longrightarrow> sound s \<Longrightarrow> sound (snd (remove_account w i s))"
  by (simp add: remove_account_def Let_def move_on_sound split: option.splits)

lemma signIn_sound:
  assumes "world_ok w" "sound s"
  shows "sound (snd (signIn w s))"
proof (cases "w_signIn w")
  case (Inl e)
  then show ?thesis using assms(2) by (auto simp: signIn_def Let_def intro: sound_update)
next
  case (Inr session)
  obtain s' where s': "attach w session (s\<lparr>sv_error := None, sv_adding := True\<rparr>) = (Inr (), s')" "sound s'"
    using attach_ok [OF assms(1)] by metis
  then have "sound (s'\<lparr>sv_adding := False\<rparr>)" by (auto intro: sound_update)
  then show ?thesis using s'(1) Inr by (simp add: signIn_def Let_def)
qed

lemma lose_grant_sound: "world_ok w \<Longrightarrow> sound s \<Longrightarrow> sound (lose_grant w reason account s)"
  using switching_sound(3) [of w s] by (auto simp: lose_grant_def nothing_open_sound split: option.splits)

lemma register_behind_sound:
  assumes "world_ok w" "sound s" "sv_active s = Some a"
  shows "sound (snd (register w session False s))" "fst (register w session False s) = Inr (session_id session)"
    "sv_active (snd (register w session False s)) = Some a"
proof -
  have saves: "w_saves w" using assms(1) by (simp add: world_ok_def)
  note front = sound_front [OF assms(2,3)]
  have keeps: "ac_active (upsertAccount (loadAccounts s) r False) = Some a" for r unfolding front(1) by (rule upsert_keeps_active [OF front(2,3)])
  show "sound (snd (register w session False s))"
    using assms(2,3) keeps by (auto simp: register_saved [OF saves] sound_def front_loaded_def registry_shown_def upsert_is_ok)
  show "fst (register w session False s) = Inr (session_id session)" "sv_active (snd (register w session False s)) = Some a"
    using keeps by (simp_all add: register_saved [OF saves])
qed

lemma client_sound [simp]: "sound (snd (clientFor session account s)) = sound s"
  by (cases "sv_clients s account") (auto simp: clientFor_def sound_def front_loaded_def registry_shown_def)

lemma client_fields [simp]:
  "sv_active (snd (clientFor session account s)) = sv_active s" "sv_accounts (snd (clientFor session account s)) = sv_accounts s"
  "sv_registry (snd (clientFor session account s)) = sv_registry s" "sv_unified (snd (clientFor session account s)) = sv_unified s"
  by (simp_all add: clientFor_def split: option.splits)
subsection \<open>Launch\<close>

lemma bring_front_active:
  assumes "world_ok w"
  shows "sv_active (bring_front w i unified session s) = Some (session_id session)"
    "sv_sessions (bring_front w i unified session s) = (sv_sessions s)(session_id session \<mapsto> session)"
    "sv_clients (bring_front w i unified session s) (session_id session) \<noteq> None"
    "sv_current (bring_front w i unified session s) = sv_clients (bring_front w i unified session s) (session_id session)"
    "sv_reauth (bring_front w i unified session s) = filter (\<lambda>i. i \<noteq> session_id session) (sv_reauth s)"
    "set (map ar_id (sv_accounts (bring_front w i unified session s))) = insert (session_id session) (set (map ar_id (ac_accounts (loadAccounts s))))"
proof -
  let ?ac = "(loadAccounts s)\<lparr>ac_active := Some i, ac_unified := unified\<rparr>"
  have saves: "w_saves w" using assms by (simp add: world_ok_def)
  obtain u where u: "persist w ?ac (s\<lparr>sv_switching := True, sv_error := None\<rparr>) = (Inr (normalise_accounts ?ac), u)"
    "sv_sessions u = sv_sessions s" "sv_reauth u = sv_reauth s" "map ar_id (ac_accounts (loadAccounts u)) = map ar_id (ac_accounts (loadAccounts s))"
    by (simp add: persist_ok [OF saves] loadAccounts_def normalise_fields)
  obtain s' where s': "attach w session u = (Inr (), s')" "sv_active s' = Some (session_id session)"
    "sv_sessions s' = (sv_sessions u)(session_id session \<mapsto> session)" "sv_clients s' (session_id session) \<noteq> None"
    "sv_current s' = sv_clients s' (session_id session)" "sv_reauth s' = filter (\<lambda>i. i \<noteq> session_id session) (sv_reauth u)"
    "map ar_id (sv_accounts s') = map ar_id (ac_accounts (upsertAccount (loadAccounts u) (accountRefFor (se_provider session) (se_email session) (se_name session) (se_photo session)) True))"
    by (rule attach_ok [OF assms, where session = session and s = u], rule that)
  have loads: "loadAccounts (s\<lparr>sv_switching := True, sv_error := None\<rparr>) = loadAccounts s" by (simp add: loadAccounts_def)
  have eq: "bring_front w i unified session s = refreshInbox (s'\<lparr>sv_switching := False\<rparr>)"
    by (simp only: bring_front_def Let_def loads u(1) caught_def prod.case sum.case s'(1))
  show "sv_active (bring_front w i unified session s) = Some (session_id session)" unfolding eq using s'(2) by simp
  show "sv_sessions (bring_front w i unified session s) = (sv_sessions s)(session_id session \<mapsto> session)"
    unfolding eq using s'(3) u(2) by simp
  show "sv_clients (bring_front w i unified session s) (session_id session) \<noteq> None" unfolding eq using s'(4) by simp
  show "sv_current (bring_front w i unified session s) = sv_clients (bring_front w i unified session s) (session_id session)"
    unfolding eq using s'(5) by simp
  show "sv_reauth (bring_front w i unified session s) = filter (\<lambda>i. i \<noteq> session_id session) (sv_reauth s)"
    unfolding eq using s'(6) u(3) by simp
  have "map ar_id (sv_accounts (bring_front w i unified session s)) = map ar_id (sv_accounts s')" unfolding eq by simp
  then show "set (map ar_id (sv_accounts (bring_front w i unified session s))) = insert (session_id session) (set (map ar_id (ac_accounts (loadAccounts s))))"
    using s'(7) upsert_ids [of "loadAccounts u" "accountRefFor (se_provider session) (se_email session) (se_name session) (se_photo session)" True] u(4)
    by (simp only: accountRefFor_def account_ref.simps)
qed

lemma switching_open:
  assumes "world_ok w"
  shows "sound s \<Longrightarrow> sv_active s \<noteq> None \<Longrightarrow> sv_active (snd (switchAccount w i u s)) \<noteq> None"
    "sound s \<Longrightarrow> sv_active s \<noteq> None \<Longrightarrow> sv_active (snd (resumeAccount w i s)) \<noteq> None"
    "sound s \<Longrightarrow> sv_active s \<noteq> None \<Longrightarrow> sv_active (snd (mark_reauth w i reason s)) \<noteq> None"
  using assms
proof (induction w i u s and w i s and w i reason s rule: switchAccount_resumeAccount_mark_reauth.induct)
  case (1 w i u s)
  have saves: "w_saves w" using 1 by (simp add: world_ok_def)
  obtain a where a: "sv_active s = Some a" using 1(3) by blast
  note front = sound_front [OF 1(2) a]
  have "ac_active (normalise_accounts ((loadAccounts s)\<lparr>ac_unified := b\<rparr>)) = Some a" for b
    using front by (intro normalise_active_listed) simp_all
  then show ?case using 1 bring_front_active(1) [OF 1(4)] saves
    by (auto simp: switchAccount.simps Let_def persist_ok split: option.splits)
next
  case (2 w i s)
  have saves: "w_saves w" using 2 by (simp add: world_ok_def)
  obtain a where a: "sv_active s = Some a" using 2(3) by blast
  let ?ac = "setAccountSettings (loadAccounts s) i (\<lambda>st. st\<lparr>as_paused := False\<rparr>)"
  have front: "ac_active ?ac = Some a" unfolding sound_front(1) [OF 2(2) a] by (rule settings_keep_active [OF sound_front(2,3) [OF 2(2) a]])
  have sound1: "sound (snd (persist w ?ac s))" using 2(2,3) saves by (intro settings_sound)
  have open1: "sv_active (snd (persist w ?ac s)) \<noteq> None" using front saves by (simp add: persist_ok setAccountSettings_def normalise_unchanged normalise_is_ok)
  have attached: "sv_active (caught (attach w session t)) = Some (session_id session)" for session t
  proof -
    obtain s' where "attach w session t = (Inr (), s')" "sv_active s' = Some (session_id session)" using attach_ok [OF 2(4)] by metis
    then show ?thesis by (simp add: caught_def)
  qed
  show ?case using 2 sound1 open1 attached saves by (auto simp: resumeAccount.simps persist_ok split: option.splits)
next
  case (3 w i reason s)
  have dropped: "sound (drop_grant i reason s)" "sv_active (drop_grant i reason s) \<noteq> None" using 3(2,3) by (auto simp: drop_grant_def intro: sound_update)
  then show ?case using 3(1) [OF refl] 3(4) by (auto simp: mark_reauth.simps Let_def split: option.splits)
qed

lemma restore_each_sound:
  "world_ok w \<Longrightarrow> sound s \<Longrightarrow> sv_active s \<noteq> None \<Longrightarrow> sound (snd (restore_each w cancelled arrived refs s))"
proof (induction refs arbitrary: arrived s)
  case (Cons ref refs)
  obtain a where a: "sv_active s = Some a" using Cons.prems(3) by blast
  have marked: "sound (snd (mark_reauth w (ar_id ref) None s))" "sv_active (snd (mark_reauth w (ar_id ref) None s)) \<noteq> None"
    using switching_sound(3) switching_open(3) Cons.prems by blast+
  then have gone: "sound (snd (case mark_reauth w (ar_id ref) None s of (Inl e, s) \<Rightarrow> (Inl e, s) | (Inr _, s) \<Rightarrow> restore_each w cancelled arrived refs s))"
    using Cons.IH Cons.prems(1) by (cases "mark_reauth w (ar_id ref) None s"; cases "fst (mark_reauth w (ar_id ref) None s)") auto
  have back_in: "sound (snd (restore_each w cancelled True refs (snd (clientFor session (ar_id ref) t))))"
    if "register w session False s = (r, t)" for session r t
    using register_behind_sound [OF Cons.prems(1,2) a, of session] that Cons.IH [OF Cons.prems(1)] by simp
  have registers: "\<exists>t. register w session False s = (Inr (session_id session), t)" for session
    using register_behind_sound(2) [OF Cons.prems(1,2) a, of session] by (cases "register w session False s") simp
  show ?case
  proof (cases "w_restore w (ar_email ref) (ar_provider ref)")
    case (Inl e)
    then show ?thesis using gone Cons.prems(2) by (simp add: Let_def)
  next
    case (Inr got)
    then show ?thesis
    proof (cases got)
      case None
      then show ?thesis using gone Cons.prems(2) Inr by (simp add: Let_def)
    next
      case (Some session)
      obtain t where t: "register w session False s = (Inr (session_id session), t)" using registers by blast
      then show ?thesis using back_in [OF t] Cons.prems(2) Inr Some by (simp add: Let_def)
    qed
  qed
qed simp

lemma restoreRest_sound: "world_ok w \<Longrightarrow> sound s \<Longrightarrow> sv_active s \<noteq> None \<Longrightarrow> sound (snd (restoreRest w cancelled refs s))"
  using restore_each_sound [of w s cancelled False refs]
  by (cases "restore_each w cancelled False refs s"; cases "fst (restore_each w cancelled False refs s)") (auto simp: restoreRest_def)

lemma restoreOthers_sound: "world_ok w \<Longrightarrow> sound s \<Longrightarrow> sound (snd (restoreOthers w s))"
proof -
  assume ok: "world_ok w" "sound s"
  have "sv_active s \<noteq> None" if "filter (\<lambda>a. \<not> paused (Some a) \<and> sv_clients s (ar_id a) = None) (sv_accounts s) = x # xs" for x xs
  proof -
    have "sv_accounts s \<noteq> []" using that by auto
    then show ?thesis using ok(2) by (auto simp: sound_def front_loaded_def)
  qed
  then show "sound (snd (restoreOthers w s))" using restoreRest_sound [OF ok] ok(2) by (simp add: restoreOthers_def split: list.split)
qed

lemma load_ok:
  assumes "world_ok w"
  shows "\<exists>identity. load w session account s = (Inr (identity, stored_value w s account), (snd (clientFor session account s))\<lparr>sv_current := Some (fst (clientFor session account s))\<rparr>)"
proof -
  obtain identity where "w_identity w (se_email session) = Inr identity" using assms unfolding world_ok_def by blast
  moreover have "\<not> list_ex (w_unreadable w account) LOADED_STORES" using assms by (simp add: world_ok_def list_ex_iff)
  ultimately show ?thesis by (cases "sv_clients s account") (simp_all add: load_def Let_def clientFor_def stored_value_def fun_eq_iff)
qed

text \<open>A launch that is not abandoned half-way, in which nothing fails to load.\<close>

lemma open_first_sound:
  assumes "world_ok w"
  shows "sound (open_first w False cancelled others ordered wanted s)"
proof -
  have saves: "w_saves w" using assms by (simp add: world_ok_def)
  obtain account t where reg: "register w wanted True s = (Inr account, t)" using register_saved [OF saves] by blast
  have front: "sv_active t = Some account" "registry_shown t"
    using reg upsert_active by (auto simp: register_saved [OF saves] registry_shown_def upsert_is_ok accountRefFor_def)
  let ?t = "snd (clientFor wanted account t)"
  obtain identity where l: "load w wanted account ?t =
      (Inr (identity, stored_value w ?t account), (snd (clientFor wanted account ?t))\<lparr>sv_current := Some (fst (clientFor wanted account ?t))\<rparr>)"
    using load_ok [OF assms] by blast
  let ?s = "arrive wanted account (identity, stored_value w ?t account)
     ((snd (clientFor wanted account ?t))\<lparr>sv_current := Some (fst (clientFor wanted account ?t)), sv_booting := False\<rparr>)"
  have "sv_active ?s = Some account" using front(1) by (simp add: arrive_def)
  moreover have "sound ?s" using front by (auto simp: sound_def front_loaded_def registry_shown_def arrive_def)
  moreover have "open_first w False cancelled others ordered wanted s =
    (if \<not> others then ?s else snd (restoreRest w cancelled (filter (\<lambda>a. ar_id a \<noteq> account) ordered) ?s))"
    by (simp add: open_first_def reg l Let_def)
  ultimately show ?thesis using restoreRest_sound [OF assms] by simp
qed

lemma boot_sound:
  assumes "world_ok w" "sv_active s = None" "sv_accounts s = []"
  shows "sound (boot w False cancelled others s)"
proof -
  have "sound (boot_failed False e s)" "sound (s\<lparr>sv_booting := False, sv_error := err\<rparr>)" for e err
    using assms(2,3) by (simp_all add: boot_failed_def nothing_open_sound)
  then show ?thesis using open_first_sound [OF assms(1)] unfolding boot_def Let_def
    by (auto split: option.split sum.split prod.split)
qed

subsection \<open>Every history\<close>

text \<open>Any call of either service, in any order, each run to its end before the next begins, with any answers of the outside among
  which nothing fails to load, to be written or to sign out. The screens of the account settings exist only while a mailbox is open.\<close>

inductive service_reachable :: "service_state \<Rightarrow> bool" where
  launched: "world_ok w \<Longrightarrow> sv_active s = None \<Longrightarrow> sv_accounts s = [] \<Longrightarrow> service_reachable (boot w False cancelled others s)"
| switched: "service_reachable s \<Longrightarrow> world_ok w \<Longrightarrow> service_reachable (snd (switchAccount w i u s))"
| resumed: "service_reachable s \<Longrightarrow> world_ok w \<Longrightarrow> service_reachable (snd (resumeAccount w i s))"
| paused: "service_reachable s \<Longrightarrow> world_ok w \<Longrightarrow> service_reachable (snd (pauseAccount w i s))"
| lost: "service_reachable s \<Longrightarrow> world_ok w \<Longrightarrow> service_reachable (lose_grant w reason account s)"
| signed_in: "service_reachable s \<Longrightarrow> world_ok w \<Longrightarrow> service_reachable (snd (signIn w s))"
| signed_out: "service_reachable s \<Longrightarrow> world_ok w \<Longrightarrow> service_reachable (snd (signOut w s))"
| removed: "service_reachable s \<Longrightarrow> world_ok w \<Longrightarrow> service_reachable (snd (remove_account w i s))"
| reset: "service_reachable s \<Longrightarrow> service_reachable (resetAccount w i scope s)"
| merged: "service_reachable s \<Longrightarrow> world_ok w \<Longrightarrow> sv_active s \<noteq> None \<Longrightarrow> service_reachable (snd (setUnified w b s))"
| updated: "service_reachable s \<Longrightarrow> world_ok w \<Longrightarrow> sv_active s \<noteq> None \<Longrightarrow> service_reachable (snd (updateAccount w i patch window s))"
| restored: "service_reachable s \<Longrightarrow> world_ok w \<Longrightarrow> service_reachable (snd (restoreOthers w s))"
| saved: "service_reachable s \<Longrightarrow> service_reachable (snd (save_store base v s))"

lemma save_sound: "sound s \<Longrightarrow> sound (snd (save_store base v s))"
  by (auto simp: save_store_def option.map_comp comp_def case_prod_beta intro: sound_update split: option.split)

lemma reachable_sound: "service_reachable s \<Longrightarrow> sound s"
proof (induction rule: service_reachable.induct)
  case (merged s w b)
  then obtain a where "sv_active s = Some a" by blast
  then show ?case using merged unified_set_sound by blast
qed (simp_all add: boot_sound switching_sound pause_sound lose_grant_sound signIn_sound signOut_sound remove_sound reset_sound
  update_sound restoreOthers_sound save_sound)

end
