(* ===== verification/Front_Changes.thy ===== *)
theory Front_Changes
  imports Account_Service_Laws
begin

text \<open>Where the front goes when a load fails, when a mailbox is removed and when a grant is lost.\<close>


lemma switch_live:
  assumes "Some j \<noteq> sv_active s" "\<not> paused (ref_of j s)" "sv_sessions s j = Some session"
  shows "switchAccount w j u s = (Inr (), bring_front w j (case u of Some b \<Rightarrow> b | None \<Rightarrow> sv_unified s) session s)"
  using assms by (simp add: switchAccount.simps Let_def)

subsection \<open>A load that fails\<close>

text \<open>C25 One store that fails to authenticate is enough: the other mailbox is in front and is the one whose stores are written, while
  what is in memory, and so what the next change writes, is still the mailbox that was left.\<close>

theorem failed_load_mixes_accounts:
  assumes "w_saves w" and "sound s" and "sv_active s = Some a" and "sv_memory s = Some (a, m)"
    and "b \<noteq> a" and "\<not> paused (ref_of b s)" and "sv_sessions s b = Some session" and "session_id session = b"
    and "list_ex (w_unreadable w b) LOADED_STORES" and "w_identity w (se_email session) = Inr identity"
    and after: "s' = snd (switchAccount w b u s)"
  shows "sv_active s' = Some b \<and> sv_memory s' = Some (a, m) \<and> sv_error s' = Some ''unauthentic'' \<and> sv_switching s' = False \<and>
    sv_disk (snd (save_store base (m base) s')) b base = Some (m base)"
proof -
  let ?ref = "accountRefFor (se_provider session) (se_email session) (se_name session) (se_photo session)"
  have front: "ac_active (upsertAccount st ?ref True) = Some b" for st using upsert_active [of st ?ref] assms(8) by (simp add: accountRefFor_def)
  define unified where "unified = (case u of Some x \<Rightarrow> x | None \<Rightarrow> sv_unified s)"
  have switched: "s' = bring_front w b unified session s" unfolding after unified_def using assms(3,5-7) by (simp add: switch_live)
  have attached: "fst (attach w session t) = Inl ''unauthentic''" "sv_active (snd (attach w session t)) = Some b"
    "sv_memory (snd (attach w session t)) = sv_memory t" for t
    using assms(1,8-10) front by (simp_all add: attach_def register_saved load_def clientFor_def Let_def split: option.split)
  let ?ac = "(loadAccounts s)\<lparr>ac_active := Some b, ac_unified := unified\<rparr>"
  obtain v where v: "persist w ?ac (s\<lparr>sv_switching := True, sv_error := None\<rparr>) = (Inr (normalise_accounts ?ac), v)" "sv_memory v = sv_memory s"
    by (simp add: persist_ok [OF assms(1)])
  obtain t where t: "attach w session v = (Inl ''unauthentic'', t)" "sv_active t = Some b" "sv_memory t = Some (a, m)"
    using attached [of v] v(2) assms(4) by (cases "attach w session v") simp
  have loads: "loadAccounts (s\<lparr>sv_switching := True, sv_error := None\<rparr>) = loadAccounts s" by (simp add: loadAccounts_def)
  have "s' = refreshInbox (t\<lparr>sv_error := Some ''unauthentic'', sv_switching := False\<rparr>)"
    unfolding switched by (simp only: bring_front_def Let_def loads v(1) caught_def prod.case sum.case t(1))
  then have "sv_active s' = Some b \<and> sv_memory s' = Some (a, m) \<and> sv_error s' = Some ''unauthentic'' \<and> sv_switching s' = False"
    using t(2,3) by (simp add: refreshInbox_def note_event_def)
  then show ?thesis by (simp add: save_store_def)
qed

subsection \<open>Removing the mailbox in front\<close>

lemma removal_registry:
  assumes "sv_accounts s = ac_accounts (sv_registry s)" "accounts_ok (sv_registry s)" "ac_active (sv_registry s) = Some i"
    and "filter (\<lambda>a. ar_id a \<noteq> i) (sv_accounts s) = first # others"
  shows "ac_active (removeAccount (normalise_accounts (sv_registry s)) i) = Some (ar_id first)"
    "map ar_id (ac_accounts (removeAccount (normalise_accounts (sv_registry s)) i)) = map ar_id (first # others)"
  using assms unfolding normalise_unchanged [OF assms(2)] removeAccount_def Let_def by (simp_all add: normalise_fields)

text \<open>C26 The mailbox that takes over is the first one left, whatever its state. If its session is gone (it needs a new sign-in, or is
  paused since the launch) the whole app is signed out and forgets every mailbox, those that are connected included, with
  their data still on disk; if it is paused with its session held, it comes to the front and syncs, and stays marked paused.\<close>

theorem removal_takes_first_left:
  assumes "world_ok w" and "sound s" and "sv_active s = Some i" and agrees: "\<forall>g. w_signOut w g = None"
    and left: "filter (\<lambda>a. ar_id a \<noteq> i) (sv_accounts s) = first # others"
    and after: "s' = snd (remove_account w i s)"
  shows "case sv_sessions s (ar_id first) of
      None \<Rightarrow> sv_accounts s' = [] \<and> sv_active s' = None \<and> sv_registry s' = NO_ACCOUNTS \<and> sv_clients s' = (\<lambda>_. None) \<and>
        AuthSignedOut None \<in> set (sv_events s') \<and> (\<forall>j. j \<noteq> i \<longrightarrow> sv_disk s' j = sv_disk s j)
    | Some session \<Rightarrow> session_id session = ar_id first \<longrightarrow>
        sv_active s' = Some (ar_id first) \<and> sv_clients s' (ar_id first) \<noteq> None"
proof -
  have saves: "w_saves w" using assms(1) by (simp add: world_ok_def)
  have other: "ar_id first \<noteq> i" using left by (metis (mono_tags, lifting) filter_eq_ConsD)
  obtain t where t: "remove_account w i s = move_on w i t" "sv_registry t = sv_registry s" "sv_sessions t = (sv_sessions s)(i := None)"
    "\<forall>j. j \<noteq> i \<longrightarrow> sv_disk t j = sv_disk s j"
    using agrees by (cases "grant_of i s") (auto simp: remove_account_def Let_def erase_account_def note_event_def forget_stores_def)
  note front = sound_front [OF assms(2,3)]
  have next_front: "ac_active (removeAccount (loadAccounts t) i) = Some (ar_id first)"
    unfolding loadAccounts_def t(2) by (rule removal_registry(1) [OF front(4) [symmetric] front(5,2) left])
  have saved: "normalise_accounts (removeAccount (loadAccounts t) i) = removeAccount (loadAccounts t) i"
    by (simp add: removeAccount_def Let_def normalise_unchanged normalise_is_ok)
  obtain u where u: "persist w (removeAccount (loadAccounts t) i) t = (Inr (removeAccount (loadAccounts t) i), u)"
    "sv_sessions u = sv_sessions t" "sv_disk u = sv_disk t"
    by (simp add: persist_ok [OF saves] saved)
  have held: "sv_sessions u (ar_id first) = sv_sessions s (ar_id first)" using u(2) t(3) other by simp
  show ?thesis
  proof (cases "sv_sessions s (ar_id first)")
    case None
    then have "s' = snd (signOut w u)" unfolding after t(1) using held by (simp add: move_on_def u(1) next_front)
    moreover have "normalise_accounts NO_ACCOUNTS = NO_ACCOUNTS" by (simp add: normalise_unchanged accounts_ok_def NO_ACCOUNTS_def)
    ultimately show ?thesis using None agrees saves u(3) t(4) by (simp add: signOut_def Let_def note_event_def)
  next
    case (Some session)
    obtain v where v: "attach w session u = (Inr (), v)" "sv_active v = Some (session_id session)" "sv_clients v (session_id session) \<noteq> None"
      by (rule attach_ok [OF assms(1), where session = session and s = u], rule that)
    have "s' = refreshInbox v" unfolding after t(1) using held Some by (simp add: move_on_def u(1) next_front v(1))
    then show ?thesis using Some v(2,3) by auto
  qed
qed

subsection \<open>Losing a grant\<close>



subsection \<open>Two and three mailboxes\<close>

definition sample_session :: "provider \<Rightarrow> string \<Rightarrow> session" where
  "sample_session p e = \<lparr>se_provider = p, se_email = e, se_name = None, se_photo = None\<rparr>"

definition sample_world :: "string \<Rightarrow> session \<Rightarrow> world" where
  "sample_world broken session =
     \<lparr>w_saves = True, w_identity = (\<lambda>_. Inr None), w_unreadable = (\<lambda>a b. a = broken), w_fallback = (\<lambda>_. JNull), w_reader = (\<lambda>_ v. v),
      w_restore = (\<lambda>_ _. Inr None), w_restore_any = Inr None, w_signIn = Inr session, w_signOut = (\<lambda>_. None), w_storage = None\<rparr>"

definition quiet_world :: "session \<Rightarrow> world" where
  "quiet_world session = (sample_world [] session)\<lparr>w_unreadable := (\<lambda>_ _. False)\<rparr>"

lemma quiet_world_ok: "world_ok (quiet_world session)"
  by (simp add: world_ok_def quiet_world_def sample_world_def)

definition nothing_open :: service_state where
  "nothing_open =
     \<lparr>sv_sessions = (\<lambda>_. None), sv_clients = (\<lambda>_. None), sv_current = None, sv_session = None, sv_accounts = [], sv_active = None,
      sv_unified = False, sv_reauth = [], sv_error = None, sv_switching = False, sv_adding = False, sv_booting = True, sv_identity = None,
      sv_memory = None, sv_listed = None, sv_registry = NO_ACCOUNTS, sv_disk = (\<lambda>_ _. None), sv_events = []\<rparr>"

abbreviation sign_in_to :: "provider \<Rightarrow> string \<Rightarrow> service_state \<Rightarrow> service_state" where
  "sign_in_to p e s \<equiv> snd (signIn (quiet_world (sample_session p e)) s)"

definition two_open :: service_state where
  "two_open = sign_in_to Imap ''me@y.org'' (sign_in_to Gmail ''me@x.org'' (boot (quiet_world (sample_session Gmail [])) False (\<lambda>_. False) True nothing_open))"

lemma two_open_reachable: "service_reachable two_open"
  unfolding two_open_def
  by (intro service_reachable.intros quiet_world_ok) (simp_all add: nothing_open_def)

lemma two_open_fields:
  "sv_active two_open = Some ''imap:me@y.org''" "map ar_id (sv_accounts two_open) = [''gmail:me@x.org'', ''imap:me@y.org'']"
  "list_all (\<lambda>a. \<not> paused (Some a)) (sv_accounts two_open)"
  "sv_sessions two_open ''gmail:me@x.org'' = Some (sample_session Gmail ''me@x.org'')"
  by code_simp+


theorem failed_load_mixes_accounts_witness:
  "sv_active (snd (switchAccount (sample_world ''gmail:me@x.org'' (sample_session Gmail [])) ''gmail:me@x.org'' None two_open)) = Some ''gmail:me@x.org'' \<and>
   map_option fst (sv_memory (snd (switchAccount (sample_world ''gmail:me@x.org'' (sample_session Gmail [])) ''gmail:me@x.org'' None two_open))) = Some ''imap:me@y.org''"
proof -
  let ?w = "sample_world ''gmail:me@x.org'' (sample_session Gmail [])"
  obtain m where m: "sv_memory two_open = Some (''imap:me@y.org'', m)"
    using reachable_sound [OF two_open_reachable] two_open_fields(1) by (auto simp: sound_def front_loaded_def)
  have w: "w_saves ?w" "list_ex (w_unreadable ?w ''gmail:me@x.org'') LOADED_STORES" "w_identity ?w (se_email (sample_session Gmail ''me@x.org'')) = Inr None"
    by (simp_all add: sample_world_def LOADED_STORES_def)
  have away: "''gmail:me@x.org'' \<noteq> ''imap:me@y.org''" "\<not> paused (ref_of ''gmail:me@x.org'' two_open)"
    "session_id (sample_session Gmail ''me@x.org'') = ''gmail:me@x.org''" by code_simp+
  show ?thesis
    using failed_load_mixes_accounts [OF w(1) reachable_sound [OF two_open_reachable] two_open_fields(1) m away(1,2) two_open_fields(4) away(3) w(2,3) refl, of None] m
    by simp
qed


text \<open>Three mailboxes, the last in front and about to be removed; the first has lost its grant, the second is connected.\<close>

definition three_open :: service_state where
  "three_open = drop_grant ''gmail:me@x.org'' (Some ''gone'') (sign_in_to Outlook ''me@z.org'' two_open)"

lemma three_open_reachable: "service_reachable three_open"
proof -
  let ?w = "quiet_world (sample_session Gmail [])"
  let ?s = "sign_in_to Outlook ''me@z.org'' two_open"
  have "service_reachable ?s" by (intro service_reachable.intros two_open_reachable quiet_world_ok)
  then have "service_reachable (lose_grant ?w ''gone'' (Some ''gmail:me@x.org'') ?s)" by (rule service_reachable.lost) (rule quiet_world_ok)
  moreover have "list_ex (\<lambda>a. ar_id a \<noteq> ''gmail:me@x.org'' \<and> sv_sessions ?s (ar_id a) \<noteq> None) (sv_accounts ?s)" "sv_active ?s = Some ''outlook:me@z.org''"
    by code_simp+
  ultimately show ?thesis by (simp add: lose_grant_def three_open_def mark_reauth.simps Let_def)
qed

theorem removal_takes_first_left_witness:
  "sv_sessions three_open ''imap:me@y.org'' \<noteq> None \<and>
   sv_accounts (snd (remove_account (quiet_world (sample_session Gmail [])) ''outlook:me@z.org'' three_open)) = []"
proof -
  have front: "sv_active three_open = Some ''outlook:me@z.org''" by code_simp
  have agrees: "\<forall>g. w_signOut (quiet_world (sample_session Gmail [])) g = None" by (simp add: quiet_world_def sample_world_def)
  have gone: "sv_sessions three_open ''gmail:me@x.org'' = None" "sv_sessions three_open ''imap:me@y.org'' \<noteq> None" by code_simp+
  have "map ar_id (filter (\<lambda>a. ar_id a \<noteq> ''outlook:me@z.org'') (sv_accounts three_open)) = [''gmail:me@x.org'', ''imap:me@y.org'']" by code_simp
  then obtain first others where left: "filter (\<lambda>a. ar_id a \<noteq> ''outlook:me@z.org'') (sv_accounts three_open) = first # others"
    "ar_id first = ''gmail:me@x.org''" by auto
  show ?thesis
    using removal_takes_first_left [OF quiet_world_ok reachable_sound [OF three_open_reachable] front agrees left(1) refl] gone left(2) by simp
qed

end
