(* ===== verification/Mailbox_Export.thy ===== *)
theory Mailbox_Export
  imports Mailbox_State Mbox
begin

text \<open>
  A whole mailbox out of the provider (\<^verbatim>\<open>exportMailbox\<close>, \<^verbatim>\<open>findEncrypted\<close> and \<^verbatim>\<open>trashEncrypted\<close> of \<^verbatim>\<open>state/accounts.ts\<close>)
  and the waiting out of its rate limit (\<^verbatim>\<open>mail/rateLimit.ts\<close>). Paging may not end, so it is a partial function. What the
  provider answers depends on how often it was asked; progress callbacks are left out.
\<close>

datatype provider_error = MailFailure nat string | AuthFailure string | OtherFailure string

definition isRateLimited :: "provider_error \<Rightarrow> bool" where
  "isRateLimited e =
     (case e of
        MailFailure status m \<Rightarrow> status = 429 \<or> status = 403 \<and> (includes_ci m ''quota'' \<or> includes_ci m ''ratelimit'' \<or> includes_ci m ''rate limit'')
      | _ \<Rightarrow> False)"

definition RATE_LIMIT_DELAYS_MS :: "nat list" where
  "RATE_LIMIT_DELAYS_MS = [2000, 5000, 15000, 30000, 60000]"

text \<open>\<open>work n\<close> is the answer to the n-th call; the result comes with the number of calls so far and the time waited.\<close>

fun withRateLimitRetry :: "nat list \<Rightarrow> (nat \<Rightarrow> provider_error + 'a) \<Rightarrow> nat \<Rightarrow> (provider_error + 'a) \<times> nat \<times> nat" where
  "withRateLimitRetry [] work n = (work n, Suc n, 0)"
| "withRateLimitRetry (d # ds) work n =
     (case work n of
        Inr x \<Rightarrow> (Inr x, Suc n, 0)
      | Inl e \<Rightarrow>
          if \<not> isRateLimited e then (Inl e, Suc n, 0)
          else (case withRateLimitRetry ds work (Suc n) of (r, k, ms) \<Rightarrow> (r, k, d + ms)))"

record export_world =
  xw_list :: "nat \<Rightarrow> mailbox \<Rightarrow> string option \<Rightarrow> provider_error + mail_summary list \<times> string option"
  xw_raw :: "string \<Rightarrow> nat \<Rightarrow> provider_error + string"
  xw_trash :: "string \<Rightarrow> nat \<Rightarrow> provider_error + unit"
  xw_date :: "string \<Rightarrow> utc_time option"
  xw_now :: utc_time

datatype export_error = NotSyncing | Provider provider_error

definition EXPORT_BOXES :: "mailbox list" where
  "EXPORT_BOXES = [InboxMail, BoxMail SentBox, BoxMail ArchiveBox]"

definition EXPORT_CONCURRENCY :: nat where
  "EXPORT_CONCURRENCY = 5"

subsection \<open>Listing\<close>

definition add_unseen :: "mail_summary list \<Rightarrow> mail_summary \<Rightarrow> mail_summary list" where
  "add_unseen rows row = (if sm_id row \<in> set (map sm_id rows) then rows else rows @ [row])"

partial_function (option) list_pages ::
    "export_world \<Rightarrow> mailbox \<Rightarrow> string option \<Rightarrow> nat \<Rightarrow> mail_summary list \<Rightarrow> (provider_error + mail_summary list \<times> nat) option" where
  "list_pages w b token n rows =
     (case withRateLimitRetry RATE_LIMIT_DELAYS_MS (\<lambda>k. xw_list w k b token) n of
        (Inl e, _) \<Rightarrow> Some (Inl e)
      | (Inr page, n, _) \<Rightarrow>
          if snd page = None \<or> snd page = Some [] then Some (Inr (foldl add_unseen rows (fst page), n))
          else list_pages w b (snd page) n (foldl add_unseen rows (fst page)))"

declare list_pages.simps [code]

fun list_boxes :: "export_world \<Rightarrow> mailbox list \<Rightarrow> nat \<Rightarrow> mail_summary list \<Rightarrow> (provider_error + mail_summary list) option" where
  "list_boxes w [] n rows = Some (Inr rows)"
| "list_boxes w (b # bs) n rows =
     (case list_pages w b None n rows of
        None \<Rightarrow> None
      | Some (Inl e) \<Rightarrow> Some (Inl e)
      | Some (Inr (rows, n)) \<Rightarrow> list_boxes w bs n rows)"

definition isSealedMail :: "mail_summary \<Rightarrow> bool" where
  "isSealedMail row \<longleftrightarrow> js_trim (sm_subject row) = PLACEHOLDER_SUBJECT"

definition findEncrypted :: "export_world \<Rightarrow> bool \<Rightarrow> (export_error + string list) option" where
  "findEncrypted w syncing =
     (if \<not> syncing then Some (Inl NotSyncing)
      else map_option (\<lambda>r. case r of Inl e \<Rightarrow> Inl (Provider e) | Inr rows \<Rightarrow> Inr (map sm_id (filter isSealedMail rows))) (list_boxes w EXPORT_BOXES 0 []))"

subsection \<open>Fetching and writing\<close>

fun in_batches :: "nat \<Rightarrow> 'a list \<Rightarrow> 'a list list" where
  "in_batches k [] = []"
| "in_batches k (x # xs) = take (Suc k) (x # xs) # in_batches k (drop (Suc k) (x # xs))"

definition auth_failures :: "(provider_error + 'a) list \<Rightarrow> provider_error list" where
  "auth_failures rs = concat (map (\<lambda>r. case r of Inl (AuthFailure m) \<Rightarrow> [AuthFailure m] | _ \<Rightarrow> []) rs)"

definition fetch_raw :: "export_world \<Rightarrow> mail_summary \<Rightarrow> provider_error + string" where
  "fetch_raw w row = fst (withRateLimitRetry RATE_LIMIT_DELAYS_MS (xw_raw w (sm_id row)) 0)"

definition entry_of :: "export_world \<Rightarrow> mail_summary \<Rightarrow> mbox_entry list" where
  "entry_of w row =
     (case fetch_raw w row of
        Inl _ \<Rightarrow> []
      | Inr raw \<Rightarrow> [\<lparr>mx_from = Some (sm_from_address row), mx_date = xw_date w (sm_date row), mx_raw = raw\<rparr>])"

text \<open>The requests of a batch go out together; a dead grant among their answers ends the export. What is kept of the others: the
  messages written so far and how many were skipped.\<close>

fun fetch_batches :: "export_world \<Rightarrow> mail_summary list list \<Rightarrow> mbox_entry list \<times> nat \<Rightarrow> provider_error + mbox_entry list \<times> nat" where
  "fetch_batches w [] acc = Inr acc"
| "fetch_batches w (batch # bs) (entries, skipped) =
     (case auth_failures (map (fetch_raw w) batch) of
        e # _ \<Rightarrow> Inl e
      | [] \<Rightarrow>
          fetch_batches w bs
            (entries @ concat (map (entry_of w) batch),
             skipped + length (filter (\<lambda>row. isl (fetch_raw w row)) batch)))"

record export_result =
  xr_written :: nat
  xr_skipped :: nat
  xr_file :: "(string \<times> string) option"

definition exportMailbox :: "export_world \<Rightarrow> string option \<Rightarrow> (export_error + export_result) option" where
  "exportMailbox w client =
     (case client of
        None \<Rightarrow> Some (Inl NotSyncing)
      | Some address \<Rightarrow>
          (case list_boxes w EXPORT_BOXES 0 [] of
             None \<Rightarrow> None
           | Some (Inl e) \<Rightarrow> Some (Inl (Provider e))
           | Some (Inr rows) \<Rightarrow>
               if rows = [] then Some (Inr \<lparr>xr_written = 0, xr_skipped = 0, xr_file = None\<rparr>)
               else (case fetch_batches w (in_batches (EXPORT_CONCURRENCY - 1) rows) ([], 0) of
                       Inl e \<Rightarrow> Some (Inl (Provider e))
                     | Inr (entries, skipped) \<Rightarrow>
                         Some (Inr \<lparr>xr_written = length entries, xr_skipped = skipped,
                                    xr_file = (if entries = [] then None
                                               else Some (mboxFilename address (xw_now w), toMbox (xw_now w) entries))\<rparr>))))"

subsection \<open>Moving sealed mail to the trash\<close>

definition drop_rows :: "string \<Rightarrow> string list \<Rightarrow> mailbox_state \<Rightarrow> mailbox_state" where
  "drop_rows account ids s =
     (if ids = [] then s
      else let keep = filter (\<lambda>row. \<not> (ii_account row = account \<and> sm_id row \<in> set ids))
           in s\<lparr>mb_messages := keep (mb_messages s), mb_boxes := (\<lambda>b. (mb_boxes s b)\<lparr>bx_items := keep (bx_items (mb_boxes s b))\<rparr>)\<rparr>)"

definition trash_one :: "export_world \<Rightarrow> string \<Rightarrow> provider_error + unit" where
  "trash_one w i = fst (withRateLimitRetry RATE_LIMIT_DELAYS_MS (xw_trash w i) 0)"

text \<open>The messages gone, how many failed, the error that ended it.\<close>

fun trash_batches :: "export_world \<Rightarrow> string list list \<Rightarrow> string list \<times> nat \<Rightarrow> (string list \<times> nat) \<times> provider_error option" where
  "trash_batches w [] acc = (acc, None)"
| "trash_batches w (batch # bs) (gone, failed) =
     (case auth_failures (map (trash_one w) batch) of
        e # _ \<Rightarrow> ((gone, failed), Some e)
      | [] \<Rightarrow> trash_batches w bs (gone @ filter (\<lambda>i. \<not> isl (trash_one w i)) batch, failed + length (filter (\<lambda>i. isl (trash_one w i)) batch)))"

definition trashEncrypted :: "export_world \<Rightarrow> bool \<Rightarrow> string \<Rightarrow> string list \<Rightarrow> mailbox_state \<Rightarrow> (export_error + nat \<times> nat) \<times> mailbox_state" where
  "trashEncrypted w syncing account ids s =
     (if \<not> syncing then (Inl NotSyncing, s)
      else (case trash_batches w (in_batches (EXPORT_CONCURRENCY - 1) ids) ([], 0) of
              ((gone, failed), e) \<Rightarrow>
                ((case e of Some e \<Rightarrow> Inl (Provider e) | None \<Rightarrow> Inr (length (remdups gone), failed)), drop_rows account gone s)))"

end
