(* ===== verification/Export_Laws.thy ===== *)
theory Export_Laws
  imports Mailbox_Export
begin

text \<open>When an export ends and what it contains, how long a rate limit is waited out, and what a sweep to the trash leaves on screen.\<close>

subsection \<open>Waiting\<close>

lemma retry_laws:
  assumes "withRateLimitRetry ds work n = (r, k, ms)"
  shows "n < k \<and> k \<le> Suc (n + length ds) \<and> r = work (k - 1) \<and> ms = sum_list (take (k - Suc n) ds) \<and>
    (\<forall>j. n \<le> j \<and> Suc j < k \<longrightarrow> (case work j of Inl e \<Rightarrow> isRateLimited e | Inr _ \<Rightarrow> False)) \<and>
    (case r of Inl e \<Rightarrow> isRateLimited e \<longrightarrow> k = Suc (n + length ds) | Inr _ \<Rightarrow> True)"
  using assms
proof (induction ds arbitrary: n ms)
  case Nil
  then show ?case by (auto split: sum.splits)
next
  case (Cons d ds)
  show ?case
  proof (cases "\<exists>e. work n = Inl e \<and> isRateLimited e")
    case False
    then show ?thesis using Cons.prems by (auto split: sum.splits)
  next
    case True
    then obtain e where e: "work n = Inl e" "isRateLimited e" by blast
    then obtain ms' where again: "withRateLimitRetry ds work (Suc n) = (r, k, ms')" "ms = d + ms'"
      using Cons.prems by (auto split: prod.splits)
    note laws = Cons.IH [OF again(1)]
    have "k - Suc n = Suc (k - Suc (Suc n))" using laws by linarith
    then have "ms = sum_list (take (k - Suc n) (d # ds))" using laws again(2) by simp
    moreover have "case work j of Inl e \<Rightarrow> isRateLimited e | Inr _ \<Rightarrow> False" if "n \<le> j \<and> Suc j < k" for j
      using laws that e by (cases "j = n") auto
    ultimately show ?thesis using laws by (auto split: sum.splits)
  qed
qed

lemma sum_take_le: "sum_list (take j xs) \<le> sum_list (xs :: nat list)"
  using sum_list_append [of "take j xs" "drop j xs"] by (metis append_take_drop_id le_add1)

text \<open>At most six calls and a hundred and twelve seconds; every answer but the last said to slow down, the last is what is
  returned, and the limit itself is returned only when all six calls met it.\<close>

theorem rate_limit_waited_out:
  assumes "withRateLimitRetry RATE_LIMIT_DELAYS_MS work 0 = (r, k, ms)"
  shows "0 < k \<and> k \<le> 6 \<and> ms \<le> 112000 \<and> r = work (k - 1) \<and>
    (\<forall>j < k - 1. \<exists>e. work j = Inl e \<and> isRateLimited e) \<and> (\<forall>e. r = Inl e \<and> isRateLimited e \<longrightarrow> k = 6)"
proof -
  have delays: "length RATE_LIMIT_DELAYS_MS = 5" "sum_list RATE_LIMIT_DELAYS_MS = 112000" by (simp_all add: RATE_LIMIT_DELAYS_MS_def)
  note laws = retry_laws [OF assms, unfolded delays(1)]
  have "ms \<le> 112000" using laws sum_take_le [of _ RATE_LIMIT_DELAYS_MS] unfolding delays(2) by simp
  moreover have "\<exists>e. work j = Inl e \<and> isRateLimited e" if "j < k - 1" for j
  proof -
    have "Suc j < k" using that by linarith
    then have "case work j of Inl e \<Rightarrow> isRateLimited e | Inr _ \<Rightarrow> False" using laws by simp
    then show ?thesis by (cases "work j") simp_all
  qed
  ultimately show ?thesis using laws by auto
qed

subsection \<open>Listing\<close>

lemma add_unseen_laws:
  assumes "distinct (map sm_id rows)"
  shows "distinct (map sm_id (foldl add_unseen rows page))" "set (map sm_id (foldl add_unseen rows page)) = set (map sm_id rows) \<union> set (map sm_id page)"
    "set (foldl add_unseen rows page) \<subseteq> set rows \<union> set page" "prefix rows (foldl add_unseen rows page)"
proof -
  have "distinct (map sm_id (foldl add_unseen rows page)) \<and> set (map sm_id (foldl add_unseen rows page)) = set (map sm_id rows) \<union> set (map sm_id page) \<and>
    set (foldl add_unseen rows page) \<subseteq> set rows \<union> set page \<and> prefix rows (foldl add_unseen rows page)"
    using assms
  proof (induction page arbitrary: rows)
    case (Cons row page)
    have added: "distinct (map sm_id (add_unseen rows row))" "set (map sm_id (add_unseen rows row)) = insert (sm_id row) (set (map sm_id rows))"
      "set (add_unseen rows row) \<subseteq> insert row (set rows)" "prefix rows (add_unseen rows row)"
      using Cons.prems by (auto simp: add_unseen_def)
    show ?case using Cons.IH [OF added(1)] added(2-4) by (auto intro: prefix_order.trans)
  qed simp
  then show "distinct (map sm_id (foldl add_unseen rows page))" "set (map sm_id (foldl add_unseen rows page)) = set (map sm_id rows) \<union> set (map sm_id page)"
    "set (foldl add_unseen rows page) \<subseteq> set rows \<union> set page" "prefix rows (foldl add_unseen rows page)" by blast+
qed

text \<open>Pages whose tokens go down some order end; a provider that hands the same token back is asked for ever.\<close>

definition pages_descend :: "export_world \<Rightarrow> (mailbox \<Rightarrow> string option \<Rightarrow> nat) \<Rightarrow> bool" where
  "pages_descend w rank \<longleftrightarrow>
     (\<forall>n b token page tok. xw_list w n b token = Inr (page, Some tok) \<longrightarrow> tok \<noteq> [] \<longrightarrow> rank b (Some tok) < rank b token)"

lemma list_pages_ends: "pages_descend w rank \<Longrightarrow> \<exists>r. list_pages w b token n rows = Some r"
proof (induction "rank b token" arbitrary: token n rows rule: less_induct)
  case less
  obtain r k ms where got: "withRateLimitRetry RATE_LIMIT_DELAYS_MS (\<lambda>k. xw_list w k b token) n = (r, k, ms)" by (metis prod_cases3)
  show ?case
  proof (cases r)
    case (Inl e)
    then show ?thesis by (subst list_pages.simps) (simp add: got)
  next
    case (Inr page)
    obtain rows' next_token where page: "page = (rows', next_token)" by (cases page)
    have answered: "xw_list w (k - 1) b token = Inr (rows', next_token)" using retry_laws [OF got] Inr page by simp
    show ?thesis
    proof (cases "next_token = None \<or> next_token = Some []")
      case True
      then show ?thesis by (subst list_pages.simps) (simp add: got Inr page)
    next
      case False
      then obtain tok where tok: "next_token = Some tok" "tok \<noteq> []" by auto
      then have "rank b next_token < rank b token" using less.prems answered unfolding pages_descend_def by blast
      then obtain r' where "list_pages w b next_token k (foldl add_unseen rows rows') = Some r'" using less.hyps [OF _ less.prems] by blast
      then show ?thesis using False by (subst list_pages.simps) (simp add: got Inr page)
    qed
  qed
qed

lemma list_boxes_ends: "pages_descend w rank \<Longrightarrow> \<exists>r. list_boxes w bs n rows = Some r"
proof (induction bs arbitrary: n rows)
  case (Cons b bs)
  obtain r where "list_pages w b None n rows = Some r" using list_pages_ends [OF Cons.prems] by blast
  then show ?case using Cons.IH [OF Cons.prems] by (cases r) auto
qed simp

lemma list_pages_repeats:
  assumes "\<forall>n. xw_list w n b token = Inr (page, Some tok) \<and> xw_list w n b (Some tok) = Inr (page, Some tok)" and "tok \<noteq> []"
  shows "list_pages w b token n rows = None"
proof -
  let ?never = "\<lambda>w' b' t (n :: nat) (rows :: mail_summary list) (r :: provider_error + mail_summary list \<times> nat). \<not> (w' = w \<and> b' = b \<and> t \<in> {token, Some tok})"
  have never: "?never w' b' t n rows r" if defined: "list_pages w' b' t n rows = Some r" for w' b' t n rows r
  proof (rule list_pages.raw_induct [where P = ?never, OF _ defined])
    fix again w' b' t n and rows :: "mail_summary list" and r :: "provider_error + mail_summary list \<times> nat"
    assume IH: "\<And>w' b' t n rows r. again w' b' t n rows = Some r \<Longrightarrow> ?never w' b' t n rows r"
    assume eq: "(case withRateLimitRetry RATE_LIMIT_DELAYS_MS (\<lambda>k. xw_list w' k b' t) n of
        (Inl e, _) \<Rightarrow> Some (Inl e)
      | (Inr page, n, _) \<Rightarrow>
          if snd page = None \<or> snd page = Some [] then Some (Inr (foldl add_unseen rows (fst page), n))
          else again w' b' (snd page) n (foldl add_unseen rows (fst page))) = Some r"
    show "?never w' b' t n rows r"
    proof
      assume here: "w' = w \<and> b' = b \<and> t \<in> {token, Some tok}"
      then have "\<forall>k. xw_list w k b t = Inr (page, Some tok)" using assms(1) by auto
      then have "withRateLimitRetry RATE_LIMIT_DELAYS_MS (\<lambda>k. xw_list w' k b' t) n = (Inr (page, Some tok), Suc n, 0)"
        using here by (simp add: RATE_LIMIT_DELAYS_MS_def)
      then have "again w' b' (Some tok) (Suc n) (foldl add_unseen rows page) = Some r" using eq assms(2) by simp
      then show False using IH here by blast
    qed
  qed
  show ?thesis using never [of w b token n rows] by (cases "list_pages w b token n rows") auto
qed

text \<open>C28 An export returns whenever the provider's pages come to an end, whatever fails meanwhile; it does not return from a
  provider that answers a page with the token that page was asked with.\<close>

theorem export_ends:
  "(pages_descend w rank \<longrightarrow> (\<exists>r. exportMailbox w client = Some r) \<and> (\<exists>r. findEncrypted w syncing = Some r)) \<and>
   (tok \<noteq> [] \<and> (\<forall>n. xw_list w n InboxMail None = Inr (page, Some tok) \<and> xw_list w n InboxMail (Some tok) = Inr (page, Some tok)) \<longrightarrow>
     exportMailbox w (Some address) = None)"
proof (intro conjI impI)
  show "\<exists>r. exportMailbox w client = Some r" if "pages_descend w rank"
    using list_boxes_ends [OF that, of EXPORT_BOXES 0 "[]"] by (cases client) (auto simp: exportMailbox_def split: sum.splits)
  show "\<exists>r. findEncrypted w syncing = Some r" if "pages_descend w rank"
    using list_boxes_ends [OF that, of EXPORT_BOXES 0 "[]"] by (auto simp: findEncrypted_def)
  show "exportMailbox w (Some address) = None"
    if "tok \<noteq> [] \<and> (\<forall>n. xw_list w n InboxMail None = Inr (page, Some tok) \<and> xw_list w n InboxMail (Some tok) = Inr (page, Some tok))"
    using that list_pages_repeats [of w InboxMail None page tok] by (simp add: exportMailbox_def EXPORT_BOXES_def)
qed

subsection \<open>What an export contains\<close>

text \<open>The pages the provider answers from a token on, as they are asked for.\<close>

inductive paged :: "export_world \<Rightarrow> mailbox \<Rightarrow> string option \<Rightarrow> nat \<Rightarrow> mail_summary list list \<Rightarrow> nat \<Rightarrow> bool" where
  final: "withRateLimitRetry RATE_LIMIT_DELAYS_MS (\<lambda>k. xw_list w k b token) n = (Inr (page, tok), k, ms) \<Longrightarrow> tok = None \<or> tok = Some [] \<Longrightarrow>
    paged w b token n [page] k"
| onward: "withRateLimitRetry RATE_LIMIT_DELAYS_MS (\<lambda>k. xw_list w k b token) n = (Inr (page, Some tok), k, ms) \<Longrightarrow> tok \<noteq> [] \<Longrightarrow>
    paged w b (Some tok) k pages m \<Longrightarrow> paged w b token n (page # pages) m"

lemma list_pages_paged:
  assumes "list_pages w b token n rows = Some r"
  shows "case r of Inl _ \<Rightarrow> True | Inr (rows', m) \<Rightarrow> \<exists>pages. paged w b token n pages m \<and> rows' = foldl add_unseen rows (concat pages)"
proof -
  let ?P = "\<lambda>w b token (n :: nat) (rows :: mail_summary list) (r :: provider_error + mail_summary list \<times> nat).
    (case r of Inl _ \<Rightarrow> True | Inr (rows', m) \<Rightarrow> \<exists>pages. paged w b token n pages m \<and> rows' = foldl add_unseen rows (concat pages))"
  show ?thesis
  proof (rule list_pages.raw_induct [where P = ?P, OF _ assms])
    fix again and w b token n and rows :: "mail_summary list" and r :: "provider_error + mail_summary list \<times> nat"
    assume IH: "\<And>w b token n rows r. again w b token n rows = Some r \<Longrightarrow> ?P w b token n rows r"
    assume eq: "(case withRateLimitRetry RATE_LIMIT_DELAYS_MS (\<lambda>k. xw_list w k b token) n of
        (Inl e, _) \<Rightarrow> Some (Inl e)
      | (Inr page, n, _) \<Rightarrow>
          if snd page = None \<or> snd page = Some [] then Some (Inr (foldl add_unseen rows (fst page), n))
          else again w b (snd page) n (foldl add_unseen rows (fst page))) = Some r"
    obtain answer k ms where got: "withRateLimitRetry RATE_LIMIT_DELAYS_MS (\<lambda>k. xw_list w k b token) n = (answer, k, ms)" by (metis prod_cases3)
    show "?P w b token n rows r"
    proof (cases answer)
      case (Inl e)
      then show ?thesis using eq got by auto
    next
      case (Inr answered)
      obtain page tok where answered: "answered = (page, tok)" by (cases answered)
      show ?thesis
      proof (cases "tok = None \<or> tok = Some []")
        case True
        then have "paged w b token n [page] k" using got Inr answered by (auto intro: paged.final)
        moreover have "r = Inr (foldl add_unseen rows page, k)" using eq got Inr answered True by simp
        ultimately show ?thesis by (auto intro!: exI [of _ "[page]"])
      next
        case False
        then obtain t where t: "tok = Some t" "t \<noteq> []" by auto
        have again: "again w b tok k (foldl add_unseen rows page) = Some r" using eq got Inr answered False by auto
        show ?thesis
        proof (cases r)
          case (Inr result)
          obtain rows' m where "result = (rows', m)" by (cases result)
          moreover from this obtain pages where "paged w b tok k pages m" "rows' = foldl add_unseen (foldl add_unseen rows page) (concat pages)"
            using IH [OF again] Inr by auto
          moreover have "paged w b token n (page # pages) m"
            using got \<open>answer = Inr answered\<close> answered t \<open>paged w b tok k pages m\<close> by (auto intro: paged.onward)
          ultimately show ?thesis using Inr by (auto intro!: exI [of _ "page # pages"])
        qed simp
      qed
    qed
  qed
qed

lemma list_boxes_paged:
  assumes "list_boxes w EXPORT_BOXES 0 [] = Some (Inr rows)"
  obtains inbox sent archived i j k where "paged w InboxMail None 0 inbox i" "paged w (BoxMail SentBox) None i sent j" "paged w (BoxMail ArchiveBox) None j archived k"
    "rows = foldl add_unseen [] (concat (inbox @ sent @ archived))"
proof -
  obtain r1 i where one: "list_pages w InboxMail None 0 [] = Some (Inr (r1, i))"
    and "list_boxes w [BoxMail SentBox, BoxMail ArchiveBox] i r1 = Some (Inr rows)"
    using assms by (auto simp: EXPORT_BOXES_def split: option.splits sum.splits)
  then obtain r2 j where two: "list_pages w (BoxMail SentBox) None i r1 = Some (Inr (r2, j))"
    and "list_boxes w [BoxMail ArchiveBox] j r2 = Some (Inr rows)" by (auto split: option.splits sum.splits)
  then obtain k where three: "list_pages w (BoxMail ArchiveBox) None j r2 = Some (Inr (rows, k))" by (auto split: option.splits sum.splits)
  show ?thesis using list_pages_paged [OF one] list_pages_paged [OF two] list_pages_paged [OF three] that by auto
qed

lemma concat_in_batches: "concat (in_batches k xs) = xs"
  by (induction k xs rule: in_batches.induct) (simp_all del: take_Suc_Cons drop_Suc_Cons)

lemma auth_failures_append: "auth_failures (xs @ ys) = auth_failures xs @ auth_failures ys"
  by (simp add: auth_failures_def)

lemma fetch_batches_laws:
  "fetch_batches w bs (entries, skipped) = Inr (entries', skipped') \<Longrightarrow>
    entries' = entries @ concat (map (entry_of w) (concat bs)) \<and> skipped' = skipped + length (filter (\<lambda>row. isl (fetch_raw w row)) (concat bs)) \<and>
    auth_failures (map (fetch_raw w) (concat bs)) = []"
proof (induction bs arbitrary: entries skipped)
  case Nil
  then show ?case by (simp add: auth_failures_def)
next
  case (Cons b bs)
  have none: "auth_failures (map (fetch_raw w) b) = []" using Cons.prems by (auto split: list.splits)
  then have "fetch_batches w bs (entries @ concat (map (entry_of w) b), skipped + length (filter (\<lambda>row. isl (fetch_raw w row)) b)) =
    Inr (entries', skipped')" using Cons.prems by simp
  from Cons.IH [OF this] none show ?case by (simp add: auth_failures_append)
qed

lemma entries_and_skipped:
  "length (concat (map (entry_of w) rows)) + length (filter (\<lambda>row. isl (fetch_raw w row)) rows) = length rows"
  by (induction rows) (auto simp: entry_of_def split: sum.splits)

text \<open>C29 A finished export is about exactly the messages the provider listed in the inbox, the sent and the archived mail, to the last
  page, each once. Every one of them is in the file, in that order and as the provider gave it, or counted as skipped because
  the provider refused it, and never because the grant was gone.\<close>

theorem export_is_whole:
  assumes "exportMailbox w (Some address) = Some (Inr res)"
  shows "\<exists>inbox sent archived rows i j k.
    paged w InboxMail None 0 inbox i \<and> paged w (BoxMail SentBox) None i sent j \<and> paged w (BoxMail ArchiveBox) None j archived k \<and>
    distinct (map sm_id rows) \<and> set (map sm_id rows) = set (map sm_id (concat (inbox @ sent @ archived))) \<and>
    set rows \<subseteq> set (concat (inbox @ sent @ archived)) \<and>
    xr_written res + xr_skipped res = length rows \<and> xr_written res = length (concat (map (entry_of w) rows)) \<and>
    auth_failures (map (fetch_raw w) rows) = [] \<and>
    xr_file res = (if xr_written res = 0 then None else Some (mboxFilename address (xw_now w), toMbox (xw_now w) (concat (map (entry_of w) rows))))"
proof -
  obtain rows where rows: "list_boxes w EXPORT_BOXES 0 [] = Some (Inr rows)" using assms by (auto simp: exportMailbox_def split: option.splits sum.splits)
  obtain inbox sent archived i j k where pages: "paged w InboxMail None 0 inbox i" "paged w (BoxMail SentBox) None i sent j"
    "paged w (BoxMail ArchiveBox) None j archived k" "rows = foldl add_unseen [] (concat (inbox @ sent @ archived))"
    by (rule list_boxes_paged [OF rows])
  have ids: "distinct (map sm_id rows)" "set (map sm_id rows) = set (map sm_id (concat (inbox @ sent @ archived)))"
    "set rows \<subseteq> set (concat (inbox @ sent @ archived))"
    using add_unseen_laws [of "[]" "concat (inbox @ sent @ archived)"] unfolding pages(4) by simp_all
  have "xr_written res + xr_skipped res = length rows \<and> xr_written res = length (concat (map (entry_of w) rows)) \<and>
    auth_failures (map (fetch_raw w) rows) = [] \<and>
    xr_file res = (if xr_written res = 0 then None else Some (mboxFilename address (xw_now w), toMbox (xw_now w) (concat (map (entry_of w) rows))))"
  proof (cases "rows = []")
    case True
    then show ?thesis using assms rows by (auto simp: exportMailbox_def auth_failures_def)
  next
    case False
    then obtain entries skipped where f: "fetch_batches w (in_batches (EXPORT_CONCURRENCY - 1) rows) ([], 0) = Inr (entries, skipped)"
      and res: "res = \<lparr>xr_written = length entries, xr_skipped = skipped,
        xr_file = (if entries = [] then None else Some (mboxFilename address (xw_now w), toMbox (xw_now w) entries))\<rparr>"
      using assms rows by (auto simp: exportMailbox_def split: sum.splits)
    note laws = fetch_batches_laws [OF f, unfolded concat_in_batches append_Nil add_0]
    show ?thesis using laws entries_and_skipped [of w rows] unfolding res by simp
  qed
  then show ?thesis using pages ids by blast
qed

subsection \<open>The sweep to the trash\<close>

lemma trash_batches_laws:
  assumes "trash_batches w bs (gone, failed) = ((gone', failed'), e)"
  shows "case e of
      None \<Rightarrow> gone' = gone @ filter (\<lambda>i. \<not> isl (trash_one w i)) (concat bs) \<and> failed' = failed + length (filter (\<lambda>i. isl (trash_one w i)) (concat bs))
    | Some err \<Rightarrow> \<exists>before batch later. bs = before @ batch # later \<and> gone' = gone @ filter (\<lambda>i. \<not> isl (trash_one w i)) (concat before) \<and>
        (\<exists>rest. auth_failures (map (trash_one w) batch) = err # rest)"
  using assms
proof (induction bs arbitrary: gone failed)
  case (Cons b bs)
  show ?case
  proof (cases "auth_failures (map (trash_one w) b)")
    case Nil
    then have "trash_batches w bs (gone @ filter (\<lambda>i. \<not> isl (trash_one w i)) b, failed + length (filter (\<lambda>i. isl (trash_one w i)) b)) = ((gone', failed'), e)"
      using Cons.prems by simp
    note laws = Cons.IH [OF this]
    show ?thesis
    proof (cases e)
      case None
      then show ?thesis using laws by simp
    next
      case (Some err)
      then obtain before batch later rest where "bs = before @ batch # later" "gone' = gone @ filter (\<lambda>i. \<not> isl (trash_one w i)) (b @ concat before)"
        "auth_failures (map (trash_one w) batch) = err # rest" using laws by auto
      then show ?thesis using Some by (simp, intro exI [of _ "b # before"] exI [of _ batch] exI [of _ later], simp)
    qed
  next
    case (Cons err rest)
    then have "e = Some err" "gone' = gone" using \<open>trash_batches w (b # bs) (gone, failed) = ((gone', failed'), e)\<close> by simp_all
    then show ?thesis using Cons by (simp, intro exI [of _ "[]"] exI [of _ b] exI [of _ bs], simp)
  qed
qed simp

lemma batches_of:
  "in_batches k xs = before @ batch # later \<Longrightarrow>
    concat before = take (Suc k * length before) xs \<and> batch = take (Suc k) (drop (Suc k * length before) xs)"
proof (induction before arbitrary: xs)
  case Nil
  then show ?case by (cases xs) auto
next
  case (Cons b before)
  then obtain x ys where xs: "xs = x # ys" by (cases xs) auto
  have b: "b = take (Suc k) xs" and rest: "in_batches k (drop (Suc k) xs) = before @ batch # later" using Cons.prems unfolding xs by auto
  have "concat (b # before) = take (Suc k + Suc k * length before) xs" using Cons.IH [OF rest] unfolding b by (simp only: concat.simps take_add)
  then show ?case using Cons.IH [OF rest] by (simp add: add.commute del: mult_Suc)
qed

lemma drop_rows_keep: "mb_messages (drop_rows account ids s) = filter (\<lambda>row. \<not> (ii_account row = account \<and> sm_id row \<in> set ids)) (mb_messages s)"
  by (simp add: drop_rows_def Let_def)

text \<open>C30 A sweep that ends counts every message as moved or failed and takes exactly the moved ones off the list. One that a dead grant
  ends takes off those of the batches before; a message of the last batch that did reach the trash stays on the list.\<close>

theorem sweep_to_trash:
  assumes "distinct ids" and "trashEncrypted w True account ids s = (r, s')"
  shows "case r of
      Inr (moved, failed) \<Rightarrow> moved + failed = length ids \<and>
        mb_messages s' = filter (\<lambda>row. \<not> (ii_account row = account \<and> sm_id row \<in> set ids \<and> \<not> isl (trash_one w (sm_id row)))) (mb_messages s)
    | Inl _ \<Rightarrow> \<exists>k. auth_failures (map (trash_one w) (take EXPORT_CONCURRENCY (drop (EXPORT_CONCURRENCY * k) ids))) \<noteq> [] \<and>
        mb_messages s' = filter (\<lambda>row. \<not> (ii_account row = account \<and> sm_id row \<in> set (take (EXPORT_CONCURRENCY * k) ids) \<and> \<not> isl (trash_one w (sm_id row)))) (mb_messages s)"
proof -
  obtain gone failed e where run: "trash_batches w (in_batches (EXPORT_CONCURRENCY - 1) ids) ([], 0) = ((gone, failed), e)" by (metis prod.exhaust)
  have s': "s' = drop_rows account gone s" "r = (case e of Some e \<Rightarrow> Inl (Provider e) | None \<Rightarrow> Inr (length (remdups gone), failed))"
    using assms(2) run by (simp_all add: trashEncrypted_def)
  note laws = trash_batches_laws [OF run, unfolded concat_in_batches append_Nil add_0]
  show ?thesis
  proof (cases e)
    case None
    then have gone: "gone = filter (\<lambda>i. \<not> isl (trash_one w i)) ids" "failed = length (filter (\<lambda>i. isl (trash_one w i)) ids)" using laws by simp_all
    have same: "remdups gone = gone" using assms(1) unfolding gone(1) by (simp add: distinct_remdups_id)
    then have "length (remdups gone) + failed = length ids"
      using sum_length_filter_compl [of "\<lambda>i. \<not> isl (trash_one w i)" ids] unfolding same unfolding gone by simp
    then show ?thesis unfolding s' None by (simp add: drop_rows_keep gone(1))
  next
    case (Some err)
    then obtain before batch later rest where split: "in_batches (EXPORT_CONCURRENCY - 1) ids = before @ batch # later"
      and gone: "gone = filter (\<lambda>i. \<not> isl (trash_one w i)) (concat before)" and dead: "auth_failures (map (trash_one w) batch) = err # rest"
      using laws by auto
    have parts: "concat before = take (EXPORT_CONCURRENCY * length before) ids"
      "batch = take EXPORT_CONCURRENCY (drop (EXPORT_CONCURRENCY * length before) ids)"
      using batches_of [OF split] by (simp_all add: EXPORT_CONCURRENCY_def)
    have "\<exists>k. auth_failures (map (trash_one w) (take EXPORT_CONCURRENCY (drop (EXPORT_CONCURRENCY * k) ids))) \<noteq> [] \<and>
        mb_messages s' = filter (\<lambda>row. \<not> (ii_account row = account \<and> sm_id row \<in> set (take (EXPORT_CONCURRENCY * k) ids) \<and> \<not> isl (trash_one w (sm_id row)))) (mb_messages s)"
      using dead unfolding parts(2) s'(1) drop_rows_keep gone parts(1) by (intro exI [of _ "length before"]) simp
    then show ?thesis unfolding s'(2) Some by (simp only: option.case sum.case)
  qed
qed

subsection \<open>A mailbox of three messages\<close>

definition row_with :: "string \<Rightarrow> mail_summary" where
  "row_with i = \<lparr>sm_id = i, sm_threadId = None, sm_from_address = ''a@x.org'', sm_from_name = None, sm_to = [], sm_date = [], sm_subject = PLACEHOLDER_SUBJECT,
     sm_snippet = [], sm_unread = False, sm_starred = False, sm_messageId = None, sm_references = None, sm_autocrypt = None, sm_replyTo = None,
     sm_authenticationResults = None, sm_listUnsubscribe = None, sm_returnPath = None, sm_labels = None\<rparr>"

text \<open>Two pages in the inbox; the second message is listed again among the sent ones; the third is refused once for the quota and
  then gone; the grant is lost while the second is moved to the trash.\<close>

definition three_messages :: export_world where
  "three_messages =
     \<lparr>xw_list = (\<lambda>n b token. if b = InboxMail then (if token = None then Inr ([row_with ''1'', row_with ''2''], Some ''p'') else Inr ([row_with ''3''], None))
                 else if b = BoxMail SentBox then Inr ([row_with ''2''], None) else Inr ([], Some [])),
      xw_raw = (\<lambda>i n. if i = ''3'' then (if n = 0 then Inl (MailFailure 403 ''Quota exceeded'') else Inl (MailFailure 404 ''gone'')) else Inr ''Hi''),
      xw_trash = (\<lambda>i n. if i = ''2'' then Inl (AuthFailure ''sign in'') else Inr ()),
      xw_date = (\<lambda>_. None), xw_now = \<lparr>ut_year = 26, ut_month = 0, ut_day = 2, ut_weekday = 5, ut_hours = 3, ut_minutes = 4, ut_seconds = 5\<rparr>\<rparr>"

theorem rate_limit_waited_out_witness:
  "fst (withRateLimitRetry RATE_LIMIT_DELAYS_MS (\<lambda>n. if n = 0 then Inl (MailFailure 429 []) else Inr (7 :: nat)) 0) = Inr 7"
proof -
  let ?work = "\<lambda>n. if n = 0 then Inl (MailFailure 429 []) else Inr (7 :: nat)"
  obtain r k ms where run: "withRateLimitRetry RATE_LIMIT_DELAYS_MS ?work 0 = (r, k, ms)" by (metis prod_cases3)
  have r: "r = ?work (k - 1)" "\<forall>e. r = Inl e \<and> isRateLimited e \<longrightarrow> k = 6" using rate_limit_waited_out [OF run] by blast+
  have "k - 1 \<noteq> 0"
  proof
    assume zero: "k - 1 = 0"
    then have "r = Inl (MailFailure 429 [])" using r(1) by simp
    then have "k = 6" using r(2) by (simp add: isRateLimited_def)
    then show False using zero by simp
  qed
  then show ?thesis unfolding run using r(1) by simp
qed

lemma three_messages_descend: "pages_descend three_messages (\<lambda>b token. if token = None then 1 else 0)"
  by (simp add: pages_descend_def three_messages_def)

theorem export_ends_witness: "\<exists>r. exportMailbox three_messages (Some ''me@x.org'') = Some r"
  using export_ends [THEN conjunct1, THEN mp, OF three_messages_descend] by blast

lemma three_messages_lists:
  "list_pages three_messages InboxMail None n [] = Some (Inr ([row_with ''1'', row_with ''2'', row_with ''3''], Suc (Suc n)))"
  "list_pages three_messages (BoxMail SentBox) None n [row_with ''1'', row_with ''2'', row_with ''3''] = Some (Inr ([row_with ''1'', row_with ''2'', row_with ''3''], Suc n))"
  "list_pages three_messages (BoxMail ArchiveBox) None n [row_with ''1'', row_with ''2'', row_with ''3''] = Some (Inr ([row_with ''1'', row_with ''2'', row_with ''3''], Suc n))"
  by (subst list_pages.simps, simp add: three_messages_def RATE_LIMIT_DELAYS_MS_def add_unseen_def row_with_def;
      subst list_pages.simps, simp add: three_messages_def RATE_LIMIT_DELAYS_MS_def add_unseen_def row_with_def)+

lemma three_messages_run:
  "map_option (\<lambda>r. map_option (\<lambda>x. (xr_written x, xr_skipped x)) (case r of Inl _ \<Rightarrow> None | Inr x \<Rightarrow> Some x)) (exportMailbox three_messages (Some ''me@x.org'')) =
   Some (Some (2, 1))"
proof -
  have "includes_ci ''Quota exceeded'' ''quota''" by code_simp
  then have quota: "isRateLimited (MailFailure 403 ''Quota exceeded'')" "\<not> isRateLimited (MailFailure 404 ''gone'')" by (simp_all add: isRateLimited_def)
  have "list_boxes three_messages EXPORT_BOXES 0 [] = Some (Inr [row_with ''1'', row_with ''2'', row_with ''3''])"
    by (simp add: EXPORT_BOXES_def three_messages_lists)
  moreover have "fetch_batches three_messages (in_batches (EXPORT_CONCURRENCY - 1) [row_with ''1'', row_with ''2'', row_with ''3'']) ([], 0) =
    Inr (concat (map (entry_of three_messages) [row_with ''1'', row_with ''2'']), 1)"
    by (simp add: EXPORT_CONCURRENCY_def auth_failures_def fetch_raw_def entry_of_def three_messages_def row_with_def RATE_LIMIT_DELAYS_MS_def quota)
  moreover have "length (concat (map (entry_of three_messages) [row_with ''1'', row_with ''2''])) = 2"
    by (simp add: entry_of_def fetch_raw_def three_messages_def row_with_def RATE_LIMIT_DELAYS_MS_def)
  ultimately show ?thesis by (simp add: exportMailbox_def)
qed

theorem export_is_whole_witness:
  "\<exists>res. exportMailbox three_messages (Some ''me@x.org'') = Some (Inr res) \<and> xr_written res = 2 \<and> xr_file res \<noteq> None"
proof -
  obtain res where res: "exportMailbox three_messages (Some ''me@x.org'') = Some (Inr res)" "xr_written res = 2"
  proof -
    obtain z where z: "exportMailbox three_messages (Some ''me@x.org'') = Some z" using three_messages_run by auto
    then show ?thesis using three_messages_run that by (cases z) auto
  qed
  show ?thesis using export_is_whole [OF res(1)] res by auto
qed

text \<open>Of two messages swept together the first reaches the trash and stays on the list.\<close>

definition two_listed :: mailbox_state where
  "two_listed =
     \<lparr>mb_accounts = [], mb_active = None, mb_unified = False, mb_clients = [], mb_sessions = [], mb_current = None,
      mb_messages = tag [row_with ''1'', row_with ''2''] ''gmail:me@x.org'', mb_boxes = (\<lambda>_. emptyBox), mb_loading = False, mb_refreshing = False,
      mb_loadingMore = False, mb_canLoadMore = False, mb_error = None, mb_cursors = (\<lambda>_. None), mb_departed = (\<lambda>_. None), mb_reauth = [], mb_switch_to = None,
      mb_index = [], mb_labels = emptyLabelState, mb_rules = emptyRulesState, disk_labels = emptyLabelState, disk_rules = emptyRulesState,
      mb_asked = [], mb_told = [], mb_refetched = []\<rparr>"

theorem sweep_to_trash_witness:
  "trash_one three_messages ''1'' = Inr () \<and>
   map sm_id (mb_messages (snd (trashEncrypted three_messages True ''gmail:me@x.org'' [''1'', ''2''] two_listed))) = [''1'', ''2'']"
proof -
  have trashed: "trash_one three_messages ''1'' = Inr ()" "trash_one three_messages ''2'' = Inl (AuthFailure ''sign in'')"
    by (simp_all add: trash_one_def three_messages_def RATE_LIMIT_DELAYS_MS_def isRateLimited_def)
  obtain r s' where run: "trashEncrypted three_messages True ''gmail:me@x.org'' [''1'', ''2''] two_listed = (r, s')" by fastforce
  have "isl r" using run trashed by (auto simp: trashEncrypted_def EXPORT_CONCURRENCY_def auth_failures_def)
  then obtain k where k: "auth_failures (map (trash_one three_messages) (take EXPORT_CONCURRENCY (drop (EXPORT_CONCURRENCY * k) [''1'', ''2'']))) \<noteq> []"
    "mb_messages s' = filter (\<lambda>row. \<not> (ii_account row = ''gmail:me@x.org'' \<and> sm_id row \<in> set (take (EXPORT_CONCURRENCY * k) [''1'', ''2'']) \<and>
       \<not> isl (trash_one three_messages (sm_id row)))) (mb_messages two_listed)"
    using sweep_to_trash [OF _ run] by (auto simp: isl_def)
  have "k = 0" using k(1) by (cases k) (simp_all add: EXPORT_CONCURRENCY_def auth_failures_def)
  then show ?thesis using k(2) trashed(1) unfolding run by (simp add: two_listed_def tag_def row_with_def mail_summary.extend_def)
qed

end
