(* ===== verification/Spec2Isabelle.thy ===== *)
theory Spec2Isabelle
  imports Send_Safety Scheduler_Laws Scheduler_Races Threads Links Base32 App_Lock Mailbox_Actions Style_Gate Sanitize Imap_Laws Mbox Smtp_Laws Notify_Service Accounts_Store Launch Mail_Files_Laws Front_Changes Export_Laws
begin

text \<open>
  CryptMail, a mail client with OpenPGP encryption (\<^verbatim>\<open>src/app/src\<close>, TypeScript). This library models the program's own
  logic: keys and trust, resolving recipients, sealing and sending, the outbox and its scheduler, the mailbox lists, the
  rules and labels, and the pure modules they use.

  Representation. A string is a list of characters, one per code unit below 256; the codecs use words of 8, 16 and 32
  bits, so shifts and wrap-around are those of JavaScript. An object used as a dictionary is an association list in
  insertion order (\<open>obj_get\<close>, \<open>obj_set\<close>, \<open>obj_del\<close>), an optional property an option, an exception the left side of a
  sum. \<open>localeCompare\<close> is a parameter \<open>lc\<close> that is a comparator; sorting is stable. What the program calls outside this
  repository is a parameter: the crypto core, the key directory, the mail provider, storage, clock, random bytes, the
  hashes.

  Parts, in the order they build on each other:

  \<^item> \<open>Js_Prelude\<close>, \<open>Js_Text\<close>: strings, dictionaries, sorting, splitting. \<open>Id_Store\<close>: the contract of a store keyed by an
    item's own id, a locale interpreted on the outbox, the drafts, the snoozed messages and the rows of a mailbox.
  \<^item> \<open>Mail_Types\<close> (\<^verbatim>\<open>core/types.ts\<close>, \<^verbatim>\<open>mail/types.ts\<close>, \<^verbatim>\<open>mail/attachment.ts\<close>, \<^verbatim>\<open>mail/flags.ts\<close>): the data.
  \<^item> \<open>Keyring\<close> (\<^verbatim>\<open>store/keyring.ts\<close>): trust on first use and key changes; no key change is silent, no key that arrived is
    lost, and only the user verifies.
  \<^item> \<open>Base64\<close>, \<open>Transfer_Encoding\<close>, \<open>Mime\<close>, \<open>Qkd\<close>, \<open>Base32\<close>: codecs and messages, with their round trips and the
    specification both base-32 encoders meet.
  \<^item> \<open>Recipients\<close>, \<open>Contacts_Service\<close>, \<open>Safety_Number\<close>: who can be encrypted to, where keys come from, how two people
    compare them.
  \<^item> \<open>Outbox\<close>, \<open>Snooze\<close>, \<open>App_State\<close>, \<open>Send\<close>, \<open>Send_Safety\<close>: what is held, and the send path. Below
    Level 2 a delivery puts on the wire only what is sealed to exactly the recipients and the sender, a changed key of
    another address stops it, a missing key holds it. At Level 2, which the user chooses, the message goes out sealed to
    those keys or, when one is missing or changed, under the quantum key alone, with no public key.
  \<^item> \<open>Scheduler\<close>, \<open>Scheduler_Laws\<close>: the outbox scheduler and the snooze service as actions on the state,
    with both ends of a lost grant: the app signed out, or another mailbox brought to the front while the tick goes on. A
    tick loses no message as long as the front stays; what it does when the front changes under it, and when the drafts
    cannot be written, is proved separately. \<open>Scheduler_Races\<close>: the interleavings of ticks, retries and outbox writes as
    step relations, with the guard that holds in every reachable state and the two behaviours it does not exclude.
  \<^item> \<open>Labels\<close>, \<open>Search\<close>, \<open>Rules\<close>, \<open>Threads\<close>, \<open>Links\<close>, \<open>App_Lock\<close>, \<open>Account_Scope\<close>, \<open>Provider_Labels\<close>: pure modules.
  \<^item> \<open>Mailbox_State\<close>, \<open>Mailbox_Lists\<close>, \<open>Mailbox_Actions\<close> (\<^verbatim>\<open>state/mailbox.ts\<close>, \<^verbatim>\<open>state/rules.ts\<close>, \<^verbatim>\<open>state/labels.ts\<close>): the
    lists on screen, paging and merging them across accounts, flag changes, the rules and labels services.
  \<^item> \<open>Css_Text\<close>, \<open>Css_Colors\<close>, \<open>Css_Values\<close>, \<open>Css_Properties\<close>, \<open>Css_Laws\<close>, \<open>Style_Gate\<close>, \<open>Sanitize\<close> (\<^verbatim>\<open>html/\<close>): what of the
    style of an HTML message reaches the reader. Whatever a style attribute says, what comes out is a list of declarations
    of the table with harmless values; numbers are exact rationals, NaN and infinity written out.
  \<^item> \<open>Byte_Queue\<close>, \<open>Imap_Wire\<close>, \<open>Imap_Laws\<close> (\<^verbatim>\<open>mail/socket.ts\<close>, \<^verbatim>\<open>mail/imapWire.ts\<close>): the receive buffer, whose contract is a
    locale, and IMAP framing, which refines the frames of the whole stream however it was cut into chunks.
  \<^item> \<open>Mail_Headers\<close>, \<open>Smtp\<close>, \<open>Smtp_Laws\<close> (\<^verbatim>\<open>mail/headers.ts\<close>, \<^verbatim>\<open>mail/smtp.ts\<close>): submission against any server, a strategy
    that answers from everything that happened; no secret is said outside TLS, and success means the server accepted.
  \<^item> \<open>Mbox\<close> (\<^verbatim>\<open>mail/mbox.ts\<close>): the exported mailbox, which a reader of the format gets back.
  \<^item> \<open>Utf16_Text\<close>, \<open>Json\<close>, \<open>Notify_Policy\<close>, \<open>Notify_Ledger\<close>, \<open>Notify_Service\<close> (\<^verbatim>\<open>notifications/\<close>, \<^verbatim>\<open>store/notifyStore.ts\<close>,
    \<^verbatim>\<open>state/notify.ts\<close>): what a notification may say, what is news, and the service as a transition relation, in every
    history of which the shade agrees with the ledger, as long as no mark fails, the ledgers that are needed can be read, and
    the process ends only with the ledgers of the notifications shown on disk.

  \<^item> \<open>Secure_Store\<close>, \<open>Secure_Store_Laws\<close>, \<open>Launch\<close>, \<open>Accounts_Store\<close>, \<open>Mail_Files\<close>, \<open>Mail_Files_Laws\<close> (\<^verbatim>\<open>store/\<close>): what is kept on
    the device and how it is sealed, for any cipher and any JSON codec with the laws of \<open>platform_laws\<close>: stored values read
    back, a launch leaves nothing in the clear, removing an account removes exactly its stores, the cache of ciphertext
    keeps its bound, the archive survives a transfer.

  \<^item> \<open>Account_Service\<close>, \<open>Account_Service_Laws\<close>, \<open>Front_Changes\<close> (\<^verbatim>\<open>state/accounts.ts\<close>, \<^verbatim>\<open>state/session.ts\<close>): the mailbox in
    front and its data, through every call of the two services, the calls taken one at a time, each to its end (in the source they can
    interleave at their \<open>await\<close>s); what a failed load and a removal do, where the front goes
    when a grant is lost. \<open>Mailbox_Export\<close>, \<open>Export_Laws\<close> (with \<^verbatim>\<open>mail/rateLimit.ts\<close>): a whole mailbox out of the provider.

  Asynchronous code. A service function is one action on the state, run to its end before the next one starts, with every
  answer of the outside an argument. That is exact for the functions that patch the store before their first \<open>await\<close>;
  for the others it is an assumption, which the texts of the properties repeat. Where the source leaves gaps that matter
  most they are modelled as steps: the outbox in \<open>Scheduler_Races\<close>, the switch of mailbox under a running tick in
  \<open>Scheduler\<close>. The gaps inside \<open>register\<close>, \<open>switchAccount\<close> and \<open>attach\<close> are not. A rule is remembered on a message until
  the record is pruned, so \<open>Rules\<close> states that it fires once while the message stays remembered. Loops are structural
  recursions or have a measure; paging, which a provider can make endless, is a partial function; no definition needs fuel.

  Not modelled: rendering (screens, themes, gestures), the network connectors and sign-in and the native core, which are
  input and output; the Rust core, which is another language; the spam filter and the categorizer, whose scores are sums
  of floating-point logarithms; opening a message, most of which is the native core.
\<close>

end
